(* ===== verification/Gm_Prelude.thy ===== *)
theory Gm_Prelude
  imports Main "HOL-Library.Word"
begin

unbundle bit_operations_syntax

text \<open>
  Shared vocabulary of the development: the machine types of the Rust sources, the
  result monad that models \<open>Result<T, E>\<close> and the \<open>?\<close> operator, the message
  formatting the error values use, and the big-endian byte conversions of the Rust
  standard library (\<open>to_be_bytes\<close>, \<open>from_be_bytes\<close>) with their round trips.
\<close>

named_theorems res_simps \<open>rewriting of results and of the question-mark operator\<close>
named_theorems be_simps \<open>rewriting of big-endian conversions\<close>

section \<open>Machine types\<close>

type_synonym u8 = "8 word"
type_synonym u16 = "16 word"
type_synonym u32 = "32 word"
type_synonym u64 = "64 word"
type_synonym u128 = "128 word"
type_synonym bytes = "u8 list"

section \<open>Results\<close>

text \<open>\<open>Result<T, E>\<close> is a sum with the error on the left; \<open>m?\<close> is \<open>bind_res\<close>.\<close>

type_synonym ('e, 'a) res = "'e + 'a"

definition bind_res :: "('e, 'a) res \<Rightarrow> ('a \<Rightarrow> ('e, 'b) res) \<Rightarrow> ('e, 'b) res" where
  "bind_res m f = (case m of Inl e \<Rightarrow> Inl e | Inr x \<Rightarrow> f x)"

lemma bind_res_Inl [simp, res_simps]: "bind_res (Inl e) f = Inl e"
  by (simp add: bind_res_def)

lemma bind_res_Inr [simp, res_simps]: "bind_res (Inr x) f = f x"
  by (simp add: bind_res_def)

lemma bind_res_eq_Inr [res_simps]: "bind_res m f = Inr y \<longleftrightarrow> (\<exists>x. m = Inr x \<and> f x = Inr y)"
  by (cases m) auto

lemma bind_res_eq_Inl [res_simps]:
  "bind_res m f = Inl e \<longleftrightarrow> m = Inl e \<or> (\<exists>x. m = Inr x \<and> f x = Inl e)"
  by (cases m) auto

lemma bind_res_assoc [simp]: "bind_res (bind_res m f) g = bind_res m (\<lambda>x. bind_res (f x) g)"
  by (cases m) auto

lemma bind_res_cong [fundef_cong]:
  "m = m' \<Longrightarrow> (\<And>x. m' = Inr x \<Longrightarrow> f x = f' x) \<Longrightarrow> bind_res m f = bind_res m' f'"
  by (cases m') auto

definition ok_or :: "'a option \<Rightarrow> 'e \<Rightarrow> ('e, 'a) res" where
  "ok_or x e = (case x of None \<Rightarrow> Inl e | Some y \<Rightarrow> Inr y)"

lemma ok_or_simps [simp, res_simps]: "ok_or None e = Inl e" "ok_or (Some y) e = Inr y"
  by (simp_all add: ok_or_def)

text \<open>\<open>map_err\<close>.\<close>

definition map_err :: "('e \<Rightarrow> 'f) \<Rightarrow> ('e, 'a) res \<Rightarrow> ('f, 'a) res" where
  "map_err g m = (case m of Inl e \<Rightarrow> Inl (g e) | Inr x \<Rightarrow> Inr x)"

lemma map_err_simps [simp, res_simps]: "map_err g (Inl e) = Inl (g e)" "map_err g (Inr x) = Inr x"
  by (simp_all add: map_err_def)

definition is_ok :: "('e, 'a) res \<Rightarrow> bool" where
  "is_ok m = (case m of Inl _ \<Rightarrow> False | Inr _ \<Rightarrow> True)"

lemma is_ok_simps [simp, res_simps]: "is_ok (Inl e) = False" "is_ok (Inr x) = True"
  by (simp_all add: is_ok_def)

lemma is_ok_iff: "is_ok m \<longleftrightarrow> (\<exists>x. m = Inr x)"
  by (cases m) auto

section \<open>Formatting of error messages\<close>

text \<open>\<open>{}\<close> on an unsigned integer and \<open>{:02X}\<close> on a byte.\<close>

definition digit_char :: "nat \<Rightarrow> char" where
  "digit_char d = ''0123456789ABCDEF'' ! d"

fun show_nat :: "nat \<Rightarrow> string" where
  "show_nat n = (if n < 10 then [digit_char n] else show_nat (n div 10) @ [digit_char (n mod 10)])"

declare show_nat.simps [simp del]

definition show_hex2 :: "u8 \<Rightarrow> string" where
  "show_hex2 b = [digit_char (unat b div 16), digit_char (unat b mod 16)]"

section \<open>Big-endian conversions\<close>

text \<open>\<open>nat_to_be k n\<close> is the \<open>k\<close>-byte big-endian form of \<open>n\<close> (the higher bytes cut
  off), \<open>nat_of_be\<close> reads bytes most significant first.\<close>

fun nat_to_be :: "nat \<Rightarrow> nat \<Rightarrow> bytes" where
  "nat_to_be 0 n = []"
| "nat_to_be (Suc k) n = nat_to_be k (n div 256) @ [word_of_nat n]"

definition nat_of_be :: "bytes \<Rightarrow> nat" where
  "nat_of_be bs = foldl (\<lambda>acc b. acc * 256 + unat b) 0 bs"

lemma unat_bound: "unat (w :: 'a::len word) < 2 ^ LENGTH('a)"
  by (rule unsigned_less)

lemma unat_byte_less [simp]: "unat (b::u8) < 256"
  using unat_bound [of b] by simp

lemma unat_word_of_nat_byte [simp]: "unat (word_of_nat n :: u8) = n mod 256"
  by (simp add: unat_of_nat)

lemma length_nat_to_be [simp, be_simps]: "length (nat_to_be k n) = k"
  by (induction k arbitrary: n) auto

lemma nat_to_be_numeral [be_simps]:
  "nat_to_be (numeral k) n = nat_to_be (pred_numeral k) (n div 256) @ [word_of_nat n]"
  by (metis nat_to_be.simps(2) numeral_eq_Suc)

lemma nat_to_be_eq_Nil [simp]: "nat_to_be k n = [] \<longleftrightarrow> k = 0"
  by (cases k) auto

lemma nat_of_be_Nil [simp, be_simps]: "nat_of_be [] = 0"
  by (simp add: nat_of_be_def)

lemma nat_of_be_snoc [simp, be_simps]: "nat_of_be (bs @ [b]) = nat_of_be bs * 256 + unat b"
  by (simp add: nat_of_be_def)

lemma nat_of_be_append: "nat_of_be (as @ bs) = nat_of_be as * 256 ^ length bs + nat_of_be bs"
proof (induction bs rule: rev_induct)
  case (snoc b bs)
  then show ?case
    by (simp add: append_assoc [symmetric] algebra_simps del: append_assoc)
qed simp

lemma nat_of_be_Cons: "nat_of_be (b # bs) = unat b * 256 ^ length bs + nat_of_be bs"
  using nat_of_be_append [of "[b]" bs] nat_of_be_snoc [of "[]" b] by simp

lemma nat_of_be_bound: "nat_of_be bs < 256 ^ length bs"
proof (induction bs rule: rev_induct)
  case (snoc b bs)
  then have "Suc (nat_of_be bs) * 256 \<le> 256 ^ length bs * 256"
    by (simp only: mult_le_mono1 Suc_leI)
  moreover have "nat_of_be bs * 256 + unat b < Suc (nat_of_be bs) * 256"
    using unat_byte_less [of b] by simp
  ultimately have "nat_of_be bs * 256 + unat b < 256 ^ length bs * 256"
    by (rule less_le_trans [rotated])
  then show ?case by (simp add: mult.commute)
qed simp

lemma nat_of_be_to_be [be_simps]: "nat_of_be (nat_to_be k n) = n mod 256 ^ k"
proof (induction k arbitrary: n)
  case (Suc k)
  have "n div 256 mod 256 ^ k * 256 + n mod 256 = n mod (256 * 256 ^ k)"
    by (simp add: mod_mult2_eq mult.commute)
  then show ?case by (simp add: Suc)
qed simp

lemma nat_to_be_of_be: "nat_to_be (length bs) (nat_of_be bs) = bs"
proof (induction bs rule: rev_induct)
  case (snoc b bs)
  have "(nat_of_be bs * 256 + unat b) div 256 = nat_of_be bs"
    using unat_byte_less [of b] by simp
  moreover have "(word_of_nat (nat_of_be bs * 256 + unat b) :: u8) = b"
    by (rule word_unat_eq_iff [THEN iffD2])
      (simp only: unat_word_of_nat_byte mod_mult_self3 mod_less unat_byte_less)
  ultimately show ?case by (simp add: snoc)
qed simp

lemma nat_of_be_inj: "length as = length bs \<Longrightarrow> nat_of_be as = nat_of_be bs \<Longrightarrow> as = bs"
  by (metis nat_to_be_of_be)

lemma nat_to_be_inj:
  "m < 256 ^ k \<Longrightarrow> n < 256 ^ k \<Longrightarrow> nat_to_be k m = nat_to_be k n \<longleftrightarrow> m = n"
  by (metis mod_less nat_of_be_to_be)

text \<open>The conversions of the fixed-width unsigned integers.\<close>

definition u16_to_be :: "u16 \<Rightarrow> bytes" where
  "u16_to_be w = nat_to_be 2 (unat w)"

definition u16_from_be :: "bytes \<Rightarrow> u16" where
  "u16_from_be bs = word_of_nat (nat_of_be bs)"

definition u32_to_be :: "u32 \<Rightarrow> bytes" where
  "u32_to_be w = nat_to_be 4 (unat w)"

definition u32_from_be :: "bytes \<Rightarrow> u32" where
  "u32_from_be bs = word_of_nat (nat_of_be bs)"

definition u64_to_be :: "u64 \<Rightarrow> bytes" where
  "u64_to_be w = nat_to_be 8 (unat w)"

definition u64_from_be :: "bytes \<Rightarrow> u64" where
  "u64_from_be bs = word_of_nat (nat_of_be bs)"

lemma length_to_be [simp, be_simps]:
  "length (u16_to_be a) = 2" "length (u32_to_be b) = 4" "length (u64_to_be c) = 8"
  by (simp_all add: u16_to_be_def u32_to_be_def u64_to_be_def)

lemma u16_from_to_be [simp, be_simps]: "u16_from_be (u16_to_be w) = w"
  using unat_bound [of w] by (simp add: u16_from_be_def u16_to_be_def nat_of_be_to_be)

lemma u32_from_to_be [simp, be_simps]: "u32_from_be (u32_to_be w) = w"
  using unat_bound [of w] by (simp add: u32_from_be_def u32_to_be_def nat_of_be_to_be)

lemma u64_from_to_be [simp, be_simps]: "u64_from_be (u64_to_be w) = w"
  using unat_bound [of w] by (simp add: u64_from_be_def u64_to_be_def nat_of_be_to_be)

lemma u16_to_from_be: "length bs = 2 \<Longrightarrow> u16_to_be (u16_from_be bs) = bs"
  using nat_of_be_bound [of bs] nat_to_be_of_be [of bs]
  by (simp add: u16_from_be_def u16_to_be_def unat_of_nat)

lemma u64_to_from_be: "length bs = 8 \<Longrightarrow> u64_to_be (u64_from_be bs) = bs"
  using nat_of_be_bound [of bs] nat_to_be_of_be [of bs]
  by (simp add: u64_from_be_def u64_to_be_def unat_of_nat)

lemma u64_to_be_inj [simp]: "u64_to_be a = u64_to_be b \<longleftrightarrow> a = b"
  by (metis u64_from_to_be)

lemma unat_u16_from_be: "length bs = 2 \<Longrightarrow> unat (u16_from_be bs) = nat_of_be bs"
  using nat_of_be_bound [of bs] by (simp add: u16_from_be_def unat_of_nat)

lemma push_or_byte: "push_bit 8 n OR unat (b::u8) = n * 256 + unat b"
proof -
  have "push_bit 8 n + unat b = push_bit 8 n OR unat b"
  proof (rule disjunctive_add)
    fix k
    show "\<not> bit (push_bit 8 n) k \<or> \<not> bit (unat b) k"
    proof (cases "k < 8")
      case True
      then show ?thesis by (simp add: bit_push_bit_iff)
    next
      case False
      then have "\<not> bit b k" using bit_imp_le_length [of b k] by auto
      then show ?thesis by (simp add: bit_unsigned_iff)
    qed
  qed
  moreover have "push_bit 8 n = n * 256" by (simp add: push_bit_eq_mult)
  ultimately show ?thesis by simp
qed

section \<open>Prefix codecs\<close>

text \<open>
  The contract of a wire format: what the encoder writes is read back by the decoder, and the
  bytes behind it are left over. Every encoder and parser pair of the sources is an instance.
\<close>

locale prefix_codec =
  fixes enc :: "'a \<Rightarrow> bytes"
    and dec :: "bytes \<Rightarrow> ('e, bytes \<times> 'a) res"
    and ok :: "'a \<Rightarrow> bool"
  assumes dec_enc: "ok x \<Longrightarrow> dec (enc x @ rest) = Inr (rest, x)"
begin

lemma dec_enc_all: "ok x \<Longrightarrow> dec (enc x) = Inr ([], x)"
  using dec_enc [of x "[]"] by simp

lemma prefix_free: "ok x \<Longrightarrow> ok y \<Longrightarrow> enc x @ r = enc y @ s \<Longrightarrow> x = y \<and> r = s"
  by (metis dec_enc prod.inject sum.inject(2))

lemma enc_inj: "ok x \<Longrightarrow> ok y \<Longrightarrow> enc x = enc y \<Longrightarrow> x = y"
  using prefix_free [of x y "[]" "[]"] by simp

text \<open>A sequence of encoded items is read back item by item.\<close>

lemma dec_concat:
  "ok x \<Longrightarrow> list_all ok xs \<Longrightarrow>
     dec (concat (map enc (x # xs)) @ rest) = Inr (concat (map enc xs) @ rest, x)"
  using dec_enc [of x "concat (map enc xs) @ rest"] by simp

lemma concat_inj:
  "list_all ok xs \<Longrightarrow> list_all ok ys \<Longrightarrow> length xs = length ys \<Longrightarrow>
     concat (map enc xs) = concat (map enc ys) \<Longrightarrow> xs = ys"
proof (induction xs arbitrary: ys)
  case (Cons x xs)
  then obtain y ys' where ys: "ys = y # ys'" by (cases ys) auto
  have "enc x @ concat (map enc xs) = enc y @ concat (map enc ys')"
    using Cons.prems(4) ys by (simp only: list.map concat.simps)
  then have xy: "x = y" and tl: "concat (map enc xs) = concat (map enc ys')"
    using prefix_free [of x y] Cons.prems(1,2) ys by (simp_all only: list.pred_inject)
  have "xs = ys'"
    by (rule Cons.IH [OF _ _ _ tl]) (use Cons.prems(1-3) ys in simp_all)
  with xy ys show ?case by simp
qed simp

end

section \<open>Lists\<close>

lemma map2_xor_involution: "length key = length data \<Longrightarrow> map2 (XOR) (map2 (XOR) data key) key = (data :: bytes)"
  by (intro nth_equalityI) (auto simp: xor.assoc)

lemma split_at_len [simp]: "take (length xs) (xs @ ys) = xs" "drop (length xs) (xs @ ys) = ys"
  by simp_all

lemma map_nth_upt_length: "map ((!) xs) [0..<length xs] = xs"
  by (rule map_nth)

end
