(* ===== verification/Gm_Rng.thy ===== *)
theory Gm_Rng
  imports Gm_Prelude
begin

text \<open>
  Computations that draw from a random generator. The generator (crate \<open>rand\<close>) is a parameter
  \<open>fill\<close>: from a generator state and a buffer length it gives the bytes of \<open>fill_bytes\<close> and the next
  state. A computation takes the state and returns its \<open>Result\<close> with the next state; \<open>None\<close> stands
  for a computation that panics or does not end.
\<close>

type_synonym 'r rng = "'r \<Rightarrow> nat \<Rightarrow> bytes \<times> 'r"
type_synonym ('r, 'e, 'a) io = "'r \<Rightarrow> (('e, 'a) res \<times> 'r) option"

definition io_return :: "'a \<Rightarrow> ('r, 'e, 'a) io" where
  "io_return x = (\<lambda>r. Some (Inr x, r))"

definition io_fail :: "'e \<Rightarrow> ('r, 'e, 'a) io" where
  "io_fail e = (\<lambda>r. Some (Inl e, r))"

definition io_lift :: "('e, 'a) res option \<Rightarrow> ('r, 'e, 'a) io" where
  "io_lift m = (\<lambda>r. map_option (\<lambda>x. (x, r)) m)"

definition io_bind :: "('r, 'e, 'a) io \<Rightarrow> ('a \<Rightarrow> ('r, 'e, 'b) io) \<Rightarrow> ('r, 'e, 'b) io" where
  "io_bind m f = (\<lambda>r. case m r of None \<Rightarrow> None | Some (Inl e, r') \<Rightarrow> Some (Inl e, r') | Some (Inr x, r') \<Rightarrow> f x r')"

definition io_map_err :: "('e \<Rightarrow> 'f) \<Rightarrow> ('r, 'e, 'a) io \<Rightarrow> ('r, 'f, 'a) io" where
  "io_map_err f m = (\<lambda>r. map_option (\<lambda>(x, r'). (map_err f x, r')) (m r))"

named_theorems io_simps \<open>rewriting of randomised computations\<close>

lemma io_return_apply [simp, io_simps]: "io_return x r = Some (Inr x, r)"
  by (simp add: io_return_def)

lemma io_fail_apply [simp, io_simps]: "io_fail e r = Some (Inl e, r)"
  by (simp add: io_fail_def)

lemma io_lift_apply [simp, io_simps]: "io_lift (Some x) r = Some (x, r)" "io_lift None r = None"
  by (simp_all add: io_lift_def)

lemma io_map_err_simps [simp, io_simps]:
  "m r = None \<Longrightarrow> io_map_err f m r = None"
  "m r = Some (Inl e, r') \<Longrightarrow> io_map_err f m r = Some (Inl (f e), r')"
  "m r = Some (Inr x, r') \<Longrightarrow> io_map_err f m r = Some (Inr x, r')"
  by (simp_all add: io_map_err_def)

lemma io_bind_simps [simp, io_simps]:
  "m r = None \<Longrightarrow> io_bind m f r = None"
  "m r = Some (Inl e, r') \<Longrightarrow> io_bind m f r = Some (Inl e, r')"
  "m r = Some (Inr x, r') \<Longrightarrow> io_bind m f r = f x r'"
  by (simp_all add: io_bind_def)

lemma io_bind_Ok:
  "io_bind m f r = Some (Inr y, r'') \<longleftrightarrow> (\<exists>x r'. m r = Some (Inr x, r') \<and> f x r' = Some (Inr y, r''))"
  by (auto simp: io_bind_def split: option.splits sum.splits)

text \<open>\<open>for _ in 0..n\<close> with an early return: the body returns \<open>Some\<close> to leave the loop and \<open>None\<close> to go on.\<close>

fun io_retry :: "nat \<Rightarrow> ('r, 'e, 'a option) io \<Rightarrow> ('r, 'e, 'a) io \<Rightarrow> ('r, 'e, 'a) io" where
  "io_retry 0 body after = after"
| "io_retry (Suc n) body after =
     io_bind body (\<lambda>x. case x of Some y \<Rightarrow> io_return y | None \<Rightarrow> io_retry n body after)"

text \<open>What leaves the loop was returned by its body or by the code after it.\<close>

lemma io_retry_Ok:
  assumes "io_retry n body after r = Some (Inr y, r')"
  shows "(\<exists>s s'. body s = Some (Inr (Some y), s')) \<or> (\<exists>s. after s = Some (Inr y, r'))"
  using assms
proof (induction n arbitrary: r)
  case (Suc n)
  then obtain x s where x: "body r = Some (Inr x, s)" "(case x of Some y \<Rightarrow> io_return y | None \<Rightarrow> io_retry n body after) s = Some (Inr y, r')"
    by (auto simp: io_bind_Ok)
  then show ?case using Suc.IH by (cases x) auto
qed auto

lemma io_retry_first: "body r = Some (Inr (Some y), r') \<Longrightarrow> io_retry (Suc n) body after r = Some (Inr y, r')"
  by simp

text \<open>Little-endian reading of a 64-bit integer.\<close>

definition u64_from_le :: "bytes \<Rightarrow> u64" where
  "u64_from_le bs = word_of_nat (nat_of_be (rev bs))"

definition u64_to_le :: "u64 \<Rightarrow> bytes" where
  "u64_to_le w = rev (u64_to_be w)"

lemma u64_from_to_le [simp]: "u64_from_le (u64_to_le w) = w"
  using u64_from_to_be [of w] by (simp add: u64_from_le_def u64_to_le_def u64_from_be_def)

lemma length_u64_to_le [simp]: "length (u64_to_le w) = 8"
  by (simp add: u64_to_le_def)

end
