(* ===== verification/Gm_Der.thy ===== *)
theory Gm_Der
  imports Gm_Prelude
begin

text \<open>
  The crate \<open>gm-der\<close>: DER tag-length-value encoding (\<open>encode.rs\<close>) and parsing
  (\<open>decode.rs\<close>). A slice is a list of bytes, \<open>usize\<close> a \<^typ>\<open>nat\<close>, a cast
  \<open>as u8\<close> is \<^const>\<open>word_of_nat\<close>. The parsers return the remaining bytes first, as the
  Rust functions do. Shown: what every encoder writes is read back by its parser, with any
  bytes behind it left over; the parsers split their input exactly and never read past it;
  the length field is a prefix code on the lengths below $2^{32}$, and only there.
\<close>

section \<open>Errors (error.rs)\<close>

datatype DerError = ParseError string | EncodeError string

section \<open>Encoding (encode.rs)\<close>

definition der_len :: "nat \<Rightarrow> bytes" where
  "der_len len =
     (if len < 0x80 then [word_of_nat len]
      else if len < 0x100 then [0x81, word_of_nat len]
      else if len < 0x10000 then [0x82, word_of_nat (drop_bit 8 len), word_of_nat len]
      else if len < 0x1000000 then
        [0x83, word_of_nat (drop_bit 16 len), word_of_nat (drop_bit 8 len), word_of_nat len]
      else
        [0x84, word_of_nat (drop_bit 24 len), word_of_nat (drop_bit 16 len),
         word_of_nat (drop_bit 8 len), word_of_nat len])"

definition encode_oid :: "bytes \<Rightarrow> bytes" where
  "encode_oid oid = [0x06] @ der_len (length oid) @ oid"

definition der_integer_positive :: "bytes \<Rightarrow> bytes" where
  "der_integer_positive bs =
     (let content = (if bs \<noteq> [] \<and> hd bs \<ge> 0x80 then 0x00 # bs else bs)
      in [0x02] @ der_len (length content) @ content)"

definition der_utf8_string :: "bytes \<Rightarrow> bytes" where
  "der_utf8_string s = [0x0C] @ der_len (length s) @ s"

definition der_sequence :: "bytes \<Rightarrow> bytes" where
  "der_sequence contents = [0x30] @ der_len (length contents) @ contents"

definition der_sequence_v :: "bytes list \<Rightarrow> bytes" where
  "der_sequence_v items =
     (let content_len = sum_list (map length items)
      in [0x30] @ der_len content_len @ concat items)"

definition der_bit_string :: "bytes \<Rightarrow> bytes" where
  "der_bit_string bits = [0x03] @ der_len (length bits + 1) @ [0x00] @ bits"

definition der_octet_string :: "bytes \<Rightarrow> bytes" where
  "der_octet_string data = [0x04] @ der_len (length data) @ data"

definition der_bool :: "bool \<Rightarrow> bytes" where
  "der_bool b = [0x01, 0x01, if b then 0xFF else 0x00]"

definition der_set :: "bytes list \<Rightarrow> bytes" where
  "der_set items =
     (let content_len = sum_list (map length items)
      in [0x31] @ der_len content_len @ concat items)"

definition der_explicit_context :: "u8 \<Rightarrow> bytes \<Rightarrow> bytes" where
  "der_explicit_context tag contents = [0xA0 OR tag] @ der_len (length contents) @ contents"

definition der_len_u16 :: "nat \<Rightarrow> bytes" where
  "der_len_u16 len = [word_of_nat (drop_bit 8 len), word_of_nat len]"

section \<open>Decoding (decode.rs)\<close>

text \<open>The accumulation loop of \<open>parse_der_length\<close>: \<open>len = (len << 8) | byte\<close> over at most
  four bytes, so the \<open>usize\<close> never overflows.\<close>

definition der_len_acc :: "bytes \<Rightarrow> nat" where
  "der_len_acc bs = foldl (\<lambda>len b. push_bit 8 len OR unat b) 0 bs"

definition parse_der_length :: "bytes \<Rightarrow> (DerError, bytes \<times> nat) res" where
  "parse_der_length data =
     (case data of
        [] \<Rightarrow> Inl (ParseError ''truncated length'')
      | first # rest \<Rightarrow>
          if first < 0x80 then Inr (rest, unat first)
          else
            let num_bytes = unat (first AND 0x7F) in
            if num_bytes = 0 \<or> num_bytes > 4 then
              Inl (ParseError (''invalid long form length ('' @ show_nat num_bytes @ '')''))
            else if length data < 1 + num_bytes then
              Inl (ParseError ''truncated long form length'')
            else Inr (drop num_bytes rest, der_len_acc (take num_bytes rest)))"

text \<open>The six tagged parsers have one body; \<open>mismatch\<close> and \<open>truncated\<close> are their messages.\<close>

definition parse_der_tagged ::
  "u8 \<Rightarrow> (u8 \<Rightarrow> string) \<Rightarrow> string \<Rightarrow> bytes \<Rightarrow> (DerError, bytes \<times> bytes) res" where
  "parse_der_tagged tag mismatch truncated data =
     (case data of
        [] \<Rightarrow> Inl (ParseError ''empty data'')
      | t # rest \<Rightarrow>
          if t \<noteq> tag then Inl (ParseError (mismatch t))
          else bind_res (parse_der_length rest) (\<lambda>(remaining, len).
            if length remaining < len then Inl (ParseError truncated)
            else Inr (drop len remaining, take len remaining)))"

definition parse_der_sequence :: "bytes \<Rightarrow> (DerError, bytes \<times> bytes) res" where
  "parse_der_sequence = parse_der_tagged 0x30
     (\<lambda>t. ''expected SEQUENCE tag 0x30, got 0x'' @ show_hex2 t) ''truncated SEQUENCE''"

definition parse_der_explicit :: "bytes \<Rightarrow> u8 \<Rightarrow> (DerError, bytes \<times> bytes) res" where
  "parse_der_explicit data tag = parse_der_tagged (0xA0 OR tag)
     (\<lambda>t. ''expected context ['' @ show_nat (unat tag) @ ''] tag 0x'' @ show_hex2 (0xA0 OR tag) @
          '', got 0x'' @ show_hex2 t) ''truncated EXPLICIT'' data"

definition parse_der_integer :: "bytes \<Rightarrow> (DerError, bytes \<times> bytes) res" where
  "parse_der_integer = parse_der_tagged 0x02
     (\<lambda>t. ''expected INTEGER tag 0x02, got 0x'' @ show_hex2 t) ''truncated INTEGER''"

definition parse_der_oid :: "bytes \<Rightarrow> (DerError, bytes \<times> bytes) res" where
  "parse_der_oid = parse_der_tagged 0x06
     (\<lambda>t. ''expected OID tag 0x06, got 0x'' @ show_hex2 t) ''truncated OID''"

definition parse_der_octet_string :: "bytes \<Rightarrow> (DerError, bytes \<times> bytes) res" where
  "parse_der_octet_string = parse_der_tagged 0x04
     (\<lambda>t. ''expected OCTET STRING tag 0x04, got 0x'' @ show_hex2 t) ''truncated OCTET STRING''"

definition parse_der_bit_string :: "bytes \<Rightarrow> (DerError, bytes \<times> bytes) res" where
  "parse_der_bit_string = parse_der_tagged 0x03
     (\<lambda>t. ''expected BIT STRING tag 0x03, got 0x'' @ show_hex2 t) ''truncated BIT STRING''"

definition read_bytes :: "bytes \<Rightarrow> nat \<Rightarrow> (DerError, bytes \<times> bytes) res" where
  "read_bytes data n =
     (if length data < n then
        Inl (ParseError (''need '' @ show_nat n @ '' bytes, got '' @ show_nat (length data)))
      else Inr (drop n data, take n data))"

definition read_u16 :: "bytes \<Rightarrow> (DerError, bytes \<times> u16) res" where
  "read_u16 data =
     (if length data < 2 then Inl (ParseError ''need 2 bytes for u16'')
      else Inr (drop 2 data, u16_from_be (take 2 data)))"

definition read_u32 :: "bytes \<Rightarrow> (DerError, bytes \<times> u32) res" where
  "read_u32 data =
     (if length data < 4 then Inl (ParseError ''need 4 bytes for u32'')
      else Inr (drop 4 data, u32_from_be (take 4 data)))"

section \<open>The length field\<close>

lemma der_len_acc_eq: "der_len_acc bs = nat_of_be bs"
  by (simp add: der_len_acc_def nat_of_be_def push_or_byte)

lemma length_der_len: "1 \<le> length (der_len n) \<and> length (der_len n) \<le> 5"
  by (simp add: der_len_def)

text \<open>The long form is a marker byte followed by the big-endian bytes of the length.\<close>

lemma der_len_long:
  assumes "0x80 \<le> n" and "n < 2 ^ 32"
  obtains k where "1 \<le> k" "k \<le> 4" "der_len n = (0x80 OR word_of_nat k) # nat_to_be k n"
    "n < 256 ^ k"
proof -
  have be: "nat_to_be 1 n = [word_of_nat n]"
    "nat_to_be 2 n = [word_of_nat (drop_bit 8 n), word_of_nat n]"
    "nat_to_be 3 n = [word_of_nat (drop_bit 16 n), word_of_nat (drop_bit 8 n), word_of_nat n]"
    "nat_to_be 4 n = [word_of_nat (drop_bit 24 n), word_of_nat (drop_bit 16 n),
                      word_of_nat (drop_bit 8 n), word_of_nat n]"
    by (simp_all add: drop_bit_eq_div nat_to_be_numeral div_mult2_eq [symmetric])
  consider "n < 0x100" | "0x100 \<le> n" "n < 0x10000" | "0x10000 \<le> n" "n < 0x1000000"
    | "0x1000000 \<le> n" by linarith
  then show thesis
  proof cases
    case 1
    with assms show ?thesis by (intro that [of 1]) (simp_all add: der_len_def be)
  next
    case 2
    with assms show ?thesis by (intro that [of 2]) (simp_all add: der_len_def be)
  next
    case 3
    with assms show ?thesis by (intro that [of 3]) (simp_all add: der_len_def be)
  next
    case 4
    with assms show ?thesis by (intro that [of 4]) (simp_all add: der_len_def be)
  qed
qed

lemma long_marker:
  assumes "1 \<le> k" "k \<le> 4"
  shows "\<not> (0x80 OR word_of_nat k :: u8) < 0x80" "unat ((0x80 OR word_of_nat k :: u8) AND 0x7F) = k"
proof -
  from assms have "k \<in> {1, 2, 3, 4}" by auto
  then show "\<not> (0x80 OR word_of_nat k :: u8) < 0x80"
    "unat ((0x80 OR word_of_nat k :: u8) AND 0x7F) = k" by auto
qed

lemma parse_der_length_der_len:
  assumes "n < 2 ^ 32"
  shows "parse_der_length (der_len n @ rest) = Inr (rest, n)"
proof (cases "n < 0x80")
  case True
  then show ?thesis
    by (simp add: parse_der_length_def der_len_def word_less_nat_alt)
next
  case False
  then have "0x80 \<le> n" by simp
  then obtain k where k: "1 \<le> k" "k \<le> 4" "n < 256 ^ k"
      "der_len n = (0x80 OR word_of_nat k) # nat_to_be k n"
    using der_len_long assms by metis
  then show ?thesis
    using long_marker [of k]
    by (simp add: parse_der_length_def Let_def der_len_acc_eq nat_of_be_to_be)
qed

interpretation der_length: prefix_codec der_len parse_der_length "\<lambda>n. n < 2 ^ 32"
  by unfold_locales (rule parse_der_length_der_len)

text \<open>Whatever parses splits the input: a field of one to five bytes, then the rest, which is
  returned untouched; the value is below $2^{32}$.\<close>

lemma parse_der_length_sound:
  assumes "parse_der_length data = Inr (rest, n)"
  shows "\<exists>fld. data = fld @ rest \<and> 1 \<le> length fld \<and> length fld \<le> 5 \<and> n < 2 ^ 32"
proof (cases data)
  case Nil
  with assms show ?thesis by (simp add: parse_der_length_def)
next
  case (Cons b bs)
  show ?thesis
  proof (cases "b < 0x80")
    case True
    with assms Cons have "data = [b] @ rest" "n < 2 ^ 32"
      using unat_byte_less [of b] by (auto simp: parse_der_length_def)
    then show ?thesis by (intro exI [of _ "[b]"]) auto
  next
    case False
    define k where "k = unat (b AND 0x7F)"
    from assms Cons False have k: "k \<noteq> 0" "k \<le> 4" "k \<le> length bs"
      and r: "rest = drop k bs" and n: "n = nat_of_be (take k bs)"
      by (auto simp: parse_der_length_def Let_def k_def der_len_acc_eq split: if_splits)
    have "n < 256 ^ k" using nat_of_be_bound [of "take k bs"] k n by simp
    also have "(256::nat) ^ k \<le> 256 ^ 4" using k by (intro power_increasing) auto
    finally have "n < 2 ^ 32" by simp
    with Cons r k show ?thesis by (intro exI [of _ "b # take k bs"]) auto
  qed
qed

section \<open>Tagged values\<close>

lemma parse_der_tagged_enc:
  assumes "length c < 2 ^ 32"
  shows "parse_der_tagged tag mm tr (tag # der_len (length c) @ c @ rest) = Inr (rest, c)"
  using parse_der_length_der_len [OF assms, of "c @ rest"]
  by (simp add: parse_der_tagged_def)

lemma parse_der_tagged_sound:
  assumes "parse_der_tagged tag mm tr data = Inr (rest, c)"
  shows "\<exists>fld. data = tag # fld @ c @ rest \<and> length fld \<le> 5 \<and>
           parse_der_length (fld @ c @ rest) = Inr (c @ rest, length c)"
proof (cases data)
  case Nil
  with assms show ?thesis by (simp add: parse_der_tagged_def)
next
  case (Cons t bs)
  with assms obtain r n where p: "parse_der_length bs = Inr (r, n)" and t: "t = tag"
      and n: "n \<le> length r" "rest = drop n r" "c = take n r"
    by (auto simp: parse_der_tagged_def bind_res_eq_Inr split: if_splits)
  from parse_der_length_sound [OF p] obtain fld where "bs = fld @ r" "length fld \<le> 5" by blast
  moreover have "r = c @ rest" "n = length c" using n by simp_all
  ultimately show ?thesis using Cons t p by auto
qed

lemmas tagged_parser_defs = parse_der_sequence_def parse_der_explicit_def parse_der_integer_def
  parse_der_oid_def parse_der_octet_string_def parse_der_bit_string_def

lemmas tagged_encoder_defs = der_sequence_def der_sequence_v_def der_explicit_context_def
  encode_oid_def der_octet_string_def der_bit_string_def

interpretation der_seq: prefix_codec der_sequence parse_der_sequence "\<lambda>c. length c < 2 ^ 32"
  by unfold_locales (simp add: der_sequence_def parse_der_sequence_def parse_der_tagged_enc)

interpretation der_oid: prefix_codec encode_oid parse_der_oid "\<lambda>c. length c < 2 ^ 32"
  by unfold_locales (simp add: encode_oid_def parse_der_oid_def parse_der_tagged_enc)

interpretation der_octets:
  prefix_codec der_octet_string parse_der_octet_string "\<lambda>c. length c < 2 ^ 32"
  by unfold_locales (simp add: der_octet_string_def parse_der_octet_string_def parse_der_tagged_enc)

interpretation der_explicit:
  prefix_codec "der_explicit_context t" "\<lambda>d. parse_der_explicit d t" "\<lambda>c. length c < 2 ^ 32" for t
  by unfold_locales (simp add: der_explicit_context_def parse_der_explicit_def parse_der_tagged_enc)

section \<open>Properties\<close>

text \<open>
  The DER length field is a prefix code on the lengths below $2^{32}$: \<open>parse_der_length\<close>
  reads back what \<open>der_len\<close> wrote and leaves the following bytes untouched, so two encodings
  that agree followed by anything are of the same length value.
\<close>

theorem der_len_prefix_code:
  assumes "n < 2 ^ 32" and "m < 2 ^ 32"
  shows "parse_der_length (der_len n @ rest) = Inr (rest, n) \<and>
     (der_len n @ r = der_len m @ s \<longrightarrow> n = m \<and> r = s)"
  using der_length.dec_enc [OF assms(1)] der_length.prefix_free [OF assms] by blast

theorem der_len_prefix_code_witness:
  "parse_der_length (der_len 300 @ [7]) = Inr ([7], 300) \<and> der_len 300 = [0x82, 1, 0x2C]"
  using der_len_prefix_code [of 300 300 "[7]"] by (simp add: der_len_def drop_bit_eq_div)



text \<open>
  A tagged parser that succeeds has split its input exactly: the expected tag, a length
  field of at most five bytes that decodes to the length of the returned contents, the
  contents, and the returned remainder. Nothing outside the input is read and nothing is lost.
\<close>

theorem der_parsers_split_input:
  assumes "(p, tag) \<in> {(parse_der_sequence, 0x30), (parse_der_integer, 0x02), (parse_der_oid, 0x06),
      (parse_der_octet_string, 0x04), (parse_der_bit_string, 0x03),
      (\<lambda>d. parse_der_explicit d t, 0xA0 OR t)}"
    and "p data = Inr (rest, c)"
  shows "\<exists>fld. data = tag # fld @ c @ rest \<and> length fld \<le> 5 \<and>
           parse_der_length (fld @ c @ rest) = Inr (c @ rest, length c)"
  using assms by (auto simp: tagged_parser_defs dest: parse_der_tagged_sound)

theorem der_parsers_split_input_witness:
  "\<exists>fld. [0x04, 0x02, 9, 8, 7] = (0x04::u8) # fld @ [9, 8] @ [7] \<and> length fld \<le> 5 \<and>
     parse_der_length (fld @ [9, 8] @ [7]) = Inr ([9, 8] @ [7], length [9::u8, 8])"
  by (rule der_parsers_split_input [of parse_der_octet_string _ 0])
    (simp_all add: parse_der_octet_string_def parse_der_tagged_def parse_der_length_def)

text \<open>
  \<open>der_integer_positive\<close> writes a non-negative INTEGER: what the parser reads back has the
  value of the given bytes and a clear sign bit, and differs from them by at most one leading
  zero byte.
\<close>

theorem der_integer_positive_value:
  assumes "length bs < 2 ^ 32 - 1"
  shows "\<exists>c. parse_der_integer (der_integer_positive bs @ rest) = Inr (rest, c) \<and>
           nat_of_be c = nat_of_be bs \<and> (c = bs \<or> c = 0 # bs) \<and> (c \<noteq> [] \<longrightarrow> hd c < 0x80)"
proof -
  define c where "c = (if bs \<noteq> [] \<and> hd bs \<ge> 0x80 then 0x00 # bs else bs)"
  have "length c < 2 ^ 32" using assms by (simp add: c_def)
  then have "parse_der_integer (der_integer_positive bs @ rest) = Inr (rest, c)"
    by (simp add: der_integer_positive_def Let_def c_def [symmetric] parse_der_integer_def
        parse_der_tagged_enc)
  moreover have "nat_of_be c = nat_of_be bs"
    by (simp add: c_def nat_of_be_Cons)
  moreover have "c = bs \<or> c = 0 # bs" "c \<noteq> [] \<longrightarrow> hd c < 0x80"
    by (auto simp: c_def)
  ultimately show ?thesis by blast
qed

theorem der_integer_positive_value_witness:
  "\<exists>c. parse_der_integer (der_integer_positive [0xFF] @ []) = Inr ([], c) \<and>
     nat_of_be c = nat_of_be [0xFF] \<and> (c = [0xFF] \<or> c = 0 # [0xFF]) \<and> (c \<noteq> [] \<longrightarrow> hd c < 0x80)"
  by (rule der_integer_positive_value) simp

text \<open>
  C40. Beyond four length bytes the encoder is silently wrong: for any length of $2^{32}$ or more
  \<open>der_len\<close> writes the length modulo $2^{32}$, which is what the parser reads back.
\<close>

theorem der_len_wraps_at_4GiB:
  assumes "2 ^ 32 \<le> n"
  shows "parse_der_length (der_len n @ rest) = Inr (rest, n mod 2 ^ 32)"
proof -
  have "der_len n = 0x84 # nat_to_be 4 n"
    using assms
    by (simp add: der_len_def nat_to_be_numeral drop_bit_eq_div div_mult2_eq [symmetric])
  then show ?thesis
    by (simp add: parse_der_length_def Let_def der_len_acc_eq nat_of_be_to_be)
qed

theorem der_len_wraps_at_4GiB_witness:
  "parse_der_length (der_len (2 ^ 32 + 5) @ []) = Inr ([], 5)"
  using der_len_wraps_at_4GiB [of "2 ^ 32 + 5" "[]"] by simp

end
