(* ===== verification/Sm9_Z256.thy ===== *)
theory Sm9_Z256
  imports Gm_Prelude
begin

text \<open>
  The 256-bit integers of \<open>gm-sm9-rs/src/arith/z256.rs\<close>: four 64-bit limbs, least significant
  first. A \<open>for i in 0..4\<close> loop over limbs is a recursion over limb lists, with the carry or
  borrow as its accumulator; the in-place product array of \<open>mul_wide\<close> is a list rewritten
  row by row. Shown: the limb routines compute exact integer arithmetic on the values
  \<open>z256_val\<close>; comparison, selection, swap and bit access mean what they say; byte conversion
  is the big-endian form of the value and a round trip. Reduction is in \<open>Sm9_Reduce\<close>.
\<close>

section \<open>Representation\<close>

datatype Z256 = Z256 u64 u64 u64 u64

fun limbs :: "Z256 \<Rightarrow> u64 list" where
  "limbs (Z256 a b c d) = [a, b, c, d]"

definition z256_of :: "u64 list \<Rightarrow> Z256" where
  "z256_of ts = Z256 (ts ! 0) (ts ! 1) (ts ! 2) (ts ! 3)"

text \<open>The value of a limb list and of a 256-bit integer.\<close>

fun lval :: "u64 list \<Rightarrow> nat" where
  "lval [] = 0"
| "lval (x # xs) = unat x + 2 ^ 64 * lval xs"

definition z256_val :: "Z256 \<Rightarrow> nat" where
  "z256_val a = lval (limbs a)"

definition z256_zero :: Z256 where
  "z256_zero = Z256 0 0 0 0"

definition z256_one :: Z256 where
  "z256_one = Z256 1 0 0 0"

definition z256_R_SQUARED :: Z256 where
  "z256_R_SQUARED =
     Z256 0x27dea312b417e2d2 0x88f8105fae1a5d3f 0xe479b522d6706e7b 0x2ea795a656f62fbd"

definition z256_R_INV :: Z256 where
  "z256_R_INV =
     Z256 0x0a1c7970e5df544d 0xe74504e9a96b56cc 0xcda02d92d4d62924 0x7d2bc576fdf597d1"

definition z256_P :: Z256 where
  "z256_P = Z256 0xE56F9B27E351457D 0x21F2934B1A7AEEDB 0xD603AB4FF58EC745 0xB640000002A3A6F1"

definition z256_N :: Z256 where
  "z256_N = Z256 0xE56EE19CD69ECF25 0x49F2934B18EA8BEE 0xD603AB4FF58EC744 0xB640000002A3A6F1"

definition z256_P_INV :: u64 where
  "z256_P_INV = 0x76D43BD3D0D11BD5"

definition MU_N_LOW :: Z256 where
  "MU_N_LOW = Z256 0x74DF4FD4DFC97C2F 0x9C95D85EC9C073B0 0x55F73AEBDCD1312C 0x67980E0BEB5759A6"

definition MU_P_LOW :: Z256 where
  "MU_P_LOW = Z256 0x71188F90D5C22146 0xF2665F6D1E36081C 0x55F73AEBDCD1312A 0x67980E0BEB5759A6"

section \<open>Predicates and bit access\<close>

definition z256_is_zero :: "Z256 \<Rightarrow> bool" where
  "z256_is_zero a =
     (limbs a ! 0 = 0 \<and> limbs a ! 1 = 0 \<and> limbs a ! 2 = 0 \<and> limbs a ! 3 = 0)"

definition z256_is_one :: "Z256 \<Rightarrow> bool" where
  "z256_is_one a =
     (limbs a ! 0 = 1 \<and> limbs a ! 1 = 0 \<and> limbs a ! 2 = 0 \<and> limbs a ! 3 = 0)"

definition z256_bit :: "Z256 \<Rightarrow> nat \<Rightarrow> bool" where
  "z256_bit a n =
     (let limb = n div 64; b = n mod 64
      in if limb < 4 then drop_bit b (limbs a ! limb) AND 1 = 1 else False)"

text \<open>
  The \<open>subtle\<close> crate is a parameter of the operations that use it: its type \<open>Choice\<close> (\<open>'c\<close>), made
  from the byte 0 or 1, its connectives, its selection between two \<open>u64\<close>, its conversion to
  \<open>bool\<close>, and its comparison of byte slices.
\<close>

record 'c subtle =
  choice_from :: "u8 \<Rightarrow> 'c"
  choice_and :: "'c \<Rightarrow> 'c \<Rightarrow> 'c"
  choice_not :: "'c \<Rightarrow> 'c"
  u64_select :: "u64 \<Rightarrow> u64 \<Rightarrow> 'c \<Rightarrow> u64"
  choice_into :: "'c \<Rightarrow> bool"
  bytes_ct_eq :: "u8 list \<Rightarrow> u8 list \<Rightarrow> 'c"

definition z256_ct_bit :: "'c subtle \<Rightarrow> Z256 \<Rightarrow> nat \<Rightarrow> 'c" where
  "z256_ct_bit S a n =
     (let limb = n div 64; b = n mod 64
      in if limb < 4 then
           let bit_val = drop_bit b (limbs a ! limb) AND 1 in choice_from S (ucast bit_val)
         else choice_from S 0)"

fun bit_len :: "nat \<Rightarrow> nat" where
  "bit_len n = (if n = 0 then 0 else Suc (bit_len (n div 2)))"

declare bit_len.simps [simp del]

definition leading_zeros :: "u64 \<Rightarrow> nat" where
  "leading_zeros w = 64 - bit_len (unat w)"

fun bits_loop :: "u64 list \<Rightarrow> nat" where
  "bits_loop [] = 0"
| "bits_loop (x # xs) = (if x \<noteq> 0 then length xs * 64 + (64 - leading_zeros x) else bits_loop xs)"

definition z256_bits :: "Z256 \<Rightarrow> nat" where
  "z256_bits a = bits_loop (rev (limbs a))"

definition z256_shr1 :: "Z256 \<Rightarrow> Z256" where
  "z256_shr1 a =
     (case a of Z256 a0 a1 a2 a3 \<Rightarrow>
        Z256 (drop_bit 1 a0 OR push_bit 63 (a1 AND 1))
             (drop_bit 1 a1 OR push_bit 63 (a2 AND 1))
             (drop_bit 1 a2 OR push_bit 63 (a3 AND 1))
             (drop_bit 1 a3))"

definition z256_eq :: "Z256 \<Rightarrow> Z256 \<Rightarrow> bool" where
  "z256_eq a b =
     (limbs a ! 0 = limbs b ! 0 \<and> limbs a ! 1 = limbs b ! 1 \<and>
      limbs a ! 2 = limbs b ! 2 \<and> limbs a ! 3 = limbs b ! 3)"

definition z256_ct_eq :: "'c subtle \<Rightarrow> Z256 \<Rightarrow> Z256 \<Rightarrow> 'c" where
  "z256_ct_eq S a b =
     (let diff0 = limbs a ! 0 XOR limbs b ! 0;
          diff1 = limbs a ! 1 XOR limbs b ! 1;
          diff2 = limbs a ! 2 XOR limbs b ! 2;
          diff3 = limbs a ! 3 XOR limbs b ! 3;
          or_diff = diff0 OR diff1 OR diff2 OR diff3
      in choice_from S (if or_diff = 0 then 1 else 0))"

definition z256_ct_is_zero :: "'c subtle \<Rightarrow> Z256 \<Rightarrow> 'c" where
  "z256_ct_is_zero S a = z256_ct_eq S a z256_zero"

definition z256_ct_select :: "'c subtle \<Rightarrow> Z256 \<Rightarrow> Z256 \<Rightarrow> 'c \<Rightarrow> Z256" where
  "z256_ct_select S a b choice =
     z256_of [u64_select S (limbs a ! 0) (limbs b ! 0) choice,
              u64_select S (limbs a ! 1) (limbs b ! 1) choice,
              u64_select S (limbs a ! 2) (limbs b ! 2) choice,
              u64_select S (limbs a ! 3) (limbs b ! 3) choice]"

section \<open>Limb arithmetic\<close>

definition overflowing_add :: "u64 \<Rightarrow> u64 \<Rightarrow> u64 \<times> bool" where
  "overflowing_add a b = (a + b, 2 ^ 64 \<le> unat a + unat b)"

definition overflowing_sub :: "u64 \<Rightarrow> u64 \<Rightarrow> u64 \<times> bool" where
  "overflowing_sub a b = (a - b, unat a < unat b)"

fun add_limbs :: "u64 list \<Rightarrow> u64 list \<Rightarrow> u64 \<Rightarrow> u64 list \<times> u64" where
  "add_limbs (a # as) (b # bs) carry =
     (let (sum1, c1) = overflowing_add a b;
          (sum2, c2) = overflowing_add sum1 carry;
          (r, out) = add_limbs as bs (if c1 \<or> c2 then 1 else 0)
      in (sum2 # r, out))"
| "add_limbs _ _ carry = ([], carry)"

definition add_with_carry :: "Z256 \<Rightarrow> Z256 \<Rightarrow> Z256 \<times> u64" where
  "add_with_carry a b = (let (r, carry) = add_limbs (limbs a) (limbs b) 0 in (z256_of r, carry))"

fun sub_limbs :: "u64 list \<Rightarrow> u64 list \<Rightarrow> u64 \<Rightarrow> u64 list \<times> u64" where
  "sub_limbs (a # as) (b # bs) borrow =
     (let (diff1, b1) = overflowing_sub a b;
          (diff2, b2) = overflowing_sub diff1 borrow;
          (r, out) = sub_limbs as bs (if b1 \<or> b2 then 1 else 0)
      in (diff2 # r, out))"
| "sub_limbs _ _ borrow = ([], borrow)"

definition sub_with_borrow :: "Z256 \<Rightarrow> Z256 \<Rightarrow> Z256 \<times> u64" where
  "sub_with_borrow a b = (let (r, borrow) = sub_limbs (limbs a) (limbs b) 0 in (z256_of r, borrow))"

definition mul64 :: "u64 \<Rightarrow> u64 \<Rightarrow> u64 \<times> u64" where
  "mul64 a b =
     (let prod = (ucast a :: u128) * ucast b in (ucast prod, ucast (drop_bit 64 prod)))"

text \<open>The inner loop of the products: \<open>t[i + j]\<close> is accumulated with \<open>x * b[j]\<close> and the carry.\<close>

fun mac_limbs :: "u64 list \<Rightarrow> u64 \<Rightarrow> u64 list \<Rightarrow> u64 \<Rightarrow> u64 list \<times> u64" where
  "mac_limbs (t # ts) x (b # bs) carry =
     (let (prod, c) = mul64 x b;
          (sum1, c1) = overflowing_add t prod;
          (sum2, c2) = overflowing_add sum1 carry;
          (r, out) = mac_limbs ts x bs (c + of_bool c1 + of_bool c2)
      in (sum2 # r, out))"
| "mac_limbs _ _ _ carry = ([], carry)"

definition mul_row :: "u64 list \<Rightarrow> nat \<Rightarrow> u64 \<Rightarrow> u64 list \<Rightarrow> u64 list" where
  "mul_row t i x bs =
     (let (r, carry) = mac_limbs (take 4 (drop i t)) x bs 0
      in take i t @ r @ [carry] @ drop (i + 5) t)"

definition mul_wide :: "Z256 \<Rightarrow> Z256 \<Rightarrow> Z256 \<times> Z256" where
  "mul_wide a b =
     (let t = foldl (\<lambda>t i. mul_row t i (limbs a ! i) (limbs b)) (replicate 8 0) [0..<4]
      in (z256_of (take 4 t), z256_of (drop 4 t)))"

fun cmp_limbs :: "u64 list \<Rightarrow> u64 list \<Rightarrow> int" where
  "cmp_limbs (a # as) (b # bs) = (if a > b then 1 else if a < b then -1 else cmp_limbs as bs)"
| "cmp_limbs _ _ = 0"

definition z256_cmp :: "Z256 \<Rightarrow> Z256 \<Rightarrow> int" where
  "z256_cmp a b = cmp_limbs (rev (limbs a)) (rev (limbs b))"

section \<open>Constant-time selection\<close>

definition ct_mask :: "u8 \<Rightarrow> u64" where
  "ct_mask choice = (if choice \<noteq> 0 then - 1 else 0)"

definition z256_conditional_select :: "Z256 \<Rightarrow> Z256 \<Rightarrow> u8 \<Rightarrow> Z256" where
  "z256_conditional_select a b choice =
     (let mask = ct_mask choice
      in z256_of (map2 (\<lambda>x y. (x AND NOT mask) OR (y AND mask)) (limbs a) (limbs b)))"

definition cswap :: "Z256 \<Rightarrow> Z256 \<Rightarrow> u8 \<Rightarrow> Z256 \<times> Z256" where
  "cswap a b swap =
     (let mask = ct_mask swap;
          ts = map2 (\<lambda>x y. (x XOR y) AND mask) (limbs a) (limbs b)
      in (z256_of (map2 (XOR) (limbs a) ts), z256_of (map2 (XOR) (limbs b) ts)))"

definition ccopy :: "Z256 \<Rightarrow> Z256 \<Rightarrow> u8 \<Rightarrow> Z256" where
  "ccopy dst src copy =
     (let mask = ct_mask copy
      in z256_of (map2 (\<lambda>d s. (d AND NOT mask) OR (s AND mask)) (limbs dst) (limbs src)))"

section \<open>Bytes\<close>

definition z256_from_bytes_be :: "bytes \<Rightarrow> Z256 option" where
  "z256_from_bytes_be bs =
     (if length bs > 32 then None
      else let padded = replicate (32 - length bs) 0 @ bs
           in Some (Z256 (u64_from_be (take 8 (drop 24 padded)))
                         (u64_from_be (take 8 (drop 16 padded)))
                         (u64_from_be (take 8 (drop 8 padded)))
                         (u64_from_be (take 8 padded))))"

definition z256_to_bytes_be :: "Z256 \<Rightarrow> bytes" where
  "z256_to_bytes_be a =
     u64_to_be (limbs a ! 3) @ u64_to_be (limbs a ! 2) @ u64_to_be (limbs a ! 1) @
     u64_to_be (limbs a ! 0)"

section \<open>Values of limb lists\<close>

lemma unat_u64_less: "unat (w::u64) < 2 ^ 64"
  using unat_bound [of w] by simp

lemma lval_append: "lval (xs @ ys) = lval xs + 2 ^ (64 * length xs) * lval ys"
  by (induction xs) (simp_all add: algebra_simps power_add)

lemma lval_bound: "lval xs < 2 ^ (64 * length xs)"
proof (induction xs)
  case (Cons x xs)
  then have "Suc (lval xs) * 2 ^ 64 \<le> 2 ^ (64 * length xs) * 2 ^ 64"
    by (intro mult_le_mono1 Suc_leI)
  moreover have "unat x + 2 ^ 64 * lval xs < Suc (lval xs) * 2 ^ 64"
    using unat_u64_less [of x] by simp
  ultimately have "unat x + 2 ^ 64 * lval xs < 2 ^ (64 * length xs) * 2 ^ 64"
    by (rule less_le_trans [rotated])
  then show ?case by (simp add: power_add mult.commute)
qed simp

lemma lval_replicate_0 [simp]: "lval (replicate n 0) = 0"
  by (induction n) simp_all

lemma lval_inj: "length xs = length ys \<Longrightarrow> lval xs = lval ys \<Longrightarrow> xs = ys"
proof (induction xs ys rule: list_induct2)
  case (Cons x xs y ys)
  have "unat x = (unat x + 2 ^ 64 * lval xs) mod 2 ^ 64"
    using unat_u64_less [of x] by simp
  also have "\<dots> = (unat y + 2 ^ 64 * lval ys) mod 2 ^ 64"
    using Cons.prems by (simp only: lval.simps)
  also have "\<dots> = unat y" using unat_u64_less [of y] by simp
  finally show ?case using Cons by (simp add: word_unat_eq_iff)
qed simp

lemma length_limbs [simp]: "length (limbs a) = 4"
  by (cases a) simp

lemma limbs_z256_of [simp]: "length ts = 4 \<Longrightarrow> limbs (z256_of ts) = ts"
  by (auto simp: z256_of_def numeral_eq_Suc length_Suc_conv)

lemma z256_of_limbs [simp]: "z256_of (limbs a) = a"
  by (cases a) (simp add: z256_of_def)

lemma z256_val_of: "length ts = 4 \<Longrightarrow> z256_val (z256_of ts) = lval ts"
  by (simp add: z256_val_def)

lemma z256_val_bound: "z256_val a < 2 ^ 256"
  using lval_bound [of "limbs a"] by (simp add: z256_val_def)

lemma z256_val_inj: "z256_val a = z256_val b \<longleftrightarrow> a = b"
  by (metis length_limbs lval_inj z256_of_limbs z256_val_def)

section \<open>The limb loops compute exact arithmetic\<close>

lemma mod_carry: "x < 2 * B \<Longrightarrow> x mod B + B * of_bool (B \<le> x) = (x::nat)"
  by (cases "B \<le> x") (simp_all add: le_mod_geq)

lemma overflowing_add_val:
  assumes "overflowing_add a b = (s, c)"
  shows "unat s + 2 ^ 64 * of_bool c = unat a + unat b"
proof -
  have "unat s = (unat a + unat b) mod 2 ^ 64" "c \<longleftrightarrow> 2 ^ 64 \<le> unat a + unat b"
    using assms by (auto simp: overflowing_add_def unat_word_ariths(1))
  moreover have "unat a + unat b < 2 * 2 ^ 64"
    using unat_u64_less [of a] unat_u64_less [of b] by simp
  ultimately show ?thesis
    using mod_carry [of "unat a + unat b" "2 ^ 64"] by (simp only: simp_thms)
qed

lemma overflowing_sub_val:
  "overflowing_sub a b = (d, c) \<Longrightarrow> unat d + unat b = unat a + 2 ^ 64 * of_bool c"
proof -
  assume "overflowing_sub a b = (d, c)"
  then have d: "d = a - b" and c: "c \<longleftrightarrow> unat a < unat b"
    by (auto simp: overflowing_sub_def)
  show ?thesis
  proof (cases "unat a < unat b")
    case True
    then show ?thesis
      using c d unat_u64_less [of b] by (simp add: unat_sub_if')
  next
    case False
    then show ?thesis using c d by (simp add: unat_sub_if')
  qed
qed

lemma add_limbs_val:
  assumes "length as = length bs" and "unat carry \<le> 1" and "add_limbs as bs carry = (r, out)"
  shows "length r = length as \<and> unat out \<le> 1 \<and>
     lval r + 2 ^ (64 * length as) * unat out = lval as + lval bs + unat carry"
  using assms
proof (induction as bs carry arbitrary: r out rule: add_limbs.induct)
  case (1 a as b bs carry)
  obtain s1 c1 where s1: "overflowing_add a b = (s1, c1)" by force
  obtain s2 c2 where s2: "overflowing_add s1 carry = (s2, c2)" by force
  obtain r' where r': "add_limbs as bs (if c1 \<or> c2 then 1 else 0) = (r', out)" "r = s2 # r'"
    using 1(4) s1 s2 by (auto split: prod.splits)
  have IH: "length r' = length as \<and> unat out \<le> 1 \<and>
      lval r' + 2 ^ (64 * length as) * unat out = lval as + lval bs + of_bool (c1 \<or> c2)"
    using 1(1) [OF s1 [symmetric] refl s2 [symmetric] refl _ _ r'(1)] 1(2)
    by (cases c1; cases c2) simp_all
  have v1: "unat s1 + 2 ^ 64 * of_bool c1 = unat a + unat b"
    and v2: "unat s2 + 2 ^ 64 * of_bool c2 = unat s1 + unat carry"
    using overflowing_add_val s1 s2 by blast+
  have "of_bool c1 + of_bool c2 = (of_bool (c1 \<or> c2) :: nat)"
    using v1 v2 1(3) unat_u64_less [of a] unat_u64_less [of b] by (cases c1; cases c2) auto
  then have "unat s2 + 2 ^ 64 * of_bool (c1 \<or> c2) = unat a + unat b + unat carry"
    using v1 v2 by (simp add: distrib_left [symmetric] flip: \<open>of_bool c1 + of_bool c2 = _\<close>)
  with IH r'(2) show ?case by (simp add: power_add algebra_simps)
qed auto

lemma sub_limbs_val:
  assumes "length as = length bs" and "unat borrow \<le> 1" and "sub_limbs as bs borrow = (r, out)"
  shows "length r = length as \<and> unat out \<le> 1 \<and>
     lval r + lval bs + unat borrow = lval as + 2 ^ (64 * length as) * unat out"
  using assms
proof (induction as bs borrow arbitrary: r out rule: sub_limbs.induct)
  case (1 a as b bs borrow)
  obtain d1 b1 where d1: "overflowing_sub a b = (d1, b1)" by force
  obtain d2 b2 where d2: "overflowing_sub d1 borrow = (d2, b2)" by force
  obtain r' where r': "sub_limbs as bs (if b1 \<or> b2 then 1 else 0) = (r', out)" "r = d2 # r'"
    using 1(4) d1 d2 by (auto split: prod.splits)
  have IH: "length r' = length as \<and> unat out \<le> 1 \<and>
      lval r' + lval bs + of_bool (b1 \<or> b2) = lval as + 2 ^ (64 * length as) * unat out"
    using 1(1) [OF d1 [symmetric] refl d2 [symmetric] refl _ _ r'(1)] 1(2)
    by (cases b1; cases b2) simp_all
  have v1: "unat d1 + unat b = unat a + 2 ^ 64 * of_bool b1"
    and v2: "unat d2 + unat borrow = unat d1 + 2 ^ 64 * of_bool b2"
    using overflowing_sub_val d1 d2 by blast+
  have "of_bool b1 + of_bool b2 = (of_bool (b1 \<or> b2) :: nat)"
    using v1 v2 1(3) unat_u64_less [of d2] unat_u64_less [of b] by (cases b1; cases b2) auto
  then have "unat d2 + unat b + unat borrow = unat a + 2 ^ 64 * of_bool (b1 \<or> b2)"
    using v1 v2 by (simp add: distrib_left [symmetric] flip: \<open>of_bool b1 + of_bool b2 = _\<close>)
  with IH r'(2) show ?case by (simp add: power_add algebra_simps)
qed auto

lemma unat_ucast_64_128: "unat (ucast (a::u64) :: u128) = unat a"
  by (simp add: unsigned_ucast_eq take_bit_nat_eq_self_iff) (rule less_trans [OF unat_u64_less], simp)

lemma unat_ucast_128_64: "unat (ucast (a::u128) :: u64) = unat a mod 2 ^ 64"
  by (simp add: unsigned_ucast_eq take_bit_eq_mod)

lemma unat_shr_64: "unat (drop_bit 64 (a::u128)) = unat a div 2 ^ 64"
  unfolding unat_drop_bit_eq by (rule drop_bit_eq_div)

lemma mul64_val:
  assumes "mul64 a b = (lo, hi)"
  shows "unat lo + 2 ^ 64 * unat hi = unat a * unat b"
proof -
  define prod where "prod = (ucast a :: u128) * ucast b"
  have "unat a * unat b < 2 ^ 64 * 2 ^ 64"
    using unat_u64_less [of a] unat_u64_less [of b] by (intro mult_strict_mono) simp_all
  then have "unat a * unat b < 2 ^ LENGTH(128)" by simp
  then have p: "unat prod = unat a * unat b"
    unfolding prod_def by (simp only: unat_word_ariths(2) unat_ucast_64_128 mod_less)
  have lo: "unat lo = unat prod mod 2 ^ 64"
    using assms by (auto simp only: mul64_def Let_def prod_def [symmetric] unat_ucast_128_64 prod.inject)
  have "unat prod div 2 ^ 64 < 2 ^ 64"
    using \<open>unat a * unat b < 2 ^ 64 * 2 ^ 64\<close> unfolding p by (rule less_mult_imp_div_less)
  then have hi: "unat hi = unat prod div 2 ^ 64"
    using assms by (auto simp only: mul64_def Let_def prod_def [symmetric] unat_ucast_128_64 prod.inject
        unat_shr_64 mod_less)
  show ?thesis using lo hi p by simp
qed

lemma carry_fits:
  assumes "lo + B * hi = x * y" and "x < B" "y < B" "t < B" "c < B"
    and "s1 + B * c1 = t + lo" and "s2 + B * c2 = s1 + c"
  shows "hi + c1 + c2 < (B::nat)"
proof -
  have "s2 + B * (hi + c1 + c2) = t + x * y + c"
    using assms(1,6,7) by (simp add: algebra_simps)
  also have "\<dots> \<le> (B - 1) + (B - 1) * (B - 1) + (B - 1)"
    using assms(2-5) by (intro add_mono mult_mono) auto
  also have "\<dots> < B * B"
    using assms(2) by (cases B) (auto simp: algebra_simps)
  finally have "B * (hi + c1 + c2) < B * B" by (rule le_less_trans [OF le_add2])
  then show ?thesis by simp
qed

lemma mac_limbs_val:
  assumes "length ts = length bs" and "mac_limbs ts x bs carry = (r, out)"
  shows "length r = length ts \<and>
     lval r + 2 ^ (64 * length ts) * unat out = lval ts + unat x * lval bs + unat carry"
  using assms
proof (induction ts x bs carry arbitrary: r out rule: mac_limbs.induct)
  case (1 t ts x b bs carry)
  obtain lo hi where m: "mul64 x b = (lo, hi)" by force
  obtain s1 c1 where s1: "overflowing_add t lo = (s1, c1)" by force
  obtain s2 c2 where s2: "overflowing_add s1 carry = (s2, c2)" by force
  define c where "c = hi + of_bool c1 + of_bool c2"
  obtain r' where r': "mac_limbs ts x bs c = (r', out)" "r = s2 # r'"
    using 1(3) m s1 s2 by (auto simp: c_def split: prod.splits)
  have IH: "length r' = length ts \<and>
      lval r' + 2 ^ (64 * length ts) * unat out = lval ts + unat x * lval bs + unat c"
    using 1(1) [OF m [symmetric] refl s1 [symmetric] refl s2 [symmetric] refl, folded c_def, OF _ r'(1)]
      1(2) by simp
  note v = mul64_val [OF m] overflowing_add_val [OF s1] overflowing_add_val [OF s2]
  have "unat hi + of_bool c1 + of_bool c2 < 2 ^ 64"
    using carry_fits [OF v(1) _ _ _ _ v(2,3)] unat_u64_less by blast
  then have "unat c = unat hi + of_bool c1 + of_bool c2"
    by (cases c1; cases c2) (simp_all add: c_def unat_word_ariths)
  then have "unat s2 + 2 ^ 64 * unat c = unat t + unat x * unat b + unat carry"
    using v by (simp add: algebra_simps)
  then have "lval r + 2 ^ (64 * length (t # ts)) * unat out =
      unat t + unat x * unat b + unat carry + 2 ^ 64 * (lval ts + unat x * lval bs)"
    using IH r'(2) by (simp add: power_add algebra_simps)
  then show ?case using IH r'(2) by (simp add: algebra_simps)
qed auto

section \<open>Values of 256-bit integers\<close>

lemma z256_val_simp [simp]:
  "z256_val (Z256 a b c d) = unat a + 2 ^ 64 * (unat b + 2 ^ 64 * (unat c + 2 ^ 64 * unat d))"
  by (simp add: z256_val_def)

lemma z256_val_limb: "z256_val (Z256 a 0 0 0) = unat a"
  by (simp add: z256_val_def)

lemma add_with_carry_val:
  assumes "add_with_carry a b = (r, c)"
  shows "z256_val r + 2 ^ 256 * unat c = z256_val a + z256_val b" "unat c \<le> 1"
proof -
  obtain rs where rs: "add_limbs (limbs a) (limbs b) 0 = (rs, c)" "r = z256_of rs"
    using assms by (auto simp: add_with_carry_def split: prod.splits)
  from add_limbs_val [OF _ _ rs(1)] rs(2)
  show "z256_val r + 2 ^ 256 * unat c = z256_val a + z256_val b" "unat c \<le> 1"
    by (auto simp: z256_val_def)
qed

lemma sub_with_borrow_val:
  assumes "sub_with_borrow a b = (r, c)"
  shows "z256_val r + z256_val b = z256_val a + 2 ^ 256 * unat c" "unat c \<le> 1"
proof -
  obtain rs where rs: "sub_limbs (limbs a) (limbs b) 0 = (rs, c)" "r = z256_of rs"
    using assms by (auto simp: sub_with_borrow_def split: prod.splits)
  from sub_limbs_val [OF _ _ rs(1)] rs(2)
  show "z256_val r + z256_val b = z256_val a + 2 ^ 256 * unat c" "unat c \<le> 1"
    by (auto simp: z256_val_def)
qed

lemma flag_cases: "unat (c::u64) \<le> 1 \<Longrightarrow> c = 0 \<or> c = 1"
  by (auto simp: word_unat_eq_iff le_Suc_eq)

text \<open>The carry of an addition and the borrow of a subtraction say which way the values compare.\<close>

lemma add_with_carry_cases:
  assumes "add_with_carry a b = (r, c)"
  shows "c = 0 \<and> z256_val r = z256_val a + z256_val b \<or>
         c = 1 \<and> z256_val r + 2 ^ 256 = z256_val a + z256_val b"
  using add_with_carry_val [OF assms] flag_cases [of c] by auto

lemma sub_with_borrow_cases:
  assumes "sub_with_borrow a b = (r, c)"
  shows "c = 0 \<and> z256_val b \<le> z256_val a \<and> z256_val r = z256_val a - z256_val b \<or>
         c = 1 \<and> z256_val a < z256_val b \<and> z256_val r = z256_val a + 2 ^ 256 - z256_val b"
  using sub_with_borrow_val [OF assms] flag_cases [of c] z256_val_bound [of r] by auto

lemma upt_0_4: "[0..<4] = [0, 1, 2, 3::nat]"
  by (simp add: upt_rec numeral_eq_Suc)

lemma mul_row_val:
  assumes len: "length t = 8" and i: "i < 4" and z: "drop (i + 4) t = replicate (4 - i) 0"
    and bs: "length bs = 4"
  shows "length (mul_row t i x bs) = 8 \<and>
     drop (Suc i + 4) (mul_row t i x bs) = replicate (4 - Suc i) 0 \<and>
     lval (mul_row t i x bs) = lval t + 2 ^ (64 * i) * (unat x * lval bs)"
proof -
  obtain r c where r: "mac_limbs (take 4 (drop i t)) x bs 0 = (r, c)" by force
  have lr: "length (take 4 (drop i t)) = 4" using len i by simp
  from mac_limbs_val [OF _ r] lr bs have v: "length r = 4"
      "lval r + 2 ^ 256 * unat c = lval (take 4 (drop i t)) + unat x * lval bs"
    by auto
  have row: "mul_row t i x bs = take i t @ r @ [c] @ drop (i + 5) t"
    by (simp add: mul_row_def r)
  have d: "drop (i + 5) t = replicate (3 - i) 0"
    using arg_cong [OF z, of "drop 1"] by (simp add: add.commute)
  have t: "t = take i t @ take 4 (drop i t) @ replicate (4 - i) 0"
    using z by (metis add.commute append_take_drop_id drop_drop)
  have "lval t = lval (take i t) + 2 ^ (64 * i) * lval (take 4 (drop i t))"
    using len i lr by (subst t) (simp add: lval_append)
  moreover have "lval (mul_row t i x bs) = lval (take i t) + 2 ^ (64 * i) * (lval r + 2 ^ 256 * unat c)"
    using len i v(1) by (simp add: row d lval_append)
  ultimately have "lval (mul_row t i x bs) = lval t + 2 ^ (64 * i) * (unat x * lval bs)"
    by (simp only: v(2) distrib_left add.assoc)
  then show ?thesis using v(1) len i by (simp add: row d)
qed

lemma lval_take_Suc:
  "i < length xs \<Longrightarrow> lval (take (Suc i) xs) = lval (take i xs) + 2 ^ (64 * i) * unat (xs ! i)"
  by (simp add: take_Suc_conv_app_nth lval_append)

lemma mul_rows_val:
  assumes "n \<le> 4" and "length as = 4" and "length bs = 4"
  shows "let t = foldl (\<lambda>t i. mul_row t i (as ! i) bs) (replicate 8 0) [0..<n] in
     length t = 8 \<and> drop (n + 4) t = replicate (4 - n) 0 \<and> lval t = lval (take n as) * lval bs"
  using assms(1)
proof (induction n)
  case (Suc n)
  define t where "t = foldl (\<lambda>t i. mul_row t i (as ! i) bs) (replicate 8 0) [0..<n]"
  have "length t = 8" "drop (n + 4) t = replicate (4 - n) 0" "lval t = lval (take n as) * lval bs"
    using Suc by (simp_all add: t_def Let_def)
  with Suc.prems mul_row_val [of t n bs "as ! n"] assms lval_take_Suc [of n as]
  show ?case by (simp add: t_def [symmetric] Let_def algebra_simps)
qed simp

lemma mul_wide_val:
  assumes "mul_wide a b = (lo, hi)"
  shows "z256_val lo + 2 ^ 256 * z256_val hi = z256_val a * z256_val b"
proof -
  define t where "t = foldl (\<lambda>t i. mul_row t i (limbs a ! i) (limbs b)) (replicate 8 0) [0..<4]"
  have t: "length t = 8" "lval t = z256_val a * z256_val b"
    using mul_rows_val [of 4 "limbs a" "limbs b"] by (simp_all add: t_def Let_def z256_val_def)
  have "lo = z256_of (take 4 t)" "hi = z256_of (drop 4 t)"
    using assms by (simp_all add: mul_wide_def t_def Let_def)
  then have "z256_val lo + 2 ^ 256 * z256_val hi = lval (take 4 t @ drop 4 t)"
    using t(1) by (simp add: z256_val_of lval_append del: append_take_drop_id)
  with t(2) show ?thesis by simp
qed

section \<open>Comparison, selection and bits\<close>

lemma cmp_limbs_snoc:
  "length as = length bs \<Longrightarrow>
     cmp_limbs (as @ [x]) (bs @ [y]) =
       (if cmp_limbs as bs \<noteq> 0 then cmp_limbs as bs else if x > y then 1 else if x < y then -1 else 0)"
  by (induction as bs rule: list_induct2) auto

lemma limb_less: "(x::nat) < B \<Longrightarrow> X < Y \<Longrightarrow> x + B * X < y + B * Y"
proof -
  assume "x < B" "X < Y"
  then have "x + B * X < B * Suc X" by simp
  also have "\<dots> \<le> B * Y" using \<open>X < Y\<close> by (intro mult_le_mono2) simp
  finally show ?thesis by simp
qed

lemma cmp_limbs_val:
  "length xs = length ys \<Longrightarrow>
     cmp_limbs (rev xs) (rev ys) = (if lval xs > lval ys then 1 else if lval xs < lval ys then -1 else 0)"
proof (induction xs ys rule: list_induct2)
  case (Cons x xs y ys)
  have "lval xs < lval ys \<Longrightarrow> lval (x # xs) < lval (y # ys)"
    "lval ys < lval xs \<Longrightarrow> lval (y # ys) < lval (x # xs)"
    using limb_less unat_u64_less by simp_all
  with Cons show ?case
    by (cases "lval xs" "lval ys" rule: linorder_cases)
      (simp_all add: cmp_limbs_snoc word_less_nat_alt)
qed simp

lemma z256_cmp_val:
  "z256_cmp a b =
     (if z256_val a > z256_val b then 1 else if z256_val a < z256_val b then -1 else 0)"
  unfolding z256_cmp_def z256_val_def by (rule cmp_limbs_val) simp

lemma z256_cmp_ge [simp]: "0 \<le> z256_cmp a b \<longleftrightarrow> z256_val b \<le> z256_val a"
  by (simp add: z256_cmp_val)

lemma z256_is_zero_iff: "z256_is_zero a \<longleftrightarrow> z256_val a = 0"
  by (cases a) (auto simp: z256_is_zero_def word_unat_eq_iff)

lemma z256_eq_iff [simp]: "z256_eq a b \<longleftrightarrow> a = b"
  by (cases a; cases b) (simp add: z256_eq_def)

lemma xor_eq_0_word: "(x::u64) XOR y = 0 \<longleftrightarrow> x = y"
  by (auto simp: bit_eq_iff bit_xor_iff)

lemma or_eq_0_word: "(x::u64) OR y = 0 \<longleftrightarrow> x = 0 \<and> y = 0"
  by (auto simp: bit_eq_iff bit_or_iff)

text \<open>
  What the code relies on of \<open>subtle\<close>, as its documentation states it: the choices made from 0
  and 1 are closed under the connectives, select the first and the second argument, convert to
  the truth values, and are the result of comparing slices.
\<close>

definition choice_of :: "'c subtle \<Rightarrow> bool \<Rightarrow> 'c" where
  "choice_of S b = choice_from S (if b then 1 else 0)"

definition subtle_laws :: "'c subtle \<Rightarrow> bool" where
  "subtle_laws S \<longleftrightarrow>
     (\<forall>b c. choice_and S (choice_of S b) (choice_of S c) = choice_of S (b \<and> c)) \<and>
     (\<forall>b. choice_not S (choice_of S b) = choice_of S (\<not> b)) \<and>
     (\<forall>x y b. u64_select S x y (choice_of S b) = (if b then y else x)) \<and>
     (\<forall>b. choice_into S (choice_of S b) = b) \<and>
     (\<forall>xs ys. bytes_ct_eq S xs ys = choice_of S (xs = ys))"

definition subtle_bool :: "bool subtle" where
  "subtle_bool = \<lparr>choice_from = (\<lambda>b. b = 1), choice_and = (\<and>), choice_not = Not,
     u64_select = (\<lambda>x y c. if c then y else x), choice_into = (\<lambda>c. c), bytes_ct_eq = (=)\<rparr>"

lemma subtle_bool_laws: "subtle_laws subtle_bool"
  by (auto simp: subtle_laws_def subtle_bool_def choice_of_def)

lemma z256_ct_eq_choice: "z256_ct_eq S a b = choice_of S (a = b)"
  by (cases a; cases b)
    (auto simp: z256_ct_eq_def choice_of_def Let_def or_eq_0_word xor_eq_0_word)

lemma z256_ct_select_choice:
  "subtle_laws S \<Longrightarrow> z256_ct_select S a b (choice_of S c) = (if c then b else a)"
  by (cases a; cases b) (simp add: z256_ct_select_def subtle_laws_def z256_of_def)

lemma z256_conditional_select_eq [simp]:
  "z256_conditional_select a b choice = (if choice \<noteq> 0 then b else a)"
  by (cases a; cases b) (simp add: z256_conditional_select_def ct_mask_def z256_of_def)

lemma ccopy_eq: "ccopy dst src copy = (if copy \<noteq> 0 then src else dst)"
  by (cases dst; cases src) (simp add: ccopy_def ct_mask_def z256_of_def)

lemma cswap_eq: "cswap a b swap = (if swap \<noteq> 0 then (b, a) else (a, b))"
proof -
  have x: "x XOR (x XOR y) = y" "y XOR (x XOR y) = x" for x y :: u64
    by (auto simp: bit_eq_iff bit_xor_iff)
  show ?thesis
    by (cases a; cases b) (simp add: cswap_def ct_mask_def z256_of_def x)
qed

lemma bit_lval: "n < 64 * length xs \<Longrightarrow> bit (lval xs) n \<longleftrightarrow> bit (xs ! (n div 64)) (n mod 64)"
proof (induction xs arbitrary: n)
  case (Cons x xs)
  have "lval (x # xs) = unat x + push_bit 64 (lval xs)"
    by (simp add: push_bit_eq_mult mult.commute)
  also have "\<dots> = unat x OR push_bit 64 (lval xs)"
  proof (rule disjunctive_add)
    fix k
    show "\<not> bit (unat x) k \<or> \<not> bit (push_bit 64 (lval xs)) k"
      using bit_imp_le_length [of x k] by (auto simp: bit_push_bit_iff bit_unsigned_iff)
  qed
  finally have b: "bit (lval (x # xs)) n \<longleftrightarrow> bit x n \<or> 64 \<le> n \<and> bit (lval xs) (n - 64)"
    using bit_imp_le_length [of x n]
    by (auto simp: bit_or_iff bit_push_bit_iff bit_unsigned_iff)
  show ?case
  proof (cases "n < 64")
    case False
    then have "n div 64 = Suc ((n - 64) div 64)" "n mod 64 = (n - 64) mod 64"
      by (simp_all add: le_div_geq le_mod_geq)
    with False b Cons.IH [of "n - 64"] Cons.prems bit_imp_le_length [of x n] show ?thesis by auto
  qed (use b in simp)
qed simp

lemma choice_from_bit: "choice_from S (ucast (drop_bit k (w::u64) AND 1)) = choice_of S (bit w k)"
proof -
  have "drop_bit k w AND 1 = of_bool (bit w k)"
    by (simp only: and_one_eq mod_2_eq_odd bit_iff_odd_drop_bit)
  then show ?thesis by (cases "bit w k") (simp_all add: choice_of_def)
qed

lemma z256_ct_bit_val: "z256_ct_bit S a n = choice_of S (n < 256 \<and> bit (z256_val a) n)"
proof (cases "n < 256")
  case True
  then have "n div 64 < 4" by (simp add: less_mult_imp_div_less)
  then show ?thesis
    using True bit_lval [of n "limbs a"]
    by (simp add: z256_ct_bit_def Let_def z256_val_def choice_from_bit)
next
  case False
  then have "\<not> n div 64 < 4" by (simp add: div_less_iff_less_mult)
  then show ?thesis using False by (simp add: z256_ct_bit_def choice_of_def)
qed

section \<open>Byte conversion\<close>

lemma z256_to_bytes_be_val: "z256_to_bytes_be a = nat_to_be 32 (z256_val a)"
proof (rule nat_of_be_inj)
  show "nat_of_be (z256_to_bytes_be a) = nat_of_be (nat_to_be 32 (z256_val a))"
  proof (cases a)
    case (Z256 a0 a1 a2 a3)
    have u: "nat_of_be (u64_to_be w) = unat w" for w
      using unat_u64_less [of w] by (simp add: u64_to_be_def nat_of_be_to_be)
    have "nat_of_be (z256_to_bytes_be a) = z256_val a"
      by (simp add: Z256 z256_to_bytes_be_def nat_of_be_append u)
    with z256_val_bound [of a] show ?thesis by (simp add: nat_of_be_to_be)
  qed
qed (simp add: z256_to_bytes_be_def)

lemma unat_u64_from_be: "length bs = 8 \<Longrightarrow> unat (u64_from_be bs) = nat_of_be bs"
  using nat_of_be_bound [of bs] by (simp add: u64_from_be_def unat_of_nat)

lemma nat_of_be_zeros: "nat_of_be (replicate n 0 @ bs) = nat_of_be bs"
  by (induction n) (simp_all add: nat_of_be_Cons)

lemma nat_of_be_32:
  assumes "length bs = 32"
  shows "nat_of_be bs = nat_of_be (take 8 (drop 24 bs)) + 2 ^ 64 * (nat_of_be (take 8 (drop 16 bs)) +
     2 ^ 64 * (nat_of_be (take 8 (drop 8 bs)) + 2 ^ 64 * nat_of_be (take 8 bs)))"
proof -
  have d: "drop 8 (drop 16 bs) = drop 24 bs" "drop 8 (drop 8 bs) = drop 16 bs"
    by simp_all
  have "bs = take 8 bs @ take 8 (drop 8 bs) @ take 8 (drop 16 bs) @ take 8 (drop 24 bs)"
    using assms append_take_drop_id [of 8 bs] append_take_drop_id [of 8 "drop 8 bs"]
      append_take_drop_id [of 8 "drop 16 bs"] by (simp add: d)
  then have "nat_of_be bs =
      nat_of_be (take 8 bs @ take 8 (drop 8 bs) @ take 8 (drop 16 bs) @ take 8 (drop 24 bs))"
    by (rule arg_cong)
  also have "\<dots> = nat_of_be (take 8 (drop 24 bs)) + 2 ^ 64 * (nat_of_be (take 8 (drop 16 bs)) +
     2 ^ 64 * (nat_of_be (take 8 (drop 8 bs)) + 2 ^ 64 * nat_of_be (take 8 bs)))"
    unfolding nat_of_be_append using assms by simp
  finally show ?thesis .
qed

lemma z256_from_bytes_be_val:
  assumes "length bs \<le> 32"
  shows "\<exists>a. z256_from_bytes_be bs = Some a \<and> z256_val a = nat_of_be bs"
proof -
  define padded where "padded = replicate (32 - length bs) 0 @ bs"
  have len: "length padded = 32" using assms by (simp add: padded_def)
  have v: "nat_of_be padded = nat_of_be bs"
    unfolding padded_def by (rule nat_of_be_zeros)
  have u: "unat (u64_from_be (take 8 (drop k padded))) = nat_of_be (take 8 (drop k padded))"
    if "k \<le> 24" for k
    using that len by (intro unat_u64_from_be) simp
  have "z256_from_bytes_be bs = Some (Z256 (u64_from_be (take 8 (drop 24 padded)))
      (u64_from_be (take 8 (drop 16 padded))) (u64_from_be (take 8 (drop 8 padded)))
      (u64_from_be (take 8 padded)))"
    using assms by (simp add: z256_from_bytes_be_def Let_def padded_def)
  moreover have "z256_val (Z256 (u64_from_be (take 8 (drop 24 padded)))
      (u64_from_be (take 8 (drop 16 padded))) (u64_from_be (take 8 (drop 8 padded)))
      (u64_from_be (take 8 padded))) = nat_of_be padded"
    using u [of 0] u [of 8] u [of 16] u [of 24] nat_of_be_32 [OF len] by simp
  ultimately show ?thesis using v by auto
qed

lemma z256_from_to_bytes_be: "z256_from_bytes_be (z256_to_bytes_be a) = Some a"
proof -
  obtain b where "z256_from_bytes_be (z256_to_bytes_be a) = Some b"
      "z256_val b = nat_of_be (z256_to_bytes_be a)"
    using z256_from_bytes_be_val [of "z256_to_bytes_be a"] by (auto simp: z256_to_bytes_be_def)
  then show ?thesis
    using z256_val_bound [of a] z256_val_inj
    by (simp add: z256_to_bytes_be_val nat_of_be_to_be)
qed

section \<open>Shift and bit length\<close>

lemma unat_shr1_or:
  "unat (drop_bit 1 x OR push_bit 63 (y::u64)) = unat x div 2 + 2 ^ 63 * (unat y mod 2)"
proof -
  have or: "drop_bit 1 x OR push_bit 63 y = drop_bit 1 x + push_bit 63 y"
  proof (rule disjunctive_add [symmetric])
    fix k
    show "\<not> bit (drop_bit 1 x) k \<or> \<not> bit (push_bit 63 y) k"
      using bit_imp_le_length [of x "1 + k"] by (auto simp: bit_drop_bit_eq bit_push_bit_iff)
  qed
  have d: "unat (drop_bit 1 x) = unat x div 2"
    using unat_drop_bit_eq [of 1 x] by (simp add: drop_bit_eq_div)
  have "unat (push_bit 63 y) = (unat y * 2 ^ 63) mod (2 * 2 ^ 63)"
    by (simp add: push_bit_eq_mult unat_word_ariths(2))
  then have p: "unat (push_bit 63 y) = 2 ^ 63 * (unat y mod 2)"
    by (simp add: mult_mod_left mult.commute)
  have "unat x div 2 < 2 ^ 63"
    using unat_u64_less [of x] by (intro less_mult_imp_div_less) simp
  moreover have "2 ^ 63 * (unat y mod 2) \<le> 2 ^ 63 * 1" by (intro mult_le_mono2) simp
  ultimately have "unat x div 2 + 2 ^ 63 * (unat y mod 2) < 2 ^ LENGTH(64)" by simp
  then show ?thesis by (simp only: or unat_word_ariths(1) d p mod_less)
qed

lemma push_bit_63_and_1: "push_bit 63 ((y::u64) AND 1) = push_bit 63 y"
proof -
  have "y AND 1 = of_bool (odd y)" by (simp only: and_one_eq mod_2_eq_odd)
  moreover have "bit (push_bit 63 (of_bool (odd y) :: u64)) n = bit (push_bit 63 y) n"
    if "n < 64" for n
    using that by (cases "n = 63") (auto simp: bit_push_bit_iff bit_0)
  ultimately show ?thesis by (intro bit_word_eqI) simp
qed

text \<open>A right shift by one, limb by limb: each limb takes in the lowest bit of the next.\<close>

fun shr1_limbs :: "u64 list \<Rightarrow> u64 list" where
  "shr1_limbs [] = []"
| "shr1_limbs [x] = [drop_bit 1 x]"
| "shr1_limbs (x # y # ys) = (drop_bit 1 x OR push_bit 63 y) # shr1_limbs (y # ys)"

lemma length_shr1_limbs [simp]: "length (shr1_limbs xs) = length xs"
  by (induction xs rule: shr1_limbs.induct) auto

lemma lval_parity: "lval (x # xs) mod 2 = unat x mod 2"
proof -
  have "(unat x + 2 * (2 ^ 63 * lval xs)) mod 2 = unat x mod 2" by (rule mod_mult_self2)
  then show ?thesis by (simp add: mult.assoc [symmetric])
qed

lemma lval_half: "lval (x # xs) div 2 = unat x div 2 + 2 ^ 63 * lval xs"
proof -
  have "(unat x + 2 * (2 ^ 63 * lval xs)) div 2 = 2 ^ 63 * lval xs + unat x div 2"
    by (rule div_mult_self2) simp
  then show ?thesis by (simp add: mult.assoc [symmetric])
qed

lemma lval_shr1_limbs: "lval (shr1_limbs xs) = lval xs div 2"
proof (induction xs rule: shr1_limbs.induct)
  case (2 x)
  show ?case using unat_drop_bit_eq [of 1 x] by (simp add: drop_bit_eq_div)
next
  case (3 x y ys)
  define v where "v = lval (y # ys)"
  have "lval (shr1_limbs (x # y # ys)) = unat x div 2 + 2 ^ 63 * (unat y mod 2) + 2 ^ 64 * (v div 2)"
    unfolding v_def using 3 by (simp only: shr1_limbs.simps lval.simps(2) unat_shr1_or)
  also have "unat y mod 2 = v mod 2" unfolding v_def by (rule lval_parity [symmetric])
  also have "unat x div 2 + 2 ^ 63 * (v mod 2) + 2 ^ 64 * (v div 2) =
      unat x div 2 + 2 ^ 63 * (v mod 2 + 2 * (v div 2))" by (simp only: distrib_left) simp
  also have "v mod 2 + 2 * (v div 2) = v" by (rule mod_mult_div_eq)
  also have "unat x div 2 + 2 ^ 63 * v = lval (x # y # ys) div 2" unfolding v_def by (rule lval_half [symmetric])
  finally show ?case .
qed simp

lemma z256_shr1_limbs: "z256_shr1 a = z256_of (shr1_limbs (limbs a))"
  by (cases a)
    (simp only: z256_shr1_def Z256.case push_bit_63_and_1 limbs.simps shr1_limbs.simps z256_of_def, simp)

lemma z256_shr1_val: "z256_val (z256_shr1 a) = z256_val a div 2"
  by (simp add: z256_shr1_limbs z256_val_of lval_shr1_limbs) (simp add: z256_val_def)

lemma bit_len_bounds: "n < 2 ^ bit_len n \<and> (n \<noteq> 0 \<longrightarrow> 2 ^ (bit_len n - 1) \<le> n)"
proof (induction n rule: bit_len.induct)
  case (1 n)
  show ?case
  proof (cases "n = 0")
    case False
    then have IH: "n div 2 < 2 ^ bit_len (n div 2)"
        "n div 2 \<noteq> 0 \<longrightarrow> 2 ^ (bit_len (n div 2) - 1) \<le> n div 2"
      and e: "bit_len n = Suc (bit_len (n div 2))"
      using 1 by (auto simp: bit_len.simps [of n])
    have "n < 2 ^ bit_len n" using IH(1) e by simp
    moreover have "2 ^ (bit_len n - 1) \<le> n"
    proof (cases "n div 2 = 0")
      case True
      with False e show ?thesis by (simp add: bit_len.simps [of 0])
    next
      case nz: False
      then have "bit_len (n div 2) = Suc (bit_len (n div 2) - 1)" by (simp add: bit_len.simps [of "n div 2"])
      then have "(2::nat) ^ bit_len (n div 2) = 2 * 2 ^ (bit_len (n div 2) - 1)"
        by (metis power_Suc)
      also have "\<dots> \<le> 2 * (n div 2)" using IH(2) nz by simp
      also have "\<dots> \<le> n" by simp
      finally show ?thesis using e by simp
    qed
    ultimately show ?thesis by simp
  qed (simp add: bit_len.simps)
qed

lemma bit_len_unique: "n < 2 ^ k \<Longrightarrow> k = 0 \<or> 2 ^ (k - 1) \<le> n \<Longrightarrow> bit_len n = k"
proof (induction k arbitrary: n)
  case (Suc k)
  show ?case
  proof (cases k)
    case 0
    with Suc.prems have "n = 1" by simp
    then show ?thesis using 0 by (simp add: bit_len.simps)
  next
    case (Suc j)
    with Suc.prems have "n \<noteq> 0" "n div 2 < 2 ^ k" "2 ^ (k - 1) \<le> n div 2" by auto
    with Suc.IH [of "n div 2"] show ?thesis by (simp add: bit_len.simps [of n])
  qed
qed (simp add: bit_len.simps)

lemma bits_loop_val: "bits_loop (rev xs) = bit_len (lval xs)"
proof (induction xs rule: rev_induct)
  case (snoc x xs)
  show ?case
  proof (cases "x = 0")
    case False
    have ux: "unat x < 2 ^ bit_len (unat x)" "2 ^ (bit_len (unat x) - 1) \<le> unat x" "unat x \<noteq> 0"
      using bit_len_bounds [of "unat x"] False by (auto simp: word_unat_eq_iff)
    define k where "k = bit_len (unat x)"
    have k: "k \<noteq> 0" using ux(3) by (simp add: k_def bit_len.simps)
    have "\<not> 64 < k"
    proof
      assume "64 < k"
      then have "(2::nat) ^ 64 \<le> 2 ^ (k - 1)" by (intro power_increasing) simp_all
      with ux(2) unat_u64_less [of x] show False by (simp add: k_def)
    qed
    moreover have "bit_len (lval (xs @ [x])) = 64 * length xs + k"
    proof (rule bit_len_unique)
      have "lval xs + 2 ^ (64 * length xs) * unat x < 2 ^ (64 * length xs) * Suc (unat x)"
        using lval_bound [of xs] by simp
      also have "\<dots> \<le> 2 ^ (64 * length xs) * 2 ^ k"
        using ux(1) by (intro mult_le_mono2) (simp add: k_def)
      finally show "lval (xs @ [x]) < 2 ^ (64 * length xs + k)" by (simp add: lval_append power_add)
      have "2 ^ (64 * length xs + k - 1) = 2 ^ (64 * length xs) * (2::nat) ^ (k - 1)"
        using k by (simp add: power_add [symmetric])
      also have "\<dots> \<le> 2 ^ (64 * length xs) * unat x" using ux(2) by (simp add: k_def)
      finally show "64 * length xs + k = 0 \<or> 2 ^ (64 * length xs + k - 1) \<le> lval (xs @ [x])"
        by (simp add: lval_append)
    qed
    ultimately show ?thesis using False by (simp add: leading_zeros_def k_def)
  qed (use snoc in \<open>simp add: lval_append\<close>)
qed (simp add: bit_len.simps)

lemma z256_bits_val: "z256_bits a = bit_len (z256_val a)"
  by (simp add: z256_bits_def z256_val_def bits_loop_val)

section \<open>Properties\<close>

text \<open>
  C36. The limb loops are exact integer arithmetic on four 64-bit limbs: addition with its carry,
  subtraction with its borrow, the double-width product, the comparison and the halving.
\<close>

theorem z256_arith_exact:
  "(case add_with_carry a b of (r, c) \<Rightarrow>
      z256_val r + 2 ^ 256 * unat c = z256_val a + z256_val b \<and> c \<in> {0, 1}) \<and>
   (case sub_with_borrow a b of (r, c) \<Rightarrow>
      z256_val r + z256_val b = z256_val a + 2 ^ 256 * unat c \<and> c = (if z256_val a < z256_val b then 1 else 0)) \<and>
   (case mul_wide a b of (lo, hi) \<Rightarrow> z256_val lo + 2 ^ 256 * z256_val hi = z256_val a * z256_val b) \<and>
   z256_cmp a b = sgn (int (z256_val a) - int (z256_val b)) \<and>
   z256_val (z256_shr1 a) = z256_val a div 2"
proof (intro conjI)
  show "case add_with_carry a b of (r, c) \<Rightarrow>
      z256_val r + 2 ^ 256 * unat c = z256_val a + z256_val b \<and> c \<in> {0, 1}"
    using add_with_carry_val [of a b] flag_cases by (auto split: prod.split)
  show "case sub_with_borrow a b of (r, c) \<Rightarrow>
      z256_val r + z256_val b = z256_val a + 2 ^ 256 * unat c \<and> c = (if z256_val a < z256_val b then 1 else 0)"
    using sub_with_borrow_val [of a b] sub_with_borrow_cases [of a b] by (fastforce split: prod.split)
  show "case mul_wide a b of (lo, hi) \<Rightarrow> z256_val lo + 2 ^ 256 * z256_val hi = z256_val a * z256_val b"
    using mul_wide_val [of a b] by (auto split: prod.split)
  show "z256_cmp a b = sgn (int (z256_val a) - int (z256_val b))"
    by (simp add: z256_cmp_val)
  show "z256_val (z256_shr1 a) = z256_val a div 2"
    by (rule z256_shr1_val)
qed

text \<open>
  The big-endian byte encoding of a 256-bit integer is 32 bytes of its value, it is inverted
  by the decoder, and the decoder reads any string of up to 32 bytes as the number it spells.
\<close>

theorem z256_bytes_be_exact:
  "length (z256_to_bytes_be a) = 32 \<and> nat_of_be (z256_to_bytes_be a) = z256_val a \<and>
   z256_from_bytes_be (z256_to_bytes_be a) = Some a \<and>
   (length bs \<le> 32 \<longrightarrow> (\<exists>x. z256_from_bytes_be bs = Some x \<and> z256_val x = nat_of_be bs))"
  using z256_from_to_bytes_be z256_from_bytes_be_val z256_val_bound [of a]
  by (simp add: z256_to_bytes_be_val nat_of_be_to_be)

theorem z256_bytes_be_exact_witness:
  "\<exists>x. z256_from_bytes_be [1, 2] = Some x \<and> z256_val x = nat_of_be [1, 2]"
  using z256_bytes_be_exact [of z256_zero "[1, 2]"] by simp

text \<open>
  The branch-free operations compute what they say: selection, swap and copy by a flag byte
  choose by whether the flag is zero; the constant-time bit and equality tests give the choice of
  the bit and of the equality of the values, and selection by such a choice takes the second
  argument exactly when it is true. The bit count is the position of the highest bit.
\<close>

theorem z256_select_bits_exact:
  assumes "subtle_laws S"
  shows "z256_conditional_select a b c = (if c \<noteq> 0 then b else a) \<and>
     cswap a b c = (if c \<noteq> 0 then (b, a) else (a, b)) \<and>
     ccopy a b c = (if c \<noteq> 0 then b else a) \<and>
     z256_ct_select S a b (z256_ct_eq S x y) = (if z256_val x = z256_val y then b else a) \<and>
     z256_ct_select S a b (z256_ct_bit S x n) = (if n < 256 \<and> bit (z256_val x) n then b else a) \<and>
     z256_val a < 2 ^ z256_bits a \<and> (z256_val a = 0 \<or> 2 ^ (z256_bits a - 1) \<le> z256_val a)"
  using bit_len_bounds [of "z256_val a"] z256_val_inj
  by (auto simp: cswap_eq ccopy_eq z256_ct_bit_val z256_ct_eq_choice z256_ct_select_choice [OF assms]
      z256_bits_val)

theorem z256_select_bits_exact_witness:
  "z256_ct_select subtle_bool z256_one z256_P (z256_ct_bit subtle_bool z256_N 7) =
     (if (7::nat) < 256 \<and> bit (z256_val z256_N) 7 then z256_P else z256_one)"
  using z256_select_bits_exact [OF subtle_bool_laws, of z256_one z256_P 0 z256_N z256_N 7] by blast

end
