(* ===== verification/Sm9_Reduce.thy ===== *)
theory Sm9_Reduce
  imports Sm9_Z256
begin

text \<open>
  Modular reduction on 256-bit integers, the second half of \<open>gm-sm9-rs/src/arith/z256.rs\<close>:
  Barrett reduction of 512-bit products for the two SM9 moduli, the schoolbook fallback for
  any other modulus, modular multiplication, $2^{256}$ modulo m, and modular subtraction.
  A loop whose end depends on the modulus is a \<open>partial_function\<close>, so that a panic and
  an endless loop are both \<open>None\<close>; the theorems prove that a value is returned and which.
\<close>

section \<open>Reduction\<close>

text \<open>
  The Barrett branch of \<open>mod_reduce_512\<close> in its three parts: the quotient (steps 1 to 5), its
  product with the modulus (step 6), and the remainder with its corrections (step 7 on). \<open>None\<close>
  is a failed \<open>debug_assert\<close>.
\<close>

definition barrett_quotient :: "Z256 \<Rightarrow> Z256 \<Rightarrow> Z256 \<Rightarrow> Z256 \<times> u64" where
  "barrett_quotient low high mu_low =
     (let (hmu_lo, hmu_hi) = mul_wide high mu_low;
          (mid_lo, mid_carry) = add_with_carry hmu_lo low;
          (_, lmu_hi) = mul_wide low mu_low;
          (_, last_carry) = add_with_carry mid_lo lmu_hi;
          (q_lo1, carry1) = add_with_carry high hmu_hi;
          (q_lo2, carry2) = add_with_carry q_lo1 (Z256 mid_carry 0 0 0);
          (q_lo, carry3) = add_with_carry q_lo2 (Z256 last_carry 0 0 0)
      in (q_lo, carry1 + carry2 + carry3))"

definition barrett_product :: "Z256 \<Rightarrow> u64 \<Rightarrow> Z256 \<Rightarrow> Z256 \<times> Z256 \<times> u64" where
  "barrett_product q_lo q_hi m =
     (let (qm_lo, qm_hi) = mul_wide q_lo m;
          (qm_hi_final, qm_overflow) = (if q_hi \<noteq> 0 then add_with_carry qm_hi m else (qm_hi, 0))
      in (qm_lo, qm_hi_final, qm_overflow))"

definition barrett_remainder :: "Z256 \<Rightarrow> Z256 \<Rightarrow> Z256 \<Rightarrow> Z256 \<Rightarrow> Z256 \<Rightarrow> Z256 option" where
  "barrett_remainder low high qm_lo qm_hi_final m =
     (let (r_lo1, borrow1) = sub_with_borrow low qm_lo;
          (r_hi1, borrow2) = sub_with_borrow high qm_hi_final;
          (r_hi2, borrow3) = sub_with_borrow r_hi1 (Z256 borrow1 0 0 0);
          total_borrow = borrow2 + borrow3;
          (r_hi, r_lo) =
            (if total_borrow \<noteq> 0 then
               let (sum_lo, carry) = add_with_carry r_lo1 m;
                   (sum_hi, _) = add_with_carry r_hi2 (Z256 carry 0 0 0)
               in (sum_hi, sum_lo)
             else (r_hi2, r_lo1));
          r_ge_m = (\<not> z256_is_zero r_hi \<or> z256_cmp r_lo m \<ge> 0)
      in if r_ge_m then
           let (diff_lo, borrow) = sub_with_borrow r_lo m;
               (diff_hi, _) = sub_with_borrow r_hi (Z256 borrow 0 0 0)
           in if z256_is_zero diff_hi then Some diff_lo else None
         else Some r_lo)"

definition barrett_512 :: "Z256 \<Rightarrow> Z256 \<Rightarrow> Z256 \<Rightarrow> Z256 \<Rightarrow> Z256 option" where
  "barrett_512 low high m mu_low =
     (let (q_lo, q_hi) = barrett_quotient low high mu_low;
          (qm_lo, qm_hi_final, qm_overflow) = barrett_product q_lo q_hi m
      in if qm_overflow \<noteq> 0 then None else barrett_remainder low high qm_lo qm_hi_final m)"

text \<open>
  The schoolbook fallback. The remainder is a list of five limbs; \<open>None\<close> is a panic (division
  by a zero top limb) or a loop that does not end.
\<close>

fun lt_limbs :: "u64 list \<Rightarrow> u64 list \<Rightarrow> bool" where
  "lt_limbs (a # as) (b # bs) = (if a < b then True else if a > b then False else lt_limbs as bs)"
| "lt_limbs _ _ = False"

fun ge_limbs :: "u64 list \<Rightarrow> u64 list \<Rightarrow> bool" where
  "ge_limbs (a # as) (b # bs) = (if a > b then True else if a < b then False else ge_limbs as bs)"
| "ge_limbs _ _ = True"

fun qm_limbs :: "u64 \<Rightarrow> u64 list \<Rightarrow> u128 \<Rightarrow> u64 list" where
  "qm_limbs q [] carry = [ucast carry]"
| "qm_limbs q (m # ms) carry =
     (let prod = (ucast q :: u128) * ucast m + carry
      in ucast prod # qm_limbs q ms (drop_bit 64 prod))"

definition q_estimate :: "u64 list \<Rightarrow> u64 \<Rightarrow> u64" where
  "q_estimate rm m3 =
     (let q_est :: u128 =
            (if rm ! 4 > 0 then (push_bit 64 (ucast (rm ! 4)) OR ucast (rm ! 3)) div ucast m3
             else ucast (rm ! 3) div ucast m3)
      in if q_est > 0xFFFFFFFFFFFFFFFF then - 1 else ucast q_est)"

function sub_multiple :: "u64 \<Rightarrow> u64 list \<Rightarrow> u64 list \<Rightarrow> u64 list option" where
  "sub_multiple q rm ms =
     (let qm = qm_limbs q ms 0
      in if ge_limbs (rev rm) (rev qm) then Some (fst (sub_limbs rm qm 0))
         else if q = 0 then None
         else if q - 1 = 0 then Some rm
         else sub_multiple (q - 1) rm ms)"
  by pat_completeness auto
termination
  by (relation "measure (\<lambda>(q, rm, ms). unat q)") (auto simp: unat_sub_if' word_unat_eq_iff)

declare sub_multiple.simps [simp del]

partial_function (option) sub_while_ge :: "u64 list \<Rightarrow> u64 list \<Rightarrow> u64 list option" where
  "sub_while_ge rm ms =
     (if rm ! 4 > 0 \<or> rm ! 3 \<ge> ms ! 3 \<and> ge_limbs (rev (take 4 rm)) (rev ms)
      then sub_while_ge (fst (sub_limbs rm (ms @ [0]) 0)) ms
      else Some rm)"

definition schoolbook_step :: "u64 list \<Rightarrow> u64 list \<Rightarrow> u64 \<Rightarrow> u64 list option" where
  "schoolbook_step ms rem0 limb =
     (let rm = limb # take 4 rem0
      in if rm ! 4 = 0 \<and>
            (rm ! 3 < ms ! 3 \<or> rm ! 3 = ms ! 3 \<and> lt_limbs (rev (take 3 rm)) (rev (take 3 ms)))
         then Some rm
         else if ms ! 3 = 0 then None
         else Option.bind (sub_multiple (q_estimate rm (ms ! 3)) rm ms) (\<lambda>rm'. sub_while_ge rm' ms))"

fun schoolbook_loop :: "u64 list \<Rightarrow> u64 list \<Rightarrow> u64 list \<Rightarrow> u64 list option" where
  "schoolbook_loop ms rm [] = Some rm"
| "schoolbook_loop ms rm (limb # ls) =
     Option.bind (schoolbook_step ms rm limb) (\<lambda>rm'. schoolbook_loop ms rm' ls)"

definition mod_reduce_512_schoolbook :: "Z256 \<Rightarrow> Z256 \<Rightarrow> Z256 \<Rightarrow> Z256 option" where
  "mod_reduce_512_schoolbook low high m =
     map_option z256_of
       (schoolbook_loop (limbs m) (replicate 5 0) (rev (limbs high) @ rev (limbs low)))"

definition mod_reduce_512 :: "Z256 \<Rightarrow> Z256 \<Rightarrow> Z256 \<Rightarrow> Z256 option" where
  "mod_reduce_512 low high m =
     (if z256_eq m z256_N then barrett_512 low high m MU_N_LOW
      else if z256_eq m z256_P then barrett_512 low high m MU_P_LOW
      else mod_reduce_512_schoolbook low high m)"

partial_function (option) modmul_loop :: "Z256 \<Rightarrow> Z256 \<Rightarrow> Z256 option" where
  "modmul_loop result m =
     (if z256_cmp result m \<ge> 0 then
        (case sub_with_borrow result m of (diff, borrow) \<Rightarrow>
           if borrow = 0 then modmul_loop diff m else Some result)
      else Some result)"

definition modmul :: "Z256 \<Rightarrow> Z256 \<Rightarrow> Z256 \<Rightarrow> Z256 option" where
  "modmul a b m =
     (let (low, high) = mul_wide a b
      in if z256_is_zero high then modmul_loop low m else mod_reduce_512 low high m)"

definition double_mod_step :: "Z256 \<Rightarrow> Z256 \<Rightarrow> Z256" where
  "double_mod_step m r =
     (let (r_doubled, carry) = add_with_carry r r
      in if carry \<noteq> 0 \<or> z256_cmp r_doubled m \<ge> 0 then fst (sub_with_borrow r_doubled m)
         else r_doubled)"

definition compute_2_256_mod_m :: "Z256 \<Rightarrow> Z256" where
  "compute_2_256_mod_m m = (double_mod_step m ^^ 256) z256_one"

definition sub_mod :: "Z256 \<Rightarrow> Z256 \<Rightarrow> Z256 \<Rightarrow> Z256" where
  "sub_mod a b m =
     (let (diff, borrow) = sub_with_borrow a b
      in if borrow \<noteq> 0 then fst (add_with_carry diff m) else diff)"

section \<open>Barrett reduction\<close>

text \<open>The radix $2^{256}$, kept folded in the proofs.\<close>

definition radix :: nat where
  "radix = 2 ^ 256"

lemma radix_pos [simp]: "0 < radix"
  by (simp add: radix_def)

lemmas val_less = z256_val_bound [folded radix_def]
lemmas add_val = add_with_carry_val(1) [folded radix_def] 
lemmas sub_val = sub_with_borrow_val(1) [folded radix_def]
lemmas sub_cases = sub_with_borrow_cases [folded radix_def]
lemmas mul_val = mul_wide_val [folded radix_def]

text \<open>The quotient is exactly the integer part of the product with the reciprocal.\<close>

lemma barrett_quotient_nat:
  fixes R :: nat
  assumes "hl + R * hh = high * mu" "ml + R * mc = hl + low" "ll + R * lh = low * mu"
    "la + R * lc = ml + lh" "ll < R" "la < R"
  shows "(high * R + low) * (R + mu) div (R * R) = high + hh + mc + lc"
proof -
  have "(high * R + low) * (R + mu) = R * R * high + R * (high * mu + low) + low * mu"
    by (simp add: algebra_simps)
  also have "high * mu + low = R * hh + (ml + R * mc)" using assms(1,2) by linarith
  also have "low * mu = ll + R * lh" using assms(3) by simp
  also have "R * R * high + R * (R * hh + (ml + R * mc)) + (ll + R * lh) =
      R * R * (high + hh + mc) + R * (ml + lh) + ll" by (simp add: algebra_simps)
  also have "\<dots> = R * R * (high + hh + mc + lc) + (R * la + ll)"
    using assms(4) [symmetric] by (simp add: algebra_simps)
  finally have "(high * R + low) * (R + mu) = R * R * (high + hh + mc + lc) + (R * la + ll)" .
  moreover have "R * la + ll < R * R"
  proof -
    have "R * la + ll < R * Suc la" using assms(5) by simp
    also have "\<dots> \<le> R * R" using assms(6) by (intro mult_le_mono2) simp
    finally show ?thesis .
  qed
  moreover have "R \<noteq> 0" using assms(5) by simp
  ultimately show ?thesis by simp
qed

text \<open>With an exact reciprocal the estimate is at most one too small.\<close>

lemma barrett_estimate_nat:
  fixes x m S :: nat
  assumes "x < S" "0 < m" "q = x * (S div m) div S"
  shows "q * m \<le> x" "x < (q + 2) * m"
proof -
  have S: "0 < S" using assms(1) by simp
  have "q * m * S = (q * S) * m" by simp
  also have "\<dots> \<le> x * (S div m) * m" using assms(3) by (simp add: div_times_less_eq_dividend)
  also have "\<dots> \<le> x * S" using div_times_less_eq_dividend [of S m] by (simp add: mult.assoc)
  finally show "q * m \<le> x" using S by simp
  have "S < (S div m + 1) * m"
    using assms(2) by (metis Suc_eq_plus1 dividend_less_div_times mult.commute mult_Suc_right)
  then have "x * S \<le> x * ((S div m + 1) * m)" by (intro mult_le_mono2) simp
  also have "\<dots> = (x * (S div m)) * m + x * m" by (simp add: algebra_simps)
  also have "\<dots> < ((q + 1) * S) * m + S * m"
  proof (rule add_strict_mono)
    have "x * (S div m) < S * (x * (S div m) div S) + S"
      by (metis S add.commute dividend_less_times_div)
    then have "x * (S div m) < (q + 1) * S" using assms(3) by (simp add: algebra_simps)
    then show "x * (S div m) * m < (q + 1) * S * m" using assms(2) by (rule mult_strict_right_mono)
    show "x * m < S * m" using assms(1,2) by simp
  qed
  also have "\<dots> = (q + 2) * m * S" by (simp add: algebra_simps)
  finally show "x < (q + 2) * m" by simp
qed

lemma barrett_quotient_val:
  assumes "barrett_quotient low high mu = (q_lo, q_hi)"
  shows "z256_val q_lo + radix * unat q_hi =
     (z256_val high * radix + z256_val low) * (radix + z256_val mu) div (radix * radix)"
proof -
  obtain hl hh where hm: "mul_wide high mu = (hl, hh)" by force
  obtain ml mc where mid: "add_with_carry hl low = (ml, mc)" by force
  obtain ll lh where lm: "mul_wide low mu = (ll, lh)" by force
  obtain la lc where last: "add_with_carry ml lh = (la, lc)" by force
  obtain q1 c1 where q1: "add_with_carry high hh = (q1, c1)" by force
  obtain q2 c2 where q2: "add_with_carry q1 (Z256 mc 0 0 0) = (q2, c2)" by force
  obtain c3 where q3: "add_with_carry q2 (Z256 lc 0 0 0) = (q_lo, c3)" and hi: "q_hi = c1 + c2 + c3"
    using assms by (auto simp: barrett_quotient_def Let_def hm mid lm last q1 q2 split: prod.splits)
  have "c1 = 0 \<or> c1 = 1" "c2 = 0 \<or> c2 = 1" "c3 = 0 \<or> c3 = 1"
    using add_with_carry_cases q1 q2 q3 by blast+
  then have "unat q_hi = unat c1 + unat c2 + unat c3" using hi by auto
  moreover have "(z256_val high * radix + z256_val low) * (radix + z256_val mu) div (radix * radix) =
      z256_val high + z256_val hh + unat mc + unat lc"
    using mul_val [OF hm] add_val [OF mid] mul_val [OF lm] add_val [OF last] val_less
    by (intro barrett_quotient_nat)
  moreover note add_val [OF q1] add_val [OF q2] add_val [OF q3]
  ultimately show ?thesis by (simp only: z256_val_limb distrib_left)
qed

lemma barrett_product_val:
  assumes "barrett_product q_lo q_hi m = (qm_lo, qm_hi, ovf)" and "unat q_hi \<le> 1"
    and "(z256_val q_lo + radix * unat q_hi) * z256_val m < radix * radix"
  shows "ovf = 0" "z256_val qm_lo + radix * z256_val qm_hi =
     (z256_val q_lo + radix * unat q_hi) * z256_val m"
proof -
  obtain h where h: "mul_wide q_lo m = (qm_lo, h)"
    and f: "(qm_hi, ovf) = (if q_hi \<noteq> 0 then add_with_carry h m else (h, 0))"
    using assms(1) by (auto simp: barrett_product_def Let_def split: prod.splits)
  note hv = mul_val [OF h]
  have both: "ovf = 0 \<and> z256_val qm_lo + radix * z256_val qm_hi =
     (z256_val q_lo + radix * unat q_hi) * z256_val m"
  proof (cases "q_hi = 0")
    case True
    then show ?thesis using f hv by simp
  next
    case False
    then have q: "unat q_hi = 1" and c: "add_with_carry h m = (qm_hi, ovf)"
      using assms(2) f flag_cases [of q_hi] by auto
    have s: "z256_val qm_lo + radix * (z256_val h + z256_val m) =
        (z256_val q_lo + radix * unat q_hi) * z256_val m"
      using hv q by (simp add: algebra_simps)
    have "ovf \<noteq> 1"
    proof
      assume "ovf = 1"
      then have "radix \<le> z256_val h + z256_val m"
        using add_val [OF c] by simp
      then have "radix * radix \<le> radix * (z256_val h + z256_val m)" by simp
      with s assms(3) show False by linarith
    qed
    then have "ovf = 0" "z256_val qm_hi = z256_val h + z256_val m"
      using add_with_carry_cases [OF c] by auto
    with s show ?thesis by simp
  qed
  then show "ovf = 0" "z256_val qm_lo + radix * z256_val qm_hi =
     (z256_val q_lo + radix * unat q_hi) * z256_val m" by blast+
qed

lemma two_digit_bound:
  fixes a b R :: nat
  assumes "a < R" "b < R"
  shows "a + R * b < R * R"
proof -
  have "a + R * b < R * Suc b" using assms(1) by simp
  also have "\<dots> \<le> R * R" using assms(2) by (intro mult_le_mono2) simp
  finally show ?thesis .
qed

text \<open>A 512-bit subtraction by halves, for a difference that is not negative.\<close>

lemma sub_512:
  assumes "sub_with_borrow low l2 = (r1, b1)" "sub_with_borrow high h2 = (r2, b2)"
    "sub_with_borrow r2 (Z256 b1 0 0 0) = (r3, b3)"
    and x: "z256_val low + radix * z256_val high = z256_val l2 + radix * z256_val h2 + d"
  shows "b2 = 0" "b3 = 0" "z256_val r1 + radix * z256_val r3 = d"
proof -
  have "radix * z256_val high + radix * (radix * unat b2) = radix * z256_val r2 + radix * z256_val h2"
    using sub_val [OF assms(2)] by (metis distrib_left)
  moreover have "radix * z256_val r2 + radix * (radix * unat b3) = radix * z256_val r3 + radix * unat b1"
    using sub_val [OF assms(3)] by (metis distrib_left z256_val_limb)
  ultimately have tot: "d + radix * (radix * unat b2) + radix * (radix * unat b3) =
      z256_val r1 + radix * z256_val r3"
    using x sub_val [OF assms(1)] by linarith
  have small: "z256_val r1 + radix * z256_val r3 < radix * radix"
    using val_less by (intro two_digit_bound)
  have "b2 \<noteq> 1" "b3 \<noteq> 1" using tot small by auto
  then show b: "b2 = 0" "b3 = 0" using sub_cases assms(2,3) by blast+
  show "z256_val r1 + radix * z256_val r3 = d" using tot b by simp
qed

lemma barrett_remainder_val:
  assumes x: "z256_val low + radix * z256_val high =
      z256_val qm_lo + radix * z256_val qm_hi + d"
    and d: "d < 2 * z256_val m"
  shows "\<exists>r. barrett_remainder low high qm_lo qm_hi m = Some r \<and> z256_val r = d mod z256_val m"
proof -
  obtain r1 b1 where r1: "sub_with_borrow low qm_lo = (r1, b1)" by force
  obtain r2 b2 where r2: "sub_with_borrow high qm_hi = (r2, b2)" by force
  obtain r3 b3 where r3: "sub_with_borrow r2 (Z256 b1 0 0 0) = (r3, b3)" by force
  obtain e1 c1 where e1: "sub_with_borrow r1 m = (e1, c1)" by force
  obtain e2 c2 where e2: "sub_with_borrow r3 (Z256 c1 0 0 0) = (e2, c2)" by force
  note s = sub_512 [OF r1 r2 r3 x]
  have R: "d < radix" if "z256_val r3 = 0" using s(3) that val_less [of r1] by simp
  have ge: "(\<not> z256_is_zero r3 \<or> z256_cmp r1 m \<ge> 0) = (z256_val m \<le> d)"
  proof (cases "z256_val r3 = 0")
    case True
    then show ?thesis using s(3) by (simp add: z256_is_zero_iff)
  next
    case False
    then have "radix \<le> radix * z256_val r3" by simp
    then have "z256_val m \<le> d" using s(3) val_less [of m] by linarith
    then show ?thesis using False by (simp add: z256_is_zero_iff)
  qed
  show ?thesis
  proof (cases "z256_val m \<le> d")
    case False
    then have "z256_val r3 = 0" using ge by (simp add: z256_is_zero_iff)
    then show ?thesis using False ge s
      by (simp add: barrett_remainder_def r1 r2 r3 z256_is_zero_iff)
  next
    case True
    have zero: "sub_with_borrow r3 (Z256 0 0 0 0) = (r3, 0)"
      using sub_cases [of r3 "Z256 0 0 0 0"] z256_val_inj
      by (cases "sub_with_borrow r3 (Z256 0 0 0 0)") (auto simp: z256_val_limb)
    have x': "z256_val r1 + radix * z256_val r3 = z256_val m + radix * z256_val (Z256 0 0 0 0) +
        (d - z256_val m)" using s(3) True by (simp add: z256_val_limb)
    note t = sub_512 [OF e1 zero e2 x']
    have "z256_val e2 = 0"
    proof (rule ccontr)
      assume "z256_val e2 \<noteq> 0"
      then have "radix \<le> radix * z256_val e2" by simp
      then show False using t(3) d val_less [of m] by linarith
    qed
    moreover have "d mod z256_val m = d - z256_val m" using True d
      by (metis le_mod_geq mod_less less_diff_conv2 mult_2)
    ultimately show ?thesis using ge True s t(3)
      by (simp add: barrett_remainder_def r1 r2 r3 e1 e2 z256_is_zero_iff)
  qed
qed

text \<open>
  The branch as a whole: for a modulus with its top bit set and its exact reciprocal, no
  assertion fails and the result is the remainder.
\<close>

lemma barrett_512_val:
  assumes top: "radix \<le> 2 * z256_val m"
    and mu: "radix + z256_val mu = radix * radix div z256_val m"
  shows "\<exists>r. barrett_512 low high m mu = Some r \<and>
     z256_val r = (z256_val low + radix * z256_val high) mod z256_val m"
proof -
  define x where "x = z256_val low + radix * z256_val high"
  have m: "0 < z256_val m" using top radix_pos by linarith
  have xS: "x < radix * radix" unfolding x_def using val_less by (intro two_digit_bound)
  obtain ql qh where q: "barrett_quotient low high mu = (ql, qh)" by force
  obtain pl ph ov where p: "barrett_product ql qh m = (pl, ph, ov)" by (metis prod_cases3)
  define qq where "qq = z256_val ql + radix * unat qh"
  have qv: "qq = x * (radix * radix div z256_val m) div (radix * radix)"
    using barrett_quotient_val [OF q] unfolding x_def qq_def mu by (simp add: add.commute mult.commute)
  note est = barrett_estimate_nat [OF xS m qv]
  have qh1: "unat qh \<le> 1"
  proof (rule ccontr)
    assume "\<not> unat qh \<le> 1"
    then have "radix * 2 \<le> qq" unfolding qq_def by (metis mult_le_mono2 not_less_eq_eq numeral_2_eq_2 One_nat_def trans_le_add2)
    then have "radix * 2 * z256_val m \<le> x" using est(1) by (meson mult_le_mono1 order_trans)
    moreover have "radix * radix \<le> radix * (2 * z256_val m)" using top by (rule mult_le_mono2)
    ultimately show False using xS by (simp add: mult.assoc)
  qed
  have pv: "ov = 0" "z256_val pl + radix * z256_val ph = qq * z256_val m"
    using barrett_product_val [OF p qh1] est(1) xS unfolding qq_def by simp_all
  have "\<exists>r. barrett_remainder low high pl ph m = Some r \<and>
      z256_val r = (x - qq * z256_val m) mod z256_val m"
    using est by (intro barrett_remainder_val) (auto simp: pv(2) x_def algebra_simps)
  moreover have "(x - qq * z256_val m) mod z256_val m = x mod z256_val m"
    using est(1) by (metis mod_mult_self3 le_add_diff_inverse)
  ultimately show ?thesis by (simp add: barrett_512_def q p pv(1) x_def)
qed

section \<open>Schoolbook reduction\<close>

lemma ge_limbs_cmp: "ge_limbs as bs \<longleftrightarrow> cmp_limbs as bs \<ge> 0"
  by (induction as bs rule: ge_limbs.induct) auto

lemma lt_limbs_cmp: "lt_limbs as bs \<longleftrightarrow> cmp_limbs as bs < 0"
  by (induction as bs rule: lt_limbs.induct) auto

lemma ge_limbs_val: "length xs = length ys \<Longrightarrow> ge_limbs (rev xs) (rev ys) \<longleftrightarrow> lval ys \<le> lval xs"
  by (simp add: ge_limbs_cmp cmp_limbs_val)

lemma lt_limbs_val: "length xs = length ys \<Longrightarrow> lt_limbs (rev xs) (rev ys) \<longleftrightarrow> lval xs < lval ys"
  by (simp add: lt_limbs_cmp cmp_limbs_val)

lemma qm_limbs_length [simp]: "length (qm_limbs q ms c) = Suc (length ms)"
  by (induction ms arbitrary: c) (simp_all add: Let_def)

lemma mult_add_bound:
  fixes x y c B :: nat
  assumes "x < B" "y < B" "c < B"
  shows "x * y + c < B * B"
proof -
  have "x * y + c \<le> c + B * x" using assms(2) by simp
  also have "\<dots> < B * B" using assms(3,1) by (rule two_digit_bound)
  finally show ?thesis .
qed

lemma mod_plus_shifted: "p mod B + B * (t + p div B) = p + B * (t::nat)"
  by (simp add: distrib_left)

lemma qm_limbs_val:
  "unat c < 2 ^ 64 \<Longrightarrow> lval (qm_limbs q ms c) = unat q * lval ms + unat c"
proof (induction ms arbitrary: c)
  case Nil
  then show ?case by (simp add: unat_ucast_128_64)
next
  case (Cons m ms)
  define prod where "prod = (ucast q :: u128) * ucast m + c"
  have "unat q * unat m + unat c < 2 ^ 64 * 2 ^ 64"
    using Cons.prems unat_u64_less by (intro mult_add_bound)
  then have pv: "unat prod = unat q * unat m + unat c" and small: "unat prod < 2 ^ 64 * 2 ^ 64"
    unfolding prod_def by (simp_all add: unat_word_ariths unat_ucast_64_128)
  have hi: "unat (drop_bit 64 prod) = unat prod div 2 ^ 64"
    by (rule unat_shr_64)
  then have "unat (drop_bit 64 prod) < 2 ^ 64" using small by (simp add: less_mult_imp_div_less)
  note IH = Cons.IH [OF this]
  have "lval (qm_limbs q (m # ms) c) = unat prod mod 2 ^ 64 + 2 ^ 64 * (unat q * lval ms + unat prod div 2 ^ 64)"
    using IH hi by (simp add: Let_def prod_def [symmetric] unat_ucast_128_64)
  also have "\<dots> = unat prod + 2 ^ 64 * (unat q * lval ms)"
    by (rule mod_plus_shifted)
  finally show ?case using pv by (simp add: algebra_simps)
qed

lemma sub_limbs_exact:
  assumes "length as = length bs" "lval bs \<le> lval as"
  shows "lval (fst (sub_limbs as bs 0)) = lval as - lval bs" "length (fst (sub_limbs as bs 0)) = length as"
proof -
  obtain r out where s: "sub_limbs as bs 0 = (r, out)" by force
  from sub_limbs_val [OF assms(1) _ s]
  have v: "length r = length as" "lval r + lval bs = lval as + 2 ^ (64 * length as) * unat out" by auto
  have "unat out = 0"
  proof (rule ccontr)
    assume "unat out \<noteq> 0"
    then have "2 ^ (64 * length as) \<le> 2 ^ (64 * length as) * unat out" by simp
    moreover have "lval r < 2 ^ (64 * length as)" using lval_bound [of r] v(1) by metis
    ultimately show False using v(2) assms(2) by linarith
  qed
  then show "lval (fst (sub_limbs as bs 0)) = lval as - lval bs" "length (fst (sub_limbs as bs 0)) = length as"
    using v s by auto
qed

text \<open>Whatever the estimate, the trial subtraction removes a multiple of the modulus.\<close>

lemma sub_multiple_val:
  assumes "length ms = 4" "length rm = 5"
  shows "\<exists>rm'. sub_multiple q rm ms = Some rm' \<and> length rm' = 5 \<and>
     lval rm' mod lval ms = lval rm mod lval ms"
  using assms
proof (induction q rm ms rule: sub_multiple.induct)
  case (1 q rm ms)
  define qm where "qm = qm_limbs q ms 0"
  have qm: "length qm = 5" "lval qm = unat q * lval ms"
    using "1.prems" qm_limbs_val [of 0 q ms] by (simp_all add: qm_def)
  have geq: "ge_limbs (rev rm) (rev qm) \<longleftrightarrow> lval qm \<le> lval rm" using qm(1) "1.prems" by (simp add: ge_limbs_val)
  note unfold = sub_multiple.simps [of q rm ms, unfolded Let_def, folded qm_def]
  consider (ge) "lval qm \<le> lval rm" | (last) "\<not> lval qm \<le> lval rm" "q - 1 = 0" "q \<noteq> 0"
    | (more) "\<not> lval qm \<le> lval rm" "q - 1 \<noteq> 0" "q \<noteq> 0"
    using qm(2) by fastforce
  then show ?case
  proof cases
    case ge
    then have "(lval rm - unat q * lval ms) mod lval ms = lval rm mod lval ms"
      using qm(2) by (metis mod_mult_self3 le_add_diff_inverse)
    then show ?thesis unfolding unfold
      using sub_limbs_exact [of rm qm] qm "1.prems" geq ge by simp
  next
    case last
    then show ?thesis unfolding unfold using "1.prems" geq by simp
  next
    case more
    then have "\<exists>rm'. sub_multiple (q - 1) rm ms = Some rm' \<and> length rm' = 5 \<and>
        lval rm' mod lval ms = lval rm mod lval ms"
      using "1.IH" [OF qm_def] "1.prems" geq by blast
    then show ?thesis unfolding unfold using more geq by simp
  qed
qed

lemma lval_top:
  assumes "length xs = Suc n"
  shows "lval xs = lval (take n xs) + 2 ^ (64 * n) * unat (xs ! n)"
  using assms lval_append [of "take n xs" "[xs ! n]"]
  by (simp add: take_Suc_conv_app_nth [symmetric])

lemma lval_top_mono:
  assumes "length xs = Suc n" "length ys = Suc n" "xs ! n < ys ! n"
  shows "lval xs < lval ys"
proof -
  have "lval (take n xs) < 2 ^ (64 * n)" using lval_bound [of "take n xs"] assms(1) by simp
  then have "lval (take n xs) + 2 ^ (64 * n) * unat (xs ! n) < lval (take n ys) + 2 ^ (64 * n) * unat (ys ! n)"
    using assms(3) by (intro limb_less) (simp_all add: word_less_nat_alt)
  then show ?thesis using assms lval_top by metis
qed

lemma lval_5_cmp:
  assumes "length rm = 5" "length ms = 4"
  shows "lval ms \<le> lval rm \<longleftrightarrow> rm ! 4 > 0 \<or> lval ms \<le> lval (take 4 rm)"
proof -
  have v: "lval rm = lval (take 4 rm) + 2 ^ (64 * 4) * unat (rm ! 4)"
    by (rule lval_top) (simp add: assms)
  have m: "lval ms < 2 ^ (64 * 4)" using lval_bound [of ms] assms(2) by simp
  show ?thesis
  proof (cases "rm ! 4 = 0")
    case True
    then show ?thesis using v by simp
  next
    case False
    then have "0 < unat (rm ! 4)" by (simp add: unat_gt_0)
    then have "2 ^ (64 * 4) * 1 \<le> 2 ^ (64 * 4) * unat (rm ! 4)" by (intro mult_le_mono2) simp
    then have "lval ms \<le> lval rm" using v m by linarith
    then show ?thesis using False by (simp add: word_gt_0)
  qed
qed

lemma sub_while_ge_cond:
  assumes "length rm = 5" "length ms = 4"
  shows "rm ! 4 > 0 \<or> rm ! 3 \<ge> ms ! 3 \<and> ge_limbs (rev (take 4 rm)) (rev ms) \<longleftrightarrow> lval ms \<le> lval rm"
proof -
  have "ge_limbs (rev (take 4 rm)) (rev ms) \<longleftrightarrow> lval ms \<le> lval (take 4 rm)"
    using assms by (intro ge_limbs_val) simp
  moreover have "rm ! 3 \<ge> ms ! 3" if "lval ms \<le> lval (take 4 rm)"
    using lval_top_mono [of "take 4 rm" 3 ms] assms that by (simp add: linorder_not_less [symmetric]) blast
  ultimately show ?thesis using lval_5_cmp [OF assms] by blast
qed

text \<open>The second inner loop ends, and leaves the remainder.\<close>

lemma sub_while_ge_val:
  assumes "length rm = 5" "length ms = 4" "0 < lval ms"
  shows "\<exists>rm'. sub_while_ge rm ms = Some rm' \<and> length rm' = 5 \<and> lval rm' = lval rm mod lval ms"
  using assms(1)
proof (induction "lval rm" arbitrary: rm rule: less_induct)
  case less
  note cond = sub_while_ge_cond [OF less.prems assms(2)]
  show ?case
  proof (cases "lval ms \<le> lval rm")
    case True
    have m: "length rm = length (ms @ [0])" "lval (ms @ [0]) = lval ms"
      using less.prems assms(2) by (simp_all add: lval_append)
    define rm' where "rm' = fst (sub_limbs rm (ms @ [0]) 0)"
    have r: "lval rm' = lval rm - lval ms" "length rm' = 5"
      using sub_limbs_exact [OF m(1)] True m(2) less.prems by (simp_all add: rm'_def)
    have "sub_while_ge rm ms = sub_while_ge rm' ms"
      unfolding sub_while_ge.simps [of rm] cond using True by (simp add: rm'_def)
    moreover have "lval rm' < lval rm" using r(1) True assms(3) by simp
    moreover have "lval rm mod lval ms = lval rm' mod lval ms" using r(1) True by (simp add: le_mod_geq)
    ultimately show ?thesis using less.hyps [of rm'] r(2) by simp
  next
    case False
    then show ?thesis unfolding sub_while_ge.simps [of rm] cond using less.prems by simp
  qed
qed

lemma schoolbook_skip_cond:
  assumes "length rm = 5" "length ms = 4"
  shows "rm ! 4 = 0 \<and> (rm ! 3 < ms ! 3 \<or> rm ! 3 = ms ! 3 \<and> lt_limbs (rev (take 3 rm)) (rev (take 3 ms)))
     \<longleftrightarrow> lval rm < lval ms"
proof -
  have l: "length (take 4 rm) = Suc 3" "length ms = Suc 3" using assms by simp_all
  have lt: "lt_limbs (rev (take 3 rm)) (rev (take 3 ms)) \<longleftrightarrow> lval (take 3 rm) < lval (take 3 ms)"
    using assms by (intro lt_limbs_val) simp
  have r: "lval (take 4 rm) = lval (take 3 rm) + 2 ^ (64 * 3) * unat (rm ! 3)"
    using lval_top [OF l(1)] by simp
  note m = lval_top [OF l(2)]
  consider "rm ! 3 < ms ! 3" | "rm ! 3 = ms ! 3" | "ms ! 3 < rm ! 3" by fastforce
  then have "lval (take 4 rm) < lval ms \<longleftrightarrow>
      rm ! 3 < ms ! 3 \<or> rm ! 3 = ms ! 3 \<and> lval (take 3 rm) < lval (take 3 ms)"
  proof cases
    case 1
    then show ?thesis using lval_top_mono [OF l] by simp
  next
    case 2
    then show ?thesis using r m by simp
  next
    case 3
    then have "lval ms < lval (take 4 rm)" using lval_top_mono [OF l(2,1)] by simp
    then show ?thesis using 3 by fastforce
  qed
  moreover have "rm ! 4 = 0 \<longleftrightarrow> \<not> rm ! 4 > 0" by (simp add: word_gt_0)
  ultimately show ?thesis using lval_5_cmp [OF assms] lt by (simp add: linorder_not_le [symmetric])
qed

lemma lval_shift_in:
  assumes "length rem0 = 5" "lval rem0 < lval ms" "length ms = 4"
  shows "lval (limb # take 4 rem0) = unat limb + 2 ^ 64 * lval rem0"
proof -
  have "\<not> rem0 ! 4 > 0" using lval_5_cmp [OF assms(1,3)] assms(2) by simp
  then have "unat (rem0 ! 4) = 0" by (simp add: word_gt_0)
  then have "lval rem0 = lval (take 4 rem0)" using lval_top [of rem0 4] assms(1) by simp
  then show ?thesis by simp
qed

text \<open>One round: a limb is shifted in and the remainder taken, if the top limb is not zero.\<close>

lemma schoolbook_step_val:
  assumes "length rem0 = 5" "lval rem0 < lval ms" "length ms = 4" "ms ! 3 \<noteq> 0"
  shows "\<exists>rm. schoolbook_step ms rem0 limb = Some rm \<and> length rm = 5 \<and>
     lval rm = (unat limb + 2 ^ 64 * lval rem0) mod lval ms"
proof -
  define rm where "rm = limb # take 4 rem0"
  have l: "length rm = 5" using assms(1) by (simp add: rm_def)
  have v: "lval rm = unat limb + 2 ^ 64 * lval rem0" unfolding rm_def by (rule lval_shift_in [OF assms(1-3)])
  note cond = schoolbook_skip_cond [OF l assms(3)]
  show ?thesis
  proof (cases "lval rm < lval ms")
    case True
    then show ?thesis unfolding schoolbook_step_def Let_def rm_def [symmetric] cond v [symmetric]
      using l by simp
  next
    case False
    obtain rm' where rm': "sub_multiple (q_estimate rm (ms ! 3)) rm ms = Some rm'" "length rm' = 5"
        "lval rm' mod lval ms = lval rm mod lval ms"
      using sub_multiple_val [OF assms(3) l] by blast
    have "schoolbook_step ms rem0 limb = sub_while_ge rm' ms"
      unfolding schoolbook_step_def Let_def rm_def [symmetric] cond using False assms(4) rm'(1) by simp
    then show ?thesis using sub_while_ge_val [OF rm'(2) assms(3)] assms(2) rm'(3) v by simp
  qed
qed

lemma schoolbook_loop_val:
  assumes "length rem0 = 5" "lval rem0 < lval ms" "length ms = 4" "ms ! 3 \<noteq> 0"
  shows "\<exists>rm. schoolbook_loop ms rem0 ls = Some rm \<and> length rm = 5 \<and>
     lval rm = (lval (rev ls) + 2 ^ (64 * length ls) * lval rem0) mod lval ms"
  using assms(1,2)
proof (induction ls arbitrary: rem0)
  case (Cons limb ls)
  obtain r1 where r1: "schoolbook_step ms rem0 limb = Some r1" "length r1 = 5"
      "lval r1 = (unat limb + 2 ^ 64 * lval rem0) mod lval ms"
    using schoolbook_step_val [OF Cons.prems assms(3,4)] by blast
  then have "lval r1 < lval ms" using assms(2) by simp
  then obtain rm where rm: "schoolbook_loop ms r1 ls = Some rm" "length rm = 5"
      "lval rm = (lval (rev ls) + 2 ^ (64 * length ls) * lval r1) mod lval ms"
    using Cons.IH [OF r1(2)] by blast
  have "lval rm = (lval (rev ls) + 2 ^ (64 * length ls) * (unat limb + 2 ^ 64 * lval rem0)) mod lval ms"
    unfolding rm(3) r1(3) by (metis mod_add_right_eq mod_mult_right_eq)
  then show ?case using r1(1) rm(1,2) by (simp add: lval_append algebra_simps power_add)
qed simp

lemma lval_take_4:
  assumes "length rm = 5" "lval rm < 2 ^ 256"
  shows "lval (take 4 rm) = lval rm"
proof -
  have v: "lval rm = lval (take 4 rm) + 2 ^ (64 * 4) * unat (rm ! 4)"
    by (rule lval_top) (simp add: assms(1))
  have "unat (rm ! 4) = 0"
  proof (rule ccontr)
    assume "unat (rm ! 4) \<noteq> 0"
    then have "2 ^ (64 * 4) * 1 \<le> 2 ^ (64 * 4) * unat (rm ! 4)" by (intro mult_le_mono2) simp
    then show False using v assms(2) by simp
  qed
  then show ?thesis using v by simp
qed

lemma limbs_rev_val: "lval (rev (rev (limbs high) @ rev (limbs low))) = z256_val low + radix * z256_val high"
  by (simp add: lval_append z256_val_def radix_def)

lemma schoolbook_val:
  assumes "limbs m ! 3 \<noteq> 0"
  shows "\<exists>r. mod_reduce_512_schoolbook low high m = Some r \<and>
     z256_val r = (z256_val low + radix * z256_val high) mod z256_val m"
proof -
  have "0 < unat (limbs m ! 3)" using assms by (simp add: unat_gt_0)
  then have pos: "0 < lval (limbs m)" using lval_top [of "limbs m" 3] by simp
  have z: "length (replicate 5 (0::u64)) = 5" "lval (replicate 5 0) < lval (limbs m)" "length (limbs m) = 4"
    using pos by (simp_all add: lval_replicate_0)
  obtain rm where rm: "schoolbook_loop (limbs m) (replicate 5 0) (rev (limbs high) @ rev (limbs low)) = Some rm"
      "length rm = 5" "lval rm = (z256_val low + radix * z256_val high) mod z256_val m"
    using schoolbook_loop_val [OF z assms, of "rev (limbs high) @ rev (limbs low)"]
    unfolding limbs_rev_val lval_replicate_0 by (auto simp: z256_val_def)
  have "lval rm < z256_val m" using rm(3) pos by (simp add: z256_val_def)
  then have "lval rm < 2 ^ 256" using z256_val_bound [of m] by simp
  then have "z256_val (z256_of (take 4 rm)) = lval rm"
    using lval_take_4 [OF rm(2)] z256_val_of [of "take 4 rm"] rm(2) by simp
  then have "z256_val (z256_of rm) = lval rm" by (simp add: z256_of_def)
  then show ?thesis using rm(1,3) by (simp add: mod_reduce_512_schoolbook_def)
qed

text \<open>
  With a zero top limb the estimate divides by zero as soon as the running remainder reaches the
  modulus: the round panics.
\<close>

lemma schoolbook_step_zero_top:
  assumes "length rem0 = 5" "lval rem0 < lval ms" "length ms = 4" "ms ! 3 = 0"
  shows "schoolbook_step ms rem0 limb =
     (if unat limb + 2 ^ 64 * lval rem0 < lval ms then Some (limb # take 4 rem0) else None)"
proof -
  have l: "length (limb # take 4 rem0) = 5" using assms(1) by simp
  show ?thesis
    unfolding schoolbook_step_def Let_def schoolbook_skip_cond [OF l assms(3)] lval_shift_in [OF assms(1-3)]
    using assms(4) by simp
qed

lemma schoolbook_loop_zero_top:
  assumes "length rem0 = 5" "lval rem0 < lval ms" "length ms = 4" "ms ! 3 = 0"
    and big: "lval ms \<le> lval (rev ls) + 2 ^ (64 * length ls) * lval rem0"
  shows "schoolbook_loop ms rem0 ls = None"
  using assms(1,2) big
proof (induction ls arbitrary: rem0)
  case (Cons limb ls)
  show ?case
  proof (cases "unat limb + 2 ^ 64 * lval rem0 < lval ms")
    case True
    have v: "lval (limb # take 4 rem0) = unat limb + 2 ^ 64 * lval rem0"
      by (rule lval_shift_in [OF Cons.prems(1,2) assms(3)])
    have "lval ms \<le> lval (rev ls) + 2 ^ (64 * length ls) * lval (limb # take 4 rem0)"
      using Cons.prems(3) unfolding v by (simp add: lval_append algebra_simps power_add)
    then have "schoolbook_loop ms (limb # take 4 rem0) ls = None"
      using Cons.IH [of "limb # take 4 rem0"] Cons.prems(1) True v by simp
    then show ?thesis using schoolbook_step_zero_top [OF Cons.prems(1,2) assms(3,4)] True by simp
  next
    case False
    then show ?thesis using schoolbook_step_zero_top [OF Cons.prems(1,2) assms(3,4)] by simp
  qed
qed (use assms(2) in simp)

section \<open>Reduction and modular multiplication\<close>

lemma z256_top_limb_pos: "limbs m ! 3 \<noteq> 0 \<Longrightarrow> 0 < z256_val m"
  using lval_top [of "limbs m" 3] by (simp add: z256_val_def unat_gt_0)

lemma mod_reduce_512_val:
  assumes "limbs m ! 3 \<noteq> 0"
  shows "\<exists>r. mod_reduce_512 low high m = Some r \<and>
     z256_val r = (z256_val low + radix * z256_val high) mod z256_val m"
proof -
  have N: "radix \<le> 2 * z256_val z256_N" "radix + z256_val MU_N_LOW = radix * radix div z256_val z256_N"
    and P: "radix \<le> 2 * z256_val z256_P" "radix + z256_val MU_P_LOW = radix * radix div z256_val z256_P"
    by (simp_all add: radix_def z256_N_def z256_P_def MU_N_LOW_def MU_P_LOW_def)
  show ?thesis
    using barrett_512_val [OF N] barrett_512_val [OF P] schoolbook_val [OF assms]
    by (simp add: mod_reduce_512_def)
qed

lemma mod_reduce_512_zero_top:
  assumes "limbs m ! 3 = 0" "z256_val m \<le> z256_val low + radix * z256_val high"
  shows "mod_reduce_512 low high m = None"
proof -
  have not_fixed: "m \<noteq> z256_N" "m \<noteq> z256_P" using assms(1) by (auto simp: z256_N_def z256_P_def)
  have "schoolbook_loop (limbs m) (replicate 5 0) (rev (limbs high) @ rev (limbs low)) = None"
  proof (cases "z256_val m = 0")
    case True
    then have "schoolbook_step (limbs m) (replicate 5 0) limb = None" for limb
      using schoolbook_skip_cond [of "limb # take 4 (replicate 5 0)" "limbs m"] assms(1)
      unfolding schoolbook_step_def Let_def by (simp add: z256_val_def)
    then show ?thesis by (cases high) simp
  next
    case False
    then show ?thesis using assms
      by (intro schoolbook_loop_zero_top) (simp_all only: limbs_rev_val lval_replicate_0,
        simp_all add: z256_val_def)
  qed
  then show ?thesis using not_fixed by (simp add: mod_reduce_512_def mod_reduce_512_schoolbook_def)
qed

lemma modmul_loop_val:
  assumes "0 < z256_val m"
  shows "\<exists>r'. modmul_loop r m = Some r' \<and> z256_val r' = z256_val r mod z256_val m"
proof (induction "z256_val r" arbitrary: r rule: less_induct)
  case less
  show ?case
  proof (cases "z256_val m \<le> z256_val r")
    case True
    obtain d b where d: "sub_with_borrow r m = (d, b)" by force
    have v: "b = 0" "z256_val d = z256_val r - z256_val m" using sub_with_borrow_cases [OF d] True by auto
    have "modmul_loop r m = modmul_loop d m" using True v(1) by (simp add: modmul_loop.simps [of r] d)
    then show ?thesis using less [of d] v(2) True assms by (simp add: le_mod_geq)
  next
    case False
    then show ?thesis by (simp add: modmul_loop.simps [of r])
  qed
qed

lemma modmul_val:
  assumes "limbs m ! 3 \<noteq> 0"
  shows "\<exists>r. modmul a b m = Some r \<and> z256_val r = z256_val a * z256_val b mod z256_val m"
proof -
  obtain lo hi where p: "mul_wide a b = (lo, hi)" by force
  note v = mul_val [OF p]
  show ?thesis
    using modmul_loop_val [OF z256_top_limb_pos [OF assms], of lo] mod_reduce_512_val [OF assms, of lo hi] v
    by (auto simp: modmul_def p z256_is_zero_iff)
qed

lemma double_mod_step_val:
  assumes "z256_val r < z256_val m"
  shows "z256_val (double_mod_step m r) = 2 * z256_val r mod z256_val m"
proof -
  obtain d c where d: "add_with_carry r r = (d, c)" by force
  obtain e b where e: "sub_with_borrow d m = (e, b)" by force
  show ?thesis
  proof (cases "z256_val m \<le> 2 * z256_val r")
    case False
    then have "c = 0" "z256_val d = 2 * z256_val r"
      using add_with_carry_cases [OF d] z256_val_bound [of m] by auto
    then show ?thesis using False by (simp add: double_mod_step_def d)
  next
    case True
    then have "z256_val e = 2 * z256_val r - z256_val m \<and> (c \<noteq> 0 \<or> z256_val m \<le> z256_val d)"
      using add_with_carry_cases [OF d] sub_with_borrow_cases [OF e] assms z256_val_bound [of m] by auto
    then show ?thesis using True assms by (auto simp: double_mod_step_def d e le_mod_geq)
  qed
qed

lemma compute_2_256_mod_m_val:
  assumes "1 < z256_val m"
  shows "z256_val (compute_2_256_mod_m m) = 2 ^ 256 mod z256_val m"
proof -
  have "z256_val ((double_mod_step m ^^ n) z256_one) = 2 ^ n mod z256_val m" for n
  proof (induction n)
    case 0
    then show ?case using assms by (simp add: z256_one_def)
  next
    case (Suc n)
    then have "z256_val ((double_mod_step m ^^ n) z256_one) < z256_val m" using assms by simp
    then show ?case using Suc by (simp add: double_mod_step_val mod_mult_right_eq)
  qed
  then show ?thesis by (simp only: compute_2_256_mod_m_def)
qed

lemma sub_mod_val:
  assumes "z256_val a < z256_val m" "z256_val b < z256_val m"
  shows "int (z256_val (sub_mod a b m)) = (int (z256_val a) - int (z256_val b)) mod int (z256_val m)"
proof -
  obtain d c where d: "sub_with_borrow a b = (d, c)" by force
  obtain e k where e: "add_with_carry d m = (e, k)" by force
  show ?thesis
  proof (cases "z256_val b \<le> z256_val a")
    case True
    then have "c = 0" "z256_val d = z256_val a - z256_val b" using sub_with_borrow_cases [OF d] by auto
    then show ?thesis using True assms by (simp add: sub_mod_def d of_nat_diff)
  next
    case False
    then have "c = 1" "z256_val e = z256_val a + z256_val m - z256_val b"
      using sub_with_borrow_cases [OF d] add_with_carry_cases [OF e] assms z256_val_bound [of m] z256_val_bound [of e]
      by auto
    moreover have "(int (z256_val a) - int (z256_val b)) mod int (z256_val m) =
        (int (z256_val a) - int (z256_val b) + int (z256_val m)) mod int (z256_val m)" by simp
    moreover have "\<dots> = int (z256_val a) - int (z256_val b) + int (z256_val m)"
      using False assms by (intro mod_pos_pos_trivial) auto
    ultimately show ?thesis using False assms by (simp add: sub_mod_def d e of_nat_diff)
  qed
qed

section \<open>Properties\<close>

text \<open>
  C16. Both reductions of \<open>mod_reduce_512\<close>, Barrett's for the two SM9 moduli and the schoolbook loop
  for every other one, end without a failed assertion and return the remainder of the 512-bit
  input, for any modulus whose top limb is not zero.
\<close>

theorem mod_reduce_512_correct:
  assumes "limbs m ! 3 \<noteq> 0"
  shows "\<exists>r. mod_reduce_512 low high m = Some r \<and>
     z256_val r = (z256_val low + 2 ^ 256 * z256_val high) mod z256_val m"
  using mod_reduce_512_val [OF assms] unfolding radix_def .

theorem mod_reduce_512_correct_witness:
  "\<exists>r. mod_reduce_512 (Z256 5 0 0 0) (Z256 0 0 0 9) (Z256 1 0 0 7) = Some r \<and>
     z256_val r = (z256_val (Z256 5 0 0 0) + 2 ^ 256 * z256_val (Z256 0 0 0 9)) mod z256_val (Z256 1 0 0 7)"
  by (rule mod_reduce_512_correct) simp

text \<open>
  \<open>modmul\<close> is multiplication modulo any modulus with a non-zero top limb: it returns, on both
  of its paths, the remainder of the exact product.
\<close>

theorem modmul_correct:
  assumes "limbs m ! 3 \<noteq> 0"
  shows "\<exists>r. modmul a b m = Some r \<and> z256_val r = z256_val a * z256_val b mod z256_val m"
  by (rule modmul_val [OF assms])

theorem modmul_correct_witness:
  "\<exists>r. modmul z256_R_SQUARED z256_R_INV z256_N = Some r \<and>
     z256_val r = z256_val z256_R_SQUARED * z256_val z256_R_INV mod z256_val z256_N"
  by (rule modmul_correct) (simp add: z256_N_def)

text \<open>
  The fallback is not for arbitrary moduli, as its comment has it: when the top limb of the
  modulus is zero, every input not already below the modulus makes the quotient estimate divide
  by zero, and the call panics.
\<close>

theorem mod_reduce_512_small_modulus_panics:
  assumes "limbs m ! 3 = 0" "z256_val m \<le> z256_val low + 2 ^ 256 * z256_val high"
  shows "mod_reduce_512 low high m = None"
  using mod_reduce_512_zero_top assms unfolding radix_def .

theorem mod_reduce_512_small_modulus_panics_witness:
  "mod_reduce_512 (Z256 0 0 0 0) (Z256 1 0 0 0) (Z256 7 0 0 0) = None"
  by (rule mod_reduce_512_small_modulus_panics) simp_all

text \<open>
  The two helpers that work by conditional subtraction: 256 modular doublings from 1 give
  $2^{256}$ modulo the modulus, and \<open>sub_mod\<close> is subtraction modulo it on reduced operands.
\<close>

theorem modular_helpers_correct:
  assumes "1 < z256_val m" "z256_val a < z256_val m" "z256_val b < z256_val m"
  shows "z256_val (compute_2_256_mod_m m) = 2 ^ 256 mod z256_val m \<and>
     int (z256_val (sub_mod a b m)) = (int (z256_val a) - int (z256_val b)) mod int (z256_val m)"
  using compute_2_256_mod_m_val [OF assms(1)] sub_mod_val [OF assms(2,3)] by blast

theorem modular_helpers_correct_witness:
  "z256_val (compute_2_256_mod_m (Z256 7 0 0 0)) = 2 ^ 256 mod z256_val (Z256 7 0 0 0) \<and>
     int (z256_val (sub_mod (Z256 2 0 0 0) (Z256 5 0 0 0) (Z256 7 0 0 0))) =
       (int (z256_val (Z256 2 0 0 0)) - int (z256_val (Z256 5 0 0 0))) mod int (z256_val (Z256 7 0 0 0))"
  by (rule modular_helpers_correct) simp_all

end
