(* ===== verification/Sm9_Rings.thy ===== *)
theory Sm9_Rings
  imports Sm9_Reduce
begin

text \<open>
  The rings the SM9 field modules compute in, as the reference the limb code is compared with:
  the integers modulo \<open>Z256::P\<close>, and over them the tower of \<open>src/gm-sm9-rs/src/arith\<close>,
  \<open>Fp2 = Fp[u]/(u^2 + 2)\<close>, \<open>Fp4 = Fp2[v]/(v^2 - u)\<close> and \<open>Fp12 = Fp4[w]/(w^3 - v)\<close>. Each is an
  instance of the commutative rings with one, so that the ring laws, powers and the automation of
  the library apply to them. Nothing below needs the modulus to be prime.
\<close>

section \<open>The integers modulo P\<close>

definition pval :: nat where
  "pval = z256_val z256_P"

lemma pval_eq: "pval = 0xB640000002A3A6F1D603AB4FF58EC74521F2934B1A7AEEDBE56F9B27E351457D"
  by (simp add: pval_def z256_P_def)

lemma pval_gt_1: "1 < pval"
  by (simp add: pval_eq)

lemma pval_pos [simp]: "0 < pval"
  using pval_gt_1 by simp

typedef zp = "{0..<int pval}"
  using pval_pos by (intro exI [of _ 0]) simp

setup_lifting type_definition_zp

instantiation zp :: comm_ring_1
begin

lift_definition zero_zp :: zp is 0
  by simp

lift_definition one_zp :: zp is 1
  using pval_gt_1 by simp

lift_definition plus_zp :: "zp \<Rightarrow> zp \<Rightarrow> zp" is "\<lambda>a b. (a + b) mod int pval"
  by simp

lift_definition minus_zp :: "zp \<Rightarrow> zp \<Rightarrow> zp" is "\<lambda>a b. (a - b) mod int pval"
  by simp

lift_definition uminus_zp :: "zp \<Rightarrow> zp" is "\<lambda>a. (- a) mod int pval"
  by simp

lift_definition times_zp :: "zp \<Rightarrow> zp \<Rightarrow> zp" is "\<lambda>a b. (a * b) mod int pval"
  by simp

instance
proof
  fix a b c :: zp
  show "a * b * c = a * (b * c)" by transfer (simp add: mod_simps mult.assoc)
  show "a * b = b * a" by transfer (simp add: mult.commute)
  show "1 * a = a" by transfer simp
  show "a + b + c = a + (b + c)" by transfer (simp add: mod_simps add.assoc)
  show "a + b = b + a" by transfer (simp add: add.commute)
  show "0 + a = a" by transfer simp
  show "- a + a = 0" by transfer (simp add: mod_simps)
  show "a - b = a + - b" by transfer (simp add: mod_simps)
  show "(a + b) * c = a * c + b * c" by transfer (simp add: mod_simps distrib_right)
  show "(0::zp) \<noteq> 1" by transfer simp
qed

end

lemma rep_of_nat: "Rep_zp (of_nat n) = int n mod int pval"
proof (induction n)
  case 0
  then show ?case by (simp add: zero_zp.rep_eq)
next
  case (Suc n)
  then show ?case by (simp add: plus_zp.rep_eq one_zp.rep_eq mod_simps add.commute)
qed

lemma of_nat_zp_iff: "(of_nat m :: zp) = of_nat n \<longleftrightarrow> m mod pval = n mod pval"
  by (simp add: Rep_zp_inject [symmetric] rep_of_nat flip: of_nat_mod)

lemma of_nat_pval [simp]: "(of_nat pval :: zp) = 0"
  using of_nat_zp_iff [of pval 0] by simp

lemma of_nat_zp_eq_0: "(of_nat n :: zp) = 0 \<longleftrightarrow> n mod pval = 0"
  using of_nat_zp_iff [of n 0] by simp

section \<open>The tower\<close>

datatype zp2 = Zp2 (re2: zp) (im2: zp)

instantiation zp2 :: comm_ring_1
begin

definition zero_zp2 :: zp2 where
  "0 = Zp2 0 0"

definition one_zp2 :: zp2 where
  "1 = Zp2 1 0"

definition plus_zp2 :: "zp2 \<Rightarrow> zp2 \<Rightarrow> zp2" where
  "a + b = Zp2 (re2 a + re2 b) (im2 a + im2 b)"

definition minus_zp2 :: "zp2 \<Rightarrow> zp2 \<Rightarrow> zp2" where
  "a - b = Zp2 (re2 a - re2 b) (im2 a - im2 b)"

definition uminus_zp2 :: "zp2 \<Rightarrow> zp2" where
  "- a = Zp2 (- re2 a) (- im2 a)"

definition times_zp2 :: "zp2 \<Rightarrow> zp2 \<Rightarrow> zp2" where
  "a * b = Zp2 (re2 a * re2 b - 2 * (im2 a * im2 b)) (re2 a * im2 b + im2 a * re2 b)"

instance
  by standard
    (simp_all add: zero_zp2_def one_zp2_def plus_zp2_def minus_zp2_def uminus_zp2_def times_zp2_def
      algebra_simps)

end

lemmas zp2_defs = zero_zp2_def one_zp2_def plus_zp2_def minus_zp2_def uminus_zp2_def times_zp2_def

lemma zp2_simps [simp]:
  "Zp2 a b + Zp2 c d = Zp2 (a + c) (b + d)" "Zp2 a b - Zp2 c d = Zp2 (a - c) (b - d)"
  "- Zp2 a b = Zp2 (- a) (- b)" "Zp2 a b * Zp2 c d = Zp2 (a * c - 2 * (b * d)) (a * d + b * c)"
  "(Zp2 a b = 0) = (a = 0 \<and> b = 0)" "(Zp2 a b = 1) = (a = 1 \<and> b = 0)"
  by (simp_all add: zp2_defs)

definition u2 :: zp2 where
  "u2 = Zp2 0 1"

lemma two_zp2: "(2::zp2) = Zp2 2 0"
  by (simp only: one_add_one [symmetric]) (simp add: one_zp2_def)

lemma u2_square: "u2 * u2 = - 2"
  by (simp add: u2_def two_zp2)

text \<open>The conjugation, $u \mapsto -u$.\<close>

definition conj2 :: "zp2 \<Rightarrow> zp2" where
  "conj2 x = Zp2 (re2 x) (- im2 x)"

lemma conj2_simps [simp]:
  "conj2 (x + y) = conj2 x + conj2 y" "conj2 (x * y) = conj2 x * conj2 y" "conj2 (- x) = - conj2 x"
  "conj2 (conj2 x) = x" "conj2 u2 = - u2" "conj2 0 = 0" "conj2 1 = 1" "conj2 (Zp2 k 0) = Zp2 k 0"
  by (cases x; cases y; simp add: conj2_def u2_def zp2_defs)+

datatype zp4 = Zp4 (re4: zp2) (im4: zp2)

instantiation zp4 :: comm_ring_1
begin

definition zero_zp4 :: zp4 where
  "0 = Zp4 0 0"

definition one_zp4 :: zp4 where
  "1 = Zp4 1 0"

definition plus_zp4 :: "zp4 \<Rightarrow> zp4 \<Rightarrow> zp4" where
  "a + b = Zp4 (re4 a + re4 b) (im4 a + im4 b)"

definition minus_zp4 :: "zp4 \<Rightarrow> zp4 \<Rightarrow> zp4" where
  "a - b = Zp4 (re4 a - re4 b) (im4 a - im4 b)"

definition uminus_zp4 :: "zp4 \<Rightarrow> zp4" where
  "- a = Zp4 (- re4 a) (- im4 a)"

definition times_zp4 :: "zp4 \<Rightarrow> zp4 \<Rightarrow> zp4" where
  "a * b = Zp4 (re4 a * re4 b + u2 * (im4 a * im4 b)) (re4 a * im4 b + im4 a * re4 b)"

instance
  by standard
    (simp_all add: zero_zp4_def one_zp4_def plus_zp4_def minus_zp4_def uminus_zp4_def times_zp4_def
      algebra_simps)

end

lemmas zp4_defs = zero_zp4_def one_zp4_def plus_zp4_def minus_zp4_def uminus_zp4_def times_zp4_def

lemma zp4_simps [simp]:
  "Zp4 a b + Zp4 c d = Zp4 (a + c) (b + d)" "Zp4 a b - Zp4 c d = Zp4 (a - c) (b - d)"
  "- Zp4 a b = Zp4 (- a) (- b)" "Zp4 a b * Zp4 c d = Zp4 (a * c + u2 * (b * d)) (a * d + b * c)"
  "(Zp4 a b = 0) = (a = 0 \<and> b = 0)" "(Zp4 a b = 1) = (a = 1 \<and> b = 0)"
  by (simp_all add: zp4_defs)

definition v4 :: zp4 where
  "v4 = Zp4 0 1"

lemma v4_square: "v4 * v4 = Zp4 u2 0"
  by (simp add: v4_def)

datatype zp12 = Zp12 (cf0: zp4) (cf1: zp4) (cf2: zp4)

instantiation zp12 :: comm_ring_1
begin

definition zero_zp12 :: zp12 where
  "0 = Zp12 0 0 0"

definition one_zp12 :: zp12 where
  "1 = Zp12 1 0 0"

definition plus_zp12 :: "zp12 \<Rightarrow> zp12 \<Rightarrow> zp12" where
  "a + b = Zp12 (cf0 a + cf0 b) (cf1 a + cf1 b) (cf2 a + cf2 b)"

definition minus_zp12 :: "zp12 \<Rightarrow> zp12 \<Rightarrow> zp12" where
  "a - b = Zp12 (cf0 a - cf0 b) (cf1 a - cf1 b) (cf2 a - cf2 b)"

definition uminus_zp12 :: "zp12 \<Rightarrow> zp12" where
  "- a = Zp12 (- cf0 a) (- cf1 a) (- cf2 a)"

definition times_zp12 :: "zp12 \<Rightarrow> zp12 \<Rightarrow> zp12" where
  "a * b = Zp12 (cf0 a * cf0 b + v4 * (cf1 a * cf2 b + cf2 a * cf1 b))
     (cf0 a * cf1 b + cf1 a * cf0 b + v4 * (cf2 a * cf2 b))
     (cf0 a * cf2 b + cf1 a * cf1 b + cf2 a * cf0 b)"

instance
  by standard
    (simp_all add: zero_zp12_def one_zp12_def plus_zp12_def minus_zp12_def uminus_zp12_def
      times_zp12_def algebra_simps)

end

lemmas zp12_defs = zero_zp12_def one_zp12_def plus_zp12_def minus_zp12_def uminus_zp12_def times_zp12_def

lemma zp12_simps [simp]:
  "Zp12 a b c + Zp12 d e f = Zp12 (a + d) (b + e) (c + f)"
  "Zp12 a b c - Zp12 d e f = Zp12 (a - d) (b - e) (c - f)"
  "- Zp12 a b c = Zp12 (- a) (- b) (- c)"
  "Zp12 a b c * Zp12 d e f =
     Zp12 (a * d + v4 * (b * f + c * e)) (a * e + b * d + v4 * (c * f)) (a * f + b * e + c * d)"
  "(Zp12 a b c = 0) = (a = 0 \<and> b = 0 \<and> c = 0)" "(Zp12 a b c = 1) = (a = 1 \<and> b = 0 \<and> c = 0)"
  by (simp_all add: zp12_defs)

definition w12 :: zp12 where
  "w12 = Zp12 0 1 0"

lemma w12_cube: "w12 * w12 * w12 = Zp12 v4 0 0"
  by (simp add: w12_def)

end
