(* ===== verification/Sm9_Mont.thy ===== *)
theory Sm9_Mont
  imports Sm9_Rings
begin

text \<open>
  Montgomery arithmetic of \<open>src/gm-sm9-rs/src/arith/fp.rs\<close>: \<open>mont_mul\<close> by operand scanning on nine
  64-bit words, \<open>regular_mul\<close> and \<open>pow\<close> built from it, and what they compute modulo \<open>p\<close>.
\<close>

section \<open>Model\<close>

definition FP_R :: Z256 where
  "FP_R = Z256 0x1a9064d81caeba83 0xde0d6cb4e5851124 0x29fc54b00a7138ba 0x49bffffffd5c590e"

definition FP_R_SQUARED :: Z256 where
  "FP_R_SQUARED = Z256 0x27dea312b417e2d2 0x88f8105fae1a5d3f 0xe479b522d6706e7b 0x2ea795a656f62fbd"

definition FP_R_INV :: Z256 where
  "FP_R_INV = Z256 0x0a1c7970e5df544d 0xe74504e9a96b56cc 0xcda02d92d4d62924 0x7d2bc576fdf597d1"

definition FP_P_INV :: u64 where
  "FP_P_INV = 0x892BC42C2F2EE42B"

text \<open>
  One round of \<open>mont_mul\<close> on the word array \<open>t\<close>: \<open>t[i..]\<close> is accumulated with \<open>a[i] * b\<close>, then
  with the multiple of the modulus that clears \<open>t[i]\<close>.
\<close>

definition mont_round :: "u64 list \<Rightarrow> nat \<Rightarrow> u64 \<Rightarrow> u64 list \<Rightarrow> u64 list" where
  "mont_round t i x bs =
     (let (r, carry) = mac_limbs (take 4 (drop i t)) x bs 0;
          (sum, c) = overflowing_add (t ! (i + 4)) carry;
          t1 = take i t @ r @ [sum, of_bool c] @ drop (i + 6) t;
          m = t1 ! i * FP_P_INV;
          (r', carry') = mac_limbs (take 4 (drop i t1)) m (limbs z256_P) 0;
          (sum1, c1) = overflowing_add (t1 ! (i + 4)) carry';
          (sum2, c2) = overflowing_add sum1 (t1 ! (i + 5))
      in take i t1 @ r' @ [sum2, if c1 \<or> c2 then 1 else 0] @ drop (i + 6) t1)"

fun gt_limbs :: "u64 list \<Rightarrow> u64 list \<Rightarrow> bool" where
  "gt_limbs (a # as) (b # bs) = (if a > b then True else if a < b then False else gt_limbs as bs)"
| "gt_limbs _ _ = False"

definition mont_mul :: "Z256 \<Rightarrow> Z256 \<Rightarrow> Z256" where
  "mont_mul a b =
     (let t = foldl (\<lambda>t i. mont_round t i (limbs a ! i) (limbs b)) (replicate 9 0) [0..<4];
          result = take 4 (drop 4 t);
          carry_out = t ! 8;
          needs_sub = (carry_out \<noteq> 0 \<or> gt_limbs (rev result) (rev (limbs z256_P)))
      in if needs_sub then z256_of (fst (sub_limbs result (limbs z256_P) 0)) else z256_of result)"

definition regular_mul :: "Z256 \<Rightarrow> Z256 \<Rightarrow> Z256" where
  "regular_mul a b =
     (let a_mont = mont_mul a FP_R_SQUARED;
          b_mont = mont_mul b FP_R_SQUARED;
          prod_mont = mont_mul a_mont b_mont
      in mont_mul prod_mont z256_one)"

text \<open>
  The square-and-multiply loop of \<open>pow\<close>, with its right shift by one bit written limb by limb. The
  loop of \<open>Fp12::pow\<close> has the same text over other operations, which are arguments here.
\<close>

fun shr_limbs :: "u64 \<Rightarrow> u64 list \<Rightarrow> u64 list" where
  "shr_limbs carry [] = []"
| "shr_limbs carry (e # es) = (drop_bit 1 e OR carry) # shr_limbs (push_bit 63 e) es"

definition exp_shr :: "Z256 \<Rightarrow> Z256" where
  "exp_shr e = z256_of (rev (shr_limbs 0 (rev (limbs e))))"

lemma exp_shr_shr1: "exp_shr e = z256_shr1 e"
  unfolding z256_shr1_def push_bit_63_and_1 by (cases e) (simp add: exp_shr_def z256_of_def)

lemma exp_shr_val: "z256_val (exp_shr e) = z256_val e div 2"
  unfolding exp_shr_shr1 by (rule z256_shr1_val)

function pow_loop :: "('a \<Rightarrow> 'a \<Rightarrow> 'a) \<Rightarrow> ('a \<Rightarrow> 'a) \<Rightarrow> 'a \<Rightarrow> 'a \<Rightarrow> Z256 \<Rightarrow> 'a" where
  "pow_loop mul sq result base e =
     (if z256_is_zero e then result
      else pow_loop mul sq (if limbs e ! 0 AND 1 = 1 then mul result base else result) (sq base) (exp_shr e))"
  by pat_completeness auto
termination
  by (relation "measure (\<lambda>(mul, sq, r, b, e). z256_val e)") (auto simp: exp_shr_val z256_is_zero_iff)

declare pow_loop.simps [simp del]

definition fp_pow :: "Z256 \<Rightarrow> Z256 \<Rightarrow> Z256" where
  "fp_pow base e = pow_loop regular_mul (\<lambda>b. regular_mul b b) z256_one base e"

section \<open>Montgomery multiplication\<close>

lemma lval_P: "lval (limbs z256_P) = pval"
  by (simp add: pval_def z256_val_def)

text \<open>The constants of the module are what their comments say.\<close>

lemma fp_constants:
  "z256_val FP_R = 2 ^ 256 mod pval" "z256_val FP_R_SQUARED = (2 ^ 256 * 2 ^ 256) mod pval"
  "z256_val FP_R_INV * 2 ^ 256 mod pval = 1" "(unat FP_P_INV * pval + 1) mod 2 ^ 64 = 0"
  by (simp_all add: FP_R_def FP_R_SQUARED_def FP_R_INV_def FP_P_INV_def pval_eq)

lemma fp_constants_le: "z256_val FP_R \<le> pval" "z256_val FP_R_SQUARED \<le> pval" "z256_val FP_R_INV \<le> pval"
  "z256_val z256_one \<le> pval"
  by (simp_all add: FP_R_def FP_R_SQUARED_def FP_R_INV_def z256_one_def pval_eq)

text \<open>A round works on a window of six words; the words around it stay.\<close>

lemma window:
  assumes "length pre = i" "length ws = 4"
  shows "take i (pre @ ws @ [h, g] @ rest) = pre" "take 4 (drop i (pre @ ws @ [h, g] @ rest)) = ws"
    "(pre @ ws @ [h, g] @ rest) ! i = ws ! 0" "(pre @ ws @ [h, g] @ rest) ! (i + 4) = h"
    "(pre @ ws @ [h, g] @ rest) ! (i + 5) = g" "drop (i + 6) (pre @ ws @ [h, g] @ rest) = rest"
  using assms by (simp_all add: nth_append)

lemma mont_round_split:
  assumes l: "length pre = i" "length ws = 4" "length r = 4"
    and m: "mac_limbs ws x bs 0 = (r, carry)" "overflowing_add h carry = (s, c)"
      "mac_limbs r (r ! 0 * FP_P_INV) (limbs z256_P) 0 = (r', carry')"
      "overflowing_add s carry' = (sum1, c1)" "overflowing_add sum1 (of_bool c) = (sum2, c2)"
  shows "mont_round (pre @ ws @ [h, g] @ rest) i x bs = pre @ r' @ [sum2, if c1 \<or> c2 then 1 else 0] @ rest"
  unfolding mont_round_def window [OF l(1,2)] m Let_def prod.case window [OF l(1,3)] ..

text \<open>
  The value of a round. With \<open>b\<close> at most the modulus, the first carry out of the window is zero and
  the new window, shifted by a word, stays below \<open>b + p\<close>.
\<close>

lemma mod_add_mult_mod: "(a + (b mod B) * p) mod B = (a + b * p) mod (B::nat)"
  by (metis mod_add_right_eq mod_mult_left_eq)

lemma unat_mult_64: "unat ((x::u64) * y) = unat x * unat y mod 2 ^ 64"
  by (simp add: unat_word_ariths)

lemma low_word_clear:
  assumes "lval r' + 2 ^ 256 * c = lval r + unat (r ! 0 * FP_P_INV) * pval" "length r = 4" "length r' = 4"
  shows "r' ! 0 = 0"
proof -
  obtain x xs where r: "r = x # xs" using assms(2) by (cases r) auto
  obtain y ys where r': "r' = y # ys" using assms(3) by (cases r') auto
  have "lval r' + 2 ^ 256 * c = unat y + 2 ^ 64 * (lval ys + 2 ^ 192 * c)" by (simp add: r')
  then have "unat y mod 2 ^ 64 = (lval r + unat (x * FP_P_INV) * pval) mod 2 ^ 64"
    using assms(1) by (metis mod_mult_self2 nth_Cons_0 r)
  also have "\<dots> = (unat x + unat (x * FP_P_INV) * pval) mod 2 ^ 64"
    by (simp add: r mod_simps flip: add.assoc add.commute)
  also have "\<dots> = (unat x + (unat x * unat FP_P_INV) * pval) mod 2 ^ 64"
    unfolding unat_mult_64 by (rule mod_add_mult_mod)
  also have "\<dots> = unat x * (unat FP_P_INV * pval + 1) mod 2 ^ 64" by (simp add: algebra_simps)
  also have "\<dots> = 0" using fp_constants(4) by (metis mod_mult_right_eq mult_0_right mod_0)
  finally have "unat y = 0" using unat_u64_less [of y] by simp
  then show ?thesis by (simp add: r' word_unat_eq_iff)
qed

lemma window_bound:
  fixes W x B P :: nat
  assumes "W < B + P" "x < 2 ^ 64" "m < 2 ^ 64"
  shows "W + x * B + m * P < 2 ^ 64 * (B + P)"
proof -
  have "x * B \<le> (2 ^ 64 - 1) * B" "m * P \<le> (2 ^ 64 - 1) * P" using assms(2,3) by (auto intro: mult_le_mono1)
  then have "W + x * B + m * P < B + P + (2 ^ 64 - 1) * B + (2 ^ 64 - 1) * P" using assms(1) by linarith
  then show ?thesis by (simp add: algebra_simps)
qed

lemma first_carry_zero:
  assumes "L + 2 ^ 256 * unat carry = S + unat (x::u64) * B" "overflowing_add h carry = (s, c)"
    and "B \<le> pval" "S + 2 ^ 256 * unat h < B + pval"
  shows "\<not> c" "L + 2 ^ 256 * unat s = S + 2 ^ 256 * unat h + unat x * B"
proof -
  have v: "L + 2 ^ 256 * unat s + 2 ^ 320 * of_bool c = S + 2 ^ 256 * unat h + unat x * B"
    using overflowing_add_val [OF assms(2)] assms(1) by simp
  have "unat x * B \<le> (2 ^ 64 - 1) * B" using unat_u64_less [of x] by (intro mult_le_mono1) simp
  then have "S + 2 ^ 256 * unat h + unat x * B < B + pval + (2 ^ 64 - 1) * B" using assms(4) by linarith
  also have "\<dots> = 2 ^ 64 * B + pval" by (simp add: algebra_simps)
  also have "\<dots> \<le> 2 ^ 64 * pval + pval" using assms(3) by simp
  also have "\<dots> \<le> 2 ^ 320" by (simp add: pval_eq)
  finally have "S + 2 ^ 256 * unat h + unat x * B < 2 ^ 320" .
  with v show "\<not> c" by (cases c) auto
  with v show "L + 2 ^ 256 * unat s = S + 2 ^ 256 * unat h + unat x * B" by simp
qed

lemma overflowing_add_zero: "overflowing_add a 0 = (a, False)"
  using unat_u64_less [of a] by (simp add: overflowing_add_def)

lemma lval_zero_words: "lval r = 0 \<Longrightarrow> r \<noteq> [] \<Longrightarrow> r ! 0 = 0"
  by (cases r) (auto simp: word_unat_eq_iff)

lemma shifted_window:
  assumes "length r' = 4" "r' ! 0 = 0"
  shows "\<exists>ys. r' = 0 # ys \<and> length ys = 3 \<and> 2 ^ 64 * lval (ys @ [s]) = lval r' + 2 ^ 256 * unat s"
  using assms by (cases r') (auto simp: lval_append)

lemma mont_round_val:
  assumes l: "length pre = i" "length ws = 4" "length bs = 4"
    and B: "lval bs \<le> pval" and W: "lval ws + 2 ^ 256 * unat h < lval bs + pval"
  shows "\<exists>ws' h' m. mont_round (pre @ ws @ [h, g] @ rest) i x bs = pre @ [0] @ ws' @ [h'] @ rest \<and>
     length ws' = 4 \<and> lval ws' + 2 ^ 256 * unat h' < lval bs + pval \<and>
     2 ^ 64 * (lval ws' + 2 ^ 256 * unat h') = lval ws + 2 ^ 256 * unat h + unat x * lval bs + m * pval \<and>
     (lval ws + 2 ^ 256 * unat h + unat x * lval bs = 0 \<longrightarrow> m = 0)"
proof -
  obtain r carry where r: "mac_limbs ws x bs 0 = (r, carry)" by force
  have rv: "length r = 4" "lval r + 2 ^ 256 * unat carry = lval ws + unat x * lval bs"
    using mac_limbs_val [OF _ r] l by auto
  obtain s c where s: "overflowing_add h carry = (s, c)" by force
  note first = first_carry_zero [OF rv(2) s B W]
  obtain r' carry' where r': "mac_limbs r (r ! 0 * FP_P_INV) (limbs z256_P) 0 = (r', carry')" by force
  define m where "m = unat (r ! 0 * FP_P_INV)"
  have rv': "length r' = 4" "lval r' + 2 ^ 256 * unat carry' = lval r + m * pval"
    using mac_limbs_val [OF _ r'] rv(1) by (auto simp: lval_P m_def)
  obtain s1 c1 where s1: "overflowing_add s carry' = (s1, c1)" by force
  have round: "mont_round (pre @ ws @ [h, g] @ rest) i x bs =
      pre @ r' @ [s1, if c1 \<or> False then 1 else 0] @ rest"
    using first(1) by (intro mont_round_split [OF l(1,2) rv(1) r s r' s1]) (simp add: overflowing_add_zero)
  obtain ys where ys: "r' = 0 # ys" "length ys = 3" "2 ^ 64 * lval (ys @ [s1]) = lval r' + 2 ^ 256 * unat s1"
    using shifted_window [OF rv'(1) low_word_clear [OF rv'(2) [unfolded m_def] rv(1) rv'(1)]] by blast
  define h' :: u64 where "h' = (if c1 then 1 else 0)"
  have h': "unat h' = of_bool c1" by (simp add: h'_def)
  have eq: "2 ^ 64 * (lval (ys @ [s1]) + 2 ^ 256 * unat h') =
      lval ws + 2 ^ 256 * unat h + unat x * lval bs + m * pval"
    using ys(3) rv'(2) first(2) overflowing_add_val [OF s1] unfolding distrib_left h' by simp
  also have "\<dots> < 2 ^ 64 * (lval bs + pval)"
    using W unat_u64_less unfolding m_def by (intro window_bound)
  finally have bound: "lval (ys @ [s1]) + 2 ^ 256 * unat h' < lval bs + pval" by simp
  have zero: "m = 0" if "lval ws + 2 ^ 256 * unat h + unat x * lval bs = 0"
  proof -
    have "lval r = 0" using that first(2) by linarith
    then have "r ! 0 = 0" using rv(1) by (intro lval_zero_words) auto
    then show ?thesis by (simp add: m_def)
  qed
  show ?thesis
    using round ys(1,2) eq bound zero
    by (intro exI [of _ "ys @ [s1]"] exI [of _ h'] exI [of _ m]) (simp add: h'_def)
qed

text \<open>The four rounds: the window holds the product divided by $2^{256}$ up to multiples of \<open>p\<close>.\<close>

lemma mont_rounds_val:
  assumes "k \<le> 4" "length as = 4" "length bs = 4" "lval bs \<le> pval"
  shows "\<exists>ws h M. foldl (\<lambda>t i. mont_round t i (as ! i) bs) (replicate 9 0) [0..<k] =
       replicate k 0 @ ws @ [h] @ replicate (4 - k) 0 \<and> length ws = 4 \<and>
     lval ws + 2 ^ 256 * unat h < lval bs + pval \<and>
     2 ^ (64 * k) * (lval ws + 2 ^ 256 * unat h) = lval (take k as) * lval bs + M * pval \<and>
     (lval (take k as) * lval bs = 0 \<longrightarrow> M = 0)"
  using assms(1)
proof (induction k)
  case 0
  have "foldl (\<lambda>t i. mont_round t i (as ! i) bs) (replicate 9 0) [0..<0] =
      replicate 0 0 @ replicate 4 0 @ [0] @ replicate (4 - 0) 0"
    by (simp add: numeral_eq_Suc)
  then show ?case
    by (intro exI [of _ "replicate 4 0"] exI [of _ 0]) (simp add: lval_replicate_0)
next
  case (Suc k)
  then have "k \<le> 4" by simp
  from Suc.IH [OF this] obtain ws h M where IH: "foldl (\<lambda>t i. mont_round t i (as ! i) bs) (replicate 9 0) [0..<k] =
       replicate k 0 @ ws @ [h] @ replicate (4 - k) 0" "length ws = 4"
     "lval ws + 2 ^ 256 * unat h < lval bs + pval"
     "2 ^ (64 * k) * (lval ws + 2 ^ 256 * unat h) = lval (take k as) * lval bs + M * pval"
     "lval (take k as) * lval bs = 0 \<longrightarrow> M = 0" by (elim exE conjE) (rule that)
  have rest: "replicate (4 - k) (0::u64) = 0 # replicate (4 - Suc k) 0"
    using Suc.prems by (simp flip: replicate_Suc add: Suc_diff_Suc)
  obtain ws' h' m where r: "mont_round (replicate k 0 @ ws @ [h, 0] @ replicate (4 - Suc k) 0) k (as ! k) bs =
       replicate k 0 @ [0] @ ws' @ [h'] @ replicate (4 - Suc k) 0" "length ws' = 4"
     "lval ws' + 2 ^ 256 * unat h' < lval bs + pval"
     "2 ^ 64 * (lval ws' + 2 ^ 256 * unat h') =
        lval ws + 2 ^ 256 * unat h + unat (as ! k) * lval bs + m * pval"
     "lval ws + 2 ^ 256 * unat h + unat (as ! k) * lval bs = 0 \<longrightarrow> m = 0"
    using mont_round_val [OF length_replicate IH(2) assms(3,4) IH(3), of k 0 0 "replicate (4 - Suc k) 0" "as ! k"]
    by (elim exE conjE) (rule that)
  have tk: "lval (take (Suc k) as) = lval (take k as) + 2 ^ (64 * k) * unat (as ! k)"
    using Suc.prems assms(2) by (simp add: take_Suc_conv_app_nth lval_append)
  have "2 ^ (64 * Suc k) * (lval ws' + 2 ^ 256 * unat h') =
      2 ^ (64 * k) * (2 ^ 64 * (lval ws' + 2 ^ 256 * unat h'))" by (simp add: power_add)
  also have "\<dots> = lval (take (Suc k) as) * lval bs + (M + 2 ^ (64 * k) * m) * pval"
    unfolding r(4) tk using IH(4) by (simp add: algebra_simps)
  finally have v: "2 ^ (64 * Suc k) * (lval ws' + 2 ^ 256 * unat h') =
      lval (take (Suc k) as) * lval bs + (M + 2 ^ (64 * k) * m) * pval" .
  have z: "M + 2 ^ (64 * k) * m = 0" if "lval (take (Suc k) as) * lval bs = 0"
    using that IH(4,5) r(5) unfolding tk by auto
  have f: "foldl (\<lambda>t i. mont_round t i (as ! i) bs) (replicate 9 0) [0..<Suc k] =
      replicate (Suc k) 0 @ ws' @ [h'] @ replicate (4 - Suc k) 0"
    using IH(1) r(1) rest by (simp add: replicate_append_same)
  show ?case
    by (rule exI [of _ ws'], rule exI [of _ h'], rule exI [of _ "M + 2 ^ (64 * k) * m"])
      (intro conjI impI f r(2) r(3) v z)
qed

lemma gt_limbs_val: "length xs = length ys \<Longrightarrow> gt_limbs (rev xs) (rev ys) \<longleftrightarrow> lval ys < lval xs"
proof -
  have "gt_limbs as bs \<longleftrightarrow> cmp_limbs as bs > 0" for as bs
    by (induction as bs rule: gt_limbs.induct) auto
  then show "length xs = length ys \<Longrightarrow> ?thesis" by (simp add: cmp_limbs_val)
qed

text \<open>
  The product exactly: the rounds leave some \<open>T < b + p\<close>, and \<open>p\<close> is subtracted once if \<open>T\<close> exceeds
  it. A \<open>T\<close> equal to \<open>p\<close> is left as it is.
\<close>

lemma sub_p_window:
  assumes "length ws = 4" "pval < lval ws + 2 ^ 256 * unat (h::u64)" "lval ws + 2 ^ 256 * unat h < 2 * pval"
  shows "z256_val (z256_of (fst (sub_limbs ws (limbs z256_P) 0))) = lval ws + 2 ^ 256 * unat h - pval"
proof -
  obtain r out where r: "sub_limbs ws (limbs z256_P) 0 = (r, out)" by force
  have v: "length r = 4" "lval r + pval = lval ws + 2 ^ 256 * unat out"
    using sub_limbs_val [OF _ _ r] assms(1) by (auto simp: lval_P)
  have b: "lval r < 2 ^ 256" "pval < 2 ^ 256"
    using lval_bound [of r] v(1) by (simp_all add: pval_eq)
  have "unat out = unat h"
  proof (rule ccontr)
    assume "unat out \<noteq> unat h"
    then consider "unat out + 1 \<le> unat h" | "unat h + 1 \<le> unat out" by linarith
    then show False
    proof cases
      case 1
      then have "2 ^ 256 * (unat out + 1) \<le> 2 ^ 256 * unat h" by (rule mult_le_mono2)
      then show False using v(2) b assms(2,3) by (simp only: distrib_left mult_1_right)
    next
      case 2
      then have "2 ^ 256 * (unat h + 1) \<le> 2 ^ 256 * unat out" by (rule mult_le_mono2)
      then show False using v(2) b assms(2,3) by (simp only: distrib_left mult_1_right)
    qed
  qed
  then show ?thesis using v by (simp add: r z256_val_of)
qed

lemma mont_mul_exact:
  assumes "z256_val b \<le> pval"
  shows "\<exists>T M. 2 ^ 256 * T = z256_val a * z256_val b + M * pval \<and> T < z256_val b + pval \<and>
     (z256_val a * z256_val b = 0 \<longrightarrow> M = 0) \<and>
     z256_val (mont_mul a b) = (if pval < T then T - pval else T)"
proof -
  have B: "lval (limbs b) \<le> pval" using assms by (simp add: z256_val_def)
  obtain ws h M where w: "foldl (\<lambda>t i. mont_round t i (limbs a ! i) (limbs b)) (replicate 9 0) [0..<4] =
       replicate 4 0 @ ws @ [h] @ replicate (4 - 4) 0" "length ws = 4"
     "lval ws + 2 ^ 256 * unat h < lval (limbs b) + pval"
     "2 ^ (64 * 4) * (lval ws + 2 ^ 256 * unat h) = lval (take 4 (limbs a)) * lval (limbs b) + M * pval"
     "lval (take 4 (limbs a)) * lval (limbs b) = 0 \<longrightarrow> M = 0"
    using mont_rounds_val [OF le_refl length_limbs length_limbs B, of a] by (elim exE conjE) (rule that)
  define t where "t = replicate 4 0 @ ws @ [h]"
  have t: "take 4 (drop 4 t) = ws" "t ! 8 = h" using w(2) by (simp_all add: t_def nth_append)
  have mm: "mont_mul a b = (if h \<noteq> 0 \<or> pval < lval ws
      then z256_of (fst (sub_limbs ws (limbs z256_P) 0)) else z256_of ws)"
    using w(1,2) gt_limbs_val [of ws "limbs z256_P"] unfolding mont_mul_def Let_def
    by (simp add: t_def [symmetric] t lval_P)
  define T where "T = lval ws + 2 ^ 256 * unat h"
  have eq: "2 ^ 256 * T = z256_val a * z256_val b + M * pval" "T < z256_val b + pval"
      "z256_val a * z256_val b = 0 \<longrightarrow> M = 0"
    using w(3-5) by (simp_all add: T_def z256_val_def)
  have cond: "h \<noteq> 0 \<or> pval < lval ws \<longleftrightarrow> pval < T"
  proof (cases "h = 0")
    case False
    then have "1 \<le> unat h" by (simp add: Suc_le_eq unat_gt_0)
    then have "2 ^ 256 \<le> T" by (simp add: T_def)
    moreover have "pval < 2 ^ 256" by (simp add: pval_eq)
    ultimately show ?thesis using False by simp
  qed (simp add: T_def)
  have "z256_val (mont_mul a b) = (if pval < T then T - pval else T)"
  proof (cases "pval < T")
    case True
    then show ?thesis unfolding mm cond using eq(2) assms w(2) sub_p_window [of ws h] by (simp add: T_def)
  next
    case False
    then have "h = 0" using cond by blast
    then show ?thesis unfolding mm cond using False w(2) by (simp add: T_def z256_val_of)
  qed
  with eq show ?thesis by (intro exI conjI)
qed

section \<open>The products in the ring\<close>

text \<open>The inverse of the Montgomery radix in the ring.\<close>

definition rinv :: zp where
  "rinv = of_nat (z256_val FP_R_INV)"

lemma rinv_radix: "rinv * of_nat (2 ^ 256) = 1" "of_nat (2 ^ 256) * rinv = 1"
proof -
  have "(of_nat (z256_val FP_R_INV * 2 ^ 256) :: zp) = of_nat 1"
    using fp_constants(3) pval_gt_1 by (subst of_nat_zp_iff) simp
  then show "rinv * of_nat (2 ^ 256) = 1" unfolding rinv_def by (simp only: of_nat_mult of_nat_1)
  then show "of_nat (2 ^ 256) * rinv = 1" by (simp only: mult.commute)
qed

lemma mont_const_ring:
  "(of_nat (z256_val FP_R) :: zp) = of_nat (2 ^ 256)"
  "(of_nat (z256_val FP_R_SQUARED) :: zp) = of_nat (2 ^ 256) * of_nat (2 ^ 256)"
  "(of_nat (z256_val z256_one) :: zp) = 1"
proof -
  show "(of_nat (z256_val FP_R) :: zp) = of_nat (2 ^ 256)"
    unfolding fp_constants(1) of_nat_zp_iff by (rule mod_mod_trivial)
  show "(of_nat (z256_val FP_R_SQUARED) :: zp) = of_nat (2 ^ 256) * of_nat (2 ^ 256)"
    unfolding fp_constants(2) of_nat_mult [symmetric] of_nat_zp_iff by (rule mod_mod_trivial)
  show "(of_nat (z256_val z256_one) :: zp) = 1" by (simp add: z256_one_def)
qed

lemma radix_cancel: "(of_nat (2 ^ 256) :: zp) * x = y \<Longrightarrow> x = y * rinv"
proof -
  assume "of_nat (2 ^ 256) * x = y"
  then have "y * rinv = of_nat (2 ^ 256) * rinv * x" by (simp only: mult_ac)
  then show ?thesis by (simp only: rinv_radix mult_1_left)
qed

lemma mont_mul_ring:
  assumes "z256_val b \<le> pval"
  shows "(of_nat (z256_val (mont_mul a b)) :: zp) = of_nat (z256_val a) * of_nat (z256_val b) * rinv"
    and "z256_val (mont_mul a b) \<le> pval"
    and "z256_val a = 0 \<Longrightarrow> z256_val (mont_mul a b) = 0"
proof -
  obtain T M where T: "2 ^ 256 * T = z256_val a * z256_val b + M * pval" "T < z256_val b + pval"
      "z256_val a * z256_val b = 0 \<longrightarrow> M = 0" "z256_val (mont_mul a b) = (if pval < T then T - pval else T)"
    using mont_mul_exact [OF assms, of a] by (elim exE conjE) (rule that)
  have "(of_nat (2 ^ 256 * T) :: zp) = of_nat (z256_val a) * of_nat (z256_val b)"
    unfolding T(1) by simp
  then have "(of_nat T :: zp) = of_nat (z256_val a) * of_nat (z256_val b) * rinv"
    unfolding of_nat_mult by (rule radix_cancel)
  moreover have "(of_nat (z256_val (mont_mul a b)) :: zp) = of_nat T"
    unfolding T(4) by (simp add: of_nat_diff)
  ultimately show "(of_nat (z256_val (mont_mul a b)) :: zp) = of_nat (z256_val a) * of_nat (z256_val b) * rinv"
    by simp
  show "z256_val (mont_mul a b) \<le> pval" unfolding T(4) using T(2) assms by auto
  show "z256_val (mont_mul a b) = 0" if "z256_val a = 0"
    unfolding T(4) using T(1,3) that by simp
qed

lemma regular_mul_ring:
  shows "(of_nat (z256_val (regular_mul a b)) :: zp) = of_nat (z256_val a) * of_nat (z256_val b)"
    and "z256_val (regular_mul a b) \<le> pval"
    and "z256_val a = 0 \<Longrightarrow> z256_val (regular_mul a b) = 0"
proof -
  define R :: zp where "R = of_nat (2 ^ 256)"
  note R = rinv_radix [folded R_def] and C = mont_const_ring [folded R_def]
  note le = fp_constants_le
  have m: "z256_val (mont_mul b FP_R_SQUARED) \<le> pval" by (rule mont_mul_ring(2) [OF le(2)])
  have "(of_nat (z256_val (regular_mul a b)) :: zp) =
      of_nat (z256_val a) * of_nat (z256_val b) * (R * rinv) * (R * rinv) * (R * rinv) * (R * rinv)"
    unfolding regular_mul_def Let_def mont_mul_ring(1) [OF le(4)] mont_mul_ring(1) [OF m]
      mont_mul_ring(1) [OF le(2)] C by (simp only: mult_ac mult_1_right mult_1_left)
  then show "(of_nat (z256_val (regular_mul a b)) :: zp) = of_nat (z256_val a) * of_nat (z256_val b)"
    by (simp only: R mult_1_right)
  show "z256_val (regular_mul a b) \<le> pval"
    unfolding regular_mul_def Let_def by (rule mont_mul_ring(2) [OF le(4)])
  show "z256_val (regular_mul a b) = 0" if "z256_val a = 0"
    unfolding regular_mul_def Let_def using that mont_mul_ring(3) [OF le(4)] mont_mul_ring(3) [OF m]
      mont_mul_ring(3) [OF le(2)] by blast
qed

end
