(* ===== verification/Sm9_Fp.thy ===== *)
theory Sm9_Fp
  imports Sm9_Mont
begin

text \<open>
  The prime field elements of SM9, \<open>src/gm-sm9-rs/src/arith/fp.rs\<close>: the \<open>FieldElement\<close> operations
  on integers kept in Montgomery form, and the conversions. \<open>field_element\<close> is the contract of the
  trait \<open>FieldElement\<close> of \<open>arith/mod.rs\<close>: operations on a representation that a homomorphism takes
  to a ring. The module provides it for \<open>Fp\<close>; the extension fields and the curves use it.
\<close>

section \<open>Model\<close>

datatype ArithError = InvalidParameter string

datatype Fp = Fp (fp_z: Z256)

definition fp_from_raw :: "Z256 \<Rightarrow> Fp" where
  "fp_from_raw raw = Fp (mont_mul raw FP_R_SQUARED)"

definition fp_from_montgomery :: "Fp \<Rightarrow> Fp" where
  "fp_from_montgomery a = Fp (regular_mul (fp_z a) FP_R_INV)"

definition fp_from_u64 :: "u64 \<Rightarrow> Fp" where
  "fp_from_u64 v = Fp (mont_mul (Z256 v 0 0 0) FP_R_SQUARED)"

definition fp_to_bytes :: "Fp \<Rightarrow> bytes" where
  "fp_to_bytes a = z256_to_bytes_be (regular_mul (fp_z a) FP_R_INV)"

definition fp_from_bytes :: "bytes \<Rightarrow> (ArithError, Fp) res" where
  "fp_from_bytes bs =
     (if length bs \<noteq> 32
      then Inl (InvalidParameter (''Expected 32 bytes for Fp, got '' @ show_nat (length bs)))
      else bind_res (ok_or (z256_from_bytes_be bs) (InvalidParameter ''Invalid Fp bytes''))
             (\<lambda>raw. Inr (fp_from_raw raw)))"

definition fp_zero :: Fp where
  "fp_zero = Fp z256_zero"

definition fp_one :: Fp where
  "fp_one = Fp FP_R"

definition fp_add :: "Fp \<Rightarrow> Fp \<Rightarrow> Fp" where
  "fp_add a b =
     (let (sum, carry) = add_with_carry (fp_z a) (fp_z b);
          (diff, borrow) = sub_with_borrow sum z256_P;
          underflow = (carry \<noteq> 0 \<or> borrow = 0)
      in Fp (z256_conditional_select sum diff (of_bool underflow)))"

definition fp_sub :: "Fp \<Rightarrow> Fp \<Rightarrow> Fp" where
  "fp_sub a b =
     (let (diff, borrow) = sub_with_borrow (fp_z a) (fp_z b);
          (sum, _) = add_with_carry diff z256_P
      in Fp (z256_conditional_select diff sum (of_bool (borrow \<noteq> 0))))"

definition fp_is_zero :: "Fp \<Rightarrow> bool" where
  "fp_is_zero a = z256_is_zero (fp_z a)"

definition fp_is_one :: "Fp \<Rightarrow> bool" where
  "fp_is_one a = z256_eq (fp_z a) FP_R"

definition fp_neg :: "Fp \<Rightarrow> Fp" where
  "fp_neg a = (if fp_is_zero a then fp_zero else Fp (fst (sub_with_borrow z256_P (fp_z a))))"

definition fp_mul :: "Fp \<Rightarrow> Fp \<Rightarrow> Fp" where
  "fp_mul a b = Fp (mont_mul (fp_z a) (fp_z b))"

definition fp_square :: "Fp \<Rightarrow> Fp" where
  "fp_square a = fp_mul a a"

definition fp_double :: "Fp \<Rightarrow> Fp" where
  "fp_double a = fp_add a a"

definition fp_inv :: "Fp \<Rightarrow> Fp option" where
  "fp_inv a =
     (if fp_is_zero a then None
      else
        let raw = mont_mul (fp_z a) z256_one;
            p_minus_2 = Z256 (limbs z256_P ! 0 - 2) (limbs z256_P ! 1) (limbs z256_P ! 2) (limbs z256_P ! 3);
            raw_inv = fp_pow raw p_minus_2
        in Some (Fp (mont_mul raw_inv FP_R_SQUARED)))"

definition fp_eq :: "Fp \<Rightarrow> Fp \<Rightarrow> bool" where
  "fp_eq a b = z256_eq (fp_z a) (fp_z b)"

definition fp_ct_eq :: "'c subtle \<Rightarrow> Fp \<Rightarrow> Fp \<Rightarrow> 'c" where
  "fp_ct_eq S a b = z256_ct_eq S (fp_z a) (fp_z b)"

definition fp_ct_select :: "'c subtle \<Rightarrow> Fp \<Rightarrow> Fp \<Rightarrow> 'c \<Rightarrow> Fp" where
  "fp_ct_select S a b choice = Fp (z256_ct_select S (fp_z a) (fp_z b) choice)"


section \<open>The contract of a field module\<close>

text \<open>
  Multiplication and squaring on a representation, with the ring element an element stands for:
  enough for square-and-multiply.
\<close>

lemma even_unat: "even (unat (x::u64)) \<longleftrightarrow> even x"
proof -
  have "bit (unat x) 0 \<longleftrightarrow> bit x 0" by (simp only: bit_unsigned_iff) simp
  then show ?thesis by (simp add: bit_0)
qed

lemma low_bit_odd: "limbs e ! 0 AND 1 = 1 \<longleftrightarrow> odd (z256_val e)"
  by (cases e) (simp add: and_one_eq mod_2_eq_odd even_unat)

lemma odd_even_power: "(x::'a::comm_monoid_mult) ^ n = (if odd n then x else 1) * (x * x) ^ (n div 2)"
proof -
  have "x ^ n = x ^ (n mod 2) * x ^ (2 * (n div 2))" by (simp flip: power_add)
  also have "x ^ (2 * (n div 2)) = (x * x) ^ (n div 2)" by (simp only: power_mult power2_eq_square)
  finally show ?thesis by (simp add: mod_2_eq_odd)
qed

locale power_domain =
  fixes pmul :: "'e \<Rightarrow> 'e \<Rightarrow> 'e" and psq :: "'e \<Rightarrow> 'e" and ok :: "'e \<Rightarrow> bool"
    and val :: "'e \<Rightarrow> 'r::comm_ring_1"
  assumes mul_ok: "ok a \<Longrightarrow> ok b \<Longrightarrow> ok (pmul a b)"
    and mul_val: "ok a \<Longrightarrow> ok b \<Longrightarrow> val (pmul a b) = val a * val b"
    and square_ok: "ok a \<Longrightarrow> ok (psq a)"
    and square_val: "ok a \<Longrightarrow> val (psq a) = val a * val a"
begin

lemma pow_loop_val:
  assumes "ok r" "ok b"
  shows "ok (pow_loop pmul psq r b e) \<and> val (pow_loop pmul psq r b e) = val r * val b ^ z256_val e"
  using assms
proof (induction "z256_val e" arbitrary: r b e rule: less_induct)
  case less
  show ?case
  proof (cases "z256_val e = 0")
    case True
    then show ?thesis using less.prems by (simp add: pow_loop.simps [of _ _ r] z256_is_zero_iff)
  next
    case False
    define r' where "r' = (if limbs e ! 0 AND 1 = 1 then pmul r b else r)"
    have step: "pow_loop pmul psq r b e = pow_loop pmul psq r' (psq b) (exp_shr e)"
      using False by (simp add: pow_loop.simps [of _ _ r] z256_is_zero_iff r'_def)
    have r': "ok r'" "val r' = (if odd (z256_val e) then val r * val b else val r)"
      using less.prems mul_ok mul_val by (auto simp: r'_def low_bit_odd)
    have "z256_val (exp_shr e) < z256_val e" using False by (simp add: exp_shr_val)
    from less.hyps [OF this r'(1) square_ok [OF less.prems(2)]] less.prems(2)
    have IH: "ok (pow_loop pmul psq r' (psq b) (exp_shr e))"
        "val (pow_loop pmul psq r' (psq b) (exp_shr e)) = val r' * (val b * val b) ^ (z256_val e div 2)"
      by (simp_all add: square_val exp_shr_val)
    have "val b ^ z256_val e = (if odd (z256_val e) then val b else 1) * (val b * val b) ^ (z256_val e div 2)"
      using odd_even_power [of "val b" "z256_val e"] by simp
    then show ?thesis using IH r'(2) by (simp add: step mult.assoc)
  qed
qed

end

text \<open>
  The trait \<open>FieldElement\<close>: its operations compute in a commutative ring, and keep the elements
  well-formed. The ring element of an inverse is the inverse, for the elements \<open>unit\<close> describes.
\<close>

locale field_element = power_domain fmul fsq ok val
  for fmul :: "'e \<Rightarrow> 'e \<Rightarrow> 'e" and fsq :: "'e \<Rightarrow> 'e" and ok :: "'e \<Rightarrow> bool"
    and val :: "'e \<Rightarrow> 'r::comm_ring_1" +
  fixes fzero fone :: 'e and fadd fsub :: "'e \<Rightarrow> 'e \<Rightarrow> 'e" and fneg fdbl :: "'e \<Rightarrow> 'e"
    and finv :: "'e \<Rightarrow> 'e option" and unit :: "'e \<Rightarrow> bool"
  assumes zero_ok: "ok fzero" and zero_val: "val fzero = 0"
    and one_ok: "ok fone" and one_val: "val fone = 1"
    and add_ok: "ok a \<Longrightarrow> ok b \<Longrightarrow> ok (fadd a b)"
    and add_val: "ok a \<Longrightarrow> ok b \<Longrightarrow> val (fadd a b) = val a + val b"
    and sub_ok: "ok a \<Longrightarrow> ok b \<Longrightarrow> ok (fsub a b)"
    and sub_val: "ok a \<Longrightarrow> ok b \<Longrightarrow> val (fsub a b) = val a - val b"
    and neg_ok: "ok a \<Longrightarrow> ok (fneg a)"
    and neg_val: "ok a \<Longrightarrow> val (fneg a) = - val a"
    and dbl_ok: "ok a \<Longrightarrow> ok (fdbl a)"
    and dbl_val: "ok a \<Longrightarrow> val (fdbl a) = val a + val a"
    and inv_ok: "ok a \<Longrightarrow> finv a = Some b \<Longrightarrow> ok b"
    and inv_val: "ok a \<Longrightarrow> unit a \<Longrightarrow> \<exists>b. finv a = Some b \<and> val a * val b = 1"
begin

lemmas closed = zero_ok one_ok add_ok sub_ok neg_ok dbl_ok mul_ok square_ok
lemmas hom = zero_val one_val add_val sub_val neg_val dbl_val mul_val square_val

lemma pow_val:
  assumes "ok b"
  shows "ok (pow_loop fmul fsq fone b e)" "val (pow_loop fmul fsq fone b e) = val b ^ z256_val e"
  using pow_loop_val [OF one_ok assms, of e] by (simp_all add: one_val)

end

section \<open>The prime field\<close>

definition fp_ok :: "Fp \<Rightarrow> bool" where
  "fp_ok a \<longleftrightarrow> z256_val (fp_z a) \<le> pval"

definition fp_val :: "Fp \<Rightarrow> zp" where
  "fp_val a = of_nat (z256_val (fp_z a)) * rinv"

text \<open>The elements with a Fermat inverse; with \<open>p\<close> prime, all that are not zero.\<close>

definition fp_unit :: "Fp \<Rightarrow> bool" where
  "fp_unit a \<longleftrightarrow> fp_val a ^ (pval - 1) = 1"

interpretation reg: power_domain regular_mul "\<lambda>b. regular_mul b b" "\<lambda>a. True" "\<lambda>a. (of_nat (z256_val a) :: zp)"
  by unfold_locales (simp_all add: regular_mul_ring(1))

lemma fp_pow_ring: "(of_nat (z256_val (fp_pow b e)) :: zp) = of_nat (z256_val b) ^ z256_val e"
  using reg.pow_loop_val [of z256_one b e] by (simp add: fp_pow_def mont_const_ring(3))

lemma fp_zero_laws: "fp_ok fp_zero" "fp_val fp_zero = 0"
  by (simp_all add: fp_ok_def fp_val_def fp_zero_def z256_zero_def)

lemma fp_one_laws: "fp_ok fp_one" "fp_val fp_one = 1"
  using fp_constants_le(1) rinv_radix(2)
  by (simp_all add: fp_ok_def fp_val_def fp_one_def mont_const_ring(1) del: of_nat_power)

lemma fp_mul_laws:
  assumes "fp_ok a" "fp_ok b"
  shows "fp_ok (fp_mul a b)" "fp_val (fp_mul a b) = fp_val a * fp_val b"
  using mont_mul_ring(1,2) [of "fp_z b" "fp_z a"] assms
  by (simp_all add: fp_ok_def fp_val_def fp_mul_def mult_ac)

lemma fp_add_exact:
  assumes "fp_ok a" "fp_ok b"
  shows "z256_val (fp_z (fp_add a b)) =
     (if pval \<le> z256_val (fp_z a) + z256_val (fp_z b)
      then z256_val (fp_z a) + z256_val (fp_z b) - pval else z256_val (fp_z a) + z256_val (fp_z b))"
proof -
  obtain s c where s: "add_with_carry (fp_z a) (fp_z b) = (s, c)" by force
  obtain d e where d: "sub_with_borrow s z256_P = (d, e)" by force
  have r: "fp_z (fp_add a b) = (if c \<noteq> 0 \<or> e = 0 then d else s)"
    by (simp add: fp_add_def s d)
  have "pval < 2 ^ 256" by (simp add: pval_eq)
  then show ?thesis
    using add_with_carry_cases [OF s] sub_with_borrow_cases [OF d] assms z256_val_bound [of s]
    unfolding r fp_ok_def by (auto simp: pval_def)
qed

lemma fp_sub_exact:
  assumes "fp_ok a" "fp_ok b"
  shows "z256_val (fp_z (fp_sub a b)) =
     (if z256_val (fp_z b) \<le> z256_val (fp_z a) then z256_val (fp_z a) - z256_val (fp_z b)
      else z256_val (fp_z a) + pval - z256_val (fp_z b))"
proof -
  obtain d e where d: "sub_with_borrow (fp_z a) (fp_z b) = (d, e)" by force
  obtain s c where s: "add_with_carry d z256_P = (s, c)" by force
  have r: "fp_z (fp_sub a b) = (if e \<noteq> 0 then s else d)" by (simp add: fp_sub_def s d)
  have "pval < 2 ^ 256" by (simp add: pval_eq)
  then show ?thesis
    using add_with_carry_cases [OF s] sub_with_borrow_cases [OF d] assms z256_val_bound [of s]
    unfolding r fp_ok_def by (auto simp: pval_def)
qed

lemma fp_neg_exact:
  assumes "fp_ok a"
  shows "z256_val (fp_z (fp_neg a)) = (if z256_val (fp_z a) = 0 then 0 else pval - z256_val (fp_z a))"
proof -
  obtain d e where d: "sub_with_borrow z256_P (fp_z a) = (d, e)" by force
  show ?thesis using sub_with_borrow_cases [OF d] assms
    by (auto simp: fp_neg_def fp_is_zero_def z256_is_zero_iff d fp_ok_def pval_def fp_zero_def z256_zero_def)
qed

lemma fp_add_laws:
  assumes "fp_ok a" "fp_ok b"
  shows "fp_ok (fp_add a b)" "fp_val (fp_add a b) = fp_val a + fp_val b"
  using assms fp_add_exact [OF assms]
  by (auto simp: fp_ok_def fp_val_def of_nat_diff algebra_simps simp flip: distrib_right)

lemma fp_sub_laws:
  assumes "fp_ok a" "fp_ok b"
  shows "fp_ok (fp_sub a b)" "fp_val (fp_sub a b) = fp_val a - fp_val b"
  using assms fp_sub_exact [OF assms]
  by (auto simp: fp_ok_def fp_val_def of_nat_diff left_diff_distrib)

lemma fp_neg_laws:
  assumes "fp_ok a"
  shows "fp_ok (fp_neg a)" "fp_val (fp_neg a) = - fp_val a"
  using assms fp_neg_exact [OF assms]
  by (auto simp: fp_ok_def fp_val_def of_nat_diff)

lemma fp_inv_laws:
  assumes "fp_ok a"
  shows "fp_inv a = Some b \<Longrightarrow> fp_ok b \<and> fp_val b = fp_val a ^ (pval - 2)"
    and "fp_unit a \<Longrightarrow> \<exists>b. fp_inv a = Some b \<and> fp_val a * fp_val b = 1"
proof -
  define e where "e = Z256 (limbs z256_P ! 0 - 2) (limbs z256_P ! 1) (limbs z256_P ! 2) (limbs z256_P ! 3)"
  have e: "z256_val e = pval - 2" by (simp add: e_def z256_P_def pval_eq)
  define b0 where "b0 = Fp (mont_mul (fp_pow (mont_mul (fp_z a) z256_one) e) FP_R_SQUARED)"
  have inv: "fp_inv a = (if fp_is_zero a then None else Some b0)"
    by (simp add: fp_inv_def b0_def e_def Let_def)
  have ok: "fp_ok b0" using mont_mul_ring(2) [OF fp_constants_le(2)] by (simp add: fp_ok_def b0_def)
  have "fp_val b0 = of_nat (z256_val (fp_pow (mont_mul (fp_z a) z256_one) e)) *
      (of_nat (2 ^ 256) * rinv) * (of_nat (2 ^ 256) * rinv)"
    unfolding fp_val_def b0_def Fp.sel mont_mul_ring(1) [OF fp_constants_le(2)] mont_const_ring by (simp only: mult_ac)
  also have "\<dots> = fp_val a ^ (pval - 2)"
    unfolding rinv_radix fp_pow_ring mont_mul_ring(1) [OF fp_constants_le(4)] mont_const_ring e fp_val_def
    by simp
  finally have v: "fp_val b0 = fp_val a ^ (pval - 2)" .
  then show "fp_inv a = Some b \<Longrightarrow> fp_ok b \<and> fp_val b = fp_val a ^ (pval - 2)"
    using ok inv by (auto split: if_splits)
  show "\<exists>b. fp_inv a = Some b \<and> fp_val a * fp_val b = 1" if u: "fp_unit a"
  proof -
    have "pval - 1 = Suc (pval - 2)" using pval_gt_1 by simp
    then have one: "fp_val a * fp_val b0 = 1" using u v by (simp add: fp_unit_def)
    then have "fp_val a \<noteq> 0" by auto
    moreover have "fp_val a = 0" if "z256_val (fp_z a) = 0" using that by (simp add: fp_val_def)
    ultimately have "z256_val (fp_z a) \<noteq> 0" by blast
    then have "\<not> fp_is_zero a" by (simp add: fp_is_zero_def z256_is_zero_iff)
    then show ?thesis using inv one by simp
  qed
qed

interpretation fp: field_element fp_mul fp_square fp_ok fp_val fp_zero fp_one fp_add fp_sub fp_neg fp_double
  fp_inv fp_unit
  using fp_inv_laws
  by unfold_locales
    (simp_all add: fp_zero_laws fp_one_laws fp_mul_laws fp_add_laws fp_sub_laws fp_neg_laws
      fp_square_def fp_double_def)

section \<open>Conversions\<close>

lemma fp_from_raw_laws: "fp_ok (fp_from_raw r)" "fp_val (fp_from_raw r) = of_nat (z256_val r)"
proof -
  show "fp_ok (fp_from_raw r)" using mont_mul_ring(2) [OF fp_constants_le(2)] by (simp add: fp_ok_def fp_from_raw_def)
  have "fp_val (fp_from_raw r) = of_nat (z256_val r) * (of_nat (2 ^ 256) * rinv) * (of_nat (2 ^ 256) * rinv)"
    unfolding fp_val_def fp_from_raw_def Fp.sel mont_mul_ring(1) [OF fp_constants_le(2)] mont_const_ring
    by (simp only: mult_ac)
  then show "fp_val (fp_from_raw r) = of_nat (z256_val r)" by (simp only: rinv_radix mult_1_right)
qed

text \<open>The integer that \<open>to_bytes\<close> writes is at most \<open>p\<close> and has the residue of the element.\<close>

lemma fp_to_bytes_laws:
  shows "(of_nat (z256_val (regular_mul (fp_z a) FP_R_INV)) :: zp) = fp_val a"
    and "z256_val (regular_mul (fp_z a) FP_R_INV) \<le> pval"
    and "z256_val (fp_z a) = 0 \<Longrightarrow> z256_val (regular_mul (fp_z a) FP_R_INV) = 0"
  using regular_mul_ring [of "fp_z a" FP_R_INV] by (simp_all add: fp_val_def rinv_def)

lemma fp_from_bytes_ok:
  assumes "length bs = 32"
  shows "\<exists>r. fp_from_bytes bs = Inr (fp_from_raw r) \<and> z256_val r = nat_of_be bs"
  using z256_from_bytes_be_val [of bs] assms by (auto simp: fp_from_bytes_def)

lemma le_pval_residue:
  assumes "x \<le> pval" "(of_nat x :: zp) = of_nat y" "y < pval"
  shows "x = y \<or> x = pval \<and> y = 0"
  using assms by (auto simp: of_nat_zp_iff le_less)

lemma fp_bytes_val:
  assumes "length bs = 32" "nat_of_be bs < pval"
  shows "\<exists>x. fp_from_bytes bs = Inr x \<and> fp_ok x \<and> fp_val x = of_nat (nat_of_be bs) \<and> fp_to_bytes x = bs"
proof -
  obtain r where r: "fp_from_bytes bs = Inr (fp_from_raw r)" "z256_val r = nat_of_be bs"
    using fp_from_bytes_ok [OF assms(1)] by blast
  define y where "y = z256_val (regular_mul (fp_z (fp_from_raw r)) FP_R_INV)"
  have y: "y \<le> pval" "(of_nat y :: zp) = of_nat (nat_of_be bs)"
    using fp_to_bytes_laws(1,2) [of "fp_from_raw r"] fp_from_raw_laws(2) [of r] r(2) by (simp_all add: y_def)
  have zero: "y = 0" if "nat_of_be bs = 0"
  proof -
    have "z256_val (fp_z (fp_from_raw r)) = 0"
      using mont_mul_ring(3) [OF fp_constants_le(2)] that r(2) by (simp add: fp_from_raw_def)
    then show ?thesis unfolding y_def by (rule fp_to_bytes_laws(3))
  qed
  have "y = nat_of_be bs" using le_pval_residue [OF y(1,2) assms(2)] zero pval_pos by auto
  then have "fp_to_bytes (fp_from_raw r) = bs"
    using nat_to_be_of_be [of bs] assms(1) by (simp add: fp_to_bytes_def z256_to_bytes_be_val y_def)
  then show ?thesis using r fp_from_raw_laws by simp
qed

lemma fp_from_raw_p: "z256_val (fp_z (fp_from_raw z256_P)) = pval"
proof -
  obtain T M where T: "2 ^ 256 * T = z256_val z256_P * z256_val FP_R_SQUARED + M * pval"
      "T < z256_val FP_R_SQUARED + pval"
      "z256_val (mont_mul z256_P FP_R_SQUARED) = (if pval < T then T - pval else T)"
    using mont_mul_exact [OF fp_constants_le(2), of z256_P] by (elim exE conjE) (rule that)
  have "0 < z256_val z256_P * z256_val FP_R_SQUARED" by (simp add: z256_P_def FP_R_SQUARED_def)
  then have pos: "0 < T" using T(1) by (metis add_is_0 mult_0_right neq0_conv)
  have "(of_nat (2 ^ 256 * T) :: zp) = 0" unfolding T(1) by (simp add: pval_def [symmetric])
  then have "(of_nat T :: zp) = 0 * rinv" unfolding of_nat_mult by (rule radix_cancel)
  then have "pval dvd T" by (simp add: of_nat_zp_eq_0 mod_eq_0_iff_dvd)
  then obtain k where k: "T = pval * k" by blast
  have "T < 2 * pval" using T(2) fp_constants_le(2) by simp
  then have "k = 1" using k pos by (cases k) auto
  then show ?thesis using T(3) k by (simp add: fp_from_raw_def)
qed

section \<open>Properties\<close>

text \<open>
  C17. The operand-scanning Montgomery product is correct: for a second factor of at most \<open>p\<close>, the
  result times $2^{256}$ is the product modulo \<open>p\<close>, and it is at most \<open>p\<close> again. The misplaced
  carry word of the first inner loop is always zero for such factors.
\<close>

theorem mont_mul_correct:
  assumes "z256_val b \<le> z256_val z256_P"
  shows "z256_val (mont_mul a b) * 2 ^ 256 mod z256_val z256_P = z256_val a * z256_val b mod z256_val z256_P \<and>
     z256_val (mont_mul a b) \<le> z256_val z256_P"
proof -
  have b: "z256_val b \<le> pval" using assms by (simp add: pval_def)
  have "(of_nat (z256_val (mont_mul a b) * 2 ^ 256) :: zp) =
      of_nat (z256_val a) * of_nat (z256_val b) * (rinv * of_nat (2 ^ 256))"
    unfolding of_nat_mult mont_mul_ring(1) [OF b] by (simp only: mult.assoc)
  also have "\<dots> = of_nat (z256_val a * z256_val b)" by (simp only: rinv_radix mult_1_right of_nat_mult)
  finally show ?thesis
    using mont_mul_ring(2) [OF b] unfolding of_nat_zp_iff by (simp add: pval_def)
qed

theorem mont_mul_correct_witness:
  "z256_val (mont_mul z256_N FP_R_SQUARED) * 2 ^ 256 mod z256_val z256_P =
     z256_val z256_N * z256_val FP_R_SQUARED mod z256_val z256_P"
  using mont_mul_correct [of FP_R_SQUARED z256_N] fp_constants_le(2) by (simp add: pval_def)

text \<open>
  C21. The operations of \<open>Fp\<close> refine the ring of integers modulo \<open>p\<close>: on elements of at most \<open>p\<close>,
  each keeps that bound and computes, on the residues the elements stand for, the ring operation it
  names.
\<close>

theorem fp_refines_ring:
  assumes "fp_ok a" "fp_ok b"
  shows "fp_ok (fp_add a b) \<and> fp_val (fp_add a b) = fp_val a + fp_val b \<and>
     fp_ok (fp_sub a b) \<and> fp_val (fp_sub a b) = fp_val a - fp_val b \<and>
     fp_ok (fp_mul a b) \<and> fp_val (fp_mul a b) = fp_val a * fp_val b \<and>
     fp_ok (fp_neg a) \<and> fp_val (fp_neg a) = - fp_val a \<and>
     fp_ok (fp_square a) \<and> fp_val (fp_square a) = fp_val a * fp_val a \<and>
     fp_ok (fp_double a) \<and> fp_val (fp_double a) = fp_val a + fp_val a \<and>
     fp_val fp_zero = 0 \<and> fp_val fp_one = 1 \<and> fp_val (fp_from_raw r) = of_nat (z256_val r)"
  using assms by (simp add: fp.closed fp.hom fp_from_raw_laws)

theorem fp_refines_ring_witness:
  "fp_val (fp_add fp_one (fp_from_u64 41)) = fp_val fp_one + fp_val (fp_from_u64 41)"
  using fp_refines_ring [of fp_one "fp_from_raw (Z256 41 0 0 0)" z256_zero] fp_one_laws(1) fp_from_raw_laws(1)
  by (simp add: fp_from_u64_def fp_from_raw_def)

text \<open>
  \<open>inv\<close> is the power of Fermat: it fails on the zero representation only, and its result is the
  $(p - 2)$-th power, which is the inverse of every element whose $(p - 1)$-th power is one.
\<close>

theorem fp_inv_correct:
  assumes "fp_ok a"
  shows "(fp_inv a = None \<longleftrightarrow> fp_is_zero a) \<and>
     (\<forall>b. fp_inv a = Some b \<longrightarrow> fp_ok b \<and> fp_val b = fp_val a ^ (z256_val z256_P - 2)) \<and>
     (fp_val a ^ (z256_val z256_P - 1) = 1 \<longrightarrow> (\<exists>b. fp_inv a = Some b \<and> fp_val a * fp_val b = 1))"
  using fp_inv_laws [OF assms] by (simp add: fp_inv_def fp_unit_def pval_def Let_def)

theorem fp_inv_correct_witness:
  "\<exists>b. fp_inv fp_one = Some b \<and> fp_val fp_one * fp_val b = 1"
  using fp_inv_correct [OF fp_one_laws(1)] fp_one_laws(2) by simp

text \<open>
  Bytes round trip: 32 bytes that spell a number below \<open>p\<close> are read as the element of that
  residue, and written back unchanged.
\<close>

theorem fp_bytes_roundtrip:
  assumes "length bs = 32" "nat_of_be bs < z256_val z256_P"
  shows "\<exists>x. fp_from_bytes bs = Inr x \<and> fp_ok x \<and> fp_val x = of_nat (nat_of_be bs) \<and> fp_to_bytes x = bs"
  using fp_bytes_val assms by (simp add: pval_def)

theorem fp_bytes_roundtrip_witness:
  "\<exists>x. fp_from_bytes (z256_to_bytes_be z256_one) = Inr x \<and> fp_ok x \<and> fp_val x = 1 \<and>
     fp_to_bytes x = z256_to_bytes_be z256_one"
  using fp_bytes_roundtrip [of "z256_to_bytes_be z256_one"] z256_val_bound [of z256_one]
  by (simp add: z256_to_bytes_be_val nat_of_be_to_be z256_one_def z256_P_def)

text \<open>
  \<open>from_bytes\<close> does not reject \<open>p\<close>: its bytes give an element with residue zero that neither
  \<open>is_zero\<close> nor the equality with \<open>ZERO\<close> recognises.
\<close>

theorem fp_from_bytes_accepts_p:
  "\<exists>x. fp_from_bytes (z256_to_bytes_be z256_P) = Inr x \<and> fp_val x = fp_val fp_zero \<and>
     \<not> fp_is_zero x \<and> \<not> fp_eq x fp_zero"
proof -
  obtain r where r: "fp_from_bytes (z256_to_bytes_be z256_P) = Inr (fp_from_raw r)"
      "z256_val r = nat_of_be (z256_to_bytes_be z256_P)"
    using fp_from_bytes_ok [of "z256_to_bytes_be z256_P"] by (auto simp: z256_to_bytes_be_val)
  then have "z256_val r = z256_val z256_P"
    using z256_val_bound [of z256_P] by (simp add: z256_to_bytes_be_val nat_of_be_to_be)
  then have "r = z256_P" by (simp only: z256_val_inj)
  moreover have "fp_val (fp_from_raw z256_P) = fp_val fp_zero"
    by (simp add: fp_from_raw_laws fp_zero_laws pval_def [symmetric])
  moreover have "z256_val (fp_z (fp_from_raw z256_P)) \<noteq> 0" using fp_from_raw_p by simp
  ultimately show ?thesis using r(1)
    by (auto simp: fp_is_zero_def z256_is_zero_iff fp_eq_def fp_zero_def z256_zero_def)
qed

end
