(* ===== verification/Sm9_Tower.thy ===== *)
theory Sm9_Tower
  imports Sm9_Fp
begin

text \<open>
  The extension fields of \<open>src/gm-sm9-rs/src/arith/fp2.rs\<close>, \<open>fp4.rs\<close> and \<open>fp12.rs\<close>: records of
  components, with every operation written over the operations of the field below. Each module
  meets the contract \<open>field_element\<close> of the trait, with the ring of its tower level as the
  meaning of its elements; the Frobenius maps of \<open>Fp12\<close> are shown to be ring homomorphisms.
\<close>

section \<open>Fp2\<close>

record Fp2 =
  f2c0 :: Fp
  f2c1 :: Fp

definition fp2_new :: "Fp \<Rightarrow> Fp \<Rightarrow> Fp2" where
  "fp2_new c0 c1 = \<lparr>f2c0 = c0, f2c1 = c1\<rparr>"

definition fp2_mul_u :: "Fp2 \<Rightarrow> Fp2" where
  "fp2_mul_u x = fp2_new (fp_double (fp_neg (f2c1 x))) (f2c0 x)"

definition fp2_frobenius :: "Fp2 \<Rightarrow> Fp2" where
  "fp2_frobenius x = fp2_new (f2c0 x) (fp_neg (f2c1 x))"

definition fp2_mul_fp :: "Fp2 \<Rightarrow> Fp \<Rightarrow> Fp2" where
  "fp2_mul_fp x k = fp2_new (fp_mul (f2c0 x) k) (fp_mul (f2c1 x) k)"

definition fp2_to_bytes :: "Fp2 \<Rightarrow> bytes" where
  "fp2_to_bytes x = fp_to_bytes (f2c0 x) @ fp_to_bytes (f2c1 x)"

definition fp2_zero :: Fp2 where
  "fp2_zero = fp2_new fp_zero fp_zero"

definition fp2_one :: Fp2 where
  "fp2_one = fp2_new fp_one fp_zero"

definition fp2_add :: "Fp2 \<Rightarrow> Fp2 \<Rightarrow> Fp2" where
  "fp2_add x y = fp2_new (fp_add (f2c0 x) (f2c0 y)) (fp_add (f2c1 x) (f2c1 y))"

definition fp2_sub :: "Fp2 \<Rightarrow> Fp2 \<Rightarrow> Fp2" where
  "fp2_sub x y = fp2_new (fp_sub (f2c0 x) (f2c0 y)) (fp_sub (f2c1 x) (f2c1 y))"

definition fp2_neg :: "Fp2 \<Rightarrow> Fp2" where
  "fp2_neg x = fp2_new (fp_neg (f2c0 x)) (fp_neg (f2c1 x))"

definition fp2_mul :: "Fp2 \<Rightarrow> Fp2 \<Rightarrow> Fp2" where
  "fp2_mul x y =
     (let ac = fp_mul (f2c0 x) (f2c0 y);
          bd = fp_mul (f2c1 x) (f2c1 y);
          ad = fp_mul (f2c0 x) (f2c1 y);
          bc = fp_mul (f2c1 x) (f2c0 y)
      in fp2_new (fp_sub ac (fp_add bd bd)) (fp_add ad bc))"

definition fp2_square :: "Fp2 \<Rightarrow> Fp2" where
  "fp2_square x =
     (let a2 = fp_square (f2c0 x);
          b2 = fp_square (f2c1 x);
          ab = fp_mul (f2c0 x) (f2c1 x)
      in fp2_new (fp_sub a2 (fp_add b2 b2)) (fp_add ab ab))"

definition fp2_norm :: "Fp2 \<Rightarrow> Fp" where
  "fp2_norm x = fp_add (fp_square (f2c0 x)) (fp_double (fp_square (f2c1 x)))"

definition fp2_inv :: "Fp2 \<Rightarrow> Fp2 option" where
  "fp2_inv x =
     Option.bind (fp_inv (fp2_norm x))
       (\<lambda>norm_inv. Some (fp2_new (fp_mul (f2c0 x) norm_inv) (fp_mul (fp_neg (f2c1 x)) norm_inv)))"

definition fp2_double :: "Fp2 \<Rightarrow> Fp2" where
  "fp2_double x = fp2_add x x"

definition fp2_is_zero :: "Fp2 \<Rightarrow> bool" where
  "fp2_is_zero x = (fp_is_zero (f2c0 x) \<and> fp_is_zero (f2c1 x))"

definition fp2_is_one :: "Fp2 \<Rightarrow> bool" where
  "fp2_is_one x = (fp_is_one (f2c0 x) \<and> fp_is_zero (f2c1 x))"

definition fp2_eq :: "Fp2 \<Rightarrow> Fp2 \<Rightarrow> bool" where
  "fp2_eq x y = (fp_eq (f2c0 x) (f2c0 y) \<and> fp_eq (f2c1 x) (f2c1 y))"

definition fp2_ct_eq :: "'c subtle \<Rightarrow> Fp2 \<Rightarrow> Fp2 \<Rightarrow> 'c" where
  "fp2_ct_eq S x y = choice_and S (fp_ct_eq S (f2c0 x) (f2c0 y)) (fp_ct_eq S (f2c1 x) (f2c1 y))"

definition fp2_ct_select :: "'c subtle \<Rightarrow> Fp2 \<Rightarrow> Fp2 \<Rightarrow> 'c \<Rightarrow> Fp2" where
  "fp2_ct_select S x y choice =
     fp2_new (fp_ct_select S (f2c0 x) (f2c0 y) choice) (fp_ct_select S (f2c1 x) (f2c1 y) choice)"

section \<open>Fp4\<close>

record Fp4 =
  f4c0 :: Fp2
  f4c1 :: Fp2

definition fp4_new :: "Fp2 \<Rightarrow> Fp2 \<Rightarrow> Fp4" where
  "fp4_new c0 c1 = \<lparr>f4c0 = c0, f4c1 = c1\<rparr>"

definition fp4_mul_v :: "Fp4 \<Rightarrow> Fp4" where
  "fp4_mul_v x = fp4_new (fp2_mul_u (f4c1 x)) (f4c0 x)"

definition fp4_frobenius :: "Fp4 \<Rightarrow> Fp4" where
  "fp4_frobenius x = fp4_new (fp2_frobenius (f4c0 x)) (fp2_neg (fp2_frobenius (f4c1 x)))"

definition fp4_conjugate :: "Fp4 \<Rightarrow> Fp4" where
  "fp4_conjugate x = fp4_new (f4c0 x) (fp2_neg (f4c1 x))"

definition fp4_frobenius_sq :: "Fp4 \<Rightarrow> Fp4" where
  "fp4_frobenius_sq x = fp4_conjugate x"

definition fp4_mul_fp :: "Fp4 \<Rightarrow> Fp \<Rightarrow> Fp4" where
  "fp4_mul_fp x k = fp4_new (fp2_mul_fp (f4c0 x) k) (fp2_mul_fp (f4c1 x) k)"

definition fp4_to_bytes :: "Fp4 \<Rightarrow> bytes" where
  "fp4_to_bytes x = fp2_to_bytes (f4c0 x) @ fp2_to_bytes (f4c1 x)"

definition fp4_zero :: Fp4 where
  "fp4_zero = fp4_new fp2_zero fp2_zero"

definition fp4_one :: Fp4 where
  "fp4_one = fp4_new fp2_one fp2_zero"

definition fp4_add :: "Fp4 \<Rightarrow> Fp4 \<Rightarrow> Fp4" where
  "fp4_add x y = fp4_new (fp2_add (f4c0 x) (f4c0 y)) (fp2_add (f4c1 x) (f4c1 y))"

definition fp4_sub :: "Fp4 \<Rightarrow> Fp4 \<Rightarrow> Fp4" where
  "fp4_sub x y = fp4_new (fp2_sub (f4c0 x) (f4c0 y)) (fp2_sub (f4c1 x) (f4c1 y))"

definition fp4_neg :: "Fp4 \<Rightarrow> Fp4" where
  "fp4_neg x = fp4_new (fp2_neg (f4c0 x)) (fp2_neg (f4c1 x))"

definition fp4_mul :: "Fp4 \<Rightarrow> Fp4 \<Rightarrow> Fp4" where
  "fp4_mul x y =
     (let ac = fp2_mul (f4c0 x) (f4c0 y);
          bd = fp2_mul (f4c1 x) (f4c1 y);
          ad = fp2_mul (f4c0 x) (f4c1 y);
          bc = fp2_mul (f4c1 x) (f4c0 y)
      in fp4_new (fp2_add ac (fp2_mul_u bd)) (fp2_add ad bc))"

definition fp4_square :: "Fp4 \<Rightarrow> Fp4" where
  "fp4_square x =
     (let a2 = fp2_square (f4c0 x);
          b2 = fp2_square (f4c1 x);
          ab = fp2_mul (f4c0 x) (f4c1 x)
      in fp4_new (fp2_add a2 (fp2_mul_u b2)) (fp2_add ab ab))"

definition fp4_norm :: "Fp4 \<Rightarrow> Fp2" where
  "fp4_norm x = fp2_sub (fp2_square (f4c0 x)) (fp2_mul_u (fp2_square (f4c1 x)))"

definition fp4_inv :: "Fp4 \<Rightarrow> Fp4 option" where
  "fp4_inv x =
     Option.bind (fp2_inv (fp4_norm x))
       (\<lambda>norm_inv. Some (fp4_new (fp2_mul (f4c0 x) norm_inv) (fp2_mul (fp2_neg (f4c1 x)) norm_inv)))"

definition fp4_double :: "Fp4 \<Rightarrow> Fp4" where
  "fp4_double x = fp4_add x x"

definition fp4_is_zero :: "Fp4 \<Rightarrow> bool" where
  "fp4_is_zero x = (fp2_is_zero (f4c0 x) \<and> fp2_is_zero (f4c1 x))"

definition fp4_is_one :: "Fp4 \<Rightarrow> bool" where
  "fp4_is_one x = (fp2_is_one (f4c0 x) \<and> fp2_is_zero (f4c1 x))"

definition fp4_eq :: "Fp4 \<Rightarrow> Fp4 \<Rightarrow> bool" where
  "fp4_eq x y = (fp2_eq (f4c0 x) (f4c0 y) \<and> fp2_eq (f4c1 x) (f4c1 y))"

definition fp4_ct_select :: "'c subtle \<Rightarrow> Fp4 \<Rightarrow> Fp4 \<Rightarrow> 'c \<Rightarrow> Fp4" where
  "fp4_ct_select S x y choice =
     fp4_new (fp2_ct_select S (f4c0 x) (f4c0 y) choice) (fp2_ct_select S (f4c1 x) (f4c1 y) choice)"

section \<open>Fp12\<close>

record Fp12 =
  f12c0 :: Fp4
  f12c1 :: Fp4
  f12c2 :: Fp4

definition fp12_new :: "Fp4 \<Rightarrow> Fp4 \<Rightarrow> Fp4 \<Rightarrow> Fp12" where
  "fp12_new c0 c1 c2 = \<lparr>f12c0 = c0, f12c1 = c1, f12c2 = c2\<rparr>"

definition fp12_mul_w :: "Fp12 \<Rightarrow> Fp12" where
  "fp12_mul_w x = fp12_new (fp4_mul_v (f12c1 x)) (f12c0 x) (f12c2 x)"

definition FROB_ALPHA1 :: Fp where
  "FROB_ALPHA1 = Fp (Z256 0x1a98dfbd4575299f 0x9ec8547b245c54fd 0xf51f5eac13df846c 0x9ef74015d5a16393)"

definition FROB_ALPHA2 :: Fp where
  "FROB_ALPHA2 = Fp (Z256 0xb626197dce4736ca 0x08296b3557ed0186 0x9c705db2fd91512a 0x1c753e748601c992)"

definition FROB_ALPHA3 :: Fp where
  "FROB_ALPHA3 = Fp (Z256 0x39b4ef0f3ee72529 0xdb043bf508582782 0xb8554ab054ac91e3 0x9848eec25498cab5)"

definition FROB_ALPHA4 :: Fp where
  "FROB_ALPHA4 = Fp (Z256 0x81054fcd94e9c1c4 0x4c0e91cb8ce2df3e 0x4877b452e8aedfb4 0x88f53e748b491776)"

definition FROB_ALPHA5 :: Fp where
  "FROB_ALPHA5 = Fp (Z256 0x048baa79dcc34107 0x5e2e7ac4fe76c161 0x99399754365bd4bc 0xaf91aeac819b0e13)"

definition fp12_frobenius :: "Fp12 \<Rightarrow> Fp12" where
  "fp12_frobenius x =
     fp12_new
       (fp4_new (fp2_frobenius (f4c0 (f12c0 x)))
                (fp2_mul_fp (fp2_frobenius (f4c1 (f12c0 x))) FROB_ALPHA3))
       (fp4_new (fp2_mul_fp (fp2_frobenius (f4c0 (f12c1 x))) FROB_ALPHA1)
                (fp2_mul_fp (fp2_frobenius (f4c1 (f12c1 x))) FROB_ALPHA4))
       (fp4_new (fp2_mul_fp (fp2_frobenius (f4c0 (f12c2 x))) FROB_ALPHA2)
                (fp2_mul_fp (fp2_frobenius (f4c1 (f12c2 x))) FROB_ALPHA5))"

definition fp12_frobenius_sq :: "Fp12 \<Rightarrow> Fp12" where
  "fp12_frobenius_sq x =
     fp12_new (fp4_frobenius_sq (f12c0 x))
              (fp4_mul_fp (fp4_frobenius_sq (f12c1 x)) FROB_ALPHA2)
              (fp4_mul_fp (fp4_frobenius_sq (f12c2 x)) FROB_ALPHA4)"

definition fp12_frobenius_cu :: "Fp12 \<Rightarrow> Fp12" where
  "fp12_frobenius_cu x =
     (let beta = fp2_new FROB_ALPHA3 fp_zero;
          frob3 = (\<lambda>y. fp2_frobenius (fp2_frobenius (fp2_frobenius y)))
      in fp12_new
           (fp4_new (frob3 (f4c0 (f12c0 x))) (fp2_neg (fp2_mul (frob3 (f4c1 (f12c0 x))) beta)))
           (fp4_new (fp2_mul (frob3 (f4c0 (f12c1 x))) beta) (frob3 (f4c1 (f12c1 x))))
           (fp4_new (fp2_neg (frob3 (f4c0 (f12c2 x)))) (fp2_mul (frob3 (f4c1 (f12c2 x))) beta)))"

definition fp12_frobenius_six :: "Fp12 \<Rightarrow> Fp12" where
  "fp12_frobenius_six x =
     fp12_new (fp4_conjugate (f12c0 x)) (fp4_neg (fp4_conjugate (f12c1 x))) (fp4_conjugate (f12c2 x))"

definition fp12_zero :: Fp12 where
  "fp12_zero = fp12_new fp4_zero fp4_zero fp4_zero"

definition fp12_one :: Fp12 where
  "fp12_one = fp12_new fp4_one fp4_zero fp4_zero"

definition fp12_add :: "Fp12 \<Rightarrow> Fp12 \<Rightarrow> Fp12" where
  "fp12_add x y =
     fp12_new (fp4_add (f12c0 x) (f12c0 y)) (fp4_add (f12c1 x) (f12c1 y)) (fp4_add (f12c2 x) (f12c2 y))"

definition fp12_sub :: "Fp12 \<Rightarrow> Fp12 \<Rightarrow> Fp12" where
  "fp12_sub x y =
     fp12_new (fp4_sub (f12c0 x) (f12c0 y)) (fp4_sub (f12c1 x) (f12c1 y)) (fp4_sub (f12c2 x) (f12c2 y))"

definition fp12_neg :: "Fp12 \<Rightarrow> Fp12" where
  "fp12_neg x = fp12_new (fp4_neg (f12c0 x)) (fp4_neg (f12c1 x)) (fp4_neg (f12c2 x))"

definition fp12_mul :: "Fp12 \<Rightarrow> Fp12 \<Rightarrow> Fp12" where
  "fp12_mul x y =
     (let ad = fp4_mul (f12c0 x) (f12c0 y);
          ae = fp4_mul (f12c0 x) (f12c1 y);
          af = fp4_mul (f12c0 x) (f12c2 y);
          bd = fp4_mul (f12c1 x) (f12c0 y);
          be = fp4_mul (f12c1 x) (f12c1 y);
          bf = fp4_mul (f12c1 x) (f12c2 y);
          cd = fp4_mul (f12c2 x) (f12c0 y);
          ce = fp4_mul (f12c2 x) (f12c1 y);
          cf = fp4_mul (f12c2 x) (f12c2 y)
      in fp12_new (fp4_add ad (fp4_mul_v (fp4_add bf ce)))
                  (fp4_add (fp4_add ae bd) (fp4_mul_v cf))
                  (fp4_add (fp4_add af be) cd))"

definition fp12_square :: "Fp12 \<Rightarrow> Fp12" where
  "fp12_square x =
     (let s0 = fp4_square (f12c0 x);
          s1 = fp4_square (f12c1 x);
          s2 = fp4_square (f12c2 x);
          t0 = fp4_mul (f12c0 x) (f12c1 x);
          t1 = fp4_mul (f12c0 x) (f12c2 x);
          t2 = fp4_mul (f12c1 x) (f12c2 x)
      in fp12_new (fp4_add s0 (fp4_add (fp4_mul_v t2) (fp4_mul_v t2)))
                  (fp4_add (fp4_add t0 t0) (fp4_mul_v s2))
                  (fp4_add s1 (fp4_add t1 t1)))"

definition fp12_cyclotomic_square :: "Fp12 \<Rightarrow> Fp12" where
  "fp12_cyclotomic_square x = fp12_square x"

definition fp12_pow :: "Fp12 \<Rightarrow> Z256 \<Rightarrow> Fp12" where
  "fp12_pow x e = pow_loop fp12_mul fp12_square fp12_one x e"

definition fp12_norm :: "Fp12 \<Rightarrow> Fp4" where
  "fp12_norm x =
     (let a = f12c0 x; b = f12c1 x; c = f12c2 x;
          a2 = fp4_square a;
          b2 = fp4_square b;
          c2 = fp4_square c;
          ab = fp4_mul a b;
          a3 = fp4_mul a2 a;
          b3_v = fp4_mul_v (fp4_mul b2 b);
          c3_v2 = fp4_mul_v (fp4_mul_v (fp4_mul c2 c));
          abc_v = fp4_mul_v (fp4_mul ab c)
      in fp4_sub (fp4_sub (fp4_add (fp4_add a3 b3_v) c3_v2) (fp4_double abc_v)) abc_v)"

definition fp12_inv :: "Fp12 \<Rightarrow> Fp12 option" where
  "fp12_inv x =
     (let a = f12c0 x; b = f12c1 x; c = f12c2 x;
          a2 = fp4_square a;
          b2 = fp4_square b;
          c2 = fp4_square c;
          ab = fp4_mul a b;
          ac = fp4_mul a c;
          bc = fp4_mul b c;
          a_val = fp4_sub a2 (fp4_mul_v bc);
          b_val = fp4_sub (fp4_mul_v c2) ab;
          c_val = fp4_sub b2 ac
      in Option.bind (fp4_inv (fp12_norm x))
           (\<lambda>d_inv. Some (fp12_new (fp4_mul a_val d_inv) (fp4_mul b_val d_inv) (fp4_mul c_val d_inv))))"

definition fp12_double :: "Fp12 \<Rightarrow> Fp12" where
  "fp12_double x = fp12_add x x"

definition fp12_is_zero :: "Fp12 \<Rightarrow> bool" where
  "fp12_is_zero x = (fp4_is_zero (f12c0 x) \<and> fp4_is_zero (f12c1 x) \<and> fp4_is_zero (f12c2 x))"

definition fp12_is_one :: "Fp12 \<Rightarrow> bool" where
  "fp12_is_one x = (fp4_is_one (f12c0 x) \<and> fp4_is_zero (f12c1 x) \<and> fp4_is_zero (f12c2 x))"

definition fp12_eq :: "Fp12 \<Rightarrow> Fp12 \<Rightarrow> bool" where
  "fp12_eq x y = (fp4_eq (f12c0 x) (f12c0 y) \<and> fp4_eq (f12c1 x) (f12c1 y) \<and> fp4_eq (f12c2 x) (f12c2 y))"

definition fp12_ct_select :: "'c subtle \<Rightarrow> Fp12 \<Rightarrow> Fp12 \<Rightarrow> 'c \<Rightarrow> Fp12" where
  "fp12_ct_select S x y choice =
     fp12_new (fp4_ct_select S (f12c0 x) (f12c0 y) choice) (fp4_ct_select S (f12c1 x) (f12c1 y) choice)
       (fp4_ct_select S (f12c2 x) (f12c2 y) choice)"

definition fp12_to_bytes :: "Fp12 \<Rightarrow> bytes" where
  "fp12_to_bytes x = fp4_to_bytes (f12c0 x) @ fp4_to_bytes (f12c1 x) @ fp4_to_bytes (f12c2 x)"

definition fp12_to_bytes_gmssl :: "Fp12 \<Rightarrow> bytes" where
  "fp12_to_bytes_gmssl x =
     fp_to_bytes (f2c1 (f4c1 (f12c2 x))) @ fp_to_bytes (f2c0 (f4c1 (f12c2 x))) @
     fp_to_bytes (f2c1 (f4c0 (f12c2 x))) @ fp_to_bytes (f2c0 (f4c0 (f12c2 x))) @
     fp_to_bytes (f2c1 (f4c1 (f12c1 x))) @ fp_to_bytes (f2c0 (f4c1 (f12c1 x))) @
     fp_to_bytes (f2c1 (f4c0 (f12c1 x))) @ fp_to_bytes (f2c0 (f4c0 (f12c1 x))) @
     fp_to_bytes (f2c1 (f4c1 (f12c0 x))) @ fp_to_bytes (f2c0 (f4c1 (f12c0 x))) @
     fp_to_bytes (f2c1 (f4c0 (f12c0 x))) @ fp_to_bytes (f2c0 (f4c0 (f12c0 x)))"

section \<open>The tower computes in its rings\<close>

definition fp2_ok :: "Fp2 \<Rightarrow> bool" where
  "fp2_ok x \<longleftrightarrow> fp_ok (f2c0 x) \<and> fp_ok (f2c1 x)"

definition fp2_val :: "Fp2 \<Rightarrow> zp2" where
  "fp2_val x = Zp2 (fp_val (f2c0 x)) (fp_val (f2c1 x))"

definition fp2_unit :: "Fp2 \<Rightarrow> bool" where
  "fp2_unit x \<longleftrightarrow> fp_unit (fp2_norm x)"

lemmas fp_rules = fp.closed fp.hom

lemma fp2_new_laws [simp]:
  "fp2_ok (fp2_new a b) \<longleftrightarrow> fp_ok a \<and> fp_ok b" "fp2_val (fp2_new a b) = Zp2 (fp_val a) (fp_val b)"
  "f2c0 (fp2_new a b) = a" "f2c1 (fp2_new a b) = b"
  by (simp_all add: fp2_ok_def fp2_val_def fp2_new_def)

lemma fp2_parts: "fp2_ok x \<Longrightarrow> fp_ok (f2c0 x)" "fp2_ok x \<Longrightarrow> fp_ok (f2c1 x)"
  by (simp_all add: fp2_ok_def)

lemma fp2_inv_laws:
  assumes "fp2_ok x"
  shows "fp2_inv x = Some y \<Longrightarrow> fp2_ok y"
    and "fp2_unit x \<Longrightarrow> \<exists>y. fp2_inv x = Some y \<and> fp2_val x * fp2_val y = 1"
proof -
  note ok = fp2_parts [OF assms]
  have n: "fp_ok (fp2_norm x)" "fp_val (fp2_norm x) =
      fp_val (f2c0 x) * fp_val (f2c0 x) + 2 * (fp_val (f2c1 x) * fp_val (f2c1 x))"
    using ok by (simp_all add: fp2_norm_def fp_rules)
  show "fp2_inv x = Some y \<Longrightarrow> fp2_ok y"
    using n(1) ok by (auto simp: fp2_inv_def bind_eq_Some_conv fp_rules dest: fp.inv_ok)
  show "\<exists>y. fp2_inv x = Some y \<and> fp2_val x * fp2_val y = 1" if u: "fp2_unit x"
  proof -
    obtain k where k: "fp_inv (fp2_norm x) = Some k" "fp_val (fp2_norm x) * fp_val k = 1"
      using fp.inv_val [OF n(1)] u by (auto simp: fp2_unit_def)
    have "fp_ok k" using fp.inv_ok [OF n(1) k(1)] .
    then show ?thesis using k ok n(2) by (simp add: fp2_inv_def fp_rules fp2_val_def algebra_simps)
  qed
qed

interpretation fp2: field_element fp2_mul fp2_square fp2_ok fp2_val fp2_zero fp2_one fp2_add fp2_sub fp2_neg
  fp2_double fp2_inv fp2_unit
  using fp2_inv_laws
  by unfold_locales
    (simp_all add: fp2_zero_def fp2_one_def fp2_add_def fp2_sub_def fp2_neg_def fp2_mul_def fp2_square_def
      fp2_double_def Let_def fp2_parts fp_rules fp2_val_def algebra_simps)

lemmas fp2_rules = fp2.closed fp2.hom

lemma fp2_extra_laws [simp]:
  assumes "fp2_ok x"
  shows "fp2_ok (fp2_mul_u x)" "fp2_val (fp2_mul_u x) = u2 * fp2_val x"
    "fp2_ok (fp2_frobenius x)" "fp2_val (fp2_frobenius x) = conj2 (fp2_val x)"
    "fp_ok k \<Longrightarrow> fp2_ok (fp2_mul_fp x k)" "fp_ok k \<Longrightarrow> fp2_val (fp2_mul_fp x k) = Zp2 (fp_val k) 0 * fp2_val x"
  using assms by (simp_all add: fp2_mul_u_def fp2_frobenius_def fp2_mul_fp_def fp2_parts fp_rules
      fp2_val_def u2_def conj2_def algebra_simps)

definition fp4_ok :: "Fp4 \<Rightarrow> bool" where
  "fp4_ok x \<longleftrightarrow> fp2_ok (f4c0 x) \<and> fp2_ok (f4c1 x)"

definition fp4_val :: "Fp4 \<Rightarrow> zp4" where
  "fp4_val x = Zp4 (fp2_val (f4c0 x)) (fp2_val (f4c1 x))"

definition fp4_unit :: "Fp4 \<Rightarrow> bool" where
  "fp4_unit x \<longleftrightarrow> fp2_unit (fp4_norm x)"

lemma fp4_new_laws [simp]:
  "fp4_ok (fp4_new a b) \<longleftrightarrow> fp2_ok a \<and> fp2_ok b" "fp4_val (fp4_new a b) = Zp4 (fp2_val a) (fp2_val b)"
  "f4c0 (fp4_new a b) = a" "f4c1 (fp4_new a b) = b"
  by (simp_all add: fp4_ok_def fp4_val_def fp4_new_def)

lemma fp4_parts: "fp4_ok x \<Longrightarrow> fp2_ok (f4c0 x)" "fp4_ok x \<Longrightarrow> fp2_ok (f4c1 x)"
  by (simp_all add: fp4_ok_def)

lemma fp4_inv_laws:
  assumes "fp4_ok x"
  shows "fp4_inv x = Some y \<Longrightarrow> fp4_ok y"
    and "fp4_unit x \<Longrightarrow> \<exists>y. fp4_inv x = Some y \<and> fp4_val x * fp4_val y = 1"
proof -
  note ok = fp4_parts [OF assms]
  have n: "fp2_ok (fp4_norm x)" "fp2_val (fp4_norm x) =
      fp2_val (f4c0 x) * fp2_val (f4c0 x) - u2 * (fp2_val (f4c1 x) * fp2_val (f4c1 x))"
    using ok by (simp_all add: fp4_norm_def fp2_rules)
  show "fp4_inv x = Some y \<Longrightarrow> fp4_ok y"
    using n(1) ok by (auto simp: fp4_inv_def bind_eq_Some_conv fp2_rules dest: fp2.inv_ok)
  show "\<exists>y. fp4_inv x = Some y \<and> fp4_val x * fp4_val y = 1" if u: "fp4_unit x"
  proof -
    obtain k where k: "fp2_inv (fp4_norm x) = Some k" "fp2_val (fp4_norm x) * fp2_val k = 1"
      using fp2.inv_val [OF n(1)] u by (auto simp: fp4_unit_def)
    have "fp2_ok k" using fp2.inv_ok [OF n(1) k(1)] .
    then show ?thesis using k ok n(2) by (simp add: fp4_inv_def fp2_rules fp4_val_def algebra_simps)
  qed
qed

interpretation fp4: field_element fp4_mul fp4_square fp4_ok fp4_val fp4_zero fp4_one fp4_add fp4_sub fp4_neg
  fp4_double fp4_inv fp4_unit
  using fp4_inv_laws
  by unfold_locales
    (simp_all add: fp4_zero_def fp4_one_def fp4_add_def fp4_sub_def fp4_neg_def fp4_mul_def fp4_square_def
      fp4_double_def Let_def fp4_parts fp2_rules fp4_val_def algebra_simps)

lemmas fp4_rules = fp4.closed fp4.hom

lemma fp4_extra_laws [simp]:
  assumes "fp4_ok x"
  shows "fp4_ok (fp4_mul_v x)" "fp4_val (fp4_mul_v x) = v4 * fp4_val x"
    "fp4_ok (fp4_conjugate x)" "fp4_val (fp4_conjugate x) = Zp4 (re4 (fp4_val x)) (- im4 (fp4_val x))"
    "fp_ok k \<Longrightarrow> fp4_ok (fp4_mul_fp x k)"
    "fp_ok k \<Longrightarrow> fp4_val (fp4_mul_fp x k) = Zp4 (Zp2 (fp_val k) 0) 0 * fp4_val x"
  using assms by (simp_all add: fp4_mul_v_def fp4_conjugate_def fp4_mul_fp_def fp4_parts fp2_rules
      fp4_val_def v4_def algebra_simps)

definition fp12_ok :: "Fp12 \<Rightarrow> bool" where
  "fp12_ok x \<longleftrightarrow> fp4_ok (f12c0 x) \<and> fp4_ok (f12c1 x) \<and> fp4_ok (f12c2 x)"

definition fp12_val :: "Fp12 \<Rightarrow> zp12" where
  "fp12_val x = Zp12 (fp4_val (f12c0 x)) (fp4_val (f12c1 x)) (fp4_val (f12c2 x))"

definition fp12_unit :: "Fp12 \<Rightarrow> bool" where
  "fp12_unit x \<longleftrightarrow> fp4_unit (fp12_norm x)"

lemma fp12_new_laws [simp]:
  "fp12_ok (fp12_new a b c) \<longleftrightarrow> fp4_ok a \<and> fp4_ok b \<and> fp4_ok c"
  "fp12_val (fp12_new a b c) = Zp12 (fp4_val a) (fp4_val b) (fp4_val c)"
  "f12c0 (fp12_new a b c) = a" "f12c1 (fp12_new a b c) = b" "f12c2 (fp12_new a b c) = c"
  by (simp_all add: fp12_ok_def fp12_val_def fp12_new_def)

lemma fp12_parts: "fp12_ok x \<Longrightarrow> fp4_ok (f12c0 x)" "fp12_ok x \<Longrightarrow> fp4_ok (f12c1 x)"
  "fp12_ok x \<Longrightarrow> fp4_ok (f12c2 x)"
  by (simp_all add: fp12_ok_def)

lemma fp12_inv_laws:
  assumes "fp12_ok x"
  shows "fp12_inv x = Some y \<Longrightarrow> fp12_ok y"
    and "fp12_unit x \<Longrightarrow> \<exists>y. fp12_inv x = Some y \<and> fp12_val x * fp12_val y = 1"
proof -
  note ok = fp12_parts [OF assms]
  define a b c where "a = fp4_val (f12c0 x)" "b = fp4_val (f12c1 x)" "c = fp4_val (f12c2 x)"
  note abc = this
  have n: "fp4_ok (fp12_norm x)" "fp4_val (fp12_norm x) =
      a * a * a + v4 * (b * b * b) + v4 * (v4 * (c * c * c)) - 3 * (v4 * (a * b * c))"
    using ok by (simp_all add: fp12_norm_def Let_def fp4_rules abc algebra_simps)
  show "fp12_inv x = Some y \<Longrightarrow> fp12_ok y"
    using n(1) ok by (auto simp: fp12_inv_def Let_def bind_eq_Some_conv fp4_rules dest: fp4.inv_ok)
  show "\<exists>y. fp12_inv x = Some y \<and> fp12_val x * fp12_val y = 1" if u: "fp12_unit x"
  proof -
    obtain k where k: "fp4_inv (fp12_norm x) = Some k" "fp4_val (fp12_norm x) * fp4_val k = 1"
      using fp4.inv_val [OF n(1)] u by (auto simp: fp12_unit_def)
    have "fp4_ok k" using fp4.inv_ok [OF n(1) k(1)] .
    then show ?thesis using k ok n(2)
      by (simp add: fp12_inv_def Let_def fp4_rules fp12_val_def abc [symmetric] algebra_simps)
  qed
qed

interpretation fp12: field_element fp12_mul fp12_square fp12_ok fp12_val fp12_zero fp12_one fp12_add fp12_sub
  fp12_neg fp12_double fp12_inv fp12_unit
  using fp12_inv_laws
  by unfold_locales
    (simp_all add: fp12_zero_def fp12_one_def fp12_add_def fp12_sub_def fp12_neg_def fp12_mul_def
      fp12_square_def fp12_double_def Let_def fp12_parts fp4_rules fp12_val_def algebra_simps)

lemmas fp12_rules = fp12.closed fp12.hom

section \<open>The Frobenius maps\<close>

text \<open>The constant \<open>ALPHA1\<close>, of which the other four are powers, and whose sixth power is $-1$.\<close>

definition frob_a :: zp2 where
  "frob_a = Zp2 (fp_val FROB_ALPHA1) 0"

lemma fp_val_mult_eq:
  assumes "z256_val a * z256_val b + k * pval = z256_val c * 2 ^ 256 + l * pval"
  shows "fp_val (Fp a) * fp_val (Fp b) = fp_val (Fp c)"
proof -
  have "(of_nat (z256_val a * z256_val b + k * pval) :: zp) = of_nat (z256_val c * 2 ^ 256 + l * pval)"
    unfolding assms ..
  then have "(of_nat (z256_val a) :: zp) * of_nat (z256_val b) = of_nat (z256_val c) * of_nat (2 ^ 256)"
    by (simp only: of_nat_mult of_nat_add of_nat_pval mult_zero_right add_0_right)
  then have "fp_val (Fp a) * fp_val (Fp b) = of_nat (z256_val c) * (of_nat (2 ^ 256) * rinv) * rinv"
    unfolding fp_val_def Fp.sel by (metis mult.assoc mult.commute)
  then show ?thesis unfolding rinv_radix fp_val_def Fp.sel by simp
qed

lemma alpha_val_2: "fp_val FROB_ALPHA1 * fp_val FROB_ALPHA1 = fp_val FROB_ALPHA2"
  unfolding FROB_ALPHA1_def FROB_ALPHA2_def
  by (rule fp_val_mult_eq [where k = "0" and l = "0x62aeb9585b186e2028cd5b5d2d4148d80a8c0294a7ef0274cd834f5101fa8b95"]) (simp add: pval_eq)

lemma alpha_val_3: "fp_val FROB_ALPHA1 * fp_val FROB_ALPHA2 = fp_val FROB_ALPHA3"
  unfolding FROB_ALPHA1_def FROB_ALPHA3_def FROB_ALPHA2_def
  by (rule fp_val_mult_eq [where k = "0xbd163e75dcee39feaaa6f7c13e9f844853f0f08b323331163dc37eefd40276d2" and l = "0"]) (simp add: pval_eq)

lemma alpha_val_4: "fp_val FROB_ALPHA1 * fp_val FROB_ALPHA3 = fp_val FROB_ALPHA4"
  unfolding FROB_ALPHA1_def FROB_ALPHA4_def FROB_ALPHA3_def
  by (rule fp_val_mult_eq [where k = "0x3b8d0785d13c3fc3523033e1795864e9444a734efb561ddb20142275679bc6fd" and l = "0"]) (simp add: pval_eq)

lemma alpha_val_5: "fp_val FROB_ALPHA1 * fp_val FROB_ALPHA4 = fp_val FROB_ALPHA5"
  unfolding FROB_ALPHA1_def FROB_ALPHA5_def FROB_ALPHA4_def
  by (rule fp_val_mult_eq [where k = "0x7f27be4a31ab72d6c0683a6916e07b6f16604794e97a871c0891bf7549182394" and l = "0"]) (simp add: pval_eq)

lemmas alpha_vals = alpha_val_2 alpha_val_3 alpha_val_4 alpha_val_5

lemma alpha_ok: "fp_ok FROB_ALPHA1" "fp_ok FROB_ALPHA2" "fp_ok FROB_ALPHA3" "fp_ok FROB_ALPHA4" "fp_ok FROB_ALPHA5"
  by (simp_all add: fp_ok_def pval_eq FROB_ALPHA1_def FROB_ALPHA2_def FROB_ALPHA3_def FROB_ALPHA4_def
      FROB_ALPHA5_def)

lemma alpha_six: "fp_val FROB_ALPHA1 * fp_val FROB_ALPHA5 = - 1"
proof -
  define m where "m = Z256 0xCADF364FC6A28AFA 0x43E5269634F5DDB7 0xAC07569FEB1D8E8A 0x6C80000005474DE3"
  have "fp_val FROB_ALPHA1 * fp_val FROB_ALPHA5 = fp_val (Fp m)"
    unfolding FROB_ALPHA1_def FROB_ALPHA5_def by (rule fp_val_mult_eq [where k = "0" and l = "0xbb7f37a94cb5b07a21cf6d6d45d6ab4ff1de97811734ad2d016df6dbded70d"])
      (simp add: pval_eq m_def)
  moreover have "fp_val (Fp m) + fp_val fp_one = 0"
  proof -
    have "z256_val m + z256_val FP_R = pval" by (simp add: m_def FP_R_def pval_eq)
    then have "(of_nat (z256_val m) :: zp) + of_nat (z256_val FP_R) = 0"
      by (metis of_nat_add of_nat_pval)
    then show ?thesis by (simp add: fp_val_def fp_one_def flip: distrib_right)
  qed
  ultimately show ?thesis by (simp add: fp_one_laws eq_neg_iff_add_eq_0)
qed

lemma frob_a_powers:
  "Zp2 (fp_val FROB_ALPHA2) 0 = frob_a * frob_a"
  "Zp2 (fp_val FROB_ALPHA3) 0 = frob_a * (frob_a * frob_a)"
  "Zp2 (fp_val FROB_ALPHA4) 0 = frob_a * (frob_a * (frob_a * frob_a))"
  "Zp2 (fp_val FROB_ALPHA5) 0 = frob_a * (frob_a * (frob_a * (frob_a * frob_a)))"
  "frob_a * (frob_a * (frob_a * (frob_a * (frob_a * frob_a)))) = - 1"
  by (simp_all add: frob_a_def alpha_vals alpha_six one_zp2_def)

lemma frob_a_six: "frob_a * (frob_a * (frob_a * (frob_a * (frob_a * (frob_a * x))))) = - x"
proof -
  have "frob_a * (frob_a * (frob_a * (frob_a * (frob_a * (frob_a * x))))) =
      frob_a * (frob_a * (frob_a * (frob_a * (frob_a * frob_a)))) * x" by (simp add: mult.assoc)
  then show ?thesis unfolding frob_a_powers by simp
qed

definition frob12 :: "zp12 \<Rightarrow> zp12" where
  "frob12 x =
     (let k = (\<lambda>n y. frob_a ^ n * conj2 y)
      in Zp12 (Zp4 (k 0 (re4 (cf0 x))) (k 3 (im4 (cf0 x))))
              (Zp4 (k 1 (re4 (cf1 x))) (k 4 (im4 (cf1 x))))
              (Zp4 (k 2 (re4 (cf2 x))) (k 5 (im4 (cf2 x)))))"

lemma frob12_Zp12:
  "frob12 (Zp12 (Zp4 a0 a1) (Zp4 b0 b1) (Zp4 c0 c1)) =
     Zp12 (Zp4 (conj2 a0) (frob_a * (frob_a * (frob_a * conj2 a1))))
          (Zp4 (frob_a * conj2 b0) (frob_a * (frob_a * (frob_a * (frob_a * conj2 b1)))))
          (Zp4 (frob_a * (frob_a * conj2 c0)) (frob_a * (frob_a * (frob_a * (frob_a * (frob_a * conj2 c1))))))"
  by (simp add: frob12_def numeral_eq_Suc mult.assoc)

lemma zp12_cases: "\<exists>a0 a1 b0 b1 c0 c1. x = Zp12 (Zp4 a0 a1) (Zp4 b0 b1) (Zp4 c0 c1)"
  by (metis zp4.exhaust zp12.exhaust)

lemma frob12_hom: "frob12 (x + y) = frob12 x + frob12 y" "frob12 (x * y) = frob12 x * frob12 y" "frob12 1 = 1"
proof -
  obtain a0 a1 b0 b1 c0 c1 where x: "x = Zp12 (Zp4 a0 a1) (Zp4 b0 b1) (Zp4 c0 c1)" using zp12_cases by metis
  obtain d0 d1 e0 e1 f0 f1 where y: "y = Zp12 (Zp4 d0 d1) (Zp4 e0 e1) (Zp4 f0 f1)" using zp12_cases by metis
  show "frob12 (x + y) = frob12 x + frob12 y" by (simp add: x y frob12_Zp12 distrib_left)
  show "frob12 (x * y) = frob12 x * frob12 y"
    by (simp add: x y frob12_Zp12 v4_def algebra_simps frob_a_six)
  show "frob12 1 = 1" by (simp add: one_zp12_def one_zp4_def zero_zp4_def frob12_Zp12)
qed

lemma fp12_frobenius_val:
  assumes "fp12_ok x"
  shows "fp12_ok (fp12_frobenius x)" "fp12_val (fp12_frobenius x) = frob12 (fp12_val x)"
proof -
  have ok: "fp4_ok (f12c0 x)" "fp4_ok (f12c1 x)" "fp4_ok (f12c2 x)" using assms by (simp_all add: fp12_ok_def)
  show "fp12_ok (fp12_frobenius x)"
    by (simp add: fp12_frobenius_def fp4_parts ok alpha_ok)
  have a: "fp2_val (fp2_mul_fp y FROB_ALPHA1) = frob_a * fp2_val y"
      "fp2_val (fp2_mul_fp y FROB_ALPHA2) = frob_a * (frob_a * fp2_val y)"
      "fp2_val (fp2_mul_fp y FROB_ALPHA3) = frob_a * (frob_a * (frob_a * fp2_val y))"
      "fp2_val (fp2_mul_fp y FROB_ALPHA4) = frob_a * (frob_a * (frob_a * (frob_a * fp2_val y)))"
      "fp2_val (fp2_mul_fp y FROB_ALPHA5) = frob_a * (frob_a * (frob_a * (frob_a * (frob_a * fp2_val y))))"
    if "fp2_ok y" for y
    using that by (simp_all only: fp2_extra_laws alpha_ok frob_a_powers frob_a_def [symmetric] mult.assoc)
  show "fp12_val (fp12_frobenius x) = frob12 (fp12_val x)"
    unfolding fp12_val_def fp4_val_def frob12_Zp12 fp12_frobenius_def
    by (simp add: fp4_parts ok a)
qed

lemma fp12_frobenius_power_vals:
  assumes "fp12_ok x"
  shows "fp12_ok (fp12_frobenius_sq x) \<and> fp12_val (fp12_frobenius_sq x) = frob12 (frob12 (fp12_val x))"
    and "fp12_ok (fp12_frobenius_cu x) \<and> fp12_val (fp12_frobenius_cu x) = frob12 (frob12 (frob12 (fp12_val x)))"
    and "fp12_ok (fp12_frobenius_six x) \<and>
      fp12_val (fp12_frobenius_six x) = frob12 (frob12 (frob12 (frob12 (frob12 (frob12 (fp12_val x))))))"
proof -
  have ok: "fp2_ok (f4c0 (f12c0 x))" "fp2_ok (f4c1 (f12c0 x))" "fp2_ok (f4c0 (f12c1 x))"
    "fp2_ok (f4c1 (f12c1 x))" "fp2_ok (f4c0 (f12c2 x))" "fp2_ok (f4c1 (f12c2 x))"
    using assms by (simp_all add: fp12_ok_def fp4_ok_def)
  have fa: "conj2 frob_a = frob_a" by (simp add: frob_a_def)
  note unf = fp12_val_def fp4_val_def frob12_Zp12
  show "fp12_ok (fp12_frobenius_sq x) \<and> fp12_val (fp12_frobenius_sq x) = frob12 (frob12 (fp12_val x))"
    unfolding unf fp12_frobenius_sq_def fp4_frobenius_sq_def fp4_conjugate_def fp4_mul_fp_def
    by (simp add: ok fa fp2_rules alpha_ok frob_a_powers(1-4) mult.assoc frob_a_six)
  show "fp12_ok (fp12_frobenius_cu x) \<and> fp12_val (fp12_frobenius_cu x) = frob12 (frob12 (frob12 (fp12_val x)))"
    unfolding unf fp12_frobenius_cu_def Let_def
    by (simp add: ok fa fp2_rules alpha_ok fp_rules frob_a_powers(2) frob_a_six mult_ac)
  show "fp12_ok (fp12_frobenius_six x) \<and>
      fp12_val (fp12_frobenius_six x) = frob12 (frob12 (frob12 (frob12 (frob12 (frob12 (fp12_val x))))))"
    unfolding unf fp12_frobenius_six_def fp4_conjugate_def fp4_neg_def
    by (simp add: ok fa fp2_rules frob_a_six)
qed

section \<open>Serialisation\<close>

lemma fp_to_bytes_length [simp]: "length (fp_to_bytes x) = 32"
  by (simp add: fp_to_bytes_def z256_to_bytes_be_val)

lemma fp_to_bytes_inj: "fp_to_bytes x = fp_to_bytes y \<Longrightarrow> fp_val x = fp_val y"
proof -
  assume "fp_to_bytes x = fp_to_bytes y"
  then have "z256_from_bytes_be (fp_to_bytes x) = z256_from_bytes_be (fp_to_bytes y)" by simp
  then have "regular_mul (fp_z x) FP_R_INV = regular_mul (fp_z y) FP_R_INV"
    by (simp add: fp_to_bytes_def z256_from_to_bytes_be)
  then show ?thesis using fp_to_bytes_laws(1) by metis
qed

lemma fp2_to_bytes_laws: "length (fp2_to_bytes x) = 64" "fp2_to_bytes x = fp2_to_bytes y \<Longrightarrow> fp2_val x = fp2_val y"
  by (auto simp: fp2_to_bytes_def fp2_val_def dest: fp_to_bytes_inj)

lemma fp4_to_bytes_laws: "length (fp4_to_bytes x) = 128" "fp4_to_bytes x = fp4_to_bytes y \<Longrightarrow> fp4_val x = fp4_val y"
  by (auto simp: fp4_to_bytes_def fp4_val_def fp2_to_bytes_laws(1) dest: fp2_to_bytes_laws(2))

section \<open>Properties\<close>



text \<open>
  Inversion in the tower: where the norm of an element, taken down to \<open>Fp\<close>, has a Fermat
  inverse, \<open>inv\<close> returns an element whose product with the argument is one, in \<open>Fp2\<close>, \<open>Fp4\<close> and
  \<open>Fp12\<close>.
\<close>

theorem tower_inv_correct:
  assumes "fp2_ok a" "fp_unit (fp2_norm a)"
    and "fp4_ok b" "fp_unit (fp2_norm (fp4_norm b))"
    and "fp12_ok c" "fp_unit (fp2_norm (fp4_norm (fp12_norm c)))"
  shows "(\<exists>r. fp2_inv a = Some r \<and> fp2_ok r \<and> fp2_val a * fp2_val r = 1) \<and>
     (\<exists>r. fp4_inv b = Some r \<and> fp4_ok r \<and> fp4_val b * fp4_val r = 1) \<and>
     (\<exists>r. fp12_inv c = Some r \<and> fp12_ok r \<and> fp12_val c * fp12_val r = 1)"
  using fp2.inv_val [OF assms(1)] fp2.inv_ok [OF assms(1)] fp4.inv_val [OF assms(3)] fp4.inv_ok [OF assms(3)]
    fp12.inv_val [OF assms(5)] fp12.inv_ok [OF assms(5)] assms(2,4,6)
  by (auto simp: fp2_unit_def fp4_unit_def fp12_unit_def)

lemma norm_one: "fp_val (fp2_norm fp2_one) = 1" "fp2_val (fp4_norm fp4_one) = 1" "fp4_val (fp12_norm fp12_one) = 1"
  by (simp_all add: fp2_norm_def fp2_one_def fp4_norm_def fp4_one_def fp12_norm_def fp12_one_def Let_def
      fp_rules fp2_rules fp4_rules)

lemma norm_chain: "fp_val (fp2_norm (fp4_norm fp4_one)) = 1" "fp_val (fp2_norm (fp4_norm (fp12_norm fp12_one))) = 1"
proof -
  have n2: "fp2_val x = 1 \<Longrightarrow> fp2_ok x \<Longrightarrow> fp_val (fp2_norm x) = 1" for x
    by (simp add: fp2_norm_def fp2_val_def fp2_parts fp_rules)
  have n4: "fp4_val x = 1 \<Longrightarrow> fp4_ok x \<Longrightarrow> fp2_ok (fp4_norm x) \<and> fp2_val (fp4_norm x) = 1" for x
    by (simp add: fp4_norm_def fp4_val_def fp4_parts fp2_rules)
  have ok: "fp4_ok (fp12_norm fp12_one)"
    by (simp add: fp12_norm_def fp12_one_def Let_def fp4_rules)
  show "fp_val (fp2_norm (fp4_norm fp4_one)) = 1" using n2 n4 fp4.one_ok fp4.one_val by blast
  show "fp_val (fp2_norm (fp4_norm (fp12_norm fp12_one))) = 1" using n2 n4 ok norm_one(3) by blast
qed

theorem tower_inv_correct_witness:
  "\<exists>r. fp12_inv fp12_one = Some r \<and> fp12_ok r \<and> fp12_val fp12_one * fp12_val r = 1"
  using tower_inv_correct [OF fp2.one_ok _ fp4.one_ok _ fp12.one_ok] norm_one norm_chain
  by (simp add: fp_unit_def)

text \<open>
  The map \<open>Fp12::frobenius\<close> is a ring homomorphism, and the three specialised maps are its
  second, third and sixth iterates, as the final exponentiation uses them.
\<close>

theorem fp12_frobenius_hom:
  assumes "fp12_ok x" "fp12_ok y"
  shows "fp12_val (fp12_frobenius (fp12_mul x y)) = fp12_val (fp12_mul (fp12_frobenius x) (fp12_frobenius y)) \<and>
     fp12_val (fp12_frobenius (fp12_add x y)) = fp12_val (fp12_add (fp12_frobenius x) (fp12_frobenius y)) \<and>
     fp12_val (fp12_frobenius fp12_one) = fp12_val fp12_one \<and>
     fp12_val (fp12_frobenius_sq x) = fp12_val (fp12_frobenius (fp12_frobenius x)) \<and>
     fp12_val (fp12_frobenius_cu x) = fp12_val (fp12_frobenius (fp12_frobenius (fp12_frobenius x))) \<and>
     fp12_val (fp12_frobenius_six x) = fp12_val (fp12_frobenius_cu (fp12_frobenius_cu x))"
  using assms
  by (simp add: fp12_frobenius_val fp12_frobenius_power_vals fp12_rules frob12_hom)

theorem fp12_frobenius_hom_witness:
  "fp12_val (fp12_frobenius_six fp12_one) = fp12_val (fp12_frobenius_cu (fp12_frobenius_cu fp12_one))"
  using fp12_frobenius_hom [OF fp12.one_ok fp12.one_ok] by blast

text \<open>
  \<open>Fp4::frobenius\<close> is not the power map it is documented as: it does not even respect products,
  since it sends $v$ to $-v$ and $v^2 = u$ to $-u$.
\<close>

theorem fp4_frobenius_not_multiplicative:
  "\<exists>x. fp4_ok x \<and> fp4_val (fp4_frobenius (fp4_mul x x)) \<noteq> fp4_val (fp4_mul (fp4_frobenius x) (fp4_frobenius x))"
proof (intro exI conjI)
  let ?v = "fp4_new fp2_zero fp2_one"
  show ok: "fp4_ok ?v" by (simp add: fp2_rules)
  have two: "(2::zp) \<noteq> 0" using of_nat_zp_eq_0 [of 2] by (simp add: pval_eq)
  have sq: "fp4_val (fp4_mul ?v ?v) = Zp4 u2 0" using ok by (simp add: fp4_rules fp2_rules)
  have fr: "fp4_ok (fp4_frobenius y) \<and> fp4_val (fp4_frobenius y) = Zp4 (conj2 (re4 (fp4_val y))) (- conj2 (im4 (fp4_val y)))"
    if "fp4_ok y" for y
    using that by (simp add: fp4_frobenius_def fp4_parts fp2_rules fp4_val_def)
  have l: "fp4_val (fp4_frobenius (fp4_mul ?v ?v)) = Zp4 (- u2) 0"
    using fr [of "fp4_mul ?v ?v"] ok sq fp4.mul_ok by simp
  have r: "fp4_val (fp4_mul (fp4_frobenius ?v) (fp4_frobenius ?v)) = Zp4 u2 0"
    using fr [OF ok] by (simp add: fp4_rules fp2_rules)
  show "fp4_val (fp4_frobenius (fp4_mul ?v ?v)) \<noteq> fp4_val (fp4_mul (fp4_frobenius ?v) (fp4_frobenius ?v))"
  proof
    assume "fp4_val (fp4_frobenius (fp4_mul ?v ?v)) = fp4_val (fp4_mul (fp4_frobenius ?v) (fp4_frobenius ?v))"
    then have "(- 1 :: zp) = 1" unfolding l r by (simp add: u2_def)
    then have "(2::zp) = 0" by (metis add.right_inverse one_add_one)
    with two show False ..
  qed
qed

text \<open>
  \<open>Fp12::mul_w\<close> is not multiplication by $w$, nor by any other element: it leaves the third
  component in place instead of moving it into the first.
\<close>

theorem fp12_mul_w_not_multiplication:
  "\<forall>k. \<exists>x. fp12_ok x \<and> fp12_val (fp12_mul_w x) \<noteq> k * fp12_val x"
proof (rule ccontr)
  assume "\<not> (\<forall>k. \<exists>x. fp12_ok x \<and> fp12_val (fp12_mul_w x) \<noteq> k * fp12_val x)"
  then obtain k where k: "fp12_ok x \<Longrightarrow> fp12_val (fp12_mul_w x) = k * fp12_val x" for x by blast
  let ?w = "fp12_new fp4_zero fp4_zero fp4_one"
  have "k = w12"
    using k [OF fp12.one_ok] by (simp add: fp12_mul_w_def fp12_one_def fp4_rules w12_def flip: one_zp12_def)
  moreover have "fp12_val (fp12_mul_w ?w) = Zp12 0 0 1" "fp12_val ?w = Zp12 0 0 1" "fp12_ok ?w"
    by (simp_all add: fp12_mul_w_def fp4_rules)
  ultimately show False using k [of ?w] by (simp add: w12_def)
qed

text \<open>
  The 384-byte serialisations of \<open>Fp12\<close>, in the internal and in the GmSSL order, determine the
  element: equal bytes come from equal ring elements.
\<close>

theorem fp12_bytes_determine_value:
  "length (fp12_to_bytes x) = 384 \<and> length (fp12_to_bytes_gmssl x) = 384 \<and>
   (fp12_to_bytes x = fp12_to_bytes y \<longrightarrow> fp12_val x = fp12_val y) \<and>
   (fp12_to_bytes_gmssl x = fp12_to_bytes_gmssl y \<longrightarrow> fp12_val x = fp12_val y)"
  by (auto simp: fp12_to_bytes_def fp12_val_def fp4_to_bytes_laws(1) fp12_to_bytes_gmssl_def fp4_val_def fp2_val_def
      dest: fp4_to_bytes_laws(2) fp_to_bytes_inj)

theorem fp12_bytes_determine_value_witness:
  "fp12_to_bytes (fp12_neg fp12_zero) = fp12_to_bytes fp12_zero \<and>
     fp12_val (fp12_neg fp12_zero) = fp12_val fp12_zero"
proof -
  have "fp12_neg fp12_zero = fp12_zero"
    by (simp add: fp12_neg_def fp12_zero_def fp4_neg_def fp4_zero_def fp2_neg_def fp2_zero_def fp_neg_def
        fp_zero_def fp_is_zero_def z256_is_zero_def z256_zero_def)
  then have "fp12_to_bytes (fp12_neg fp12_zero) = fp12_to_bytes fp12_zero" by simp
  then show ?thesis using fp12_bytes_determine_value [of "fp12_neg fp12_zero" fp12_zero] by blast
qed

end
