(* ===== verification/Sm9_Curve.thy ===== *)
theory Sm9_Curve
  imports Sm9_Tower
begin

text \<open>
  The curve groups of SM9, \<open>src/gm-sm9-rs/src/pairing/curve/mod.rs\<close>, \<open>g1.rs\<close>, \<open>g2.rs\<close> and
  \<open>pairing/params.rs\<close>: points in Jacobian coordinates over \<open>Fp\<close> and \<open>Fp2\<close>, with the branching and
  the branch-free operations. The formulas are compared with the chord-and-tangent law on affine
  coordinates, and the branch-free scalar multiplication with double-and-add.
\<close>

section \<open>The curves\<close>

definition curve_b :: Fp where
  "curve_b = fp_from_raw (Z256 5 0 0 0)"

definition is_on_curve_g1 :: "Fp \<Rightarrow> Fp \<Rightarrow> bool" where
  "is_on_curve_g1 x y =
     (let y2 = fp_square y;
          x3 = fp_mul (fp_square x) x;
          rhs = fp_add x3 curve_b
      in fp_eq y2 rhs)"

definition is_on_curve_g2 :: "Fp2 \<Rightarrow> Fp2 \<Rightarrow> bool" where
  "is_on_curve_g2 x y =
     (let y2 = fp2_square y;
          x3 = fp2_mul (fp2_square x) x;
          b_u = fp2_new fp_zero curve_b;
          rhs = fp2_add x3 b_u
      in fp2_eq y2 rhs)"

section \<open>G1\<close>

record G1Point =
  g1x :: Fp
  g1y :: Fp
  g1z :: Fp

definition g1_new :: "Fp \<Rightarrow> Fp \<Rightarrow> Fp \<Rightarrow> G1Point" where
  "g1_new x y z = \<lparr>g1x = x, g1y = y, g1z = z\<rparr>"

definition g1_from_affine :: "Fp \<Rightarrow> Fp \<Rightarrow> G1Point" where
  "g1_from_affine x y = g1_new x y fp_one"

definition g1_identity :: G1Point where
  "g1_identity = g1_new fp_one fp_one fp_zero"

definition g1_is_identity :: "G1Point \<Rightarrow> bool" where
  "g1_is_identity p = fp_is_zero (g1z p)"

definition g1_to_affine :: "G1Point \<Rightarrow> (Fp \<times> Fp) option" where
  "g1_to_affine p =
     (if g1_is_identity p then None
      else Option.bind (fp_inv (g1z p)) (\<lambda>z_inv.
        let z_inv2 = fp_square z_inv;
            z_inv3 = fp_mul z_inv2 z_inv
        in Some (fp_mul (g1x p) z_inv2, fp_mul (g1y p) z_inv3)))"

definition g1_double_ct :: "G1Point \<Rightarrow> G1Point" where
  "g1_double_ct p =
     (let x2 = fp_square (g1x p);
          y2 = fp_square (g1y p);
          y4 = fp_square y2;
          lambda1 = fp_add (fp_add x2 x2) x2;
          lambda2 = fp_double (fp_double (fp_mul (g1x p) y2));
          lambda3 = fp_double (fp_double (fp_double y4));
          x' = fp_sub (fp_square lambda1) (fp_double lambda2);
          y' = fp_sub (fp_mul lambda1 (fp_sub lambda2 x')) lambda3;
          z' = fp_double (fp_mul (g1y p) (g1z p))
      in g1_new x' y' z')"

definition g1_double :: "G1Point \<Rightarrow> G1Point" where
  "g1_double p =
     (if g1_is_identity p then g1_identity
      else
     (let x2 = fp_square (g1x p);
          y2 = fp_square (g1y p);
          y4 = fp_square y2;
          lambda1 = fp_add (fp_add x2 x2) x2;
          lambda2 = fp_double (fp_double (fp_mul (g1x p) y2));
          lambda3 = fp_double (fp_double (fp_double y4));
          x' = fp_sub (fp_square lambda1) (fp_double lambda2);
          y' = fp_sub (fp_mul lambda1 (fp_sub lambda2 x')) lambda3;
          z' = fp_double (fp_mul (g1y p) (g1z p))
      in g1_new x' y' z'))"

definition g1_add :: "G1Point \<Rightarrow> G1Point \<Rightarrow> G1Point" where
  "g1_add p q =
     (if g1_is_identity p then q
      else if g1_is_identity q then p
      else
     (let z1_2 = fp_square (g1z p);
          z2_2 = fp_square (g1z q);
          u1 = fp_mul (g1x p) z2_2;
          u2' = fp_mul (g1x q) z1_2;
          z2_3 = fp_mul z2_2 (g1z q);
          z1_3 = fp_mul z1_2 (g1z p);
          s1 = fp_mul (g1y p) z2_3;
          s2 = fp_mul (g1y q) z1_3
      in if fp_eq u1 u2' then (if fp_eq s1 s2 then g1_double p else g1_identity)
         else
      (let h = fp_sub u2' u1;
          r = fp_double (fp_sub s2 s1);
          h2 = fp_square h;
          i = fp_double (fp_double h2);
          j = fp_mul h i;
          v = fp_mul u1 i;
          x3 = fp_sub (fp_sub (fp_square r) j) (fp_double v);
          y3 = fp_sub (fp_mul r (fp_sub v x3)) (fp_double (fp_mul s1 j));
          z_sum = fp_add (g1z p) (g1z q);
          z3 = fp_mul (fp_sub (fp_sub (fp_square z_sum) z1_2) z2_2) h
      in g1_new x3 y3 z3)))"

definition g1_ct_select :: "'c subtle \<Rightarrow> G1Point \<Rightarrow> G1Point \<Rightarrow> 'c \<Rightarrow> G1Point" where
  "g1_ct_select S a b choice =
     g1_new (fp_ct_select S (g1x a) (g1x b) choice) (fp_ct_select S (g1y a) (g1y b) choice)
       (fp_ct_select S (g1z a) (g1z b) choice)"

definition g1_add_ct :: "'c subtle \<Rightarrow> G1Point \<Rightarrow> G1Point \<Rightarrow> G1Point" where
  "g1_add_ct S p q =
     (let self_is_id = fp_ct_eq S (g1z p) fp_zero;
          other_is_id = fp_ct_eq S (g1z q) fp_zero;
          z1_2 = fp_square (g1z p);
          z2_2 = fp_square (g1z q);
          u1 = fp_mul (g1x p) z2_2;
          u2' = fp_mul (g1x q) z1_2;
          z2_3 = fp_mul z2_2 (g1z q);
          z1_3 = fp_mul z1_2 (g1z p);
          s1 = fp_mul (g1y p) z2_3;
          s2 = fp_mul (g1y q) z1_3;
          u_eq = fp_ct_eq S u1 u2';
          s_eq = fp_ct_eq S s1 s2;
          is_double = choice_and S (choice_and S (choice_and S u_eq s_eq) (choice_not S self_is_id))
                        (choice_not S other_is_id);
          is_inverse = choice_and S (choice_and S (choice_and S u_eq (choice_not S s_eq)) (choice_not S self_is_id))
                        (choice_not S other_is_id);
          h = fp_sub u2' u1;
          r = fp_double (fp_sub s2 s1);
          h2 = fp_square h;
          i = fp_double (fp_double h2);
          j = fp_mul h i;
          v = fp_mul u1 i;
          x3 = fp_sub (fp_sub (fp_square r) j) (fp_double v);
          y3 = fp_sub (fp_mul r (fp_sub v x3)) (fp_double (fp_mul s1 j));
          z_sum = fp_add (g1z p) (g1z q);
          z3 = fp_mul (fp_sub (fp_sub (fp_square z_sum) z1_2) z2_2) h;
          add_result = g1_new x3 y3 z3;
          double_result = g1_double_ct p;
          base = g1_ct_select S add_result q self_is_id;
          base' = g1_ct_select S base p other_is_id;
          result = g1_ct_select S base' double_result is_double
      in g1_ct_select S result g1_identity is_inverse)"

definition g1_scalar_mul_ct :: "'c subtle \<Rightarrow> G1Point \<Rightarrow> Z256 \<Rightarrow> G1Point" where
  "g1_scalar_mul_ct S p k =
     foldl (\<lambda>result i.
         let result = g1_double_ct result;
             bit = z256_ct_bit S k i;
             added = g1_add_ct S result p
         in g1_ct_select S result added bit)
       g1_identity (rev [0..<256])"

definition g1_scalar_mul :: "'c subtle \<Rightarrow> G1Point \<Rightarrow> Z256 \<Rightarrow> G1Point" where
  "g1_scalar_mul S p k = g1_scalar_mul_ct S p k"

definition g1_neg :: "G1Point \<Rightarrow> G1Point" where
  "g1_neg p = g1_new (g1x p) (fp_neg (g1y p)) (g1z p)"

definition g1_is_on_curve :: "G1Point \<Rightarrow> bool" where
  "g1_is_on_curve p =
     (if g1_is_identity p then True
      else case g1_to_affine p of Some (x, y) \<Rightarrow> is_on_curve_g1 x y | None \<Rightarrow> False)"

definition g1_eq :: "G1Point \<Rightarrow> G1Point \<Rightarrow> bool" where
  "g1_eq p q =
     (if g1_is_identity p \<and> g1_is_identity q then True
      else if g1_is_identity p \<or> g1_is_identity q then False
      else
        let z1_2 = fp_square (g1z p);
            z2_2 = fp_square (g1z q);
            z1_3 = fp_mul z1_2 (g1z p);
            z2_3 = fp_mul z2_2 (g1z q);
            x1 = fp_mul (g1x p) z2_2;
            x2 = fp_mul (g1x q) z1_2;
            y1 = fp_mul (g1y p) z2_3;
            y2 = fp_mul (g1y q) z1_3
        in fp_eq x1 x2 \<and> fp_eq y1 y2)"

record G1Affine =
  g1ax :: Fp
  g1ay :: Fp

definition g1_affine_to_projective :: "G1Affine \<Rightarrow> G1Point" where
  "g1_affine_to_projective q = g1_from_affine (g1ax q) (g1ay q)"

definition g1_affine_is_identity :: "G1Affine \<Rightarrow> bool" where
  "g1_affine_is_identity q = False"

definition g1_add_mixed :: "G1Point \<Rightarrow> G1Affine \<Rightarrow> G1Point" where
  "g1_add_mixed p q =
     (if g1_is_identity p then g1_affine_to_projective q
      else if g1_affine_is_identity q then p
      else
        let z2 = fp_square (g1z p);
            z3 = fp_mul z2 (g1z p);
            u2' = fp_mul (g1ax q) z2;
            s2 = fp_mul (g1ay q) z3
        in if fp_eq (g1x p) u2' then (if fp_eq (g1y p) s2 then g1_double p else g1_identity)
           else
             let h = fp_sub u2' (g1x p);
                 r = fp_sub s2 (g1y p);
                 h2 = fp_square h;
                 h3 = fp_mul h2 h;
                 x' = fp_sub (fp_sub (fp_square r) h3) (fp_double (fp_mul (g1x p) h2));
                 y' = fp_sub (fp_mul r (fp_sub (fp_mul (g1x p) h2) x')) (fp_mul (g1y p) h3);
                 z' = fp_mul (g1z p) h
             in g1_new x' y' z')"

section \<open>G2\<close>

record G2Point =
  g2x :: Fp2
  g2y :: Fp2
  g2z :: Fp2

definition g2_new :: "Fp2 \<Rightarrow> Fp2 \<Rightarrow> Fp2 \<Rightarrow> G2Point" where
  "g2_new x y z = \<lparr>g2x = x, g2y = y, g2z = z\<rparr>"

definition g2_from_affine :: "Fp2 \<Rightarrow> Fp2 \<Rightarrow> G2Point" where
  "g2_from_affine x y = g2_new x y fp2_one"

definition g2_identity :: G2Point where
  "g2_identity = g2_new fp2_one fp2_one fp2_zero"

definition g2_is_identity :: "G2Point \<Rightarrow> bool" where
  "g2_is_identity p = fp2_is_zero (g2z p)"

definition g2_to_affine :: "G2Point \<Rightarrow> (Fp2 \<times> Fp2) option" where
  "g2_to_affine p =
     (if g2_is_identity p then None
      else Option.bind (fp2_inv (g2z p)) (\<lambda>z_inv.
        let z_inv2 = fp2_square z_inv;
            z_inv3 = fp2_mul z_inv2 z_inv
        in Some (fp2_mul (g2x p) z_inv2, fp2_mul (g2y p) z_inv3)))"

definition g2_double_ct :: "G2Point \<Rightarrow> G2Point" where
  "g2_double_ct p =
     (let x2 = fp2_square (g2x p);
          y2 = fp2_square (g2y p);
          y4 = fp2_square y2;
          lambda1 = fp2_add (fp2_add x2 x2) x2;
          lambda2 = fp2_double (fp2_double (fp2_mul (g2x p) y2));
          lambda3 = fp2_double (fp2_double (fp2_double y4));
          x' = fp2_sub (fp2_square lambda1) (fp2_double lambda2);
          y' = fp2_sub (fp2_mul lambda1 (fp2_sub lambda2 x')) lambda3;
          z' = fp2_double (fp2_mul (g2y p) (g2z p))
      in g2_new x' y' z')"

definition g2_double :: "G2Point \<Rightarrow> G2Point" where
  "g2_double p =
     (if g2_is_identity p then g2_identity
      else
     (let x2 = fp2_square (g2x p);
          y2 = fp2_square (g2y p);
          y4 = fp2_square y2;
          lambda1 = fp2_add (fp2_add x2 x2) x2;
          lambda2 = fp2_double (fp2_double (fp2_mul (g2x p) y2));
          lambda3 = fp2_double (fp2_double (fp2_double y4));
          x' = fp2_sub (fp2_square lambda1) (fp2_double lambda2);
          y' = fp2_sub (fp2_mul lambda1 (fp2_sub lambda2 x')) lambda3;
          z' = fp2_double (fp2_mul (g2y p) (g2z p))
      in g2_new x' y' z'))"

definition g2_add :: "G2Point \<Rightarrow> G2Point \<Rightarrow> G2Point" where
  "g2_add p q =
     (if g2_is_identity p then q
      else if g2_is_identity q then p
      else
     (let z1_2 = fp2_square (g2z p);
          z2_2 = fp2_square (g2z q);
          u1 = fp2_mul (g2x p) z2_2;
          u2' = fp2_mul (g2x q) z1_2;
          z2_3 = fp2_mul z2_2 (g2z q);
          z1_3 = fp2_mul z1_2 (g2z p);
          s1 = fp2_mul (g2y p) z2_3;
          s2 = fp2_mul (g2y q) z1_3
      in if fp2_eq u1 u2' then (if fp2_eq s1 s2 then g2_double p else g2_identity)
         else
      (let h = fp2_sub u2' u1;
          r = fp2_sub s2 s1;
          h2 = fp2_square h;
          j = fp2_mul h h2;
          v = fp2_mul u1 h2;
          x3 = fp2_sub (fp2_sub (fp2_square r) j) (fp2_double v);
          y3 = fp2_sub (fp2_mul r (fp2_sub v x3)) (fp2_mul s1 j);
          z3 = fp2_mul (fp2_mul (g2z p) (g2z q)) h
      in g2_new x3 y3 z3)))"

definition g2_ct_select :: "'c subtle \<Rightarrow> G2Point \<Rightarrow> G2Point \<Rightarrow> 'c \<Rightarrow> G2Point" where
  "g2_ct_select S a b choice =
     g2_new (fp2_ct_select S (g2x a) (g2x b) choice) (fp2_ct_select S (g2y a) (g2y b) choice)
       (fp2_ct_select S (g2z a) (g2z b) choice)"

definition g2_add_ct :: "'c subtle \<Rightarrow> G2Point \<Rightarrow> G2Point \<Rightarrow> G2Point" where
  "g2_add_ct S p q =
     (let self_is_id = fp2_ct_eq S (g2z p) fp2_zero;
          other_is_id = fp2_ct_eq S (g2z q) fp2_zero;
          z1_2 = fp2_square (g2z p);
          z2_2 = fp2_square (g2z q);
          u1 = fp2_mul (g2x p) z2_2;
          u2' = fp2_mul (g2x q) z1_2;
          z2_3 = fp2_mul z2_2 (g2z q);
          z1_3 = fp2_mul z1_2 (g2z p);
          s1 = fp2_mul (g2y p) z2_3;
          s2 = fp2_mul (g2y q) z1_3;
          u_eq = fp2_ct_eq S u1 u2';
          s_eq = fp2_ct_eq S s1 s2;
          is_double = choice_and S (choice_and S (choice_and S u_eq s_eq) (choice_not S self_is_id))
                        (choice_not S other_is_id);
          is_inverse = choice_and S (choice_and S (choice_and S u_eq (choice_not S s_eq)) (choice_not S self_is_id))
                        (choice_not S other_is_id);
          h = fp2_sub u2' u1;
          r = fp2_sub s2 s1;
          h2 = fp2_square h;
          j = fp2_mul h h2;
          v = fp2_mul u1 h2;
          x3 = fp2_sub (fp2_sub (fp2_square r) j) (fp2_double v);
          y3 = fp2_sub (fp2_mul r (fp2_sub v x3)) (fp2_mul s1 j);
          z3 = fp2_mul (fp2_mul (g2z p) (g2z q)) h;
          add_result = g2_new x3 y3 z3;
          double_result = g2_double_ct p;
          base = g2_ct_select S add_result q self_is_id;
          base' = g2_ct_select S base p other_is_id;
          result = g2_ct_select S base' double_result is_double
      in g2_ct_select S result g2_identity is_inverse)"

definition g2_scalar_mul_ct :: "'c subtle \<Rightarrow> G2Point \<Rightarrow> Z256 \<Rightarrow> G2Point" where
  "g2_scalar_mul_ct S p k =
     foldl (\<lambda>result i.
         let result = g2_double_ct result;
             bit = z256_ct_bit S k i;
             added = g2_add_ct S result p
         in g2_ct_select S result added bit)
       g2_identity (rev [0..<256])"

definition g2_scalar_mul :: "'c subtle \<Rightarrow> G2Point \<Rightarrow> Z256 \<Rightarrow> G2Point" where
  "g2_scalar_mul S p k = g2_scalar_mul_ct S p k"

definition g2_neg :: "G2Point \<Rightarrow> G2Point" where
  "g2_neg p = g2_new (g2x p) (fp2_neg (g2y p)) (g2z p)"

definition g2_is_on_curve :: "G2Point \<Rightarrow> bool" where
  "g2_is_on_curve p =
     (if g2_is_identity p then True
      else case g2_to_affine p of Some (x, y) \<Rightarrow> is_on_curve_g2 x y | None \<Rightarrow> False)"

definition g2_eq :: "G2Point \<Rightarrow> G2Point \<Rightarrow> bool" where
  "g2_eq p q =
     (if g2_is_identity p \<and> g2_is_identity q then True
      else if g2_is_identity p \<or> g2_is_identity q then False
      else
        let z1_2 = fp2_square (g2z p);
            z2_2 = fp2_square (g2z q);
            z1_3 = fp2_mul z1_2 (g2z p);
            z2_3 = fp2_mul z2_2 (g2z q);
            x1 = fp2_mul (g2x p) z2_2;
            x2 = fp2_mul (g2x q) z1_2;
            y1 = fp2_mul (g2y p) z2_3;
            y2 = fp2_mul (g2y q) z1_3
        in fp2_eq x1 x2 \<and> fp2_eq y1 y2)"

section \<open>Parameters\<close>

definition SM9_P :: Z256 where
  "SM9_P = Z256 0xE351457DE56F9B27 0x1A7AEEDB21F2934B 0xFF58EC745D603AB4 0xB640000002A3A6F1"

definition SM9_B :: Z256 where
  "SM9_B = Z256 5 0 0 0"

definition P1_X :: Z256 where
  "P1_X = Z256 0xE8C4E4817C66DDDD 0xE1E4086909DC3280 0xF5ED0704487D01D6 0x93DE051D62BF718F"

definition P1_Y :: Z256 where
  "P1_Y = Z256 0x0C464CD70A3EA616 0x1C1C00CBFA602435 0x631065125C395BBC 0x21FE8DDA4F21E607"

definition P2_X0 :: Z256 where
  "P2_X0 = Z256 0xF9B7213BAF82D65B 0xEE265948D19C17AB 0xD2AAB97FD34EC120 0x3722755292130B08"

definition P2_X1 :: Z256 where
  "P2_X1 = Z256 0x54806C11D8806141 0xF1DD2C190F5E93C4 0x597B6027B441A01F 0x85AEF3D078640C98"

definition P2_Y0 :: Z256 where
  "P2_Y0 = Z256 0x6215BBA5C999A7C7 0x47EFBA98A71A0811 0x5F3170153D278FF2 0xA7CF28D519BE3DA6"

definition P2_Y1 :: Z256 where
  "P2_Y1 = Z256 0x856DC76B84EBEB96 0x0736A96FA347C8BD 0x66BA0D262CBEE6ED 0x17509B092E845C12"

definition g1_generator :: G1Point where
  "g1_generator =
     (let x = fp_from_raw P1_X;
          y = fp_from_raw P1_Y
      in g1_from_affine x y)"

definition g2_generator :: G2Point where
  "g2_generator =
     (let x0 = fp_from_raw P2_X0;
          x1 = fp_from_raw P2_X1;
          y0 = fp_from_raw P2_Y0;
          y1 = fp_from_raw P2_Y1;
          x = fp2_new x0 x1;
          y = fp2_new y0 y1
      in g2_from_affine x y)"

section \<open>The formulas over a ring\<close>

text \<open>
  Jacobian coordinates \<open>(X, Y, Z)\<close> stand for the affine point \<open>(X / Z^2, Y / Z^3)\<close>. The laws below
  hold in any commutative ring, so that they apply to \<open>Fp\<close> and to \<open>Fp2\<close> without a primality
  argument.
\<close>

definition jac :: "'r::comm_ring_1 \<Rightarrow> 'r \<Rightarrow> 'r \<Rightarrow> 'r \<Rightarrow> 'r \<Rightarrow> bool" where
  "jac X Y Z x y \<longleftrightarrow> X = x * (Z * Z) \<and> Y = y * (Z * Z * Z)"

definition on_jac :: "'r::comm_ring_1 \<Rightarrow> 'r \<Rightarrow> 'r \<Rightarrow> 'r \<Rightarrow> bool" where
  "on_jac b X Y Z \<longleftrightarrow> Y * Y = X * X * X + b * (Z * Z * Z * (Z * Z * Z))"

text \<open>The textbook sum of two affine points with slope \<open>l\<close>.\<close>

definition chord_x :: "'r::comm_ring_1 \<Rightarrow> 'r \<Rightarrow> 'r \<Rightarrow> 'r" where
  "chord_x l x1 x2 = l * l - x1 - x2"

definition chord_y :: "'r::comm_ring_1 \<Rightarrow> 'r \<Rightarrow> 'r \<Rightarrow> 'r \<Rightarrow> 'r" where
  "chord_y l x1 y1 x2 = l * (x1 - chord_x l x1 x2) - y1"

lemma jac_double_tangent:
  fixes X Y Z x y l :: "'r::comm_ring_1"
  assumes "jac X Y Z x y" and l: "2 * y * l = 3 * (x * x)"
    and X': "X' = 3 * (X * X) * (3 * (X * X)) - 8 * (X * (Y * Y))"
    and Y': "Y' = 3 * (X * X) * (4 * (X * (Y * Y)) - X') - 8 * (Y * Y * (Y * Y))" and Z': "Z' = 2 * (Y * Z)"
  shows "jac X' Y' Z' (chord_x l x x) (chord_y l x y x)"
proof -
  have X: "X = x * (Z * Z)" and Y: "Y = y * (Z * Z * Z)" using assms(1) by (simp_all add: jac_def)
  have k: "3 * (X * X) = l * Z'"
  proof -
    have "3 * (X * X) = 2 * y * l * (Z * Z * (Z * Z))" unfolding l X by (simp only: mult_ac)
    also have "\<dots> = l * Z'" unfolding Z' Y by (simp only: mult_ac)
    finally show ?thesis .
  qed
  have x: "X' = chord_x l x x * (Z' * Z')"
    unfolding X' k unfolding chord_x_def X Y Z' by (simp add: algebra_simps)
  have "Y' = chord_y l x y x * (Z' * Z' * Z')"
    unfolding Y' k x unfolding chord_y_def X Y Z' by (simp add: algebra_simps)
  with x show ?thesis by (simp add: jac_def)
qed

lemma jac_add_chord:
  fixes X1 Y1 Z1 X2 Y2 Z2 x1 y1 x2 y2 l k :: "'r::comm_ring_1"
  assumes "jac X1 Y1 Z1 x1 y1" "jac X2 Y2 Z2 x2 y2" and l: "l * (x2 - x1) = y2 - y1"
    and H: "H = X2 * (Z1 * Z1) - X1 * (Z2 * Z2)" and R: "R = Y2 * (Z1 * Z1 * Z1) - Y1 * (Z2 * Z2 * Z2)"
    and X3: "X3 = k * k * (R * R - H * (H * H) - 2 * (X1 * (Z2 * Z2) * (H * H)))"
    and Y3: "Y3 = k * R * (k * k * (X1 * (Z2 * Z2) * (H * H)) - X3) - k * k * k * (Y1 * (Z2 * Z2 * Z2) * (H * (H * H)))"
    and Z3: "Z3 = k * (Z1 * Z2 * H)"
  shows "jac X3 Y3 Z3 (chord_x l x1 x2) (chord_y l x1 y1 x2)"
proof -
  have p: "X1 = x1 * (Z1 * Z1)" "Y1 = y1 * (Z1 * Z1 * Z1)" "X2 = x2 * (Z2 * Z2)" "Y2 = y2 * (Z2 * Z2 * Z2)"
    using assms(1,2) by (simp_all add: jac_def)
  define W where "W = Z1 * Z2"
  have H': "H = (x2 - x1) * (W * W)" unfolding H p W_def by (simp add: algebra_simps)
  have R': "R = l * H * W"
  proof -
    have "R = (y2 - y1) * (W * W * W)" unfolding R p W_def by (simp add: algebra_simps)
    also have "\<dots> = l * H * W" unfolding l [symmetric] H' by (simp only: mult_ac)
    finally show ?thesis .
  qed
  have z: "Z3 = k * (W * H)" and u: "X1 * (Z2 * Z2) = x1 * (W * W)" and s: "Y1 * (Z2 * Z2 * Z2) = y1 * (W * W * W)"
    unfolding Z3 p W_def by (simp_all only: mult_ac)
  have hh: "H * (H * H) = (x2 - x1) * (W * W) * (H * H)" by (simp only: H')
  have x: "X3 = chord_x l x1 x2 * (Z3 * Z3)"
    unfolding X3 hh R' u z chord_x_def by (simp add: algebra_simps)
  have "Y3 = chord_y l x1 y1 x2 * (Z3 * Z3 * Z3)"
    unfolding Y3 x u s R' z chord_y_def by (simp add: algebra_simps)
  with x show ?thesis by (simp add: jac_def)
qed

lemma on_jac_double:
  fixes X Y Z b :: "'r::comm_ring_1"
  assumes "on_jac b X Y Z"
    and X': "X' = 3 * (X * X) * (3 * (X * X)) - 8 * (X * (Y * Y))"
    and Y': "Y' = 3 * (X * X) * (4 * (X * (Y * Y)) - X') - 8 * (Y * Y * (Y * Y))" and Z': "Z' = 2 * (Y * Z)"
  shows "on_jac b X' Y' Z'"
proof -
  have "b * (Z * Z * Z * (Z * Z * Z)) = Y * Y - X * X * X" using assms(1) by (simp add: on_jac_def)
  moreover have "b * (Z' * Z' * Z' * (Z' * Z' * Z')) = 64 * (Y * Y * Y * (Y * Y * Y)) * (b * (Z * Z * Z * (Z * Z * Z)))"
    unfolding Z' by (simp add: algebra_simps)
  ultimately have "b * (Z' * Z' * Z' * (Z' * Z' * Z')) = 64 * (Y * Y * Y * (Y * Y * Y)) * (Y * Y - X * X * X)" by simp
  then show ?thesis unfolding on_jac_def X' Y' by (simp add: algebra_simps)
qed

lemma chord_stays_on_curve:
  fixes R S U H :: "'r::comm_ring_1"
  assumes rel: "2 * (S * R) + R * R = 3 * (U * U * H) + 3 * (U * (H * H)) + H * (H * H)"
    and X: "X = R * R - H * (H * H) - 2 * (U * (H * H))" and Y: "Y = R * (U * (H * H) - X) - S * (H * (H * H))"
  shows "Y * Y = X * X * X + (S * S - U * U * U) * (H * (H * H) * (H * (H * H)))"
proof -
  have "Y * Y - X * X * X - (S * S - U * U * U) * (H * (H * H) * (H * (H * H))) =
      H * (H * H) * (R * R - 3 * (U * (H * H)) - H * (H * H)) *
      (2 * (S * R) + R * R - (3 * (U * U * H) + 3 * (U * (H * H)) + H * (H * H)))"
    unfolding Y X by (simp add: algebra_simps)
  also have "\<dots> = 0" unfolding rel by simp
  finally show ?thesis by (simp add: algebra_simps)
qed

lemma on_jac_add:
  fixes X1 Y1 Z1 X2 Y2 Z2 b k :: "'r::comm_ring_1"
  assumes on: "on_jac b X1 Y1 Z1" "on_jac b X2 Y2 Z2"
    and H: "H = X2 * (Z1 * Z1) - X1 * (Z2 * Z2)" and R: "R = Y2 * (Z1 * Z1 * Z1) - Y1 * (Z2 * Z2 * Z2)"
    and X3: "X3 = k * k * (R * R - H * (H * H) - 2 * (X1 * (Z2 * Z2) * (H * H)))"
    and Y3: "Y3 = k * R * (k * k * (X1 * (Z2 * Z2) * (H * H)) - X3) - k * k * k * (Y1 * (Z2 * Z2 * Z2) * (H * (H * H)))"
    and Z3: "Z3 = k * (Z1 * Z2 * H)"
  shows "on_jac b X3 Y3 Z3"
proof -
  define U S W where "U = X1 * (Z2 * Z2)" and "S = Y1 * (Z2 * Z2 * Z2)" and "W = Z1 * Z1 * Z1 * (Z2 * Z2 * Z2)"
  have 1: "S * S = U * U * U + b * (W * W)"
  proof -
    have "S * S = Y1 * Y1 * (Z2 * Z2 * Z2 * (Z2 * Z2 * Z2))" unfolding S_def by (simp only: mult_ac)
    also have "Y1 * Y1 = X1 * X1 * X1 + b * (Z1 * Z1 * Z1 * (Z1 * Z1 * Z1))" using on(1) by (simp add: on_jac_def)
    finally show ?thesis unfolding U_def W_def by (simp add: algebra_simps)
  qed
  have 2: "(S + R) * (S + R) = (U + H) * (U + H) * (U + H) + b * (W * W)"
  proof -
    have "S + R = Y2 * (Z1 * Z1 * Z1)" "U + H = X2 * (Z1 * Z1)" by (simp_all add: S_def U_def R H)
    moreover have "Y2 * (Z1 * Z1 * Z1) * (Y2 * (Z1 * Z1 * Z1)) = Y2 * Y2 * (Z1 * Z1 * Z1 * (Z1 * Z1 * Z1))"
      by (simp only: mult_ac)
    moreover have "Y2 * Y2 = X2 * X2 * X2 + b * (Z2 * Z2 * Z2 * (Z2 * Z2 * Z2))" using on(2) by (simp add: on_jac_def)
    ultimately show ?thesis unfolding W_def by (simp add: algebra_simps)
  qed
  have rel: "2 * (S * R) + R * R = 3 * (U * U * H) + 3 * (U * (H * H)) + H * (H * H)"
  proof -
    have "2 * (S * R) + R * R = (S + R) * (S + R) - S * S" by (simp add: algebra_simps)
    then show ?thesis unfolding 1 2 by (simp add: algebra_simps)
  qed
  define X Y where "X = R * R - H * (H * H) - 2 * (U * (H * H))" and "Y = R * (U * (H * H) - X) - S * (H * (H * H))"
  have "Y * Y = X * X * X + (S * S - U * U * U) * (H * (H * H) * (H * (H * H)))"
    by (rule chord_stays_on_curve [OF rel X_def Y_def])
  also have "S * S - U * U * U = b * (W * W)" unfolding 1 by simp
  finally have base: "Y * Y = X * X * X + b * (W * W) * (H * (H * H) * (H * (H * H)))" .
  have x: "X3 = k * k * X" unfolding X3 X_def U_def ..
  have y: "Y3 = k * k * k * Y" unfolding Y3 x Y_def U_def [symmetric] S_def [symmetric] by (simp add: algebra_simps)
  have z: "Z3 * Z3 * Z3 * (Z3 * Z3 * Z3) = k * k * k * (k * k * k) * (W * W * (H * (H * H) * (H * (H * H))))"
    unfolding Z3 W_def by (simp only: mult_ac)
  have "Y3 * Y3 = k * k * k * (k * k * k) * (Y * Y)" unfolding y by (simp only: mult_ac)
  then show ?thesis unfolding on_jac_def base x z by (simp add: algebra_simps)
qed

section \<open>Branch-free scalar multiplication\<close>

text \<open>
  Left-to-right double-and-add, with branches: the reference of the scalar multiplications.
\<close>

definition double_and_add :: "('p \<Rightarrow> 'p) \<Rightarrow> ('p \<Rightarrow> 'p \<Rightarrow> 'p) \<Rightarrow> 'p \<Rightarrow> 'p \<Rightarrow> Z256 \<Rightarrow> 'p" where
  "double_and_add dbl add ident p k =
     foldl (\<lambda>r i. if bit (z256_val k) i then add (dbl r) p else dbl r) ident (rev [0..<256])"

text \<open>
  The contract of a point module: the branch-free operations agree with the branching ones except
  for the representation of the identity, selection selects, and a predicate on points is kept;
  what uses the \<open>subtle\<close> crate does so where that crate keeps its laws.
\<close>

locale point_module =
  fixes S :: "'c subtle" and ident :: 'p and is_id ok :: "'p \<Rightarrow> bool" and dbl dbl_ct :: "'p \<Rightarrow> 'p"
    and add add_ct :: "'p \<Rightarrow> 'p \<Rightarrow> 'p" and sel :: "'p \<Rightarrow> 'p \<Rightarrow> 'c \<Rightarrow> 'p"
  assumes ident_id: "is_id ident" and ident_ok: "ok ident"
    and dbl_id: "is_id p \<Longrightarrow> is_id (dbl p) \<and> is_id (dbl_ct p)"
    and dbl_ct_eq: "\<not> is_id p \<Longrightarrow> dbl_ct p = dbl p"
    and add_id: "is_id p \<Longrightarrow> add p q = q"
    and add_ct_eq: "subtle_laws S \<Longrightarrow> \<not> (is_id p \<and> is_id q) \<Longrightarrow> add_ct p q = add p q"
    and add_ct_id: "subtle_laws S \<Longrightarrow> is_id p \<Longrightarrow> is_id q \<Longrightarrow> is_id (add_ct p q)"
    and select: "subtle_laws S \<Longrightarrow> sel p q (choice_of S c) = (if c then q else p)"
    and dbl_ok: "ok p \<Longrightarrow> ok (dbl_ct p)" and add_ok: "subtle_laws S \<Longrightarrow> ok p \<Longrightarrow> ok q \<Longrightarrow> ok (add_ct p q)"
begin

definition same :: "'p \<Rightarrow> 'p \<Rightarrow> bool" where
  "same p q \<longleftrightarrow> p = q \<or> is_id p \<and> is_id q"

lemma dbl_same: "same p q \<Longrightarrow> same (dbl_ct p) (dbl q)"
  using dbl_id dbl_ct_eq by (cases "is_id p") (auto simp: same_def)

lemma add_same: "subtle_laws S \<Longrightarrow> same p q \<Longrightarrow> same (add_ct p r) (add q r)"
  using add_id add_ct_eq add_ct_id by (cases "is_id p"; cases "is_id r") (auto simp: same_def)

lemma scalar_mul_same:
  assumes laws: "subtle_laws S"
  shows "same (foldl (\<lambda>r i. let r = dbl_ct r; b = z256_ct_bit S k i; a = add_ct r p in sel r a b) ident (rev [0..<256]))
     (double_and_add dbl add ident p k)"
proof -
  have "same (foldl (\<lambda>r i. let r = dbl_ct r; b = z256_ct_bit S k i; a = add_ct r p in sel r a b) r is)
      (foldl (\<lambda>r i. if bit (z256_val k) i then add (dbl r) p else dbl r) r' is)"
    if "same r r'" "\<forall>i \<in> set is. i < 256" for r r' "is"
    using that
  proof (induction "is" arbitrary: r r')
    case (Cons i js)
    have "same (sel (dbl_ct r) (add_ct (dbl_ct r) p) (z256_ct_bit S k i))
        (if bit (z256_val k) i then add (dbl r') p else dbl r')"
      using Cons.prems dbl_same add_same [OF laws] by (simp add: z256_ct_bit_val select [OF laws])
    then show ?case using Cons by (simp add: Let_def)
  qed simp
  then show ?thesis unfolding double_and_add_def by (simp add: same_def)
qed

lemma scalar_mul_ok:
  assumes "subtle_laws S" "ok p"
  shows "ok (foldl (\<lambda>r i. let r = dbl_ct r; b = z256_ct_bit S k i; a = add_ct r p in sel r a b) ident (rev [0..<256]))"
proof -
  have "ok (foldl (\<lambda>r i. let r = dbl_ct r; b = z256_ct_bit S k i; a = add_ct r p in sel r a b) r is)"
    if "ok r" for r "is"
    using that by (induction "is" arbitrary: r) (simp_all add: Let_def z256_ct_bit_val select [OF assms(1)] dbl_ok add_ok [OF assms(1)] assms(2))
  then show ?thesis by (simp add: ident_ok)
qed

end

section \<open>Representations\<close>

lemma fp_zero_rep: "fp_is_zero a \<longleftrightarrow> a = fp_zero"
proof -
  have "fp_is_zero a \<longleftrightarrow> z256_val (fp_z a) = z256_val z256_zero"
    by (simp add: fp_is_zero_def z256_is_zero_iff z256_zero_def)
  then show ?thesis by (cases a) (simp only: z256_val_inj fp_zero_def Fp.sel Fp.inject)
qed

lemma fp_eq_iff: "fp_eq a b \<longleftrightarrow> a = b"
  by (cases a; cases b) (simp add: fp_eq_def)

lemma fp_ct_eq_choice: "subtle_laws S \<Longrightarrow> fp_ct_eq S a b = choice_of S (a = b)"
  by (cases a; cases b) (simp add: fp_ct_eq_def z256_ct_eq_choice)

lemma fp_ct_select_choice: "subtle_laws S \<Longrightarrow> fp_ct_select S a b (choice_of S c) = (if c then b else a)"
  by (simp add: fp_ct_select_def z256_ct_select_choice)

text \<open>The zero representation is preserved where the branch-free code relies on it.\<close>

lemma fp_mul_zero: "fp_mul a fp_zero = fp_zero"
proof -
  have le: "z256_val z256_zero \<le> pval" by (simp add: z256_zero_def)
  obtain T M where "2 ^ 256 * T = z256_val (fp_z a) * z256_val z256_zero + M * pval"
      "z256_val (fp_z a) * z256_val z256_zero = 0 \<longrightarrow> M = 0"
      "z256_val (mont_mul (fp_z a) z256_zero) = (if pval < T then T - pval else T)"
    using mont_mul_exact [OF le, of "fp_z a"] by (elim exE conjE) (rule that)
  then have "z256_val (mont_mul (fp_z a) z256_zero) = 0" by (simp add: z256_zero_def)
  then have "fp_is_zero (fp_mul a fp_zero)"
    by (simp add: fp_is_zero_def z256_is_zero_iff fp_mul_def fp_zero_def)
  then show ?thesis by (simp only: fp_zero_rep)
qed

lemma fp_zero_sums: "fp_add fp_zero fp_zero = fp_zero" "fp_sub fp_zero fp_zero = fp_zero"
proof -
  have z: "z256_val (fp_z fp_zero) = 0" by (simp add: fp_zero_def z256_zero_def)
  show "fp_add fp_zero fp_zero = fp_zero" "fp_sub fp_zero fp_zero = fp_zero"
    using fp_add_exact [OF fp_zero_laws(1) fp_zero_laws(1)] fp_sub_exact [OF fp_zero_laws(1) fp_zero_laws(1)]
    by (simp_all add: fp_zero_rep [symmetric] fp_is_zero_def z256_is_zero_iff z)
qed

lemma fp_mul_zero_rep: "fp_is_zero z \<Longrightarrow> fp_is_zero (fp_double (fp_mul a z))"
  by (simp add: fp_zero_rep fp_mul_zero fp_double_def fp_zero_sums)

lemma fp2_zero_rep: "fp2_is_zero a \<longleftrightarrow> a = fp2_zero"
  by (cases a) (simp add: fp2_is_zero_def fp_zero_rep fp2_zero_def fp2_new_def)

lemma fp2_eq_iff: "fp2_eq a b \<longleftrightarrow> a = b"
  by (cases a; cases b) (simp add: fp2_eq_def fp_eq_iff)

lemma fp2_ct_eq_choice: "subtle_laws S \<Longrightarrow> fp2_ct_eq S a b = choice_of S (a = b)"
  by (cases a; cases b) (simp add: fp2_ct_eq_def fp_ct_eq_choice subtle_laws_def)

lemma fp2_ct_select_choice: "subtle_laws S \<Longrightarrow> fp2_ct_select S a b (choice_of S c) = (if c then b else a)"
  by (simp add: fp2_ct_select_def fp_ct_select_choice fp2_new_def)

lemma fp2_mul_zero_rep: "fp2_is_zero z \<Longrightarrow> fp2_is_zero (fp2_double (fp2_mul a z))"
  by (simp add: fp2_zero_rep fp2_zero_def fp2_mul_def Let_def fp_mul_zero fp_zero_sums fp2_double_def fp2_add_def)

section \<open>G1\<close>

definition g1_ok :: "G1Point \<Rightarrow> bool" where
  "g1_ok p \<longleftrightarrow> fp_ok (g1x p) \<and> fp_ok (g1y p) \<and> fp_ok (g1z p)"

definition g1_rep :: "G1Point \<Rightarrow> zp \<Rightarrow> zp \<Rightarrow> bool" where
  "g1_rep p x y \<longleftrightarrow> jac (fp_val (g1x p)) (fp_val (g1y p)) (fp_val (g1z p)) x y"

definition g1_on :: "G1Point \<Rightarrow> bool" where
  "g1_on p \<longleftrightarrow> g1_ok p \<and> on_jac (5) (fp_val (g1x p)) (fp_val (g1y p)) (fp_val (g1z p))"

lemma g1_new_sel [simp]: "g1x (g1_new x y z) = x" "g1y (g1_new x y z) = y" "g1z (g1_new x y z) = z"
  by (simp_all add: g1_new_def)

lemma g1_double_ct_vals:
  assumes "g1_ok p"
  defines "X \<equiv> fp_val (g1x p)" and "Y \<equiv> fp_val (g1y p)" and "Z \<equiv> fp_val (g1z p)" and "d \<equiv> g1_double_ct p"
  shows "g1_ok d" "fp_val (g1x d) = 3 * (X * X) * (3 * (X * X)) - 8 * (X * (Y * Y))"
    "fp_val (g1y d) = 3 * (X * X) * (4 * (X * (Y * Y)) - fp_val (g1x d)) - 8 * (Y * Y * (Y * Y))"
    "fp_val (g1z d) = 2 * (Y * Z)"
  using assms(1) unfolding d_def X_def Y_def Z_def
  by (simp_all add: g1_double_ct_def g1_ok_def Let_def fp_rules algebra_simps)

lemma g1_double_eq: "g1_double p = (if g1_is_identity p then g1_identity else g1_double_ct p)"
  unfolding g1_double_def g1_double_ct_def ..

lemma g1_identity_on: "g1_on g1_identity" "g1_is_identity g1_identity"
  by (simp_all add: g1_on_def g1_ok_def g1_identity_def fp_rules on_jac_def g1_is_identity_def fp_zero_rep)

lemma g1_double_ct_on: "g1_on p \<Longrightarrow> g1_on (g1_double_ct p)"
  unfolding g1_on_def using g1_double_ct_vals [of p] on_jac_double by blast

lemma g1_double_on: "g1_on p \<Longrightarrow> g1_on (g1_double p)"
  by (simp add: g1_double_eq g1_double_ct_on g1_identity_on)

text \<open>The sum of two points, in the branch where the abscissas differ.\<close>

definition g1_chord :: "G1Point \<Rightarrow> G1Point \<Rightarrow> G1Point" where
  "g1_chord p q =
     (let z1_2 = fp_square (g1z p);
          z2_2 = fp_square (g1z q);
          u1 = fp_mul (g1x p) z2_2;
          u2' = fp_mul (g1x q) z1_2;
          z2_3 = fp_mul z2_2 (g1z q);
          z1_3 = fp_mul z1_2 (g1z p);
          s1 = fp_mul (g1y p) z2_3;
          s2 = fp_mul (g1y q) z1_3;
          h = fp_sub u2' u1;
          r = fp_double (fp_sub s2 s1);
          h2 = fp_square h;
          i = fp_double (fp_double h2);
          j = fp_mul h i;
          v = fp_mul u1 i;
          x3 = fp_sub (fp_sub (fp_square r) j) (fp_double v);
          y3 = fp_sub (fp_mul r (fp_sub v x3)) (fp_double (fp_mul s1 j));
          z_sum = fp_add (g1z p) (g1z q);
          z3 = fp_mul (fp_sub (fp_sub (fp_square z_sum) z1_2) z2_2) h
      in g1_new x3 y3 z3)"

lemma g1_add_eq:
  "g1_add p q =
     (if g1_is_identity p then q
      else if g1_is_identity q then p
      else if fp_mul (g1x p) (fp_square (g1z q)) = fp_mul (g1x q) (fp_square (g1z p))
      then if fp_mul (g1y p) (fp_mul (fp_square (g1z q)) (g1z q)) =
              fp_mul (g1y q) (fp_mul (fp_square (g1z p)) (g1z p))
           then g1_double p else g1_identity
      else g1_chord p q)"
  unfolding g1_add_def g1_chord_def Let_def fp_eq_iff ..

lemma g1_chord_vals:
  assumes "g1_ok p" "g1_ok q"
  defines "X1 \<equiv> fp_val (g1x p)" and "Y1 \<equiv> fp_val (g1y p)" and "Z1 \<equiv> fp_val (g1z p)"
    and "X2 \<equiv> fp_val (g1x q)" and "Y2 \<equiv> fp_val (g1y q)" and "Z2 \<equiv> fp_val (g1z q)"
  defines "H \<equiv> X2 * (Z1 * Z1) - X1 * (Z2 * Z2)" and "R \<equiv> Y2 * (Z1 * Z1 * Z1) - Y1 * (Z2 * Z2 * Z2)"
    and "c \<equiv> g1_chord p q" and "k \<equiv> 2"
  shows "g1_ok c"
    "fp_val (g1x c) = k * k * (R * R - H * (H * H) - 2 * (X1 * (Z2 * Z2) * (H * H)))"
    "fp_val (g1y c) = k * R * (k * k * (X1 * (Z2 * Z2) * (H * H)) - fp_val (g1x c)) -
       k * k * k * (Y1 * (Z2 * Z2 * Z2) * (H * (H * H)))"
    "fp_val (g1z c) = k * (Z1 * Z2 * H)"
proof -
  define u1 u2' s1 s2 where "u1 = fp_mul (g1x p) (fp_square (g1z q))"
    and "u2' = fp_mul (g1x q) (fp_square (g1z p))"
    and "s1 = fp_mul (g1y p) (fp_mul (fp_square (g1z q)) (g1z q))"
    and "s2 = fp_mul (g1y q) (fp_mul (fp_square (g1z p)) (g1z p))"
  note us = this
  have ok: "fp_ok (g1z p)" "fp_ok (g1z q)" "fp_ok u1" "fp_ok u2'" "fp_ok s1" "fp_ok s2"
    using assms(1,2) by (simp_all add: g1_ok_def us fp_rules)
  have v: "fp_val u1 = X1 * (Z2 * Z2)" "fp_val s1 = Y1 * (Z2 * Z2 * Z2)"
    "fp_val u2' = X1 * (Z2 * Z2) + H" "fp_val s2 = Y1 * (Z2 * Z2 * Z2) + R"
    using assms(1,2) by (simp_all add: g1_ok_def us fp_rules X1_def Y1_def Z1_def X2_def Y2_def Z2_def H_def R_def)
  note unf = c_def g1_chord_def Let_def us [symmetric]
  show "g1_ok c" unfolding unf by (simp add: g1_ok_def fp_rules ok)
  show "fp_val (g1x c) = k * k * (R * R - H * (H * H) - 2 * (X1 * (Z2 * Z2) * (H * H)))"
    unfolding unf by (simp add: fp_rules ok v k_def algebra_simps)
  show "fp_val (g1y c) = k * R * (k * k * (X1 * (Z2 * Z2) * (H * H)) - fp_val (g1x c)) -
       k * k * k * (Y1 * (Z2 * Z2 * Z2) * (H * (H * H)))"
    unfolding unf by (simp add: fp_rules ok v k_def algebra_simps)
  show "fp_val (g1z c) = k * (Z1 * Z2 * H)"
    unfolding unf by (simp add: fp_rules ok v k_def Z1_def Z2_def algebra_simps)
qed

lemma g1_chord_on: "g1_on p \<Longrightarrow> g1_on q \<Longrightarrow> g1_on (g1_chord p q)"
  unfolding g1_on_def
  using g1_chord_vals [of p q]
    on_jac_add [of "5" "fp_val (g1x p)" "fp_val (g1y p)" "fp_val (g1z p)"
      "fp_val (g1x q)" "fp_val (g1y q)" "fp_val (g1z q)" _ _ _ "2", OF _ _ refl refl]
  by blast

lemma g1_add_on: "g1_on p \<Longrightarrow> g1_on q \<Longrightarrow> g1_on (g1_add p q)"
  by (simp add: g1_add_eq g1_double_on g1_identity_on g1_chord_on)

lemma g1_neg_on: "g1_on p \<Longrightarrow> g1_on (g1_neg p)"
  by (simp add: g1_on_def g1_ok_def g1_neg_def fp_rules on_jac_def)

lemma g1_ct_select_choice:
  "subtle_laws S \<Longrightarrow> g1_ct_select S p q (choice_of S c) = (if c then q else p)"
  by (simp add: g1_ct_select_def fp_ct_select_choice g1_new_def)

lemma g1_add_ct_eq:
  assumes "subtle_laws S"
  shows "g1_add_ct S p q = (if g1_is_identity p \<and> g1_is_identity q then p else g1_add p q)"
proof -
  have laws: "choice_and S (choice_of S b) (choice_of S c) = choice_of S (b \<and> c)"
    "choice_not S (choice_of S b) = choice_of S (\<not> b)" for b c
    using assms by (simp_all add: subtle_laws_def)
  have id: "(g1z r = fp_zero) = g1_is_identity r" for r by (simp add: g1_is_identity_def fp_zero_rep)
  show ?thesis
    unfolding g1_add_ct_def Let_def fp_ct_eq_choice [OF assms] laws g1_ct_select_choice [OF assms] id
      g1_add_eq g1_chord_def g1_double_eq by auto
qed

lemma g1_double_ct_id: "g1_is_identity p \<Longrightarrow> g1_is_identity (g1_double_ct p)"
  by (simp add: g1_is_identity_def g1_double_ct_def Let_def fp_mul_zero_rep)

interpretation g1: point_module S g1_identity g1_is_identity g1_on g1_double g1_double_ct g1_add
  "g1_add_ct S" "g1_ct_select S"
  for S :: "'c subtle"
  by unfold_locales
    (simp_all add: g1_identity_on g1_double_eq g1_double_ct_id g1_add_ct_eq g1_add_eq g1_ct_select_choice
      g1_double_ct_on g1_chord_on)

section \<open>G2\<close>

definition g2_ok :: "G2Point \<Rightarrow> bool" where
  "g2_ok p \<longleftrightarrow> fp2_ok (g2x p) \<and> fp2_ok (g2y p) \<and> fp2_ok (g2z p)"

definition g2_rep :: "G2Point \<Rightarrow> zp2 \<Rightarrow> zp2 \<Rightarrow> bool" where
  "g2_rep p x y \<longleftrightarrow> jac (fp2_val (g2x p)) (fp2_val (g2y p)) (fp2_val (g2z p)) x y"

definition g2_on :: "G2Point \<Rightarrow> bool" where
  "g2_on p \<longleftrightarrow> g2_ok p \<and> on_jac (Zp2 0 5) (fp2_val (g2x p)) (fp2_val (g2y p)) (fp2_val (g2z p))"

lemma g2_new_sel [simp]: "g2x (g2_new x y z) = x" "g2y (g2_new x y z) = y" "g2z (g2_new x y z) = z"
  by (simp_all add: g2_new_def)

lemma g2_double_ct_vals:
  assumes "g2_ok p"
  defines "X \<equiv> fp2_val (g2x p)" and "Y \<equiv> fp2_val (g2y p)" and "Z \<equiv> fp2_val (g2z p)" and "d \<equiv> g2_double_ct p"
  shows "g2_ok d" "fp2_val (g2x d) = 3 * (X * X) * (3 * (X * X)) - 8 * (X * (Y * Y))"
    "fp2_val (g2y d) = 3 * (X * X) * (4 * (X * (Y * Y)) - fp2_val (g2x d)) - 8 * (Y * Y * (Y * Y))"
    "fp2_val (g2z d) = 2 * (Y * Z)"
  using assms(1) unfolding d_def X_def Y_def Z_def
  by (simp_all add: g2_double_ct_def g2_ok_def Let_def fp2_rules algebra_simps)

lemma g2_double_eq: "g2_double p = (if g2_is_identity p then g2_identity else g2_double_ct p)"
  unfolding g2_double_def g2_double_ct_def ..

lemma g2_identity_on: "g2_on g2_identity" "g2_is_identity g2_identity"
  by (simp_all add: g2_on_def g2_ok_def g2_identity_def fp2_rules on_jac_def g2_is_identity_def fp2_zero_rep)

lemma g2_double_ct_on: "g2_on p \<Longrightarrow> g2_on (g2_double_ct p)"
  unfolding g2_on_def using g2_double_ct_vals [of p] on_jac_double by blast

lemma g2_double_on: "g2_on p \<Longrightarrow> g2_on (g2_double p)"
  by (simp add: g2_double_eq g2_double_ct_on g2_identity_on)

text \<open>The sum of two points, in the branch where the abscissas differ.\<close>

definition g2_chord :: "G2Point \<Rightarrow> G2Point \<Rightarrow> G2Point" where
  "g2_chord p q =
     (let z1_2 = fp2_square (g2z p);
          z2_2 = fp2_square (g2z q);
          u1 = fp2_mul (g2x p) z2_2;
          u2' = fp2_mul (g2x q) z1_2;
          z2_3 = fp2_mul z2_2 (g2z q);
          z1_3 = fp2_mul z1_2 (g2z p);
          s1 = fp2_mul (g2y p) z2_3;
          s2 = fp2_mul (g2y q) z1_3;
          h = fp2_sub u2' u1;
          r = fp2_sub s2 s1;
          h2 = fp2_square h;
          j = fp2_mul h h2;
          v = fp2_mul u1 h2;
          x3 = fp2_sub (fp2_sub (fp2_square r) j) (fp2_double v);
          y3 = fp2_sub (fp2_mul r (fp2_sub v x3)) (fp2_mul s1 j);
          z3 = fp2_mul (fp2_mul (g2z p) (g2z q)) h
      in g2_new x3 y3 z3)"

lemma g2_add_eq:
  "g2_add p q =
     (if g2_is_identity p then q
      else if g2_is_identity q then p
      else if fp2_mul (g2x p) (fp2_square (g2z q)) = fp2_mul (g2x q) (fp2_square (g2z p))
      then if fp2_mul (g2y p) (fp2_mul (fp2_square (g2z q)) (g2z q)) =
              fp2_mul (g2y q) (fp2_mul (fp2_square (g2z p)) (g2z p))
           then g2_double p else g2_identity
      else g2_chord p q)"
  unfolding g2_add_def g2_chord_def Let_def fp2_eq_iff ..

lemma g2_chord_vals:
  assumes "g2_ok p" "g2_ok q"
  defines "X1 \<equiv> fp2_val (g2x p)" and "Y1 \<equiv> fp2_val (g2y p)" and "Z1 \<equiv> fp2_val (g2z p)"
    and "X2 \<equiv> fp2_val (g2x q)" and "Y2 \<equiv> fp2_val (g2y q)" and "Z2 \<equiv> fp2_val (g2z q)"
  defines "H \<equiv> X2 * (Z1 * Z1) - X1 * (Z2 * Z2)" and "R \<equiv> Y2 * (Z1 * Z1 * Z1) - Y1 * (Z2 * Z2 * Z2)"
    and "c \<equiv> g2_chord p q" and "k \<equiv> 1"
  shows "g2_ok c"
    "fp2_val (g2x c) = k * k * (R * R - H * (H * H) - 2 * (X1 * (Z2 * Z2) * (H * H)))"
    "fp2_val (g2y c) = k * R * (k * k * (X1 * (Z2 * Z2) * (H * H)) - fp2_val (g2x c)) -
       k * k * k * (Y1 * (Z2 * Z2 * Z2) * (H * (H * H)))"
    "fp2_val (g2z c) = k * (Z1 * Z2 * H)"
proof -
  define u1 u2' s1 s2 where "u1 = fp2_mul (g2x p) (fp2_square (g2z q))"
    and "u2' = fp2_mul (g2x q) (fp2_square (g2z p))"
    and "s1 = fp2_mul (g2y p) (fp2_mul (fp2_square (g2z q)) (g2z q))"
    and "s2 = fp2_mul (g2y q) (fp2_mul (fp2_square (g2z p)) (g2z p))"
  note us = this
  have ok: "fp2_ok (g2z p)" "fp2_ok (g2z q)" "fp2_ok u1" "fp2_ok u2'" "fp2_ok s1" "fp2_ok s2"
    using assms(1,2) by (simp_all add: g2_ok_def us fp2_rules)
  have v: "fp2_val u1 = X1 * (Z2 * Z2)" "fp2_val s1 = Y1 * (Z2 * Z2 * Z2)"
    "fp2_val u2' = X1 * (Z2 * Z2) + H" "fp2_val s2 = Y1 * (Z2 * Z2 * Z2) + R"
    using assms(1,2) by (simp_all add: g2_ok_def us fp2_rules X1_def Y1_def Z1_def X2_def Y2_def Z2_def H_def R_def)
  note unf = c_def g2_chord_def Let_def us [symmetric]
  show "g2_ok c" unfolding unf by (simp add: g2_ok_def fp2_rules ok)
  show "fp2_val (g2x c) = k * k * (R * R - H * (H * H) - 2 * (X1 * (Z2 * Z2) * (H * H)))"
    unfolding unf by (simp add: fp2_rules ok v k_def algebra_simps)
  show "fp2_val (g2y c) = k * R * (k * k * (X1 * (Z2 * Z2) * (H * H)) - fp2_val (g2x c)) -
       k * k * k * (Y1 * (Z2 * Z2 * Z2) * (H * (H * H)))"
    unfolding unf by (simp add: fp2_rules ok v k_def algebra_simps)
  show "fp2_val (g2z c) = k * (Z1 * Z2 * H)"
    unfolding unf by (simp add: fp2_rules ok v k_def Z1_def Z2_def algebra_simps)
qed

lemma g2_chord_on: "g2_on p \<Longrightarrow> g2_on q \<Longrightarrow> g2_on (g2_chord p q)"
  unfolding g2_on_def
  using g2_chord_vals [of p q]
    on_jac_add [of "Zp2 0 5" "fp2_val (g2x p)" "fp2_val (g2y p)" "fp2_val (g2z p)"
      "fp2_val (g2x q)" "fp2_val (g2y q)" "fp2_val (g2z q)" _ _ _ "1", OF _ _ refl refl]
  by blast

lemma g2_add_on: "g2_on p \<Longrightarrow> g2_on q \<Longrightarrow> g2_on (g2_add p q)"
  by (simp add: g2_add_eq g2_double_on g2_identity_on g2_chord_on)

lemma g2_neg_on: "g2_on p \<Longrightarrow> g2_on (g2_neg p)"
  by (simp add: g2_on_def g2_ok_def g2_neg_def fp2_rules on_jac_def)

lemma g2_ct_select_choice:
  "subtle_laws S \<Longrightarrow> g2_ct_select S p q (choice_of S c) = (if c then q else p)"
  by (simp add: g2_ct_select_def fp2_ct_select_choice g2_new_def)

lemma g2_add_ct_eq:
  assumes "subtle_laws S"
  shows "g2_add_ct S p q = (if g2_is_identity p \<and> g2_is_identity q then p else g2_add p q)"
proof -
  have laws: "choice_and S (choice_of S b) (choice_of S c) = choice_of S (b \<and> c)"
    "choice_not S (choice_of S b) = choice_of S (\<not> b)" for b c
    using assms by (simp_all add: subtle_laws_def)
  have id: "(g2z r = fp2_zero) = g2_is_identity r" for r by (simp add: g2_is_identity_def fp2_zero_rep)
  show ?thesis
    unfolding g2_add_ct_def Let_def fp2_ct_eq_choice [OF assms] laws g2_ct_select_choice [OF assms] id
      g2_add_eq g2_chord_def g2_double_eq by auto
qed

lemma g2_double_ct_id: "g2_is_identity p \<Longrightarrow> g2_is_identity (g2_double_ct p)"
  by (simp add: g2_is_identity_def g2_double_ct_def Let_def fp2_mul_zero_rep)

interpretation g2: point_module S g2_identity g2_is_identity g2_on g2_double g2_double_ct g2_add
  "g2_add_ct S" "g2_ct_select S"
  for S :: "'c subtle"
  by unfold_locales
    (simp_all add: g2_identity_on g2_double_eq g2_double_ct_id g2_add_ct_eq g2_add_eq g2_ct_select_choice
      g2_double_ct_on g2_chord_on)

end
