(* ===== verification/Sm9_Group.thy ===== *)
theory Sm9_Group
  imports Sm9_Curve
begin

text \<open>
  What the curve operations of SM9 promise: they compute the chord-and-tangent law, they stay on
  the curve, the branch-free versions agree with the branching ones, and the generators of
  \<open>src/gm-sm9-rs/src/pairing/params.rs\<close> are points of their curves.
\<close>

section \<open>Mixed addition and the generators\<close>

lemma g1_add_mixed_on:
  assumes "g1_on p" "g1_on (g1_affine_to_projective q)"
  shows "g1_on (g1_add_mixed p q)"
proof -
  define X Y Z x y where "X = fp_val (g1x p)" and "Y = fp_val (g1y p)" and "Z = fp_val (g1z p)"
    and "x = fp_val (g1ax q)" and "y = fp_val (g1ay q)"
  note v = this
  have ok: "fp_ok (g1x p)" "fp_ok (g1y p)" "fp_ok (g1z p)" "fp_ok (g1ax q)" "fp_ok (g1ay q)"
    using assms by (simp_all add: g1_on_def g1_ok_def g1_affine_to_projective_def g1_from_affine_def)
  have on: "on_jac 5 X Y Z" "on_jac 5 x y 1"
    using assms by (simp_all add: g1_on_def v g1_affine_to_projective_def g1_from_affine_def fp_rules)
  define z2 z3 u s where "z2 = fp_square (g1z p)" and "z3 = fp_mul z2 (g1z p)"
    and "u = fp_mul (g1ax q) z2" and "s = fp_mul (g1ay q) z3"
  define h r where "h = fp_sub u (g1x p)" and "r = fp_sub s (g1y p)"
  define x' where "x' = fp_sub (fp_sub (fp_square r) (fp_mul (fp_square h) h)) (fp_double (fp_mul (g1x p) (fp_square h)))"
  define c where "c = g1_new x' (fp_sub (fp_mul r (fp_sub (fp_mul (g1x p) (fp_square h)) x'))
      (fp_mul (g1y p) (fp_mul (fp_square h) h))) (fp_mul (g1z p) h)"
  have add: "g1_add_mixed p q = (if g1_is_identity p then g1_affine_to_projective q
      else if g1x p = u then (if g1y p = s then g1_double p else g1_identity) else c)"
    unfolding g1_add_mixed_def g1_affine_is_identity_def c_def x'_def h_def r_def s_def u_def z3_def z2_def
    by (simp add: Let_def fp_eq_iff)
  have zok: "fp_ok u" "fp_ok s" "fp_ok h" "fp_ok r" "fp_ok x'"
    by (simp_all add: x'_def h_def r_def s_def u_def z3_def z2_def fp_rules ok)
  have H: "fp_val h = x * (Z * Z) - X * (1 * 1)" and R: "fp_val r = y * (Z * Z * Z) - Y * (1 * 1 * 1)"
    by (simp_all add: h_def r_def s_def u_def z3_def z2_def fp_rules ok v)
  have "on_jac 5 (fp_val (g1x c)) (fp_val (g1y c)) (fp_val (g1z c))"
    by (rule on_jac_add [OF on H R, of _ 1])
      (simp_all add: c_def x'_def fp_rules ok zok v algebra_simps)
  then have "g1_on c" by (simp add: g1_on_def g1_ok_def c_def fp_rules ok zok)
  then show ?thesis using assms by (simp add: add g1_double_on g1_identity_on)
qed

lemma zp_eqI: "a + k * pval = b + l * pval \<Longrightarrow> (of_nat a :: zp) = of_nat b"
  by (metis add_0_right mult_zero_right of_nat_add of_nat_mult of_nat_pval)

lemma generator_equation_1:
  "(of_nat (z256_val P1_Y * z256_val P1_Y) :: zp) =
     of_nat (z256_val P1_X * z256_val P1_X * z256_val P1_X + 5)"
  by (rule zp_eqI [where k = "0x454bcb6dbffc5336dcbfe7b6bdbd5af1beb5343166382db16f245f7d5abbf6ff9547edb8a5ae717ca8eaea64ffe5e0eac85b2cbfe7cb874a5f275c62bd0c241e" and l = "0"]) (simp add: pval_eq P1_X_def P1_Y_def)

lemma generator_equation_2:
  "(of_nat (z256_val P2_Y0 * z256_val P2_Y0 + 6 * (z256_val P2_X0 * z256_val P2_X1 * z256_val P2_X1)) :: zp) =
     of_nat (z256_val P2_X0 * z256_val P2_X0 * z256_val P2_X0 + 2 * (z256_val P2_Y1 * z256_val P2_Y1))"
  by (rule zp_eqI [where k = "0" and l = "0x7b1f0d5dadb632ca83ec7118f3a070813aa36d6220eda8208eb433f4eeec5ebb1b33b2c35c728b1191920be1b4c554c40ce276dfb54eb918e70433b0e264f488"]) (simp add: pval_eq P2_X0_def P2_X1_def P2_Y0_def P2_Y1_def)

lemma generator_equation_3:
  "(of_nat (2 * (z256_val P2_Y0 * z256_val P2_Y1) + 2 * (z256_val P2_X1 * z256_val P2_X1 * z256_val P2_X1)) :: zp) =
     of_nat (3 * (z256_val P2_X0 * z256_val P2_X0 * z256_val P2_X1) + 5)"
  by (rule zp_eqI [where k = "0" and l = "0x4c48703636248ac8d384c99a76ad0ba607e7067e2bd3d57599e6613de3806b37eab94996c418ae276d2072676ca787de51c3594615683a465155d94314aa605e"]) (simp add: pval_eq P2_X0_def P2_X1_def P2_Y0_def P2_Y1_def)

lemmas generator_equations = generator_equation_1 generator_equation_2 generator_equation_3

lemma g1_generator_on: "g1_on g1_generator"
  using generator_equations(1)
  by (simp add: g1_on_def g1_ok_def g1_generator_def Let_def g1_from_affine_def fp_rules fp_from_raw_laws on_jac_def)

lemma g2_generator_on: "g2_on g2_generator"
proof -
  define x0 x1 y0 y1 :: zp where "x0 = of_nat (z256_val P2_X0)" and "x1 = of_nat (z256_val P2_X1)"
    and "y0 = of_nat (z256_val P2_Y0)" and "y1 = of_nat (z256_val P2_Y1)"
  note v = this
  have e: "y0 * y0 + 6 * (x0 * x1 * x1) = x0 * x0 * x0 + 2 * (y1 * y1)"
      "2 * (y0 * y1) + 2 * (x1 * x1 * x1) = 3 * (x0 * x0 * x1) + 5"
    using generator_equations(2,3) by (simp_all add: v)
  have re: "y0 * y0 - 2 * (y1 * y1) = (x0 * x0 - 2 * (x1 * x1)) * x0 - 2 * ((x0 * x1 + x1 * x0) * x1)"
  proof -
    have "y0 * y0 - 2 * (y1 * y1) = x0 * x0 * x0 - 6 * (x0 * x1 * x1)" using e(1) by (simp add: algebra_simps)
    then show ?thesis by (simp add: algebra_simps)
  qed
  have im: "y0 * y1 + y1 * y0 = (x0 * x0 - 2 * (x1 * x1)) * x1 + (x0 * x1 + x1 * x0) * x0 + 5"
  proof -
    have "2 * (y0 * y1) = 3 * (x0 * x0 * x1) + 5 - 2 * (x1 * x1 * x1)" using e(2) by (simp add: algebra_simps)
    then show ?thesis by (simp add: algebra_simps)
  qed
  have "Zp2 y0 y1 * Zp2 y0 y1 = Zp2 x0 x1 * Zp2 x0 x1 * Zp2 x0 x1 + Zp2 0 5 * (1 * 1 * 1 * (1 * 1 * 1))"
    using re im by simp
  then show ?thesis
    by (simp add: g2_on_def g2_ok_def g2_generator_def Let_def g2_from_affine_def fp2_rules fp_from_raw_laws
        on_jac_def v)
qed

section \<open>Affine coordinates\<close>

lemma g1_to_affine_val:
  assumes "g1_ok p" "\<not> g1_is_identity p" "fp_unit (g1z p)"
  shows "\<exists>x y. g1_to_affine p = Some (x, y) \<and> fp_ok x \<and> fp_ok y \<and> g1_rep p (fp_val x) (fp_val y)"
proof -
  have ok: "fp_ok (g1x p)" "fp_ok (g1y p)" "fp_ok (g1z p)" using assms(1) by (simp_all add: g1_ok_def)
  obtain k where k: "fp_inv (g1z p) = Some k" "fp_val (g1z p) * fp_val k = 1" using fp.inv_val [OF ok(3) assms(3)] by blast
  note kok = fp.inv_ok [OF ok(3) k(1)]
  define Z K where "Z = fp_val (g1z p)" and "K = fp_val k"
  have 1: "Z * K = 1" using k(2) by (simp add: Z_def K_def)
  have "X * (K * K) * (Z * Z) = X" "Y * (K * K * K) * (Z * Z * Z) = Y" for X Y :: zp
  proof -
    have "X * (K * K) * (Z * Z) = X * (Z * K) * (Z * K)" by (simp only: mult_ac)
    then show "X * (K * K) * (Z * Z) = X" using 1 by simp
    have "Y * (K * K * K) * (Z * Z * Z) = Y * (Z * K) * (Z * K) * (Z * K)" by (simp only: mult_ac)
    then show "Y * (K * K * K) * (Z * Z * Z) = Y" using 1 by simp
  qed
  then show ?thesis
    using assms(2) k(1) ok kok by (simp add: g1_to_affine_def Let_def fp_rules g1_rep_def jac_def Z_def K_def)
qed

lemma g2_to_affine_val:
  assumes "g2_ok p" "\<not> g2_is_identity p" "fp2_unit (g2z p)"
  shows "\<exists>x y. g2_to_affine p = Some (x, y) \<and> fp2_ok x \<and> fp2_ok y \<and> g2_rep p (fp2_val x) (fp2_val y)"
proof -
  have ok: "fp2_ok (g2x p)" "fp2_ok (g2y p)" "fp2_ok (g2z p)" using assms(1) by (simp_all add: g2_ok_def)
  obtain k where k: "fp2_inv (g2z p) = Some k" "fp2_val (g2z p) * fp2_val k = 1" using fp2.inv_val [OF ok(3) assms(3)] by blast
  note kok = fp2.inv_ok [OF ok(3) k(1)]
  define Z K where "Z = fp2_val (g2z p)" and "K = fp2_val k"
  have 1: "Z * K = 1" using k(2) by (simp add: Z_def K_def)
  have "X * (K * K) * (Z * Z) = X" "Y * (K * K * K) * (Z * Z * Z) = Y" for X Y :: zp2
  proof -
    have "X * (K * K) * (Z * Z) = X * (Z * K) * (Z * K)" by (simp only: mult_ac)
    then show "X * (K * K) * (Z * Z) = X" using 1 by simp
    have "Y * (K * K * K) * (Z * Z * Z) = Y * (Z * K) * (Z * K) * (Z * K)" by (simp only: mult_ac)
    then show "Y * (K * K * K) * (Z * Z * Z) = Y" using 1 by simp
  qed
  then show ?thesis
    using assms(2) k(1) ok kok by (simp add: g2_to_affine_def Let_def fp2_rules g2_rep_def jac_def Z_def K_def)
qed

lemma jac_on:
  assumes "jac X Y Z x y" "y * y = x * x * x + b"
  shows "on_jac b X Y Z"
proof -
  have "Y * Y = y * y * (Z * Z * Z * (Z * Z * Z))" using assms(1) by (simp add: jac_def mult_ac)
  then show ?thesis using assms unfolding on_jac_def assms(2) by (simp add: jac_def algebra_simps)
qed

lemma curve_b_laws: "fp_ok curve_b" "fp_val curve_b = 5"
  by (simp_all add: curve_b_def fp_from_raw_laws)

section \<open>Properties\<close>

text \<open>
  C18. The Jacobian formulas of G1 are the group law: for points other than the identity, \<open>double\<close>
  computes the tangent construction and \<open>add\<close> the chord construction on the affine points the
  coordinates stand for, with the slope given by its defining equation; \<open>add\<close> doubles when the
  points agree and returns the identity when only the abscissas do.
\<close>

theorem g1_group_law:
  assumes "g1_ok p" "g1_ok q" "\<not> g1_is_identity p" "\<not> g1_is_identity q" "g1_rep p x1 y1" "g1_rep q x2 y2"
  defines "u1 \<equiv> fp_mul (g1x p) (fp_square (g1z q))" and "v2 \<equiv> fp_mul (g1x q) (fp_square (g1z p))"
    and "s1 \<equiv> fp_mul (g1y p) (fp_mul (fp_square (g1z q)) (g1z q))"
    and "s2 \<equiv> fp_mul (g1y q) (fp_mul (fp_square (g1z p)) (g1z p))"
  shows "(2 * y1 * l = 3 * (x1 * x1) \<longrightarrow> g1_rep (g1_double p) (chord_x l x1 x1) (chord_y l x1 y1 x1)) \<and>
     (u1 \<noteq> v2 \<longrightarrow> l * (x2 - x1) = y2 - y1 \<longrightarrow> g1_rep (g1_add p q) (chord_x l x1 x2) (chord_y l x1 y1 x2)) \<and>
     (u1 = v2 \<longrightarrow> g1_add p q = (if s1 = s2 then g1_double p else g1_identity))"
proof (intro conjI impI)
  assume "2 * y1 * l = 3 * (x1 * x1)"
  then show "g1_rep (g1_double p) (chord_x l x1 x1) (chord_y l x1 y1 x1)"
    using assms(3,5) g1_double_ct_vals [OF assms(1)] unfolding g1_rep_def by (simp add: g1_double_eq jac_double_tangent)
next
  assume "u1 \<noteq> v2" and l: "l * (x2 - x1) = y2 - y1"
  then have "g1_add p q = g1_chord p q" using assms(3,4) by (simp add: g1_add_eq u1_def v2_def)
  then show "g1_rep (g1_add p q) (chord_x l x1 x2) (chord_y l x1 y1 x2)"
    using jac_add_chord [OF assms(5,6) [unfolded g1_rep_def] l refl refl g1_chord_vals(2-4) [OF assms(1,2)]]
    by (simp add: g1_rep_def)
next
  assume "u1 = v2"
  then show "g1_add p q = (if s1 = s2 then g1_double p else g1_identity)"
    using assms(3,4) by (simp add: g1_add_eq u1_def v2_def s1_def s2_def)
qed

lemma fp_one_not_zero: "\<not> fp_is_zero fp_one"
  by (simp add: fp_is_zero_def fp_one_def z256_is_zero_def FP_R_def)

lemma g1_from_affine_laws:
  assumes "fp_ok x" "fp_ok y"
  shows "g1_ok (g1_from_affine x y)" "\<not> g1_is_identity (g1_from_affine x y)"
    "g1_rep (g1_from_affine x y) (fp_val x) (fp_val y)"
  using assms by (simp_all add: g1_ok_def g1_from_affine_def fp_rules g1_is_identity_def fp_one_not_zero g1_rep_def jac_def)

theorem g1_group_law_witness:
  "g1_rep (g1_add (g1_from_affine fp_zero fp_zero) (g1_from_affine fp_one fp_one)) (chord_x 1 0 1) (chord_y 1 0 0 1)"
proof -
  let ?p = "g1_from_affine fp_zero fp_zero" and ?q = "g1_from_affine fp_one fp_one"
  have "fp_val (fp_mul (g1x ?p) (fp_square (g1z ?q))) \<noteq> fp_val (fp_mul (g1x ?q) (fp_square (g1z ?p)))"
    by (simp add: g1_from_affine_def fp_rules)
  then have "fp_mul (g1x ?p) (fp_square (g1z ?q)) \<noteq> fp_mul (g1x ?q) (fp_square (g1z ?p))" by auto
  then show ?thesis
    using g1_group_law [of ?p ?q 0 0 1 1 1] g1_from_affine_laws fp.closed fp.hom by (metis mult_1 diff_zero)
qed

text \<open>
  C19. The same for G2, whose coordinates are elements of Fp2.
\<close>

theorem g2_group_law:
  assumes "g2_ok p" "g2_ok q" "\<not> g2_is_identity p" "\<not> g2_is_identity q" "g2_rep p x1 y1" "g2_rep q x2 y2"
  defines "u1 \<equiv> fp2_mul (g2x p) (fp2_square (g2z q))" and "v2 \<equiv> fp2_mul (g2x q) (fp2_square (g2z p))"
    and "s1 \<equiv> fp2_mul (g2y p) (fp2_mul (fp2_square (g2z q)) (g2z q))"
    and "s2 \<equiv> fp2_mul (g2y q) (fp2_mul (fp2_square (g2z p)) (g2z p))"
  shows "(2 * y1 * l = 3 * (x1 * x1) \<longrightarrow> g2_rep (g2_double p) (chord_x l x1 x1) (chord_y l x1 y1 x1)) \<and>
     (u1 \<noteq> v2 \<longrightarrow> l * (x2 - x1) = y2 - y1 \<longrightarrow> g2_rep (g2_add p q) (chord_x l x1 x2) (chord_y l x1 y1 x2)) \<and>
     (u1 = v2 \<longrightarrow> g2_add p q = (if s1 = s2 then g2_double p else g2_identity))"
proof (intro conjI impI)
  assume "2 * y1 * l = 3 * (x1 * x1)"
  then show "g2_rep (g2_double p) (chord_x l x1 x1) (chord_y l x1 y1 x1)"
    using assms(3,5) g2_double_ct_vals [OF assms(1)] unfolding g2_rep_def by (simp add: g2_double_eq jac_double_tangent)
next
  assume "u1 \<noteq> v2" and l: "l * (x2 - x1) = y2 - y1"
  then have "g2_add p q = g2_chord p q" using assms(3,4) by (simp add: g2_add_eq u1_def v2_def)
  then show "g2_rep (g2_add p q) (chord_x l x1 x2) (chord_y l x1 y1 x2)"
    using jac_add_chord [OF assms(5,6) [unfolded g2_rep_def] l refl refl g2_chord_vals(2-4) [OF assms(1,2)]]
    by (simp add: g2_rep_def)
next
  assume "u1 = v2"
  then show "g2_add p q = (if s1 = s2 then g2_double p else g2_identity)"
    using assms(3,4) by (simp add: g2_add_eq u1_def v2_def s1_def s2_def)
qed

lemma g2_from_affine_laws:
  assumes "fp2_ok x" "fp2_ok y"
  shows "g2_ok (g2_from_affine x y)" "\<not> g2_is_identity (g2_from_affine x y)"
    "g2_rep (g2_from_affine x y) (fp2_val x) (fp2_val y)"
proof -
  have "\<not> fp2_is_zero fp2_one" by (simp add: fp2_is_zero_def fp2_one_def fp2_new_def fp_one_not_zero)
  then show "g2_ok (g2_from_affine x y)" "\<not> g2_is_identity (g2_from_affine x y)"
      "g2_rep (g2_from_affine x y) (fp2_val x) (fp2_val y)"
    using assms by (simp_all add: g2_ok_def g2_from_affine_def fp2_rules g2_is_identity_def g2_rep_def jac_def)
qed

theorem g2_group_law_witness:
  "g2_rep (g2_add (g2_from_affine fp2_zero fp2_zero) (g2_from_affine fp2_one fp2_one)) (chord_x 1 0 1) (chord_y 1 0 0 1)"
proof -
  let ?p = "g2_from_affine fp2_zero fp2_zero" and ?q = "g2_from_affine fp2_one fp2_one"
  have "fp2_val (fp2_mul (g2x ?p) (fp2_square (g2z ?q))) \<noteq> fp2_val (fp2_mul (g2x ?q) (fp2_square (g2z ?p)))"
    by (simp add: g2_from_affine_def fp2_rules)
  then have "fp2_mul (g2x ?p) (fp2_square (g2z ?q)) \<noteq> fp2_mul (g2x ?q) (fp2_square (g2z ?p))" by auto
  then show ?thesis
    using g2_group_law [of ?p ?q 0 0 1 1 1] g2_from_affine_laws fp2.closed fp2.hom by (metis mult_1 diff_zero)
qed

text \<open>
  C32. The curve equation is an invariant of every point operation: doubling, addition (branching,
  branch-free and mixed), negation and scalar multiplication of points on E(Fp) or on the twist
  stay on it, and both generators are on their curves.
\<close>

theorem curve_operations_stay_on_curve:
  assumes "subtle_laws S" "g1_on p" "g1_on q" "g1_on (g1_affine_to_projective r)" "g2_on u" "g2_on v"
  shows "g1_on (g1_double p) \<and> g1_on (g1_double_ct p) \<and> g1_on (g1_add p q) \<and> g1_on (g1_add_ct S p q) \<and>
      g1_on (g1_add_mixed p r) \<and> g1_on (g1_neg p) \<and> g1_on (g1_scalar_mul S p k) \<and> g1_on g1_identity \<and> g1_on g1_generator \<and>
      g2_on (g2_double u) \<and> g2_on (g2_double_ct u) \<and> g2_on (g2_add u v) \<and> g2_on (g2_add_ct S u v) \<and>
      g2_on (g2_neg u) \<and> g2_on (g2_scalar_mul S u k) \<and> g2_on g2_identity \<and> g2_on g2_generator"
  using assms g1.scalar_mul_ok [OF assms(1,2)] g2.scalar_mul_ok [OF assms(1,5)]
  by (simp add: g1_double_on g1_double_ct_on g1_add_on g1.add_ok g1_add_mixed_on g1_neg_on g1_identity_on g1_generator_on
      g2_double_on g2_double_ct_on g2_add_on g2.add_ok g2_neg_on g2_identity_on g2_generator_on
      g1_scalar_mul_def g1_scalar_mul_ct_def g2_scalar_mul_def g2_scalar_mul_ct_def)

lemma g1_generator_affine_on:
  "g1_on (g1_affine_to_projective \<lparr>g1ax = fp_from_raw P1_X, g1ay = fp_from_raw P1_Y\<rparr>)"
  using g1_generator_on by (simp add: g1_affine_to_projective_def g1_generator_def)

theorem curve_operations_stay_on_curve_witness:
  "g1_on (g1_scalar_mul subtle_bool g1_generator (Z256 3 0 0 0)) \<and> g2_on (g2_add g2_generator g2_generator)"
  using curve_operations_stay_on_curve [OF subtle_bool_laws g1_generator_on g1_generator_on g1_generator_affine_on
      g2_generator_on g2_generator_on, of "Z256 3 0 0 0"] by blast

text \<open>
  The constant-time scalar multiplication, which doubles, adds and selects for all 256 bits,
  is equal as a point to textbook double-and-add with the branching formulas, in G1 and in G2.
\<close>

theorem scalar_mul_is_double_and_add:
  assumes "subtle_laws S"
  shows "g1_eq (g1_scalar_mul S p k) (double_and_add g1_double g1_add g1_identity p k) \<and>
    g2_eq (g2_scalar_mul S q k) (double_and_add g2_double g2_add g2_identity q k)"
proof -
  have "g1_eq a b" if "g1.same a b" for a b using that by (auto simp: g1.same_def g1_eq_def Let_def fp_eq_iff)
  moreover have "g2_eq a b" if "g2.same a b" for a b using that by (auto simp: g2.same_def g2_eq_def Let_def fp2_eq_iff)
  ultimately show ?thesis
    using g1.scalar_mul_same [OF assms] g2.scalar_mul_same [OF assms]
    by (simp add: g1_scalar_mul_def g1_scalar_mul_ct_def g2_scalar_mul_def g2_scalar_mul_ct_def)
qed

theorem scalar_mul_is_double_and_add_witness:
  "g1_eq (g1_scalar_mul subtle_bool g1_generator (Z256 3 0 0 0))
     (double_and_add g1_double g1_add g1_identity g1_generator (Z256 3 0 0 0))"
  using scalar_mul_is_double_and_add [OF subtle_bool_laws] by blast

lemma is_on_curve_g1_val:
  assumes "fp_ok x" "fp_ok y" "is_on_curve_g1 x y"
  shows "fp_val y * fp_val y = fp_val x * fp_val x * fp_val x + 5"
proof -
  have "fp_val (fp_square y) = fp_val (fp_add (fp_mul (fp_square x) x) curve_b)"
    using assms(3) by (simp add: is_on_curve_g1_def Let_def fp_eq_iff)
  then show ?thesis using assms by (simp add: fp_rules curve_b_laws)
qed

lemma is_on_curve_g2_val:
  assumes "fp2_ok x" "fp2_ok y" "is_on_curve_g2 x y"
  shows "fp2_val y * fp2_val y = fp2_val x * fp2_val x * fp2_val x + Zp2 0 5"
proof -
  define c where "c = fp2_new fp_zero curve_b"
  have c: "fp2_ok c" "fp2_val c = Zp2 0 5"
    by (simp_all add: c_def fp2_ok_def fp2_val_def fp2_new_def fp_rules curve_b_laws)
  have "fp2_val (fp2_square y) = fp2_val (fp2_add (fp2_mul (fp2_square x) x) c)"
    using assms(3) by (simp add: is_on_curve_g2_def Let_def fp2_eq_iff c_def)
  then show ?thesis using assms(1,2) by (simp add: fp2_rules c)
qed

text \<open>
  Leaving Jacobian coordinates is sound for points with an invertible third
  coordinate: \<open>to_affine\<close> returns the affine point the coordinates stand for, and a point that
  \<open>is_on_curve\<close> accepts satisfies the projective curve equation.
\<close>

theorem to_affine_and_on_curve_sound:
  assumes "g1_ok p" "\<not> g1_is_identity p" "fp_unit (g1z p)" "g2_ok q" "\<not> g2_is_identity q" "fp2_unit (g2z q)"
  shows "(\<exists>x y. g1_to_affine p = Some (x, y) \<and> g1_rep p (fp_val x) (fp_val y)) \<and>
    (\<exists>x y. g2_to_affine q = Some (x, y) \<and> g2_rep q (fp2_val x) (fp2_val y)) \<and>
    (g1_is_on_curve p \<longrightarrow> g1_on p) \<and> (g2_is_on_curve q \<longrightarrow> g2_on q)"
proof -
  obtain x y where 1: "g1_to_affine p = Some (x, y)" "fp_ok x" "fp_ok y" "g1_rep p (fp_val x) (fp_val y)"
    using g1_to_affine_val [OF assms(1-3)] by (elim exE conjE) (rule that)
  obtain u v where 2: "g2_to_affine q = Some (u, v)" "fp2_ok u" "fp2_ok v" "g2_rep q (fp2_val u) (fp2_val v)"
    using g2_to_affine_val [OF assms(4-6)] by (elim exE conjE) (rule that)
  have "g1_on p" if "g1_is_on_curve p"
    using that 1 assms(1,2) is_on_curve_g1_val by (simp add: g1_is_on_curve_def g1_on_def g1_rep_def jac_on)
  moreover have "g2_on q" if "g2_is_on_curve q"
    using that 2 assms(4,5) is_on_curve_g2_val by (simp add: g2_is_on_curve_def g2_on_def g2_rep_def jac_on)
  ultimately show ?thesis using 1 2 by blast
qed

theorem to_affine_and_on_curve_sound_witness:
  "\<exists>x y. g1_to_affine (g1_from_affine fp_zero fp_zero) = Some (x, y) \<and>
     g1_rep (g1_from_affine fp_zero fp_zero) (fp_val x) (fp_val y)"
proof -
  have "fp_unit fp_one" "fp2_unit fp2_one" by (simp_all add: fp_unit_def fp2_unit_def fp2_norm_def fp2_one_def fp2_new_def fp_rules)
  then show ?thesis
    using to_affine_and_on_curve_sound [of "g1_from_affine fp_zero fp_zero" "g2_from_affine fp2_zero fp2_zero"]
      g1_from_affine_laws [of fp_zero fp_zero] g2_from_affine_laws [of fp2_zero fp2_zero]
    by (simp add: fp_rules fp2_rules g1_from_affine_def g2_from_affine_def)
qed

text \<open>
  The parameter table of \<open>params.rs\<close> is not used consistently: the constant \<open>SM9_P\<close> is not the prime
  \<open>Z256::P\<close> the arithmetic works with, and it is not the number its comment gives.
\<close>

lemma SM9_P_is_not_the_prime:
  "z256_val SM9_P \<noteq> z256_val z256_P"
  "z256_val SM9_P \<noteq> 0xB640000002A3A6F1D603AB4FF58EC74521F2934B1A7AEEDBE56F9B27E351457D"
  "z256_val z256_P = 0xB640000002A3A6F1D603AB4FF58EC74521F2934B1A7AEEDBE56F9B27E351457D"
  by (simp_all add: SM9_P_def z256_P_def)

end
