(* ===== verification/Sm9_Hash.thy ===== *)
theory Sm9_Hash
  imports Sm9_Reduce
begin

text \<open>
  The hash functions of SM9, \<open>gm-sm9-rs/src/pairing/hash.rs\<close>: \<open>hash1\<close> and \<open>hash2\<close> expand their
  input with two calls of SM3 (crate \<open>sm3\<close>, a parameter of the definitions) and map the result to
  a scalar. The columns of the schoolbook products are \<open>u128\<close> accumulators, the borrow of the
  subtraction is an \<open>i128\<close> that stays between 0 and 1 and is an \<open>int\<close> here.
  Shown: the one-word Barrett reduction of the 320-bit number is exact, so that the scalar is
  $(Z \bmod N + 1) \bmod N$ for the number $Z$ of the first 40 bytes.
\<close>

section \<open>Mapping a hash to a scalar\<close>

definition HASH_N :: "u64 list" where
  "HASH_N = [0xE56EE19CD69ECF25, 0x49F2934B18EA8BEE, 0xD603AB4FF58EC744, 0xB640000002A3A6F1]"

definition HASH_MU :: "u64 list" where
  "HASH_MU = [0x55F73AEBDCD1312C, 0x67980E0BEB5759A6, 1, 0, 0, 0]"

definition hash_limbs :: "bytes \<Rightarrow> u64 list" where
  "hash_limbs ha = rev (map (\<lambda>i. u64_from_be (take 8 (drop (i * 8) ha))) [0..<5])"

definition mul_columns :: "nat \<Rightarrow> nat \<Rightarrow> nat \<Rightarrow> u64 list \<Rightarrow> u64 list \<Rightarrow> u128 list" where
  "mul_columns n k l a b =
     foldl (\<lambda>cols (i, j). cols[i + j := cols ! (i + j) + ucast (a ! i) * ucast (b ! j)])
       (replicate n 0) (List.product [0..<k] [0..<l])"

fun carry_limbs :: "u128 list \<Rightarrow> u128 \<Rightarrow> u64 list" where
  "carry_limbs [] carry = []"
| "carry_limbs (c # cols) carry = (let val = c + carry in ucast val # carry_limbs cols (drop_bit 64 val))"

fun sub_i128 :: "u64 list \<Rightarrow> u64 list \<Rightarrow> int \<Rightarrow> u64 list \<times> int" where
  "sub_i128 (z # zs) (q # qs) borrow =
     (let zi = uint z;
          sub = uint q + borrow;
          (r, borrow') = (if zi \<ge> sub then (word_of_int (zi - sub), 0) else (word_of_int (zi + 2 ^ 64 - sub), 1));
          (rs, out) = sub_i128 zs qs borrow'
      in (r # rs, out))"
| "sub_i128 _ _ borrow = ([], borrow)"

function modn_loop :: "Z256 \<Rightarrow> Z256" where
  "modn_loop acc = (if z256_cmp acc (z256_of HASH_N) \<ge> 0 then modn_loop (fst (sub_with_borrow acc (z256_of HASH_N))) else acc)"
  by auto

definition modn_from_hash :: "bytes \<Rightarrow> Z256" where
  "modn_from_hash ha =
     (let z = hash_limbs ha;
          prod = carry_limbs (mul_columns 11 5 3 z HASH_MU) 0;
          q = [prod ! 6, prod ! 7, prod ! 8, prod ! 9];
          qn_result = carry_limbs (mul_columns 8 4 4 q HASH_N) 0;
          (r, borrow) = sub_i128 (take 4 z) (take 4 qn_result) 0;
          zi4 = uint (z ! 4);
          sub4 = uint (qn_result ! 4) + borrow;
          r = (if zi4 < sub4 then fst (add_limbs r HASH_N 0) else r);
          n = z256_of HASH_N;
          acc = modn_loop (z256_of r);
          (result, carry) = add_with_carry acc z256_one
      in if carry \<noteq> 0 \<or> z256_cmp result n \<ge> 0 then fst (sub_with_borrow result n) else result)"

section \<open>Hash1 and Hash2\<close>

definition sm3_twice :: "(bytes \<Rightarrow> bytes) \<Rightarrow> bytes \<Rightarrow> bytes" where
  "sm3_twice sm3 x = sm3 (x @ [0, 0, 0, 1]) @ sm3 (x @ [0, 0, 0, 2])"

definition hash1 :: "(bytes \<Rightarrow> bytes) \<Rightarrow> bytes \<Rightarrow> u8 \<Rightarrow> Z256" where
  "hash1 sm3 identity hid = modn_from_hash (sm3_twice sm3 ([0x01] @ identity @ [hid]))"

definition hash2 :: "(bytes \<Rightarrow> bytes) \<Rightarrow> bytes \<Rightarrow> bytes \<Rightarrow> Z256" where
  "hash2 sm3 message w_bytes = modn_from_hash (sm3_twice sm3 ([0x02] @ message @ w_bytes))"

section \<open>Column products\<close>

lemma HASH_N_val: "lval HASH_N = z256_val z256_N" "length HASH_N = 4" "z256_of HASH_N = z256_N"
  by (simp_all add: HASH_N_def z256_N_def z256_of_def)

termination modn_loop
proof (relation "measure z256_val")
  fix acc
  assume "z256_cmp acc (z256_of HASH_N) \<ge> 0"
  then have "z256_val z256_N \<le> z256_val acc" by (simp add: HASH_N_val)
  moreover have "0 < z256_val z256_N" by (simp add: z256_N_def)
  ultimately show "(fst (sub_with_borrow acc (z256_of HASH_N)), acc) \<in> measure z256_val"
    using sub_with_borrow_cases [of acc z256_N] by (cases "sub_with_borrow acc z256_N") (auto simp: HASH_N_val)
qed simp

declare modn_loop.simps [simp del]

fun cval :: "nat list \<Rightarrow> nat" where
  "cval [] = 0"
| "cval (x # xs) = x + 2 ^ 64 * cval xs"

lemma carry_limbs_val:
  assumes "\<forall>x \<in> set cs. x + 2 ^ 64 \<le> 2 ^ 128" "c < 2 ^ 64"
  shows "lval (carry_limbs (map of_nat cs) (of_nat c)) = (cval cs + c) mod 2 ^ (64 * length cs)"
  using assms
proof (induction cs arbitrary: c)
  case (Cons x cs)
  define B :: nat where "B = 2 ^ 64"
  have xc: "x + c < B * B" using Cons.prems by (simp add: B_def)
  then have d: "(x + c) div B < B" by (simp add: less_mult_imp_div_less)
  define val where "val = (of_nat x + of_nat c :: u128)"
  have "unat (of_nat (x + c) :: u128) = x + c" using xc by (simp add: unat_of_nat B_def del: of_nat_add)
  then have val: "unat val = x + c" by (simp add: val_def)
  have "drop_bit 64 val = of_nat ((x + c) div B)"
    using unat_shr_64 [of val] d by (simp add: val word_unat_eq_iff unat_of_nat B_def)
  then have "lval (carry_limbs (map of_nat (x # cs)) (of_nat c)) =
      (x + c) mod B + B * ((cval cs + (x + c) div B) mod 2 ^ (64 * length cs))"
    using Cons.IH [of "(x + c) div B"] Cons.prems d
    by (simp add: Let_def val_def [symmetric] unat_ucast_128_64 val B_def)
  also have "\<dots> = (x + c + B * cval cs) mod (B * 2 ^ (64 * length cs))"
    by (simp add: mod_mult2_eq B_def add.commute)
  finally show ?case by (simp add: B_def power_add algebra_simps)
qed simp

lemma length_carry_limbs [simp]: "length (carry_limbs cs c) = length cs"
  by (induction cs arbitrary: c) (simp_all add: Let_def)

lemma lval_take_drop:
  "lval (take k xs) = lval xs mod 2 ^ (64 * k)" "lval (drop k xs) = lval xs div 2 ^ (64 * k)"
proof -
  have *: "lval (take k xs) = lval xs mod 2 ^ (64 * k) \<and> lval (drop k xs) = lval xs div 2 ^ (64 * k)"
  proof (cases "k \<le> length xs")
    case True
    have "lval xs = lval (take k xs) + 2 ^ (64 * k) * lval (drop k xs)"
      using lval_append [of "take k xs" "drop k xs"] True by simp
    moreover have "lval (take k xs) < 2 ^ (64 * k)" using lval_bound [of "take k xs"] True by simp
    ultimately show ?thesis by simp
  next
    case False
    have "lval xs < 2 ^ (64 * length xs)" by (rule lval_bound)
    also have "\<dots> \<le> 2 ^ (64 * k)" using False by simp
    finally show ?thesis using False by simp
  qed
  then show "lval (take k xs) = lval xs mod 2 ^ (64 * k)" "lval (drop k xs) = lval xs div 2 ^ (64 * k)" by blast+
qed

lemma mul_columns_length [simp]: "length (mul_columns n k l a b) = n"
proof -
  have "length (foldl (\<lambda>cols (i, j). cols[i + j := cols ! (i + j) + ucast (a ! i) * ucast (b ! j)]) cs ps) = length (cs :: u128 list)"
    for cs ps by (induction ps arbitrary: cs) (simp_all add: case_prod_beta)
  then show ?thesis by (simp add: mul_columns_def)
qed

lemma take_4_drop: "k + 4 \<le> length xs \<Longrightarrow> take 4 (drop k xs) = [xs ! k, xs ! (k + 1), xs ! (k + 2), xs ! (k + 3)]"
  by (rule nth_equalityI) (auto simp: numeral_eq_Suc less_Suc_eq)

lemma list_update_numeral: "(x # xs)[numeral k := v] = x # xs[pred_numeral k := v]"
  by (simp add: numeral_eq_Suc)

lemma replicate_numeral: "replicate (numeral k) x = x # replicate (pred_numeral k) x"
  by (simp add: numeral_eq_Suc)

lemma upt_numeral: "[0..<numeral k] = [0..<pred_numeral k] @ [pred_numeral k]"
  by (simp add: numeral_eq_Suc)

lemma product_5_3:
  "List.product [0..<5] [0..<3] = [(0,0), (0,1), (0,2), (1,0), (1,1), (1,2), (2,0), (2,1), (2,2), (3,0), (3,1), (3,2), (4,0), (4,1), (4,2)]"
  by (simp add: upt_numeral)

lemma product_4_4:
  "List.product [0..<4] [0..<4] = [(0,0), (0,1), (0,2), (0,3), (1,0), (1,1), (1,2), (1,3), (2,0), (2,1), (2,2), (2,3), (3,0), (3,1), (3,2), (3,3)]"
  by (simp add: upt_numeral)

lemma columns_5_3:
  "mul_columns 11 5 3 [a, b, c, d, e] (k # l # m # ms) = map of_nat
     [unat a * unat k, unat a * unat l + unat b * unat k, unat a * unat m + unat b * unat l + unat c * unat k,
      unat b * unat m + unat c * unat l + unat d * unat k, unat c * unat m + unat d * unat l + unat e * unat k,
      unat d * unat m + unat e * unat l, unat e * unat m, 0, 0, 0, 0]"
proof -
  have "replicate 11 (0::u128) = [0, 0, 0, 0, 0, 0, 0, 0, 0, 0, 0]" by (simp add: replicate_numeral)
  then show ?thesis
    unfolding mul_columns_def product_5_3 by (simp add: list_update_numeral)
qed

lemma columns_4_4:
  "mul_columns 8 4 4 [a, b, 0, 0] [k, l, m, n] = map of_nat
     [unat a * unat k, unat a * unat l + unat b * unat k, unat a * unat m + unat b * unat l,
      unat a * unat n + unat b * unat m, unat b * unat n, 0, 0, 0]"
proof -
  have "replicate 8 (0::u128) = [0, 0, 0, 0, 0, 0, 0, 0]" by (simp add: replicate_numeral)
  then show ?thesis
    unfolding mul_columns_def product_4_4 by (simp add: list_update_numeral)
qed

definition mu :: nat where
  "mu = 2 ^ 384 div z256_val z256_N"

lemma mu_val: "mu = unat (0x55F73AEBDCD1312C :: u64) + 2 ^ 64 * (unat (0x67980E0BEB5759A6 :: u64) + 2 ^ 64)"
  by (simp add: mu_def z256_N_def)

lemma column_bound:
  fixes k l a b c :: nat
  assumes "a < 2 ^ 64" "b < 2 ^ 64" "c < 2 ^ 64" "k + l + 2 \<le> 2 ^ 64"
  shows "c + b * l + a * k + 2 ^ 64 \<le> 2 ^ 128"
proof -
  have "b * l \<le> 2 ^ 64 * l" "a * k \<le> 2 ^ 64 * k" using assms by (simp_all add: mult_le_mono1)
  then have "c + b * l + a * k + 2 ^ 64 \<le> 2 ^ 64 * (k + l + 2)"
    unfolding distrib_left using assms(3) by linarith
  also have "\<dots> \<le> 2 ^ 64 * 2 ^ 64" using assms(4) by (rule mult_le_mono2)
  finally show ?thesis by simp
qed

lemma MU_product:
  assumes "length z = 5"
  shows "lval (carry_limbs (mul_columns 11 5 3 z HASH_MU) 0) = lval z * mu"
proof -
  obtain a b c d e where z: "z = [a, b, c, d, e]"
    using assms by (auto simp: numeral_eq_Suc length_Suc_conv)
  define k l where "k = unat (0x55F73AEBDCD1312C :: u64)" and "l = unat (0x67980E0BEB5759A6 :: u64)"
  define cs where "cs = [unat a * k, unat a * l + unat b * k, unat a + unat b * l + unat c * k,
      unat b + unat c * l + unat d * k, unat c + unat d * l + unat e * k, unat d + unat e * l, unat e, 0, 0, 0, 0]"
  have cols: "mul_columns 11 5 3 z HASH_MU = map of_nat cs"
    unfolding z HASH_MU_def columns_5_3 by (simp add: cs_def k_def l_def)
  have kl: "k + l + 2 \<le> 2 ^ 64" by (simp add: k_def l_def)
  note bound = column_bound [OF unat_u64_less unat_u64_less unat_u64_less kl]
  have "\<forall>x \<in> set cs. x + 2 ^ 64 \<le> 2 ^ 128"
    using bound [of 0 0 a] bound [of 0 a b] bound [of a b c] bound [of b c d] bound [of c d e] bound [of d e 0] bound [of e 0 0]
    by (simp add: cs_def add_ac)
  then have "lval (carry_limbs (map of_nat cs) (of_nat 0)) = (cval cs + 0) mod 2 ^ (64 * length cs)"
    by (rule carry_limbs_val) simp
  moreover have "cval cs = lval z * mu"
    unfolding mu_val k_def [symmetric] l_def [symmetric] by (simp add: cs_def z algebra_simps)
  moreover have "lval z * mu < 2 ^ (64 * 11)"
  proof -
    have "lval z < 2 ^ 320" using lval_bound [of z] assms by simp
    then have "lval z * mu < 2 ^ 320 * 2 ^ 384" by (rule mult_strict_mono) (simp_all add: mu_val)
    then show ?thesis by simp
  qed
  ultimately show ?thesis by (simp add: cols cs_def)
qed

lemma N_product:
  assumes "unat b \<le> 1"
  shows "lval (carry_limbs (mul_columns 8 4 4 [a, b, 0, 0] HASH_N) 0) = lval [a, b] * z256_val z256_N"
proof -
  define k l m n where "k = unat (0xE56EE19CD69ECF25 :: u64)" and "l = unat (0x49F2934B18EA8BEE :: u64)"
    and "m = unat (0xD603AB4FF58EC744 :: u64)" and "n = unat (0xB640000002A3A6F1 :: u64)"
  define cs where "cs = [unat a * k, unat a * l + unat b * k, unat a * m + unat b * l, unat a * n + unat b * m, unat b * n, 0, 0, 0]"
  have cols: "mul_columns 8 4 4 [a, b, 0, 0] HASH_N = map of_nat cs"
    unfolding HASH_N_def columns_4_4 by (simp add: cs_def k_def l_def m_def n_def)
  have b: "unat b = 0 \<or> unat b = 1" using assms by auto
  have sm: "x \<in> {k, l, m, n} \<Longrightarrow> x + 0 + 2 \<le> 2 ^ 64 \<and> x < 2 ^ 64" for x by (auto simp: k_def l_def m_def n_def)
  have *: "unat a * x + unat b * y + 2 ^ 64 \<le> 2 ^ 128" if "x \<in> {k, l, m, n}" "y \<in> {0, k, l, m, n}" for x y
    using b sm [OF that(1)] sm [of y] that(2) column_bound [OF unat_u64_less [of a] unat_u64_less [of 0], of y x 0]
    by (auto simp: add_ac)
  have "\<forall>x \<in> set cs. x + 2 ^ 64 \<le> 2 ^ 128"
    using * [of k 0] * [of l k] * [of m l] * [of n m] b sm [of n] by (auto simp: cs_def)
  then have "lval (carry_limbs (map of_nat cs) (of_nat 0)) = (cval cs + 0) mod 2 ^ (64 * length cs)"
    by (rule carry_limbs_val) simp
  moreover have "cval cs = lval [a, b] * (k + 2 ^ 64 * (l + 2 ^ 64 * (m + 2 ^ 64 * n)))"
    by (simp add: cs_def algebra_simps)
  moreover have "k + 2 ^ 64 * (l + 2 ^ 64 * (m + 2 ^ 64 * n)) = z256_val z256_N"
    by (simp add: k_def l_def m_def n_def z256_N_def)
  moreover have "lval [a, b] * z256_val z256_N < 2 ^ 512"
  proof -
    have "lval [a, b] < 2 ^ 128" using lval_bound [of "[a, b]"] by simp
    then have "lval [a, b] * z256_val z256_N < 2 ^ 128 * 2 ^ 256"
      by (rule mult_strict_mono) (simp_all add: z256_N_def)
    then show ?thesis by simp
  qed
  ultimately show ?thesis by (simp add: cols cs_def)
qed

section \<open>The reduction is exact\<close>

lemma borrow_step:
  assumes "(0::int) \<le> z" "z < B" "0 \<le> q" "q < B" "c = 0 \<or> c = 1"
  shows "0 \<le> z + B * (if q + c \<le> z then 0 else 1) - (q + c)" "z + B * (if q + c \<le> z then 0 else 1) - (q + c) < B"
  using assms by auto

lemma len64: "LENGTH(64) = 64"
  by simp

lemma sub_i128_val:
  assumes "length zs = length qs" "borrow = 0 \<or> borrow = 1" "sub_i128 zs qs borrow = (r, out)"
  shows "length r = length zs \<and> (out = 0 \<or> out = 1) \<and>
     int (lval r) + int (lval qs) + borrow = int (lval zs) + 2 ^ (64 * length zs) * out"
  using assms
proof (induction zs qs arbitrary: borrow r out rule: list_induct2)
  case (Cons z zs q qs)
  define b' :: int where "b' = (if uint z \<ge> uint q + borrow then 0 else 1)"
  define d :: u64 where "d = word_of_int (uint z + 2 ^ 64 * b' - (uint q + borrow))"
  obtain rs where rs: "sub_i128 zs qs b' = (rs, out)" and r: "r = d # rs"
    using Cons.prems by (auto simp: Let_def b'_def d_def split: prod.splits if_splits)
  have b': "b' = 0 \<or> b' = 1" by (simp add: b'_def)
  note IH = Cons.IH [OF b' rs]
  have "0 \<le> uint z + 2 ^ 64 * b' - (uint q + borrow)" "uint z + 2 ^ 64 * b' - (uint q + borrow) < 2 ^ 64"
    using borrow_step [of "uint z" "2 ^ 64" "uint q" borrow] uint_lt2p [of z] uint_lt2p [of q] Cons.prems(1)
    by (simp_all only: b'_def uint_nonnegative len64)
  then have "int (unat d) = uint z + 2 ^ 64 * b' - (uint q + borrow)"
    unfolding d_def uint_nat [symmetric] uint_word_of_int len64 by (rule mod_pos_pos_trivial)
  then have "int (lval r) + int (lval (q # qs)) + borrow =
      uint z + 2 ^ 64 * (b' + (int (lval rs) + int (lval qs)))"
    by (simp add: r)
  also have "b' + (int (lval rs) + int (lval qs)) = int (lval zs) + 2 ^ (64 * length zs) * out"
    using IH by simp
  finally show ?case using IH r by (simp add: power_add distrib_left)
qed simp

lemma modn_loop_val:
  assumes "z256_val acc < 2 * z256_val z256_N"
  shows "z256_val (modn_loop acc) = z256_val acc mod z256_val z256_N"
proof (cases "z256_val z256_N \<le> z256_val acc")
  case True
  obtain r c where s: "sub_with_borrow acc z256_N = (r, c)" by force
  then have r: "z256_val r = z256_val acc - z256_val z256_N" using True sub_with_borrow_cases [OF s] by auto
  then have "\<not> z256_val z256_N \<le> z256_val r" using assms by linarith
  then have "modn_loop acc = r"
    using True s by (simp add: modn_loop.simps [of acc] modn_loop.simps [of r] HASH_N_val)
  then show ?thesis using r True assms by (simp add: le_mod_geq)
qed (simp add: modn_loop.simps [of acc] HASH_N_val)

lemma length_hash_limbs [simp]: "length (hash_limbs ha) = 5"
  by (simp add: hash_limbs_def)

lemma hash_limbs_val:
  assumes "length ha = 64"
  shows "lval (hash_limbs ha) = nat_of_be (take 40 ha)"
proof -
  define c where "c i = take 8 (drop (i * 8) ha)" for i
  have len: "length (c i) = 8" if "i < 5" for i using that assms by (simp add: c_def)
  have "take 40 ha = c 0 @ c 1 @ c 2 @ c 3 @ c 4"
    using take_add [of 8 32 ha] take_add [of 8 24 "drop 8 ha"] take_add [of 8 16 "drop 16 ha"] take_add [of 8 8 "drop 24 ha"]
    by (simp add: c_def add.commute)
  then have "nat_of_be (take 40 ha) = nat_of_be (c 4) + 2 ^ 64 * (nat_of_be (c 3) + 2 ^ 64 * (nat_of_be (c 2) +
      2 ^ 64 * (nat_of_be (c 1) + 2 ^ 64 * nat_of_be (c 0))))"
    by (simp add: nat_of_be_append len algebra_simps)
  moreover have "hash_limbs ha = map (\<lambda>i. u64_from_be (c i)) [4, 3, 2, 1, 0]"
    by (simp add: hash_limbs_def c_def upt_numeral)
  ultimately show ?thesis by (simp add: unat_u64_from_be len)
qed

text \<open>The error of the estimate: the quotient times the modulus is below the number, and misses
  it by less than $2^{256}$.\<close>

lemma hash_quotient:
  assumes "z < 2 ^ 320"
  shows "z * mu div 2 ^ 384 * z256_val z256_N \<le> z" "z - z * mu div 2 ^ 384 * z256_val z256_N < 2 ^ 256"
    "z * mu div 2 ^ 384 < 2 ^ 65"
proof -
  define S N q t s where "S = (2::nat) ^ 384" and "N = z256_val z256_N" and "q = z * mu div S"
    and "t = z * mu mod S" and "s = S mod N"
  have "0 < N" by (simp add: N_def z256_N_def)
  have zm: "z * mu = q * S + t" "t < S" by (simp_all add: q_def t_def S_def)
  have sn: "S = mu * N + s" "s < N" using \<open>0 < N\<close> by (simp_all add: mu_def s_def S_def N_def)
  have "z * S = (z * mu) * N + z * s" by (simp add: sn(1) algebra_simps)
  then have e: "z * S = q * N * S + (t * N + z * s)" unfolding zm(1) by (simp add: algebra_simps)
  then have "q * N * S \<le> z * S" by simp
  then show le: "z * mu div 2 ^ 384 * z256_val z256_N \<le> z" by (simp add: S_def q_def N_def)
  have "(z - q * N) * S = t * N + z * s" using e by (simp add: diff_mult_distrib)
  also have "\<dots> \<le> S * N + 2 ^ 320 * N"
    using zm(2) sn(2) assms by (intro add_mono mult_le_mono) simp_all
  also have "\<dots> < 2 ^ 256 * S" by (simp add: S_def N_def z256_N_def)
  finally show "z - z * mu div 2 ^ 384 * z256_val z256_N < 2 ^ 256" by (simp add: q_def S_def N_def)
  have "z * mu < 2 ^ 320 * 2 ^ 129" using assms by (rule mult_strict_mono) (simp_all add: mu_val)
  then have "z * mu < 2 ^ 65 * 2 ^ 384" by simp
  then show "z * mu div 2 ^ 384 < 2 ^ 65" by (rule less_mult_imp_div_less)
qed

lemma two_limbs:
  assumes "lval [a, b, c, d] < 2 ^ 65"
  shows "c = 0" "d = 0" "unat b \<le> 1"
  using assms by (auto simp: word_unat_eq_iff)

lemma hash_remainder:
  assumes z: "length z = 5" and qn: "length qn = 8" and le: "lval qn \<le> lval z" "lval z - lval qn < 2 ^ 256"
    and sub: "sub_i128 (take 4 z) (take 4 qn) 0 = (r, borrow)"
  shows "\<not> uint (z ! 4) < uint (qn ! 4) + borrow" "length r = 4" "lval r = lval z - lval qn"
proof -
  define R where "R = (2::nat) ^ 256"
  define Z Q where "Z = lval (take 4 z)" and "Q = lval (take 4 qn)"
  have zv: "lval z = Z + R * unat (z ! 4)" using lval_top [of z 4] z by (simp add: Z_def R_def)
  have bd: "Z < R" "Q < R" using lval_bound [of "take 4 z"] lval_bound [of "take 4 qn"] z qn by (simp_all add: Z_def Q_def R_def)
  have "lval qn = lval (take 5 qn) + 2 ^ 320 * lval (drop 5 qn)"
    using lval_append [of "take 5 qn" "drop 5 qn"] qn by simp
  moreover have "lval (take 5 qn) = Q + R * unat (qn ! 4)"
    using lval_top [of "take 5 qn" 4] qn by (simp add: Q_def R_def)
  moreover have "lval (drop 5 qn) = 0"
  proof (rule ccontr)
    assume "lval (drop 5 qn) \<noteq> 0"
    then have "2 ^ 320 * 1 \<le> 2 ^ 320 * lval (drop 5 qn)" by (intro mult_le_mono2) simp
    then show False using le(1) lval_bound [of z] z calculation by simp
  qed
  ultimately have qv: "lval qn = Q + R * unat (qn ! 4)" by simp
  have s: "length r = 4" "borrow = 0 \<or> borrow = 1" "int (lval r) + int Q = int Z + int R * borrow"
    using sub_i128_val [OF _ _ sub] z qn by (simp_all add: Z_def Q_def R_def)
  have r: "lval r < R" using lval_bound [of r] s(1) by (simp add: R_def)
  define b where "b = nat borrow"
  have b: "b \<le> 1" "lval r + Q = Z + R * b" "borrow = int b" using s by (auto simp: b_def)
  have e: "lval r + R * unat (z ! 4) = (lval z - lval qn) + R * (unat (qn ! 4) + b)"
    using b(2) zv qv le(1) by (simp add: distrib_left)
  have c1: "unat (qn ! 4) + b \<le> unat (z ! 4)"
  proof (rule ccontr)
    assume "\<not> ?thesis"
    then have "R * Suc (unat (z ! 4)) \<le> R * (unat (qn ! 4) + b)" by (intro mult_le_mono2) simp
    then show False using e r by simp
  qed
  have c2: "unat (z ! 4) \<le> unat (qn ! 4) + b"
  proof (rule ccontr)
    assume "\<not> ?thesis"
    then have "R * Suc (unat (qn ! 4) + b) \<le> R * unat (z ! 4)" by (intro mult_le_mono2) simp
    then show False using e le(2) by (simp add: R_def)
  qed
  show "length r = 4" by (rule s)
  show "lval r = lval z - lval qn" using e c1 c2 by simp
  have "int (unat (qn ! 4)) + borrow \<le> int (unat (z ! 4))" unfolding b(3) using c1 by linarith
  then show "\<not> uint (z ! 4) < uint (qn ! 4) + borrow" by simp
qed

lemma modn_from_hash_val:
  assumes "length ha = 64"
  shows "z256_val (modn_from_hash ha) = (nat_of_be (take 40 ha) mod z256_val z256_N + 1) mod z256_val z256_N"
proof -
  define N Z z prod where "N = z256_val z256_N" and "Z = nat_of_be (take 40 ha)" and "z = hash_limbs ha"
    and "prod = carry_limbs (mul_columns 11 5 3 z HASH_MU) 0"
  have N: "0 < N" "1 < N" "N < 2 ^ 256" "2 ^ 256 < 2 * N" by (simp_all add: N_def z256_N_def)
  have z: "length z = 5" "lval z = Z" using hash_limbs_val [OF assms] by (simp_all add: z_def Z_def)
  have Zb: "Z < 2 ^ 320" using lval_bound [of z] z by simp
  define q where "q = [prod ! 6, prod ! 7, prod ! 8, prod ! 9]"
  have len: "length prod = 11" by (simp add: prod_def mul_columns_length)
  have "q = take 4 (drop 6 prod)"
    using len by (simp add: q_def take_4_drop)
  then have "lval q = Z * mu div 2 ^ 384 mod 2 ^ 256"
    by (simp add: lval_take_drop prod_def MU_product [OF z(1)] z(2))
  also have "\<dots> = Z * mu div 2 ^ 384" by (rule mod_less, rule less_trans [OF hash_quotient(3) [OF Zb]]) simp
  finally have qv: "lval q = Z * mu div 2 ^ 384" .
  then have qs: "q = [prod ! 6, prod ! 7, 0, 0]" "unat (prod ! 7) \<le> 1"
    using two_limbs [of "prod ! 6" "prod ! 7" "prod ! 8" "prod ! 9"] hash_quotient(3) [OF Zb] unfolding q_def by simp_all
  define qn where "qn = carry_limbs (mul_columns 8 4 4 q HASH_N) 0"
  have qn: "length qn = 8" by (simp add: qn_def mul_columns_length)
  have qnv: "lval qn = lval q * N"
    using N_product [OF qs(2), of "prod ! 6"] by (simp add: qn_def qs(1) N_def)
  have le: "lval qn \<le> lval z" "lval z - lval qn < 2 ^ 256"
    using hash_quotient(1,2) [OF Zb] by (simp_all add: qnv qv z(2) N_def)
  obtain r borrow where sub: "sub_i128 (take 4 z) (take 4 qn) 0 = (r, borrow)" by force
  note rem = hash_remainder [OF z(1) qn le sub]
  have rv: "z256_val (z256_of r) = Z - lval q * N" using rem(2,3) by (simp add: z256_val_of qnv z(2))
  have "z256_val (z256_of r) < 2 * N" using N(4) z256_val_bound [of "z256_of r"] by (rule less_trans [rotated])
  then have acc: "z256_val (modn_loop (z256_of r)) = (Z - lval q * N) mod N"
    using modn_loop_val rv by (simp add: N_def)
  have "(Z - lval q * N) mod N = Z mod N" using le(1) mod_mult_self1 [of "Z - lval q * N" "lval q" N] by (simp add: qnv z(2))
  with acc have acc': "z256_val (modn_loop (z256_of r)) = Z mod N" by simp
  obtain s c where ac: "add_with_carry (modn_loop (z256_of r)) z256_one = (s, c)" by force
  have "Z mod N + 1 \<le> N" using N(1) by (simp add: Suc_leI)
  then have sc: "c = 0" "z256_val s = Z mod N + 1"
    using add_with_carry_cases [OF ac] N(3) acc' by (auto simp: z256_one_def)
  obtain t d where sb: "sub_with_borrow s z256_N = (t, d)" by force
  have m: "modn_from_hash ha = (if N \<le> z256_val s then t else s)"
    unfolding modn_from_hash_def Let_def z_def [symmetric] prod_def [symmetric] q_def [symmetric] qn_def [symmetric] sub
    using rem(1) ac sc sb by (simp add: HASH_N_val N_def)
  show ?thesis
  proof (cases "N \<le> z256_val s")
    case True
    then have "Z mod N + 1 = N" using sc \<open>Z mod N + 1 \<le> N\<close> by simp
    then show ?thesis using m True sc sub_with_borrow_cases [OF sb] by (auto simp: N_def [symmetric] Z_def [symmetric])
  next
    case False
    then show ?thesis using m sc by (simp add: N_def [symmetric] Z_def [symmetric])
  qed
qed

section \<open>Properties\<close>

lemma sm3_twice_length: "(\<And>x. length (sm3 x) = 32) \<Longrightarrow> length (sm3_twice sm3 x) = 64"
  by (simp add: sm3_twice_def)

text \<open>The number of the first 40 hash bytes.\<close>

definition hash_number :: "(bytes \<Rightarrow> bytes) \<Rightarrow> bytes \<Rightarrow> nat" where
  "hash_number sm3 x = nat_of_be (take 40 (sm3_twice sm3 x))"

lemma hash1_val:
  assumes "\<And>x. length (sm3 x) = 32"
  shows "z256_val (hash1 sm3 identity hid) = (hash_number sm3 ([0x01] @ identity @ [hid]) mod z256_val z256_N + 1) mod z256_val z256_N"
  unfolding hash1_def hash_number_def by (rule modn_from_hash_val) (simp only: sm3_twice_length assms)

lemma hash2_val:
  assumes "\<And>x. length (sm3 x) = 32"
  shows "z256_val (hash2 sm3 message w) = (hash_number sm3 ([0x02] @ message @ w) mod z256_val z256_N + 1) mod z256_val z256_N"
  unfolding hash2_def hash_number_def by (rule modn_from_hash_val) (simp only: sm3_twice_length assms)

text \<open>
  C28. \<open>Hash1\<close> and \<open>Hash2\<close> map the 320-bit number $Z$ of the first 40 hash bytes to
  $(Z \bmod N + 1) \bmod N$: the word-level Barrett reduction is exact. The scalar is below $N$,
  and it is zero exactly when $N$ divides $Z + 1$.
\<close>

theorem hash_to_scalar_correct:
  assumes "\<And>x. length (sm3 x) = 32"
  shows "z256_val (hash1 sm3 identity hid) = (hash_number sm3 ([0x01] @ identity @ [hid]) mod z256_val z256_N + 1) mod z256_val z256_N \<and>
    z256_val (hash2 sm3 message w) = (hash_number sm3 ([0x02] @ message @ w) mod z256_val z256_N + 1) mod z256_val z256_N \<and>
    z256_val (hash1 sm3 identity hid) < z256_val z256_N \<and> z256_val (hash2 sm3 message w) < z256_val z256_N \<and>
    (z256_is_zero (hash1 sm3 identity hid) \<longleftrightarrow> z256_val z256_N dvd hash_number sm3 ([0x01] @ identity @ [hid]) + 1)"
  using hash1_val [of sm3 identity hid, OF assms] hash2_val [of sm3 message w, OF assms]
  by (simp add: z256_is_zero_iff mod_Suc_eq dvd_eq_mod_eq_0) (simp add: z256_N_def)

lemma nat_of_be_replicate_0 [simp]: "nat_of_be (replicate n 0) = 0"
  using nat_of_be_zeros [of n "[]"] by simp

lemma sm3_zeros_40:
  "take 40 (sm3_twice (\<lambda>_. replicate 32 0) x) = replicate 40 0"
  by (simp add: sm3_twice_def take_append flip: replicate_add)

theorem hash_to_scalar_correct_witness:
  "z256_val (hash1 (\<lambda>_. replicate 32 0) [0x41] 1) = 1 \<and> z256_val (hash2 (\<lambda>_. replicate 32 0) [] []) = 1"
  using hash_to_scalar_correct [of "\<lambda>_. replicate 32 0" "[0x41]" 1 "[]" "[]"]
  unfolding hash_number_def sm3_zeros_40 by (simp add: z256_N_def)

text \<open>The comment over \<open>modn_from_hash\<close> promises a scalar in $[1, N - 1]$; a hash of $N - 1$ gives zero.\<close>

lemma modn_from_hash_zero:
  "z256_is_zero (modn_from_hash (nat_to_be 40 (z256_val z256_N - 1) @ replicate 24 0))"
proof -
  have "z256_val z256_N - 1 < 256 ^ 40" by (simp add: z256_N_def)
  then show ?thesis unfolding z256_is_zero_iff
    by (subst modn_from_hash_val) (simp_all add: nat_of_be_to_be, simp add: z256_N_def)
qed

end
