(* ===== verification/Sm9_Pairing.thy ===== *)
theory Sm9_Pairing
  imports Sm9_Group
begin

text \<open>
  The R-ate pairing of \<open>gm-sm9-rs/src/pairing/ate.rs\<close>. A line function updates the working point
  through \<open>&mut\<close>: here it returns the new point beside the three coefficients of the line. The
  loops over the digits are folds over the string.
  Shown: the sparse multiplication is multiplication by the line; the line functions step the
  working point by the tangent and the chord law and evaluate the tangent and the chord through
  it, up to the scale factor they leave to the final exponentiation; the digits of the loop are
  the parameter $6t + 2$; the final exponentiation is the power $(p^{12} - 1) / N$; and what the
  pairing gives on the identities.
\<close>

section \<open>Line functions\<close>

definition RATE_ABITS :: string where
  "RATE_ABITS = ''00100000000000000000000000000000000000010000101100020200101000020''"

definition fp12_line_mul :: "Fp12 \<Rightarrow> Fp2 \<Rightarrow> Fp2 \<Rightarrow> Fp2 \<Rightarrow> Fp12" where
  "fp12_line_mul a lw0 lw1 lw2 =
     (let lw4 = fp4_new lw0 lw2;
          r0 = fp4_mul (f12c0 a) lw4;
          r1 = fp4_mul (f12c1 a) lw4;
          r2 = fp4_mul (f12c2 a) lw4;
          r2 = r2\<lparr>f4c0 := fp2_add (f4c0 r2) (fp2_mul (f4c0 (f12c0 a)) lw1)\<rparr>;
          r2 = r2\<lparr>f4c1 := fp2_add (f4c1 r2) (fp2_mul (f4c1 (f12c0 a)) lw1)\<rparr>;
          r0 = r0\<lparr>f4c1 := fp2_add (f4c1 r0) (fp2_mul (f4c0 (f12c1 a)) lw1)\<rparr>;
          r0 = r0\<lparr>f4c0 := fp2_add (f4c0 r0) (fp2_mul (fp2_mul_u (f4c1 (f12c1 a))) lw1)\<rparr>;
          r1 = r1\<lparr>f4c1 := fp2_add (f4c1 r1) (fp2_mul (f4c0 (f12c2 a)) lw1)\<rparr>;
          r1 = r1\<lparr>f4c0 := fp2_add (f4c0 r1) (fp2_mul (fp2_mul_u (f4c1 (f12c2 a))) lw1)\<rparr>
      in fp12_new r0 r1 r2)"

definition line_function_double_lw :: "G2Point \<Rightarrow> Fp \<times> Fp \<Rightarrow> G2Point \<times> Fp2 \<times> Fp2 \<times> Fp2" where
  "line_function_double_lw t p_aff =
     (if g2_is_identity t then (t, fp2_zero, fp2_zero, fp2_zero)
      else
        let x1 = g2x t; y1 = g2y t; z1 = g2z t;
            t1 = fp2_square z1;
            a = fp2_square x1;
            b = fp2_square y1;
            c = fp2_square b;
            d = fp2_double (fp2_sub (fp2_sub (fp2_square (fp2_add x1 b)) a) c);
            z3 = fp2_sub (fp2_sub (fp2_square (fp2_add y1 z1)) b) t1;
            lw0 = fp2_add (fp2_double (fp2_double b)) a;
            a_tri = fp2_add (fp2_add a a) a;
            b_new = fp2_square a_tri;
            x3 = fp2_sub b_new (fp2_double d);
            lw0 = fp2_add lw0 b_new;
            y3 = fp2_sub (fp2_mul (fp2_sub d x3) a_tri) (fp2_double (fp2_double (fp2_double c)));
            lw2 = fp2_double (fp2_mul z3 t1);
            lw1 = fp2_neg (fp2_double (fp2_mul a_tri t1));
            a_new = fp2_square (fp2_add x1 a_tri);
            lw0 = fp2_sub a_new lw0;
            lw1 = fp2_mul_fp lw1 (fst p_aff);
            lw2 = fp2_mul_fp lw2 (snd p_aff)
        in (g2_new x3 y3 z3, lw0, lw1, lw2))"

definition line_function_add_lw ::
  "G2Point \<Rightarrow> G2Point \<Rightarrow> Fp \<times> Fp \<Rightarrow> Fp2 \<Rightarrow> Fp2 \<Rightarrow> Fp2 \<Rightarrow> Fp2 \<Rightarrow> Fp2 \<Rightarrow> G2Point \<times> Fp2 \<times> Fp2 \<times> Fp2" where
  "line_function_add_lw t q p_aff pre0 pre1 pre2 pre3 pre4 =
     (if g2_is_identity t \<or> g2_is_identity q then (t, fp2_zero, fp2_zero, fp2_zero)
      else
        let x1 = g2x t; y1 = g2y t; z1 = g2z t; x2 = g2x q; y2 = g2y q; z2 = g2z q;
            t1 = fp2_square z1;
            t2 = fp2_square z2;
            z3 = fp2_sub (fp2_sub (fp2_square (fp2_add z1 z2)) t1) t2;
            a = fp2_mul x1 t2;
            b = fp2_mul x2 t1;
            c = fp2_double (fp2_mul y1 pre1);
            d = fp2_mul (fp2_sub (fp2_sub (fp2_square (fp2_add y2 z1)) pre0) t1) t1;
            b = fp2_sub b a;
            z3 = fp2_mul z3 b;
            t1 = fp2_square (fp2_double b);
            x3 = fp2_mul b t1;
            y3 = fp2_mul c x3;
            a = fp2_mul a t1;
            b = fp2_sub d c;
            t2 = fp2_double a;
            x3 = fp2_add x3 t2;
            t2 = fp2_square b;
            x3 = fp2_sub t2 x3;
            t2 = fp2_sub a x3;
            t2 = fp2_mul t2 b;
            y3 = fp2_sub t2 y3;
            lw2 = fp2_mul z3 pre2;
            lw1 = fp2_mul b pre3;
            b = fp2_mul b pre4;
            lw0 = fp2_double (fp2_mul y2 z3);
            lw0 = fp2_sub b lw0
        in (g2_new x3 y3 z3, lw0, lw1, lw2))"

definition line_function_add_lw_no_pre :: "G2Point \<Rightarrow> G2Point \<Rightarrow> Fp \<times> Fp \<Rightarrow> G2Point \<times> Fp2 \<times> Fp2 \<times> Fp2" where
  "line_function_add_lw_no_pre p t q_aff =
     (if g2_is_identity p \<or> g2_is_identity t then (p, fp2_zero, fp2_zero, fp2_zero)
      else
        let pre0 = fp2_square (g2y t);
            pre4 = fp2_double (fp2_mul (g2x t) (g2z t));
            t_z2 = fp2_square (g2z t);
            pre1 = fp2_mul t_z2 (g2z t);
            pre2 = fp2_double (fp2_mul_fp pre1 (snd q_aff));
            pre3 = fp2_neg (fp2_double (fp2_mul_fp pre1 (fst q_aff)));
            x1 = g2x p; y1 = g2y p; z1 = g2z p; x2 = g2x t; y2 = g2y t; z2 = g2z t;
            t1 = fp2_square z1;
            t2 = fp2_square z2;
            z3 = fp2_sub (fp2_sub (fp2_square (fp2_add z1 z2)) t1) t2;
            a = fp2_mul x1 t2;
            b = fp2_mul x2 t1;
            c = fp2_double (fp2_mul y1 pre1);
            d = fp2_mul (fp2_sub (fp2_sub (fp2_square (fp2_add y2 z1)) pre0) t1) t1;
            b = fp2_sub b a;
            z3 = fp2_mul z3 b;
            t1 = fp2_square (fp2_double b);
            x3 = fp2_mul b t1;
            y3 = fp2_mul c x3;
            a = fp2_mul a t1;
            b = fp2_sub d c;
            t2 = fp2_double a;
            x3 = fp2_add x3 t2;
            t2 = fp2_square b;
            x3 = fp2_sub t2 x3;
            t2 = fp2_sub a x3;
            t2 = fp2_mul t2 b;
            y3 = fp2_sub t2 y3;
            lw2 = fp2_mul z3 pre2;
            lw1 = fp2_mul b pre3;
            b = fp2_mul b pre4;
            lw0 = fp2_double (fp2_mul y2 z3);
            lw0 = fp2_sub b lw0
        in (g2_new x3 y3 z3, lw0, lw1, lw2))"

section \<open>Miller loop\<close>

definition miller_step :: "G2Point \<Rightarrow> G2Point \<Rightarrow> Fp \<times> Fp \<Rightarrow> Fp2 \<Rightarrow> Fp2 \<Rightarrow> Fp2 \<Rightarrow> Fp2 \<Rightarrow> Fp2 \<Rightarrow>
    Fp12 \<times> G2Point \<Rightarrow> char \<Rightarrow> Fp12 \<times> G2Point" where
  "miller_step q q_neg p_aff pre0 pre1 pre2 pre3 pre4 = (\<lambda>(f, t) ch.
     let f = fp12_square f;
         (t, lw0, lw1, lw2) = line_function_double_lw t p_aff;
         f = fp12_line_mul f lw0 lw1 lw2
     in if ch = CHR ''1'' then
          let (t, lw0, lw1, lw2) = line_function_add_lw t q p_aff pre0 pre1 pre2 pre3 pre4
          in (fp12_line_mul f lw0 lw1 lw2, t)
        else if ch = CHR ''2'' then
          let (t, lw0, lw1, lw2) = line_function_add_lw_no_pre t q_neg p_aff
          in (fp12_line_mul f lw0 lw1 lw2, t)
        else (f, t))"

definition miller_loop :: "G1Point \<Rightarrow> G2Point \<Rightarrow> Fp12" where
  "miller_loop p q =
     (case g1_to_affine p of
        None \<Rightarrow> fp12_one
      | Some p_aff \<Rightarrow>
        let q_neg = g2_neg q;
            pre0 = fp2_square (g2y q);
            pre4 = fp2_double (fp2_mul (g2x q) (g2z q));
            q_z2 = fp2_square (g2z q);
            pre1 = fp2_mul q_z2 (g2z q);
            pre2 = fp2_double (fp2_mul_fp pre1 (snd p_aff));
            pre3 = fp2_neg (fp2_double (fp2_mul_fp pre1 (fst p_aff)));
            (f, t) = foldl (miller_step q q_neg p_aff pre0 pre1 pre2 pre3 pre4) (fp12_one, q) RATE_ABITS;
            q1 = g2_new (fp2_frobenius (g2x q)) (fp2_frobenius (g2y q)) (fp2_mul_fp (fp2_frobenius (g2z q)) FROB_ALPHA1);
            q2 = g2_new (g2x q) (fp2_neg (g2y q)) (fp2_mul_fp (g2z q) FROB_ALPHA2);
            (t, lw0, lw1, lw2) = line_function_add_lw_no_pre t q1 p_aff;
            f = fp12_line_mul f lw0 lw1 lw2;
            (t, lw0, lw1, lw2) = line_function_add_lw_no_pre t q2 p_aff
        in fp12_line_mul f lw0 lw1 lw2)"

section \<open>Final exponentiation\<close>

definition fp12_inv_or_one :: "Fp12 \<Rightarrow> Fp12" where
  "fp12_inv_or_one x = (case fp12_inv x of Some y \<Rightarrow> y | None \<Rightarrow> fp12_one)"

definition EXP_A2 :: Z256 where
  "EXP_A2 = Z256 0x0000b98b0cb27659 0xd8000000019062ed 0 0"

definition EXP_A3 :: Z256 where
  "EXP_A3 = Z256 0x400000000215d941 0x2 0 0"

definition final_exponentiation_hard_part :: "Fp12 \<Rightarrow> Fp12" where
  "final_exponentiation_hard_part f =
     (let nine = Z256 9 0 0 0;
          t0 = fp12_pow f EXP_A3;
          t0 = fp12_inv_or_one t0;
          t1 = fp12_frobenius t0;
          t1 = fp12_mul t0 t1;
          t0 = fp12_mul t0 t1;
          t2 = fp12_frobenius f;
          t3 = fp12_mul t2 f;
          t3 = fp12_pow t3 nine;
          t0 = fp12_mul t0 t3;
          t3 = fp12_square f;
          t3 = fp12_square t3;
          t0 = fp12_mul t0 t3;
          t2 = fp12_square t2;
          t2 = fp12_mul t2 t1;
          t1 = fp12_frobenius_sq f;
          t1 = fp12_mul t1 t2;
          t2 = fp12_pow t1 EXP_A2;
          t0 = fp12_mul t2 t0;
          t1 = fp12_frobenius_cu f;
          t1 = fp12_mul t1 t0
      in t1)"

definition final_exponentiation :: "Fp12 \<Rightarrow> Fp12" where
  "final_exponentiation f =
     (let f_p6 = fp12_frobenius_six f;
          f_inv = fp12_inv_or_one f;
          f1 = fp12_mul f_p6 f_inv;
          f1_p2 = fp12_frobenius_sq f1;
          f2 = fp12_mul f1_p2 f1
      in final_exponentiation_hard_part f2)"

definition pairing :: "G1Point \<Rightarrow> G2Point \<Rightarrow> Fp12" where
  "pairing p q = (let f = miller_loop p q in final_exponentiation f)"

section \<open>Sparse multiplication\<close>

text \<open>The line with coefficients \<open>l0\<close>, \<open>l1\<close>, \<open>l2\<close> as an element of the ring: $l_0 + l_1 w^2 + l_2 w^3$.\<close>

definition line12 :: "zp2 \<Rightarrow> zp2 \<Rightarrow> zp2 \<Rightarrow> zp12" where
  "line12 l0 l1 l2 = Zp12 (Zp4 l0 l2) 0 (Zp4 l1 0)"

lemma line12_powers:
  "line12 l0 l1 l2 = Zp12 (Zp4 l0 0) 0 0 + Zp12 (Zp4 l1 0) 0 0 * (w12 * w12) + Zp12 (Zp4 l2 0) 0 0 * (w12 * w12 * w12)"
  by (simp add: line12_def w12_def v4_def zp4_defs zp2_defs zp12_defs)

lemma fp12_line_mul_laws:
  assumes "fp12_ok a" "fp2_ok l0" "fp2_ok l1" "fp2_ok l2"
  shows "fp12_ok (fp12_line_mul a l0 l1 l2)"
    "fp12_val (fp12_line_mul a l0 l1 l2) = fp12_val a * line12 (fp2_val l0) (fp2_val l1) (fp2_val l2)"
proof -
  have ok: "fp2_ok (f4c0 (f12c0 a))" "fp2_ok (f4c1 (f12c0 a))" "fp2_ok (f4c0 (f12c1 a))"
    "fp2_ok (f4c1 (f12c1 a))" "fp2_ok (f4c0 (f12c2 a))" "fp2_ok (f4c1 (f12c2 a))"
    using assms by (simp_all add: fp12_ok_def fp4_ok_def)
  show "fp12_ok (fp12_line_mul a l0 l1 l2)"
    using assms ok by (simp add: fp12_line_mul_def Let_def fp4_ok_def fp4_mul_def fp2_rules fp2_extra_laws)
  show "fp12_val (fp12_line_mul a l0 l1 l2) = fp12_val a * line12 (fp2_val l0) (fp2_val l1) (fp2_val l2)"
    using assms ok
    by (simp add: fp12_line_mul_def Let_def fp12_val_def fp4_val_def fp4_mul_def fp2_rules fp2_extra_laws
        line12_def v4_def algebra_simps)
qed

section \<open>The line functions\<close>

text \<open>
  The line with slope \<open>l\<close> through the point \<open>(x, y)\<close>, evaluated at the point \<open>(px, py)\<close> of the
  curve over the base field after untwisting, times the factor \<open>s\<close>.
\<close>

definition is_line :: "zp2 \<Rightarrow> zp2 \<Rightarrow> zp2 \<Rightarrow> zp2 \<Rightarrow> zp \<Rightarrow> zp \<Rightarrow> Fp2 \<times> Fp2 \<times> Fp2 \<Rightarrow> bool" where
  "is_line s l x y px py = (\<lambda>(lw0, lw1, lw2).
     fp2_val lw0 = s * (l * x - y) \<and> fp2_val lw1 = - (s * l * Zp2 px 0) \<and> fp2_val lw2 = s * Zp2 py 0)"

lemma line_double_vals:
  assumes "g2_ok t" "\<not> g2_is_identity t" "fp_ok (fst p)" "fp_ok (snd p)"
    and e: "line_function_double_lw t p = (t', lw0, lw1, lw2)"
  defines "X \<equiv> fp2_val (g2x t)" and "Y \<equiv> fp2_val (g2y t)" and "Z \<equiv> fp2_val (g2z t)"
  shows "g2_ok t'" "fp2_ok lw0" "fp2_ok lw1" "fp2_ok lw2"
    "fp2_val (g2x t') = 3 * (X * X) * (3 * (X * X)) - 8 * (X * (Y * Y))"
    "fp2_val (g2y t') = 3 * (X * X) * (4 * (X * (Y * Y)) - fp2_val (g2x t')) - 8 * (Y * Y * (Y * Y))"
    "fp2_val (g2z t') = 2 * (Y * Z)"
    "fp2_val lw0 = 6 * (X * X * X) - 4 * (Y * Y)"
    "fp2_val lw1 = - (6 * (X * X) * (Z * Z) * Zp2 (fp_val (fst p)) 0)"
    "fp2_val lw2 = 4 * (Y * (Z * Z * Z)) * Zp2 (fp_val (snd p)) 0"
  using assms(1-4) e unfolding X_def Y_def Z_def
  by (auto simp: line_function_double_lw_def g2_ok_def Let_def fp2_rules fp2_extra_laws algebra_simps)

lemma line_double_tangent:
  assumes "g2_ok t" "\<not> g2_is_identity t" "fp_ok (fst p)" "fp_ok (snd p)"
    and e: "line_function_double_lw t p = (t', lw)" and rep: "g2_rep t x y" and l: "2 * y * l = 3 * (x * x)"
  shows "g2_rep t' (chord_x l x x) (chord_y l x y x)"
    "is_line (4 * (fp2_val (g2y t) * (fp2_val (g2z t) * fp2_val (g2z t) * fp2_val (g2z t)))) l x y (fp_val (fst p)) (fp_val (snd p)) lw"
proof -
  obtain lw0 lw1 lw2 where lw: "lw = (lw0, lw1, lw2)" by (cases lw) auto
  note v = line_double_vals [OF assms(1-4) e [unfolded lw]]
  show "g2_rep t' (chord_x l x x) (chord_y l x y x)"
    using jac_double_tangent [OF rep [unfolded g2_rep_def] l v(5-7)] by (simp add: g2_rep_def)
  define X Y Z where "X = fp2_val (g2x t)" and "Y = fp2_val (g2y t)" and "Z = fp2_val (g2z t)"
  have r: "X = x * (Z * Z)" "Y = y * (Z * Z * Z)" using rep by (simp_all add: g2_rep_def jac_def X_def Y_def Z_def)
  have "4 * (Y * (Z * Z * Z)) * l = 2 * (2 * y * l) * (Z * Z * Z * (Z * Z * Z))" by (simp add: r algebra_simps)
  then have s: "4 * (Y * (Z * Z * Z)) * l = 6 * (X * X) * (Z * Z)" unfolding l by (simp add: r algebra_simps)
  have "4 * (Y * (Z * Z * Z)) * (l * x - y) = 4 * (Y * (Z * Z * Z)) * l * x - 4 * (Y * (y * (Z * Z * Z)))"
    by (simp add: algebra_simps)
  also have "\<dots> = 6 * (X * X * X) - 4 * (Y * Y)" unfolding s by (simp add: r algebra_simps)
  finally show "is_line (4 * (fp2_val (g2y t) * (fp2_val (g2z t) * fp2_val (g2z t) * fp2_val (g2z t)))) l x y
      (fp_val (fst p)) (fp_val (snd p)) lw"
    using v(8-10) s by (simp add: is_line_def lw X_def Y_def Z_def)
qed

text \<open>The two addition steps are the same function: one takes the values that depend on the added
  point only, the other computes them.\<close>

lemma line_add_no_pre:
  "line_function_add_lw_no_pre t q p =
     line_function_add_lw t q p (fp2_square (g2y q)) (fp2_mul (fp2_square (g2z q)) (g2z q))
       (fp2_double (fp2_mul_fp (fp2_mul (fp2_square (g2z q)) (g2z q)) (snd p)))
       (fp2_neg (fp2_double (fp2_mul_fp (fp2_mul (fp2_square (g2z q)) (g2z q)) (fst p))))
       (fp2_double (fp2_mul (g2x q) (g2z q)))"
  unfolding line_function_add_lw_no_pre_def line_function_add_lw_def Let_def ..

lemma line_add_vals:
  assumes "g2_ok t" "g2_ok q" "\<not> g2_is_identity t" "\<not> g2_is_identity q" "fp_ok (fst p)" "fp_ok (snd p)"
    and e: "line_function_add_lw_no_pre t q p = (t', lw0, lw1, lw2)"
  defines "X1 \<equiv> fp2_val (g2x t)" and "Y1 \<equiv> fp2_val (g2y t)" and "Z1 \<equiv> fp2_val (g2z t)"
    and "X2 \<equiv> fp2_val (g2x q)" and "Y2 \<equiv> fp2_val (g2y q)" and "Z2 \<equiv> fp2_val (g2z q)"
  defines "H \<equiv> X2 * (Z1 * Z1) - X1 * (Z2 * Z2)" and "R \<equiv> Y2 * (Z1 * Z1 * Z1) - Y1 * (Z2 * Z2 * Z2)"
  shows "g2_ok t'" "fp2_ok lw0" "fp2_ok lw1" "fp2_ok lw2"
    "fp2_val (g2x t') = 2 * 2 * (R * R - H * (H * H) - 2 * (X1 * (Z2 * Z2) * (H * H)))"
    "fp2_val (g2y t') = 2 * R * (2 * 2 * (X1 * (Z2 * Z2) * (H * H)) - fp2_val (g2x t')) -
       2 * 2 * 2 * (Y1 * (Z2 * Z2 * Z2) * (H * (H * H)))"
    "fp2_val (g2z t') = 2 * (Z1 * Z2 * H)"
    "fp2_val lw0 = 4 * (R * (X2 * Z2)) - 4 * (Y2 * (Z1 * Z2 * H))"
    "fp2_val lw1 = - (4 * (R * (Z2 * Z2 * Z2)) * Zp2 (fp_val (fst p)) 0)"
    "fp2_val lw2 = 4 * (Z1 * Z2 * H * (Z2 * Z2 * Z2)) * Zp2 (fp_val (snd p)) 0"
proof -
  define b d z3 a where "b = fp2_sub (fp2_mul (g2x q) (fp2_square (g2z t))) (fp2_mul (g2x t) (fp2_square (g2z q)))"
    and "d = fp2_sub (fp2_mul (fp2_sub (fp2_sub (fp2_square (fp2_add (g2y q) (g2z t))) (fp2_square (g2y q))) (fp2_square (g2z t)))
        (fp2_square (g2z t))) (fp2_double (fp2_mul (g2y t) (fp2_mul (fp2_square (g2z q)) (g2z q))))"
    and "z3 = fp2_mul (fp2_sub (fp2_sub (fp2_square (fp2_add (g2z t) (g2z q))) (fp2_square (g2z t))) (fp2_square (g2z q))) b"
    and "a = fp2_mul (g2x t) (fp2_square (g2z q))"
  note d = this
  have ok: "fp2_ok (g2x t)" "fp2_ok (g2y t)" "fp2_ok (g2z t)" "fp2_ok (g2x q)" "fp2_ok (g2y q)" "fp2_ok (g2z q)"
    using assms(1,2) by (simp_all add: g2_ok_def)
  have v: "fp2_ok b" "fp2_ok d" "fp2_ok z3" "fp2_ok a" "fp2_val b = H" "fp2_val d = 2 * R"
      "fp2_val z3 = 2 * (Z1 * Z2 * H)" "fp2_val a = X1 * (Z2 * Z2)"
    by (simp_all add: d fp2_rules ok X1_def X2_def Y1_def Y2_def Z1_def Z2_def H_def R_def algebra_simps)
  have t': "t' = g2_new x3 (fp2_sub (fp2_mul (fp2_sub (fp2_mul a (fp2_square (fp2_double b))) x3) d)
        (fp2_mul (fp2_double (fp2_mul (g2y t) (fp2_mul (fp2_square (g2z q)) (g2z q)))) (fp2_mul b (fp2_square (fp2_double b))))) z3"
      "lw0 = fp2_sub (fp2_mul d (fp2_double (fp2_mul (g2x q) (g2z q)))) (fp2_double (fp2_mul (g2y q) z3))"
      "lw1 = fp2_mul d (fp2_neg (fp2_double (fp2_mul_fp (fp2_mul (fp2_square (g2z q)) (g2z q)) (fst p))))"
      "lw2 = fp2_mul z3 (fp2_double (fp2_mul_fp (fp2_mul (fp2_square (g2z q)) (g2z q)) (snd p)))"
    if "x3 = fp2_sub (fp2_square d) (fp2_add (fp2_mul b (fp2_square (fp2_double b))) (fp2_double (fp2_mul a (fp2_square (fp2_double b)))))"
    for x3
    using e assms(3,4) unfolding that line_function_add_lw_no_pre_def Let_def d by (simp_all split: prod.splits)
  note t' = t' [OF refl]
  note rules = fp2_rules ok v(1-8) assms(5,6) X2_def [symmetric] Y1_def [symmetric] Y2_def [symmetric] Z2_def [symmetric] algebra_simps
  show "g2_ok t'" "fp2_ok lw0" "fp2_ok lw1" "fp2_ok lw2"
    by (simp_all add: t' g2_ok_def fp2_rules ok v(1-4) assms(5,6))
  show "fp2_val (g2x t') = 2 * 2 * (R * R - H * (H * H) - 2 * (X1 * (Z2 * Z2) * (H * H)))"
    unfolding t' by (simp add: rules)
  show "fp2_val (g2y t') = 2 * R * (2 * 2 * (X1 * (Z2 * Z2) * (H * H)) - fp2_val (g2x t')) -
       2 * 2 * 2 * (Y1 * (Z2 * Z2 * Z2) * (H * (H * H)))"
    unfolding t' by (simp add: rules)
  show "fp2_val (g2z t') = 2 * (Z1 * Z2 * H)" unfolding t' by (simp add: v)
  show "fp2_val lw0 = 4 * (R * (X2 * Z2)) - 4 * (Y2 * (Z1 * Z2 * H))"
    "fp2_val lw1 = - (4 * (R * (Z2 * Z2 * Z2)) * Zp2 (fp_val (fst p)) 0)"
    "fp2_val lw2 = 4 * (Z1 * Z2 * H * (Z2 * Z2 * Z2)) * Zp2 (fp_val (snd p)) 0"
    unfolding t' by (simp_all add: rules)
qed

lemma line_add_chord:
  assumes "g2_ok t" "g2_ok q" "\<not> g2_is_identity t" "\<not> g2_is_identity q" "fp_ok (fst p)" "fp_ok (snd p)"
    and e: "line_function_add_lw_no_pre t q p = (t', lw)"
    and rep: "g2_rep t x1 y1" "g2_rep q x2 y2" and l: "l * (x2 - x1) = y2 - y1"
  shows "g2_rep t' (chord_x l x1 x2) (chord_y l x1 y1 x2)"
    "is_line (2 * (fp2_val (g2z t') * (fp2_val (g2z q) * fp2_val (g2z q) * fp2_val (g2z q)))) l x2 y2
      (fp_val (fst p)) (fp_val (snd p)) lw"
proof -
  obtain lw0 lw1 lw2 where lw: "lw = (lw0, lw1, lw2)" by (cases lw) auto
  note v = line_add_vals [OF assms(1-6) e [unfolded lw]]
  show "g2_rep t' (chord_x l x1 x2) (chord_y l x1 y1 x2)"
    using jac_add_chord [OF rep [unfolded g2_rep_def] l refl refl v(5-7)] by (simp add: g2_rep_def)
  define X1 Y1 Z1 X2 Y2 Z2 where "X1 = fp2_val (g2x t)" and "Y1 = fp2_val (g2y t)" and "Z1 = fp2_val (g2z t)"
    and "X2 = fp2_val (g2x q)" and "Y2 = fp2_val (g2y q)" and "Z2 = fp2_val (g2z q)"
  note c = this
  have r: "X1 = x1 * (Z1 * Z1)" "Y1 = y1 * (Z1 * Z1 * Z1)" "X2 = x2 * (Z2 * Z2)" "Y2 = y2 * (Z2 * Z2 * Z2)"
    using rep by (simp_all add: g2_rep_def jac_def c)
  define H R where "H = X2 * (Z1 * Z1) - X1 * (Z2 * Z2)" and "R = Y2 * (Z1 * Z1 * Z1) - Y1 * (Z2 * Z2 * Z2)"
  note v' = v(7-10) [folded c, folded H_def R_def]
  have "Z1 * Z2 * H * l = l * (x2 - x1) * (Z1 * Z1 * Z1 * (Z2 * Z2 * Z2))" by (simp add: H_def r algebra_simps)
  then have s: "Z1 * Z2 * H * l = R" unfolding l by (simp add: R_def r algebra_simps)
  have "2 * (2 * (Z1 * Z2 * H) * (Z2 * Z2 * Z2)) * l = 4 * (Z1 * Z2 * H * l * (Z2 * Z2 * Z2))" by (simp add: algebra_simps)
  then have s': "2 * (2 * (Z1 * Z2 * H) * (Z2 * Z2 * Z2)) * l = 4 * (R * (Z2 * Z2 * Z2))" unfolding s .
  have "2 * (2 * (Z1 * Z2 * H) * (Z2 * Z2 * Z2)) * (l * x2 - y2) =
      2 * (2 * (Z1 * Z2 * H) * (Z2 * Z2 * Z2)) * l * x2 - 4 * (Z1 * Z2 * H * (y2 * (Z2 * Z2 * Z2)))"
    by (simp add: algebra_simps)
  also have "\<dots> = 4 * (R * (X2 * Z2)) - 4 * (Y2 * (Z1 * Z2 * H))" unfolding s' by (simp add: r(3,4) algebra_simps)
  finally show "is_line (2 * (fp2_val (g2z t') * (fp2_val (g2z q) * fp2_val (g2z q) * fp2_val (g2z q)))) l x2 y2
      (fp_val (fst p)) (fp_val (snd p)) lw"
    unfolding is_line_def lw prod.case v' c [symmetric] using s' by (simp add: mult_ac)
qed

section \<open>Final exponentiation\<close>

lemma fp12_pow_laws: "fp12_ok x \<Longrightarrow> fp12_ok (fp12_pow x e)" "fp12_ok x \<Longrightarrow> fp12_val (fp12_pow x e) = fp12_val x ^ z256_val e"
  using fp12.pow_val by (simp_all add: fp12_pow_def)

lemma fp12_inv_or_one_laws:
  assumes "fp12_ok x"
  shows "fp12_ok (fp12_inv_or_one x)" "fp12_unit x \<Longrightarrow> fp12_val x * fp12_val (fp12_inv_or_one x) = 1"
  using fp12.inv_ok [OF assms] fp12.inv_val [OF assms] fp12.one_ok
  by (auto simp: fp12_inv_or_one_def split: option.splits)

lemmas fp12_exp_rules = fp12_rules fp12_pow_laws fp12_inv_or_one_laws(1) fp12_frobenius_val fp12_frobenius_power_vals

lemma hard_part_val:
  fixes f :: Fp12
  assumes "fp12_ok f"
  defines "F \<equiv> fp12_val f" and "G \<equiv> fp12_val (fp12_inv_or_one (fp12_pow f EXP_A3))"
  shows "fp12_ok (final_exponentiation_hard_part f)"
    "fp12_val (final_exponentiation_hard_part f) =
       frob12 (frob12 (frob12 F)) * ((frob12 (frob12 F) * (frob12 F * frob12 F * (G * frob12 G))) ^ z256_val EXP_A2 *
         (G * (G * frob12 G) * (frob12 F * F) ^ 9 * (F * F * (F * F))))"
  using assms(1) unfolding F_def G_def final_exponentiation_hard_part_def Let_def
  by (simp_all add: fp12_exp_rules z256_val_limb)

lemma frob12_power: "frob12 (x ^ n) = frob12 x ^ n"
  by (induction n) (simp_all add: frob12_hom)

lemma inverse_unique: "x * y = 1 \<Longrightarrow> x * z = 1 \<Longrightarrow> y = (z :: 'r::comm_ring_1)"
  by (metis mult.assoc mult.commute mult_1)

text \<open>The exponent of the hard part, from the two constants.\<close>

definition hard_exp :: nat where
  "hard_exp = pval ^ 3 + z256_val EXP_A2 * (pval ^ 2 + 2 * pval) + 9 * (pval + 1) + 4 -
     z256_val EXP_A3 * (z256_val EXP_A2 * (1 + pval) + 2 + pval)"

lemma hard_exp_sum:
  "hard_exp + z256_val EXP_A3 * (z256_val EXP_A2 * (1 + pval) + 2 + pval) =
     pval ^ 3 + z256_val EXP_A2 * (pval ^ 2 + 2 * pval) + 9 * (pval + 1) + 4"
proof -
  have "z256_val EXP_A3 * (z256_val EXP_A2 * (1 + pval) + 2 + pval) \<le> pval ^ 3"
    by (simp add: pval_eq EXP_A2_def EXP_A3_def)
  then show ?thesis by (simp add: hard_exp_def)
qed

lemma hard_exp_N: "hard_exp * z256_val z256_N + pval ^ 2 = pval ^ 4 + 1"
  by (simp add: hard_exp_def pval_eq EXP_A2_def EXP_A3_def z256_N_def)

lemma N_val_pos: "0 < z256_val z256_N"
  by (simp add: z256_N_def)

lemma hard_part_power:
  assumes "fp12_ok f" "frob12 (fp12_val f) = fp12_val f ^ pval" "fp12_unit (fp12_pow f EXP_A3)"
  shows "fp12_val (final_exponentiation_hard_part f) = fp12_val f ^ hard_exp"
proof -
  define F G a b p where "F = fp12_val f" and "G = fp12_val (fp12_inv_or_one (fp12_pow f EXP_A3))"
    and "a = z256_val EXP_A2" and "b = z256_val EXP_A3" and "p = pval"
  have fG: "F ^ b * G = 1"
    using fp12_inv_or_one_laws(2) [OF fp12_pow_laws(1) [OF assms(1)] assms(3)] assms(1)
    by (simp add: F_def G_def b_def fp12_pow_laws)
  have f1: "frob12 F = F ^ p" using assms(2) by (simp add: F_def p_def)
  have f2: "frob12 (F ^ p) = F ^ (p ^ 2)" by (simp add: frob12_power f1 power2_eq_square flip: power_mult)
  have f3: "frob12 (F ^ (p ^ 2)) = F ^ (p ^ 3)"
    by (simp add: frob12_power f1 power2_eq_square power3_eq_cube mult.assoc flip: power_mult)
  have fG': "frob12 G = G ^ p"
  proof (rule inverse_unique)
    have "frob12 (F ^ b * G) = 1" unfolding fG by (rule frob12_hom)
    then show "F ^ (p * b) * frob12 G = 1" by (simp add: frob12_hom frob12_power f1 flip: power_mult)
    have "(F ^ b * G) ^ p = 1" unfolding fG by simp
    then show "F ^ (p * b) * G ^ p = 1" by (simp add: power_mult_distrib mult.commute flip: power_mult)
  qed
  define M where "M = a * (1 + p) + 2 + p"
  have v: "fp12_val (final_exponentiation_hard_part f) =
      F ^ (p ^ 3) * ((F ^ (p ^ 2) * (F ^ p * F ^ p * (G * G ^ p))) ^ a * (G * (G * G ^ p) * (F ^ p * F) ^ 9 * (F * F * (F * F))))"
    using hard_part_val(2) [OF assms(1)] by (simp add: F_def [symmetric] G_def [symmetric] a_def [symmetric] f1 f2 f3 fG')
  also have "\<dots> = F ^ (p ^ 3 + a * (p ^ 2 + 2 * p) + 9 * (p + 1) + 4) * G ^ M"
  proof -
    have "F ^ (p ^ 2) * (F ^ p * F ^ p * (G * G ^ p)) = F ^ (p ^ 2 + 2 * p) * G ^ (1 + p)"
      unfolding mult_2 power_add power_one_right by (simp only: mult_ac)
    then have "(F ^ (p ^ 2) * (F ^ p * F ^ p * (G * G ^ p))) ^ a = F ^ (a * (p ^ 2 + 2 * p)) * G ^ (a * (1 + p))"
      by (simp only: power_mult_distrib mult.commute [of a] power_mult)
    moreover have "(F ^ p * F) ^ 9 = F ^ (9 * (p + 1))"
      by (simp only: mult.commute [of 9] power_mult power_add power_one_right)
    moreover have "F * F * (F * F) = F ^ 4" by (simp add: power_numeral_reduce mult_ac)
    moreover have "G * (G * G ^ p) = G ^ (2 + p)" by (simp add: power_add power2_eq_square mult_ac)
    ultimately show ?thesis by (simp only: M_def power_add mult_ac)
  qed
  also have "p ^ 3 + a * (p ^ 2 + 2 * p) + 9 * (p + 1) + 4 = hard_exp + b * M"
    using hard_exp_sum by (simp add: M_def a_def b_def p_def)
  also have "F ^ (hard_exp + b * M) * G ^ M = F ^ hard_exp * (F ^ b * G) ^ M"
    unfolding power_add power_mult power_mult_distrib by (simp only: mult_ac)
  finally show ?thesis unfolding fG by (simp add: F_def)
qed


lemma final_exponentiation_ok: "fp12_ok f \<Longrightarrow> fp12_ok (final_exponentiation f)"
  unfolding final_exponentiation_def Let_def by (rule hard_part_val(1)) (simp add: fp12_exp_rules)

text \<open>The argument of the hard part.\<close>

definition final_exponentiation_easy :: "Fp12 \<Rightarrow> Fp12" where
  "final_exponentiation_easy f =
     (let f1 = fp12_mul (fp12_frobenius_six f) (fp12_inv_or_one f) in fp12_mul (fp12_frobenius_sq f1) f1)"

lemma final_exponentiation_split: "final_exponentiation f = final_exponentiation_hard_part (final_exponentiation_easy f)"
  by (simp add: final_exponentiation_def final_exponentiation_easy_def Let_def)

lemma exponent_product: "(pval ^ 6 - 1) * ((pval ^ 2 + 1) * hard_exp) = (pval ^ 12 - 1) div z256_val z256_N"
proof -
  define P h n where "P = pval" and "h = hard_exp" and "n = z256_val z256_N"
  have "(P ^ 2 + 1) * (h * n) + (P ^ 4 + P ^ 2) = (P ^ 2 + 1) * (h * n + P ^ 2)"
    by (simp add: algebra_simps power2_eq_square power_numeral_reduce)
  also have "\<dots> = P ^ 6 + 1 + (P ^ 4 + P ^ 2)"
    unfolding P_def h_def n_def hard_exp_N by (simp add: algebra_simps power2_eq_square power_numeral_reduce)
  finally have "(P ^ 2 + 1) * (h * n) = P ^ 6 + 1" by simp
  then have "(P ^ 6 - 1) * ((P ^ 2 + 1) * h) * n = (P ^ 6 - 1) * (P ^ 6 + 1)" by (simp only: mult.assoc)
  also have "\<dots> = P ^ 12 - 1"
  proof -
    have "1 \<le> P" using pval_gt_1 by (simp add: P_def)
    then have "1 \<le> P ^ 6" "P ^ 6 \<le> P ^ 12" by (rule one_le_power) (rule power_increasing, simp, fact)
    then show ?thesis by (simp add: distrib_left diff_mult_distrib flip: power_add)
  qed
  finally show ?thesis by (metis P_def h_def n_def N_val_pos nonzero_mult_div_cancel_right less_numeral_extra(3))
qed


lemma final_exponentiation_power_val:
  assumes "fp12_ok f" "frob12 (fp12_val f) = fp12_val f ^ pval" "fp12_unit f"
    and u: "fp12_unit (fp12_pow (final_exponentiation_easy f) EXP_A3)"
  shows "fp12_val (final_exponentiation f) = fp12_val f ^ ((pval ^ 12 - 1) div z256_val z256_N)"
proof -
  define F I p where "F = fp12_val f" and "I = fp12_val (fp12_inv_or_one f)" and "p = pval"
  have FI: "F * I = 1" using fp12_inv_or_one_laws(2) [OF assms(1,3)] by (simp add: F_def I_def)
  have f: "frob12 (F ^ n) = F ^ (p * n)" for n using assms(2) by (simp add: frob12_power F_def p_def flip: power_mult)
  have six: "frob12 (frob12 (frob12 (frob12 (frob12 (frob12 F))))) = F ^ (p ^ 6)"
    using f [of 1] f by (simp add: power_numeral_reduce)
  have "1 \<le> p ^ 6" using pval_gt_1 by (simp add: p_def)
  then have "F ^ (p ^ 6) = F ^ (p ^ 6 - 1) * F" by (metis le_add_diff_inverse2 power_add power_one_right)
  then have e1: "F ^ (p ^ 6) * I = F ^ (p ^ 6 - 1)" by (simp add: mult.assoc FI)
  define n where "n = p ^ 6 - 1"
  have ok: "fp12_ok (final_exponentiation_easy f)"
    using assms(1) by (simp add: final_exponentiation_easy_def Let_def fp12_exp_rules)
  have ev: "fp12_val (final_exponentiation_easy f) = F ^ (n * (p ^ 2 + 1))"
  proof -
    have "fp12_val (final_exponentiation_easy f) = frob12 (frob12 (F ^ n)) * F ^ n"
      using assms(1) by (simp add: final_exponentiation_easy_def Let_def fp12_exp_rules F_def [symmetric] I_def [symmetric] six e1 n_def)
    then show ?thesis by (simp add: f power2_eq_square distrib_left mult_ac flip: power_add)
  qed
  have "fp12_val (final_exponentiation f) = fp12_val (final_exponentiation_easy f) ^ hard_exp"
    unfolding final_exponentiation_split
    by (rule hard_part_power [OF ok _ u]) (simp add: ev f p_def mult.commute flip: power_mult)
  then show ?thesis unfolding ev F_def exponent_product [symmetric] n_def p_def
    by (simp only: mult.assoc power_mult [symmetric])
qed


section \<open>Identities\<close>

lemma fp12_unit_of_one:
  assumes "fp12_ok x" "fp12_val x = 1"
  shows "fp12_unit x"
proof -
  have n12: "fp4_ok (fp12_norm x)" "fp4_val (fp12_norm x) = 1"
    using assms by (simp_all add: fp12_norm_def Let_def fp12_parts fp4_rules fp12_val_def one_zp12_def)
  then have n4: "fp2_ok (fp4_norm (fp12_norm x))" "fp2_val (fp4_norm (fp12_norm x)) = 1"
    by (simp_all add: fp4_norm_def fp4_parts fp2_rules fp4_val_def one_zp4_def)
  then have "fp_val (fp2_norm (fp4_norm (fp12_norm x))) = 1"
    by (simp add: fp2_norm_def fp2_parts fp_rules fp2_val_def one_zp2_def)
  then show ?thesis by (simp add: fp12_unit_def fp4_unit_def fp2_unit_def fp_unit_def)
qed

lemma easy_one:
  assumes "fp12_ok f" "fp12_val f = 1"
  shows "fp12_ok (final_exponentiation_easy f)" "fp12_val (final_exponentiation_easy f) = 1"
  using assms fp12_inv_or_one_laws(2) [OF assms(1) fp12_unit_of_one [OF assms]]
  by (simp_all add: final_exponentiation_easy_def Let_def fp12_exp_rules frob12_hom)

lemma easy_one_unit:
  assumes "fp12_ok f" "fp12_val f = 1"
  shows "fp12_unit (fp12_pow (final_exponentiation_easy f) EXP_A3)"
  using easy_one [OF assms] by (intro fp12_unit_of_one) (simp_all add: fp12_pow_laws)

lemma final_exponentiation_one: "fp12_val (final_exponentiation fp12_one) = 1"
  using final_exponentiation_power_val [OF fp12.one_ok] fp12_unit_of_one [OF fp12.one_ok fp12.one_val]
    easy_one_unit [OF fp12.one_ok fp12.one_val]
  by (simp add: fp12.one_val frob12_hom)

lemma frob12_zero: "frob12 0 = 0"
  by (simp add: zero_zp12_def zero_zp4_def frob12_Zp12)

lemma final_exponentiation_zero: "fp12_ok f \<Longrightarrow> fp12_val f = 0 \<Longrightarrow> fp12_val (final_exponentiation f) = 0"
  unfolding final_exponentiation_split
  by (subst hard_part_val(2)) (simp_all add: final_exponentiation_easy_def Let_def fp12_exp_rules frob12_zero)

lemma line_mul_zero:
  "fp12_ok f \<Longrightarrow> fp12_ok (fp12_line_mul f fp2_zero fp2_zero fp2_zero)"
  "fp12_ok f \<Longrightarrow> fp12_val (fp12_line_mul f fp2_zero fp2_zero fp2_zero) = 0"
  by (simp_all add: fp12_line_mul_laws fp2_rules line12_def flip: zero_zp4_def zero_zp12_def)

lemma miller_step_identity:
  assumes "g2_is_identity t" "fp12_ok f"
  shows "\<exists>f'. miller_step q q_neg p pre0 pre1 pre2 pre3 pre4 (f, t) ch = (f', t) \<and> fp12_ok f' \<and> fp12_val f' = 0"
  using assms
  by (simp add: miller_step_def Let_def line_function_double_lw_def line_function_add_lw_def line_function_add_lw_no_pre_def
      line_mul_zero fp12_rules)

lemma miller_fold_identity:
  assumes "g2_is_identity t" "fp12_ok f" "cs \<noteq> []"
  shows "\<exists>f'. foldl (miller_step q q_neg p pre0 pre1 pre2 pre3 pre4) (f, t) cs = (f', t) \<and> fp12_ok f' \<and> fp12_val f' = 0"
  using assms(2,3)
proof (induction cs arbitrary: f)
  case (Cons c cs)
  obtain f' where f': "miller_step q q_neg p pre0 pre1 pre2 pre3 pre4 (f, t) c = (f', t)" "fp12_ok f'" "fp12_val f' = 0"
    using miller_step_identity [OF assms(1) Cons.prems(1)] by blast
  then show ?case using Cons.IH [OF f'(2)] by (cases cs) auto
qed simp

lemma miller_loop_identity:
  assumes "g1_to_affine p = Some a" "g2_is_identity q"
  shows "fp12_ok (miller_loop p q) \<and> fp12_val (miller_loop p q) = 0"
proof -
  define st where "st = miller_step q (g2_neg q) a (fp2_square (g2y q)) (fp2_mul (fp2_square (g2z q)) (g2z q))
      (fp2_double (fp2_mul_fp (fp2_mul (fp2_square (g2z q)) (g2z q)) (snd a)))
      (fp2_neg (fp2_double (fp2_mul_fp (fp2_mul (fp2_square (g2z q)) (g2z q)) (fst a)))) (fp2_double (fp2_mul (g2x q) (g2z q)))"
  have "RATE_ABITS \<noteq> []" by (simp add: RATE_ABITS_def)
  from miller_fold_identity [OF assms(2) fp12.one_ok this]
  obtain f where f: "foldl st (fp12_one, q) RATE_ABITS = (f, q)" "fp12_ok f" unfolding st_def by blast
  show ?thesis
    using assms f(2) by (simp add: miller_loop_def Let_def st_def [symmetric] f(1) line_function_add_lw_no_pre_def line_mul_zero)
qed

section \<open>Properties\<close>



text \<open>
  The sparse multiplication \<open>fp12_line_mul\<close> is the full multiplication of \<open>Fp12\<close> by the line
  $l_0 + l_1 w^2 + l_2 w^3$.
\<close>

theorem fp12_line_mul_is_multiplication:
  assumes "fp12_ok a" "fp2_ok l0" "fp2_ok l1" "fp2_ok l2"
  shows "fp12_val (fp12_line_mul a l0 l1 l2) =
     fp12_val (fp12_mul a (fp12_new (fp4_new l0 l2) fp4_zero (fp4_new l1 fp2_zero)))"
  using assms by (simp add: fp12_line_mul_laws line12_def fp12_rules fp4_rules fp2_rules)

theorem fp12_line_mul_is_multiplication_witness:
  "fp12_val (fp12_line_mul fp12_one fp2_one fp2_zero fp2_zero) =
     fp12_val (fp12_mul fp12_one (fp12_new (fp4_new fp2_one fp2_zero) fp4_zero (fp4_new fp2_zero fp2_zero)))"
  by (rule fp12_line_mul_is_multiplication [OF fp12.one_ok fp2.one_ok fp2.zero_ok fp2.zero_ok])



text \<open>
  On the identity of G1 the pairing is one, as it must be. On the identity of G2 it is zero,
  which is not even a unit, for every point of G1 that has affine coordinates.
\<close>

theorem pairing_identities:
  "(g1_is_identity p \<longrightarrow> fp12_val (pairing p q) = 1) \<and>
   (g1_to_affine p = Some a \<longrightarrow> g2_is_identity q \<longrightarrow> fp12_val (pairing p q) = 0)"
  using final_exponentiation_one final_exponentiation_zero miller_loop_identity [of p a q]
  by (simp add: pairing_def Let_def miller_loop_def g1_to_affine_def)

theorem pairing_identities_witness:
  "fp12_val (pairing g1_identity g2_generator) = 1 \<and>
   fp12_val (pairing (g1_from_affine fp_zero fp_zero) g2_identity) = 0"
proof -
  have "fp_unit (g1z (g1_from_affine fp_zero fp_zero))" by (simp add: g1_from_affine_def fp_unit_def fp_rules)
  then obtain x y where "g1_to_affine (g1_from_affine fp_zero fp_zero) = Some (x, y)"
    using g1_to_affine_val [OF g1_from_affine_laws(1,2), of fp_zero fp_zero] fp.zero_ok by auto
  then show ?thesis
    using pairing_identities [of g1_identity g2_generator] pairing_identities [of "g1_from_affine fp_zero fp_zero" g2_identity]
      g1_identity_on g2_identity_on by blast
qed

text \<open>The digits of the Miller loop, with 2 standing for $-1$, are the loop parameter $6t + 2$.\<close>

lemma rate_digits:
  "foldl (\<lambda>n c. 2 * n + (if c = CHR ''1'' then 1 else if c = CHR ''2'' then - 1 else 0)) 1 RATE_ABITS =
     (6 * 0x600000000058F98A + 2 :: int)"
  by (simp add: RATE_ABITS_def)

end
