(* ===== verification/Sm9_Key.thy ===== *)
theory Sm9_Key
  imports Sm9_Group Sm9_Hash Gm_Rng
begin

text \<open>
  Keys of SM9, \<open>gm-sm9-rs/src/key/mod.rs\<close> and \<open>src/error.rs\<close>: random scalars, modular powers
  and inverses, the master keys, the extraction of user keys and the byte forms. SM3 (\<open>sm3\<close>), the
  \<open>subtle\<close> crate (\<open>S\<close>) and the random generator (\<open>fill\<close>) are parameters.
  Shown: a random scalar is between 1 and $N - 1$ and the rejection loop ends as soon as a draw is
  not a multiple of $N$; \<open>pow_mod\<close> is the modular power; extraction multiplies the generator by
  $s (s + h_1)^{-1}$ and fails exactly where it must; and what the byte form of the composite
  master key loses.
\<close>

section \<open>Errors\<close>

datatype Sm9Error =
    InvalidParameter string
  | KeyNotFound string
  | SignatureVerificationFailed
  | DecryptionFailed
  | KgcError string
  | CryptoError string
  | NotImplemented
  | InvalidPoint
  | SigningError string
  | EncryptionError string
  | ArithError ArithError

text \<open>\<open>{:?}\<close> of an arithmetic error; the messages have no character that would be escaped.\<close>

fun debug_arith :: "ArithError \<Rightarrow> string" where
  "debug_arith (ArithError.InvalidParameter s) = ''InvalidParameter('' @ [CHR 0x22] @ s @ [CHR 0x22] @ '')''"

section \<open>Scalars\<close>

definition le_words :: "bytes \<Rightarrow> Z256" where
  "le_words bs = Z256 (u64_from_le (take 8 bs)) (u64_from_le (take 8 (drop 8 bs)))
     (u64_from_le (take 8 (drop 16 bs))) (u64_from_le (take 8 (drop 24 bs)))"

partial_function (option) random_scalar :: "'r rng \<Rightarrow> 'r \<Rightarrow> ((Sm9Error, Z256) res \<times> 'r) option" where
  "random_scalar fill rng =
     (let (buf512, rng') = fill rng 64;
          hi = le_words buf512;
          lo = le_words (drop 32 buf512)
      in Option.bind (mod_reduce_512 lo hi z256_N) (\<lambda>s_reduced.
           if z256_is_zero s_reduced then random_scalar fill rng' else Some (Inr s_reduced, rng')))"

definition R_MOD_N :: Z256 where
  "R_MOD_N = Z256 0x1A911E63296130DB 0xB60D6CB4E7157411 0x29FC54B00A7138BB 0x49BFFFFFFD5C590E"

definition key_compute_2_256_mod_m :: "Z256 \<Rightarrow> Z256" where
  "key_compute_2_256_mod_m m =
     (let n = Z256 0xE56EE19CD69ECF25 0x49F2934B18EA8BEE 0xD603AB4FF58EC744 0xB640000002A3A6F1
      in if z256_cmp m n = 0 then R_MOD_N else compute_2_256_mod_m m)"

definition pow_mod_step :: "'c subtle \<Rightarrow> Z256 \<Rightarrow> Z256 \<Rightarrow> (Z256 \<times> Z256) option \<Rightarrow> nat \<Rightarrow> (Z256 \<times> Z256) option" where
  "pow_mod_step S e m st i =
     Option.bind st (\<lambda>(result, base).
       let b = z256_ct_bit S e i
       in Option.bind (modmul result base m) (\<lambda>product.
            let result = z256_ct_select S result product b
            in Option.bind (modmul base base m) (\<lambda>base. Some (result, base))))"

definition pow_mod :: "'c subtle \<Rightarrow> Z256 \<Rightarrow> Z256 \<Rightarrow> Z256 \<Rightarrow> Z256 option" where
  "pow_mod S base e m =
     (if z256_is_zero m then None
      else
        let base = (if z256_cmp base m \<ge> 0
                    then let (diff, borrow) = sub_with_borrow base m in if borrow = 0 then diff else base
                    else base)
        in map_option fst (foldl (pow_mod_step S e m) (Some (z256_one, base)) [0..<256]))"

definition modinv :: "'c subtle \<Rightarrow> Z256 \<Rightarrow> Z256 \<Rightarrow> Z256 option option" where
  "modinv S a m =
     (if z256_is_zero a then Some None
      else
        let (diff, borrow) = sub_with_borrow m (Z256 2 0 0 0)
        in if borrow \<noteq> 0 then Some None else map_option Some (pow_mod S a diff m))"

section \<open>Master and user keys\<close>

record SignMasterKey =
  smk_s :: Z256
  smk_ppubs :: G2Point

record SignUserKey =
  suk_ds :: G1Point
  suk_ppubs :: G2Point

record EncMasterKey =
  emk_s :: Z256
  emk_ppube :: G1Point

record EncUserKey =
  euk_de :: G2Point
  euk_ppube :: G1Point

definition sign_master_generate :: "'c subtle \<Rightarrow> 'r rng \<Rightarrow> ('r, Sm9Error, SignMasterKey) io" where
  "sign_master_generate S fill =
     io_bind (random_scalar fill) (\<lambda>s.
       let p2 = g2_generator;
           ppubs = g2_scalar_mul S p2 s
       in io_return \<lparr>smk_s = s, smk_ppubs = ppubs\<rparr>)"

definition sign_master_to_bytes :: "SignMasterKey \<Rightarrow> (Sm9Error, bytes) res" where
  "sign_master_to_bytes k =
     bind_res (ok_or (g2_to_affine (smk_ppubs k)) (CryptoError ''Identity point cannot be serialized'')) (\<lambda>(x, y).
       Inr (fp2_to_bytes x @ fp2_to_bytes y))"

definition fp_part :: "string \<Rightarrow> bytes \<Rightarrow> (Sm9Error, Fp) res" where
  "fp_part what bs = map_err (\<lambda>e. CryptoError (''Invalid '' @ what @ '': '' @ debug_arith e)) (fp_from_bytes bs)"

definition sign_master_from_bytes :: "bytes \<Rightarrow> (Sm9Error, SignMasterKey) res" where
  "sign_master_from_bytes bs =
     bind_res (fp_part ''X c0'' (take 32 bs)) (\<lambda>x_c0.
     bind_res (fp_part ''X c1'' (take 32 (drop 32 bs))) (\<lambda>x_c1.
     let x = fp2_new x_c0 x_c1 in
     bind_res (fp_part ''Y c0'' (take 32 (drop 64 bs))) (\<lambda>y_c0.
     bind_res (fp_part ''Y c1'' (take 32 (drop 96 bs))) (\<lambda>y_c1.
     let y = fp2_new y_c0 y_c1;
         ppubs = g2_from_affine x y
     in Inr \<lparr>smk_s = z256_zero, smk_ppubs = ppubs\<rparr>))))"

text \<open>The common part of the two extractions: the scalar $s (s + h_1)^{-1}$.\<close>

definition extract_scalar :: "'c subtle \<Rightarrow> Z256 \<Rightarrow> Z256 \<Rightarrow> (Sm9Error, Z256) res option" where
  "extract_scalar S s h1 =
     (let (s_plus_h1, carry) = add_with_carry s h1;
          s_plus_h1 = (if carry \<noteq> 0 \<or> z256_cmp s_plus_h1 z256_N \<ge> 0
                       then fst (sub_with_borrow s_plus_h1 z256_N) else s_plus_h1)
      in Option.bind (modinv S s_plus_h1 z256_N) (\<lambda>inv_opt.
           case inv_opt of
             None \<Rightarrow> Some (Inl (CryptoError ''modular inverse failed''))
           | Some s_inv \<Rightarrow> map_option Inr (modmul s s_inv z256_N)))"

definition sign_extract_key :: "(bytes \<Rightarrow> bytes) \<Rightarrow> 'c subtle \<Rightarrow> SignMasterKey \<Rightarrow> bytes \<Rightarrow> (Sm9Error, SignUserKey) res option" where
  "sign_extract_key sm3 S k identity =
     (if z256_is_zero (smk_s k)
      then Some (Inl (CryptoError ''Cannot extract key: master secret s is zero (public-key-only instance)''))
      else
        let h1 = hash1 sm3 identity 0x01
        in map_option (\<lambda>r. bind_res r (\<lambda>scalar.
             let p1 = g1_generator;
                 ds = g1_scalar_mul S p1 scalar
             in Inr \<lparr>suk_ds = ds, suk_ppubs = smk_ppubs k\<rparr>)) (extract_scalar S (smk_s k) h1))"

definition enc_master_generate :: "'c subtle \<Rightarrow> 'r rng \<Rightarrow> ('r, Sm9Error, EncMasterKey) io" where
  "enc_master_generate S fill =
     io_bind (random_scalar fill) (\<lambda>s.
       let p1 = g1_generator;
           ppube = g1_scalar_mul S p1 s
       in io_return \<lparr>emk_s = s, emk_ppube = ppube\<rparr>)"

definition enc_extract_key_with_hid ::
  "(bytes \<Rightarrow> bytes) \<Rightarrow> 'c subtle \<Rightarrow> EncMasterKey \<Rightarrow> bytes \<Rightarrow> u8 \<Rightarrow> (Sm9Error, EncUserKey) res option" where
  "enc_extract_key_with_hid sm3 S k identity hid =
     (if z256_is_zero (emk_s k)
      then Some (Inl (CryptoError ''Cannot extract key: master secret s is zero (public-key-only instance)''))
      else
        let h1 = hash1 sm3 identity hid
        in map_option (\<lambda>r. bind_res r (\<lambda>scalar.
             let p2 = g2_generator;
                 de = g2_scalar_mul S p2 scalar
             in Inr \<lparr>euk_de = de, euk_ppube = emk_ppube k\<rparr>)) (extract_scalar S (emk_s k) h1))"

definition enc_extract_key :: "(bytes \<Rightarrow> bytes) \<Rightarrow> 'c subtle \<Rightarrow> EncMasterKey \<Rightarrow> bytes \<Rightarrow> (Sm9Error, EncUserKey) res option" where
  "enc_extract_key sm3 S k identity = enc_extract_key_with_hid sm3 S k identity 0x02"

definition enc_extract_key_exchange :: "(bytes \<Rightarrow> bytes) \<Rightarrow> 'c subtle \<Rightarrow> EncMasterKey \<Rightarrow> bytes \<Rightarrow> (Sm9Error, EncUserKey) res option" where
  "enc_extract_key_exchange sm3 S k identity = enc_extract_key_with_hid sm3 S k identity 0x03"

section \<open>The composite master key\<close>

record KgcMasterKey =
  kgc_sign_master :: SignMasterKey
  kgc_enc_master :: EncMasterKey

definition kgc_generate :: "'c subtle \<Rightarrow> 'r rng \<Rightarrow> ('r, Sm9Error, KgcMasterKey) io" where
  "kgc_generate S fill =
     io_bind (sign_master_generate S fill) (\<lambda>sign_master.
     io_bind (enc_master_generate S fill) (\<lambda>enc_master.
     io_return \<lparr>kgc_sign_master = sign_master, kgc_enc_master = enc_master\<rparr>))"

definition kgc_derive_signing_key :: "(bytes \<Rightarrow> bytes) \<Rightarrow> 'c subtle \<Rightarrow> KgcMasterKey \<Rightarrow> bytes \<Rightarrow> (Sm9Error, SignUserKey) res option" where
  "kgc_derive_signing_key sm3 S k identity = sign_extract_key sm3 S (kgc_sign_master k) identity"

definition kgc_derive_encryption_key :: "(bytes \<Rightarrow> bytes) \<Rightarrow> 'c subtle \<Rightarrow> KgcMasterKey \<Rightarrow> bytes \<Rightarrow> (Sm9Error, EncUserKey) res option" where
  "kgc_derive_encryption_key sm3 S k identity = enc_extract_key sm3 S (kgc_enc_master k) identity"

definition kgc_to_bytes :: "KgcMasterKey \<Rightarrow> (Sm9Error, bytes) res" where
  "kgc_to_bytes k =
     bind_res (sign_master_to_bytes (kgc_sign_master k)) (\<lambda>sign_bytes.
     bind_res (ok_or (g1_to_affine (emk_ppube (kgc_enc_master k))) (CryptoError ''Identity point cannot be serialized'')) (\<lambda>(x, y).
     let enc_bytes = z256_to_bytes_be (emk_s (kgc_enc_master k)) @ fp_to_bytes x @ fp_to_bytes y
     in Inr (u64_to_le (of_nat (length sign_bytes)) @ sign_bytes @ u64_to_le (of_nat (length enc_bytes)) @ enc_bytes)))"

text \<open>
  The lengths are read as 64-bit numbers and added as \<open>usize\<close>: a sum of $2^{64}$ or more is an
  overflow, and \<open>None\<close> here, like a slice behind the end.
\<close>

definition kgc_from_bytes :: "bytes \<Rightarrow> (Sm9Error, KgcMasterKey) res option" where
  "kgc_from_bytes bs =
     (if length bs < 16 then Some (Inl (InvalidParameter ''insufficient bytes for KgcMasterKey''))
      else
        let sign_len = unat (u64_from_le (take 8 bs))
        in if 8 + sign_len + 8 \<ge> 2 ^ 64 then None
           else if length bs < 8 + sign_len + 8 then Some (Inl (InvalidParameter ''insufficient bytes for sign master key''))
           else if sign_len \<noteq> 128 then Some (Inl (InvalidParameter ''invalid sign key length''))
           else
             case sign_master_from_bytes (take sign_len (drop 8 bs)) of
               Inl e \<Rightarrow> Some (Inl e)
             | Inr sign_master \<Rightarrow>
               let enc_offset = 8 + sign_len;
                   enc_len = unat (u64_from_le (take 8 (drop enc_offset bs)))
               in if enc_offset + 8 + enc_len \<ge> 2 ^ 64 then None
                  else if length bs < enc_offset + 8 + enc_len then Some (Inl (InvalidParameter ''insufficient bytes for enc master key''))
                  else
                    let enc_data = take enc_len (drop (enc_offset + 8) bs)
                    in if length enc_data < 96 then Some (Inl (InvalidParameter ''enc master key data too short''))
                       else Some (
                         bind_res (ok_or (z256_from_bytes_be (take 32 enc_data)) (CryptoError ''Invalid enc master s'')) (\<lambda>s.
                         if z256_is_zero s then Inl (CryptoError ''enc master s must not be zero'')
                         else
                           bind_res (fp_part ''ppube x'' (take 32 (drop 32 enc_data))) (\<lambda>x.
                           bind_res (fp_part ''ppube y'' (take 32 (drop 64 enc_data))) (\<lambda>y.
                           let ppube = g1_from_affine x y;
                               enc_master = \<lparr>emk_s = s, emk_ppube = ppube\<rparr>
                           in Inr \<lparr>kgc_sign_master = sign_master, kgc_enc_master = enc_master\<rparr>)))))"

section \<open>Random scalars\<close>

lemma N_top: "limbs z256_N ! 3 \<noteq> 0"
  by (simp add: z256_N_def)

lemma N_gt_1: "1 < z256_val z256_N"
  by (simp add: z256_N_def)

text \<open>The 512-bit number of a draw, and the generator after it.\<close>

definition draw :: "'r rng \<Rightarrow> 'r \<Rightarrow> nat" where
  "draw fill rng = (let buf = fst (fill rng 64) in z256_val (le_words (drop 32 buf)) + radix * z256_val (le_words buf))"

definition next_rng :: "'r rng \<Rightarrow> 'r \<Rightarrow> 'r" where
  "next_rng fill rng = snd (fill rng 64)"

lemma random_scalar_step:
  "\<exists>s. z256_val s = draw fill rng mod z256_val z256_N \<and>
     random_scalar fill rng = (if z256_val s = 0 then random_scalar fill (next_rng fill rng) else Some (Inr s, next_rng fill rng))"
proof -
  obtain buf rng' where f: "fill rng 64 = (buf, rng')" by force
  obtain s where "mod_reduce_512 (le_words (drop 32 buf)) (le_words buf) z256_N = Some s" "z256_val s = draw fill rng mod z256_val z256_N"
    using mod_reduce_512_val [OF N_top, of "le_words (drop 32 buf)" "le_words buf"] by (auto simp: draw_def f)
  then show ?thesis
    by (intro exI [of _ s]) (simp add: random_scalar.simps [of fill rng] f next_rng_def z256_is_zero_iff)
qed

lemma random_scalar_returns:
  assumes "\<not> z256_val z256_N dvd draw fill ((next_rng fill ^^ k) rng)"
  shows "\<exists>s rng'. random_scalar fill rng = Some (Inr s, rng')"
  using assms
proof (induction k arbitrary: rng)
  case 0
  then show ?case using random_scalar_step [of fill rng] by (auto simp: dvd_eq_mod_eq_0)
next
  case (Suc k)
  then have "\<exists>s rng'. random_scalar fill (next_rng fill rng) = Some (Inr s, rng')"
    by (intro Suc.IH) (simp add: funpow_swap1)
  then show ?case using random_scalar_step [of fill rng] by (auto split: if_splits)
qed

lemma random_scalar_result:
  assumes "random_scalar fill rng = Some y"
  shows "\<exists>k s. fst y = Inr s \<and> z256_val s = draw fill ((next_rng fill ^^ k) rng) mod z256_val z256_N \<and> z256_val s \<noteq> 0"
proof (rule random_scalar.raw_induct [where P = "\<lambda>fill rng y. \<exists>k s. fst y = Inr s \<and>
      z256_val s = draw fill ((next_rng fill ^^ k) rng) mod z256_val z256_N \<and> z256_val s \<noteq> 0", OF _ assms])
  fix f :: "'r rng \<Rightarrow> 'r \<Rightarrow> ((Sm9Error, Z256) res \<times> 'r) option" and fill :: "'r rng" and rng :: 'r and y
  assume IH: "\<And>fill rng y. f fill rng = Some y \<Longrightarrow> \<exists>k s. fst y = Inr s \<and>
      z256_val s = draw fill ((next_rng fill ^^ k) rng) mod z256_val z256_N \<and> z256_val s \<noteq> 0"
    and e: "(let (buf512, rng') = fill rng 64; hi = le_words buf512; lo = le_words (drop 32 buf512)
      in Option.bind (mod_reduce_512 lo hi z256_N) (\<lambda>s_reduced.
           if z256_is_zero s_reduced then f fill rng' else Some (Inr s_reduced, rng'))) = Some y"
  obtain buf r where b: "fill rng 64 = (buf, r)" by force
  obtain s where s: "mod_reduce_512 (le_words (drop 32 buf)) (le_words buf) z256_N = Some s" "z256_val s = draw fill rng mod z256_val z256_N"
    using mod_reduce_512_val [OF N_top, of "le_words (drop 32 buf)" "le_words buf"] by (auto simp: draw_def b)
  have n: "next_rng fill rng = r" by (simp add: next_rng_def b)
  show "\<exists>k s. fst y = Inr s \<and> z256_val s = draw fill ((next_rng fill ^^ k) rng) mod z256_val z256_N \<and> z256_val s \<noteq> 0"
  proof (cases "z256_val s = 0")
    case True
    then have "f fill r = Some y" using e s by (simp add: b z256_is_zero_iff)
    from IH [OF this] obtain k t where "fst y = Inr t"
        "z256_val t = draw fill ((next_rng fill ^^ k) r) mod z256_val z256_N" "z256_val t \<noteq> 0" by blast
    then show ?thesis by (intro exI [of _ "Suc k"] exI [of _ t]) (simp add: n funpow_swap1)
  next
    case False
    then have "y = (Inr s, r)" using e s(1) by (simp add: b z256_is_zero_iff)
    then show ?thesis using False s(2) by (intro exI [of _ 0] exI [of _ s]) simp
  qed
qed

lemma random_scalar_range:
  "random_scalar fill rng = Some (x, rng') \<Longrightarrow> \<exists>s. x = Inr s \<and> 0 < z256_val s \<and> z256_val s < z256_val z256_N"
  using random_scalar_result [of fill rng "(x, rng')"] N_gt_1 by fastforce

section \<open>Modular powers and inverses\<close>

lemma pow_mod_fold:
  assumes "subtle_laws S" "limbs m ! 3 \<noteq> 0" "1 < z256_val m" "z256_val base < z256_val m" "n \<le> 256"
  shows "\<exists>r b. foldl (pow_mod_step S e m) (Some (z256_one, base)) [0..<n] = Some (r, b) \<and>
     z256_val r = z256_val base ^ take_bit n (z256_val e) mod z256_val m \<and>
     z256_val b = z256_val base ^ (2 ^ n) mod z256_val m"
  using assms(5)
proof (induction n)
  case 0
  then show ?case using assms(3,4) by (simp add: z256_one_def)
next
  case (Suc n)
  then obtain r b where IH: "foldl (pow_mod_step S e m) (Some (z256_one, base)) [0..<n] = Some (r, b)"
      "z256_val r = z256_val base ^ take_bit n (z256_val e) mod z256_val m" "z256_val b = z256_val base ^ (2 ^ n) mod z256_val m"
    by auto
  obtain p where p: "modmul r b m = Some p" "z256_val p = z256_val r * z256_val b mod z256_val m"
    using modmul_val [OF assms(2)] by blast
  obtain q where q: "modmul b b m = Some q" "z256_val q = z256_val b * z256_val b mod z256_val m"
    using modmul_val [OF assms(2)] by blast
  define r' where "r' = (if bit (z256_val e) n then p else r)"
  have "foldl (pow_mod_step S e m) (Some (z256_one, base)) [0..<Suc n] = Some (r', q)"
    using Suc.prems assms(1) by (simp add: IH(1) pow_mod_step_def p(1) q(1) z256_ct_bit_val z256_ct_select_choice r'_def Let_def)
  moreover have "z256_val r' = z256_val base ^ take_bit (Suc n) (z256_val e) mod z256_val m"
    by (simp add: r'_def p(2) IH(2,3) take_bit_Suc_from_most power_add mod_mult_eq mult.commute)
  moreover have "z256_val q = z256_val base ^ (2 ^ Suc n) mod z256_val m"
    by (simp add: q(2) IH(3) mod_mult_eq mult_2 flip: power_add)
  ultimately show ?case by blast
qed

lemma pow_mod_val:
  assumes "subtle_laws S" "limbs m ! 3 \<noteq> 0" "1 < z256_val m" "z256_val base < 2 * z256_val m"
  shows "\<exists>r. pow_mod S base e m = Some r \<and> z256_val r = z256_val base ^ z256_val e mod z256_val m"
proof -
  obtain d c where d: "sub_with_borrow base m = (d, c)" by force
  define b where "b = (if z256_cmp base m \<ge> 0 then let (diff, borrow) = sub_with_borrow base m in if borrow = 0 then diff else base else base)"
  have b: "z256_val b = z256_val base mod z256_val m"
    using sub_with_borrow_cases [OF d] assms(4) by (auto simp: b_def d le_mod_geq)
  then have "z256_val b < z256_val m" using assms(3) by simp
  from pow_mod_fold [OF assms(1-3) this, of 256 e]
  obtain r b' where r: "foldl (pow_mod_step S e m) (Some (z256_one, b)) [0..<256] = Some (r, b')"
      "z256_val r = z256_val b ^ take_bit 256 (z256_val e) mod z256_val m" by auto
  have "\<not> z256_is_zero m" using assms(3) by (simp add: z256_is_zero_iff)
  then have "pow_mod S base e m = map_option fst (foldl (pow_mod_step S e m) (Some (z256_one, b)) [0..<256])"
    unfolding pow_mod_def b_def by (simp add: Let_def)
  then have "pow_mod S base e m = Some r" by (simp add: r(1))
  moreover have "take_bit 256 (z256_val e) = z256_val e" using z256_val_bound by (simp add: take_bit_nat_eq_self_iff)
  ultimately show ?thesis using r(2) b by (simp add: power_mod)
qed

lemma modinv_N:
  assumes "subtle_laws S" "z256_val a < z256_val z256_N" "z256_val a \<noteq> 0"
  shows "\<exists>r. modinv S a z256_N = Some (Some r) \<and> z256_val r = z256_val a ^ (z256_val z256_N - 2) mod z256_val z256_N"
proof -
  obtain d c where d: "sub_with_borrow z256_N (Z256 2 0 0 0) = (d, c)" by force
  have N2: "2 \<le> z256_val z256_N" using N_gt_1 by simp
  have dv: "c = 0" "z256_val d = z256_val z256_N - 2"
    using sub_with_borrow_cases [OF d] N2 by (auto simp: z256_val_limb)
  have "z256_val a < 2 * z256_val z256_N" using assms(2) by simp
  from pow_mod_val [OF assms(1) N_top N_gt_1 this, of d]
  show ?thesis using assms(3) by (auto simp: modinv_def z256_is_zero_iff d dv)
qed


lemma sum_mod_N:
  assumes "z256_val s < z256_val z256_N" "z256_val h < z256_val z256_N" "add_with_carry s h = (t, c)"
  shows "z256_val (if c \<noteq> 0 \<or> z256_cmp t z256_N \<ge> 0 then fst (sub_with_borrow t z256_N) else t) =
     (z256_val s + z256_val h) mod z256_val z256_N"
proof -
  obtain d e where d: "sub_with_borrow t z256_N = (d, e)" by force
  have lt: "z256_val s + z256_val h < 2 * z256_val z256_N" using assms by simp
  have N: "z256_val z256_N < 2 ^ 256" by (rule z256_val_bound)
  show ?thesis
    using add_with_carry_cases [OF assms(3)] sub_with_borrow_cases [OF d] lt N z256_val_bound [of d] z256_val_bound [of t] assms(1,2)
    by (auto simp: d le_mod_geq mod_less)
qed

text \<open>The scalar of a user key: $d = s t^{N-2}$, a solution of $d t \equiv s$ where Fermat's theorem holds for $t$.\<close>

definition user_scalar :: "nat \<Rightarrow> nat \<Rightarrow> Z256 \<Rightarrow> bool" where
  "user_scalar s t d \<longleftrightarrow> z256_val d = s * t ^ (z256_val z256_N - 2) mod z256_val z256_N \<and>
     (t ^ (z256_val z256_N - 1) mod z256_val z256_N = 1 \<longrightarrow> z256_val d * t mod z256_val z256_N = s)"

lemma extract_scalar_val:
  fixes s h :: Z256
  defines "N \<equiv> z256_val z256_N"
  defines "t \<equiv> (z256_val s + z256_val h) mod N"
  assumes "subtle_laws S" "z256_val s < N" "z256_val h < N"
  shows "t = 0 \<Longrightarrow> extract_scalar S s h = Some (Inl (CryptoError ''modular inverse failed''))"
    and "t \<noteq> 0 \<Longrightarrow> \<exists>k. extract_scalar S s h = Some (Inr k) \<and> user_scalar (z256_val s) t k"
proof -
  obtain u c where u: "add_with_carry s h = (u, c)" by force
  define v where "v = (if c \<noteq> 0 \<or> z256_cmp u z256_N \<ge> 0 then fst (sub_with_borrow u z256_N) else u)"
  have v: "z256_val v = t" using sum_mod_N [OF assms(4,5) [unfolded N_def] u] by (simp add: v_def t_def N_def)
  have e: "extract_scalar S s h = Option.bind (modinv S v z256_N) (\<lambda>i. case i of
      None \<Rightarrow> Some (Inl (CryptoError ''modular inverse failed'')) | Some i \<Rightarrow> map_option Inr (modmul s i z256_N))"
    by (simp add: extract_scalar_def u v_def)
  show "t = 0 \<Longrightarrow> extract_scalar S s h = Some (Inl (CryptoError ''modular inverse failed''))"
    by (simp add: e modinv_def z256_is_zero_iff v)
  assume "t \<noteq> 0"
  have "t < N" using N_gt_1 by (simp add: t_def N_def)
  then obtain i where i: "modinv S v z256_N = Some (Some i)" "z256_val i = t ^ (N - 2) mod N"
    using modinv_N [OF assms(3), of v] v \<open>t \<noteq> 0\<close> by (auto simp: N_def)
  obtain k where k: "modmul s i z256_N = Some k" "z256_val k = z256_val s * z256_val i mod N"
    using modmul_val [OF N_top, of s i] by (auto simp: N_def)
  have kv: "z256_val k = z256_val s * t ^ (N - 2) mod N" by (simp add: k(2) i(2) mod_mult_right_eq)
  have "z256_val k * t mod N = z256_val s" if f: "t ^ (N - 1) mod N = 1"
  proof -
    have "N - 1 = Suc (N - 2)" using N_gt_1 by (simp add: N_def)
    then have "t ^ (N - 2) * t = t ^ (N - 1)" by (simp add: mult.commute)
    then have "z256_val k * t mod N = z256_val s * t ^ (N - 1) mod N" by (simp add: kv mod_mult_left_eq mult.assoc)
    also have "\<dots> = z256_val s mod N" by (metis f mod_mult_right_eq mult.right_neutral)
    finally show ?thesis using assms(4) by simp
  qed
  then show "\<exists>k. extract_scalar S s h = Some (Inr k) \<and> user_scalar (z256_val s) t k"
    using kv by (simp add: e i(1) k(1) user_scalar_def N_def)
qed

section \<open>Byte forms\<close>

lemma z256_to_bytes_be_length [simp]: "length (z256_to_bytes_be a) = 32"
  by (simp add: z256_to_bytes_be_val)

lemma fp_part_to_bytes: "\<exists>y. fp_part what (fp_to_bytes x) = Inr y \<and> fp_ok y \<and> fp_val y = fp_val x"
proof -
  obtain r where r: "fp_from_bytes (fp_to_bytes x) = Inr (fp_from_raw r)" "z256_val r = nat_of_be (fp_to_bytes x)"
    using fp_from_bytes_ok [of "fp_to_bytes x"] by auto
  have "z256_val r = z256_val (regular_mul (fp_z x) FP_R_INV)"
    using z256_val_bound [of "regular_mul (fp_z x) FP_R_INV"]
    by (simp add: r(2) fp_to_bytes_def z256_to_bytes_be_val nat_of_be_to_be)
  then have "fp_val (fp_from_raw r) = fp_val x" using fp_from_raw_laws(2) [of r] fp_to_bytes_laws(1) [of x] by simp
  then show ?thesis using fp_from_raw_laws(1) r(1) by (auto simp: fp_part_def)
qed

lemma sign_master_bytes:
  "\<exists>x' y'. sign_master_from_bytes (fp2_to_bytes x @ fp2_to_bytes y) =
       Inr \<lparr>smk_s = z256_zero, smk_ppubs = g2_from_affine x' y'\<rparr> \<and>
     fp2_ok x' \<and> fp2_ok y' \<and> fp2_val x' = fp2_val x \<and> fp2_val y' = fp2_val y"
proof -
  obtain a where a: "fp_part ''X c0'' (fp_to_bytes (f2c0 x)) = Inr a" "fp_ok a" "fp_val a = fp_val (f2c0 x)"
    using fp_part_to_bytes by blast
  obtain b where b: "fp_part ''X c1'' (fp_to_bytes (f2c1 x)) = Inr b" "fp_ok b" "fp_val b = fp_val (f2c1 x)"
    using fp_part_to_bytes by blast
  obtain c where c: "fp_part ''Y c0'' (fp_to_bytes (f2c0 y)) = Inr c" "fp_ok c" "fp_val c = fp_val (f2c0 y)"
    using fp_part_to_bytes by blast
  obtain d where d: "fp_part ''Y c1'' (fp_to_bytes (f2c1 y)) = Inr d" "fp_ok d" "fp_val d = fp_val (f2c1 y)"
    using fp_part_to_bytes by blast
  show ?thesis
    by (intro exI [of _ "fp2_new a b"] exI [of _ "fp2_new c d"])
      (simp add: sign_master_from_bytes_def fp2_to_bytes_def a b c d Let_def fp2_val_def fp2_ok_def)
qed
section \<open>Properties\<close>

text \<open>
  C31. \<open>random_scalar\<close> returns if and only if the generator ever draws 512 bits that are not a
  multiple of $N$, and what it returns is a scalar between 1 and $N - 1$, never an error.
\<close>

theorem random_scalar_returns_iff:
  "((\<exists>y. random_scalar fill rng = Some y) \<longleftrightarrow> (\<exists>k. \<not> z256_val z256_N dvd draw fill ((next_rng fill ^^ k) rng))) \<and>
   (random_scalar fill rng = Some (x, rng') \<longrightarrow> (\<exists>s. x = Inr s \<and> 0 < z256_val s \<and> z256_val s < z256_val z256_N))"
proof -
  have "\<exists>k. \<not> z256_val z256_N dvd draw fill ((next_rng fill ^^ k) rng)" if "random_scalar fill rng = Some y" for y
    using random_scalar_result [OF that] by (metis dvd_imp_mod_0)
  then show ?thesis using random_scalar_returns [of fill _ rng] random_scalar_range [of fill rng x rng'] by blast
qed

definition fixed_rng :: "unit rng" where
  "fixed_rng = (\<lambda>_ n. (take n (replicate 32 0 @ [1] @ replicate 31 0), ()))"

lemma fixed_rng_draw: "draw fixed_rng () = 1"
  by (simp add: draw_def fixed_rng_def Let_def le_words_def u64_from_le_def nat_of_be_def replicate_numeral)

theorem random_scalar_returns_iff_witness:
  "\<exists>s rng'. random_scalar fixed_rng () = Some (Inr s, rng') \<and> 0 < z256_val s \<and> z256_val s < z256_val z256_N"
proof -
  have "\<not> z256_val z256_N dvd draw fixed_rng ((next_rng fixed_rng ^^ 0) ())"
    using N_gt_1 by (simp add: fixed_rng_draw)
  then obtain x r where "random_scalar fixed_rng () = Some (x, r)" using random_scalar_returns_iff [of fixed_rng "()"] by fast
  then show ?thesis using random_scalar_returns_iff [of fixed_rng "()" x r] by blast
qed

text \<open>
  C24. Key extraction: for a master secret $s$ between 1 and $N - 1$ and $t = (s + h_1) \bmod N$, the
  extraction fails exactly when $t = 0$; otherwise the user key is the generator times
  $d = s t^{N-2} \bmod N$, and $d t \equiv s$ where Fermat's theorem holds for $t$. The signing key
  lies in G1 under identifier 1, the encryption key in G2 under the given identifier. A master key
  without secret extracts nothing.
\<close>

theorem extract_key_correct:
  fixes k :: SignMasterKey and e :: EncMasterKey and identity :: bytes and hid :: u8
  assumes "subtle_laws S" "\<And>x. length (sm3 x) = 32"
    and "0 < z256_val (smk_s k)" "z256_val (smk_s k) < z256_val z256_N"
    and "0 < z256_val (emk_s e)" "z256_val (emk_s e) < z256_val z256_N"
  defines "t \<equiv> \<lambda>s hid. (z256_val s + z256_val (hash1 sm3 identity hid)) mod z256_val z256_N"
  shows "(if t (smk_s k) 1 = 0 then sign_extract_key sm3 S k identity = Some (Inl (CryptoError ''modular inverse failed''))
      else \<exists>d. sign_extract_key sm3 S k identity = Some (Inr \<lparr>suk_ds = g1_scalar_mul S g1_generator d, suk_ppubs = smk_ppubs k\<rparr>) \<and>
        user_scalar (z256_val (smk_s k)) (t (smk_s k) 1) d) \<and>
    (if t (emk_s e) hid = 0 then enc_extract_key_with_hid sm3 S e identity hid = Some (Inl (CryptoError ''modular inverse failed''))
      else \<exists>d. enc_extract_key_with_hid sm3 S e identity hid = Some (Inr \<lparr>euk_de = g2_scalar_mul S g2_generator d, euk_ppube = emk_ppube e\<rparr>) \<and>
        user_scalar (z256_val (emk_s e)) (t (emk_s e) hid) d) \<and>
    \<not> is_ok (the (sign_extract_key sm3 S (k\<lparr>smk_s := z256_zero\<rparr>) identity)) \<and>
    \<not> is_ok (the (enc_extract_key_with_hid sm3 S (e\<lparr>emk_s := z256_zero\<rparr>) identity hid))"
proof -
  have h: "z256_val (hash1 sm3 identity i) < z256_val z256_N" for i
    using hash1_val [of sm3 identity i, OF assms(2)] N_gt_1 by simp
  have z: "z256_is_zero z256_zero" by (simp add: z256_is_zero_iff z256_zero_def)
  have tf: "(z256_val s + z256_val (hash1 sm3 identity i)) mod z256_val z256_N = t s i" for s i by (simp add: t_def)
  note s = extract_scalar_val [OF assms(1,4) h, of 1, unfolded tf]
  note e = extract_scalar_val [OF assms(1,6) h, of hid, unfolded tf]
  have "if t (smk_s k) 1 = 0 then sign_extract_key sm3 S k identity = Some (Inl (CryptoError ''modular inverse failed''))
      else \<exists>d. sign_extract_key sm3 S k identity = Some (Inr \<lparr>suk_ds = g1_scalar_mul S g1_generator d, suk_ppubs = smk_ppubs k\<rparr>) \<and>
        user_scalar (z256_val (smk_s k)) (t (smk_s k) 1) d"
  proof (cases "t (smk_s k) 1 = 0")
    case True
    then show ?thesis using s(1) assms(3) by (simp add: sign_extract_key_def z256_is_zero_iff)
  next
    case False
    then obtain d where "extract_scalar S (smk_s k) (hash1 sm3 identity 1) = Some (Inr d)"
        "user_scalar (z256_val (smk_s k)) (t (smk_s k) 1) d" using s(2) by blast
    then show ?thesis using False assms(3) by (simp add: sign_extract_key_def z256_is_zero_iff Let_def) (rule exI [of _ d], simp)
  qed
  moreover have "if t (emk_s e) hid = 0 then enc_extract_key_with_hid sm3 S e identity hid = Some (Inl (CryptoError ''modular inverse failed''))
      else \<exists>d. enc_extract_key_with_hid sm3 S e identity hid = Some (Inr \<lparr>euk_de = g2_scalar_mul S g2_generator d, euk_ppube = emk_ppube e\<rparr>) \<and>
        user_scalar (z256_val (emk_s e)) (t (emk_s e) hid) d"
  proof (cases "t (emk_s e) hid = 0")
    case True
    then show ?thesis using e(1) assms(5) by (simp add: enc_extract_key_with_hid_def z256_is_zero_iff)
  next
    case False
    then obtain d where "extract_scalar S (emk_s e) (hash1 sm3 identity hid) = Some (Inr d)"
        "user_scalar (z256_val (emk_s e)) (t (emk_s e) hid) d" using e(2) by blast
    then show ?thesis using False assms(5) by (simp add: enc_extract_key_with_hid_def z256_is_zero_iff Let_def) (rule exI [of _ d], simp)
  qed
  ultimately show ?thesis using z by (simp add: sign_extract_key_def enc_extract_key_with_hid_def)
qed

theorem extract_key_correct_witness:
  "\<exists>d. sign_extract_key (\<lambda>_. replicate 32 0) subtle_bool \<lparr>smk_s = z256_one, smk_ppubs = g2_generator\<rparr> [] =
      Some (Inr \<lparr>suk_ds = g1_scalar_mul subtle_bool g1_generator d, suk_ppubs = g2_generator\<rparr>) \<and> user_scalar 1 2 d"
proof -
  have h: "z256_val (hash1 (\<lambda>_. replicate 32 0) [] 1) = 1"
    using hash1_val [of "\<lambda>_. replicate 32 0" "[]" 1] N_gt_1 unfolding hash_number_def sm3_zeros_40 by simp
  have two: "Suc (Suc 0) mod z256_val z256_N = 2" by (simp add: z256_N_def)
  have one: "z256_val z256_one = 1" by (simp add: z256_one_def)
  show ?thesis
    using extract_key_correct [OF subtle_bool_laws, where ?sm3.0 = "\<lambda>_. replicate 32 0" and identity = "[]" and hid = 1
        and k = "\<lparr>smk_s = z256_one, smk_ppubs = g2_generator\<rparr>" and e = "\<lparr>emk_s = z256_one, emk_ppube = g1_generator\<rparr>"]
      N_gt_1 by (simp add: one h two)
qed

text \<open>
  The byte form of the composite master key keeps the encryption secret and the two public
  points, but not the signing secret: whatever was stored, the restored key cannot derive any
  signing key.
\<close>

theorem kgc_bytes_lose_signing_secret:
  assumes "g2_to_affine (smk_ppubs (kgc_sign_master k)) = Some (x, y)" "g1_to_affine (emk_ppube (kgc_enc_master k)) = Some (u, v)"
    and "\<not> z256_is_zero (emk_s (kgc_enc_master k))"
  shows "\<exists>bs k' x' y' u' v'. kgc_to_bytes k = Inr bs \<and> length bs = 240 \<and> kgc_from_bytes bs = Some (Inr k') \<and>
      emk_s (kgc_enc_master k') = emk_s (kgc_enc_master k) \<and>
      emk_ppube (kgc_enc_master k') = g1_from_affine u' v' \<and> fp_val u' = fp_val u \<and> fp_val v' = fp_val v \<and>
      smk_ppubs (kgc_sign_master k') = g2_from_affine x' y' \<and> fp2_val x' = fp2_val x \<and> fp2_val y' = fp2_val y \<and>
      (\<forall>identity. kgc_derive_signing_key sm3 S k' identity =
        Some (Inl (CryptoError ''Cannot extract key: master secret s is zero (public-key-only instance)'')))"
proof -
  obtain x' y' where sm: "sign_master_from_bytes (fp2_to_bytes x @ fp2_to_bytes y) = Inr \<lparr>smk_s = z256_zero, smk_ppubs = g2_from_affine x' y'\<rparr>"
      "fp2_val x' = fp2_val x" "fp2_val y' = fp2_val y" using sign_master_bytes by blast
  obtain u' where u: "fp_part ''ppube x'' (fp_to_bytes u) = Inr u'" "fp_val u' = fp_val u" using fp_part_to_bytes by blast
  obtain v' where v: "fp_part ''ppube y'' (fp_to_bytes v) = Inr v'" "fp_val v' = fp_val v" using fp_part_to_bytes by blast
  define sb eb where "sb = fp2_to_bytes x @ fp2_to_bytes y"
    and "eb = z256_to_bytes_be (emk_s (kgc_enc_master k)) @ fp_to_bytes u @ fp_to_bytes v"
  define bs where "bs = u64_to_le 128 @ sb @ u64_to_le 96 @ eb"
  have len: "length sb = 128" "length eb = 96"
    by (simp_all add: sb_def eb_def fp2_to_bytes_laws(1) z256_to_bytes_be_val)
  have parts: "take 32 eb = z256_to_bytes_be (emk_s (kgc_enc_master k))" "take 32 (drop 32 eb) = fp_to_bytes u" "take 32 (drop 64 eb) = fp_to_bytes v"
    by (simp_all add: eb_def z256_to_bytes_be_val)
  have to: "kgc_to_bytes k = Inr bs"
    using assms(1,2) len by (simp add: kgc_to_bytes_def sign_master_to_bytes_def bs_def sb_def [symmetric] eb_def [symmetric])
  have "kgc_from_bytes bs = Some (Inr \<lparr>kgc_sign_master = \<lparr>smk_s = z256_zero, smk_ppubs = g2_from_affine x' y'\<rparr>,
      kgc_enc_master = \<lparr>emk_s = emk_s (kgc_enc_master k), emk_ppube = g1_from_affine u' v'\<rparr>\<rparr>)"
    using len assms(3) by (simp add: kgc_from_bytes_def bs_def sm(1) [folded sb_def] parts z256_from_to_bytes_be u(1) v(1))
  moreover have "z256_is_zero z256_zero" by (simp add: z256_is_zero_iff z256_zero_def)
  ultimately show ?thesis
    using to len sm u v by (intro exI [of _ bs]) (auto simp: bs_def kgc_derive_signing_key_def sign_extract_key_def)
qed

theorem kgc_bytes_lose_signing_secret_witness:
  "\<exists>bs k'. kgc_to_bytes \<lparr>kgc_sign_master = \<lparr>smk_s = z256_one, smk_ppubs = g2_from_affine fp2_zero fp2_zero\<rparr>,
        kgc_enc_master = \<lparr>emk_s = z256_one, emk_ppube = g1_from_affine fp_zero fp_zero\<rparr>\<rparr> = Inr bs \<and>
      kgc_from_bytes bs = Some (Inr k') \<and>
      kgc_derive_signing_key (\<lambda>_. replicate 32 0) subtle_bool k' [] =
        Some (Inl (CryptoError ''Cannot extract key: master secret s is zero (public-key-only instance)''))"
proof -
  have "fp_unit fp_one" "fp2_unit fp2_one" by (simp_all add: fp_unit_def fp2_unit_def fp2_norm_def fp2_one_def fp2_new_def fp_rules)
  then have "\<exists>x y. g1_to_affine (g1_from_affine fp_zero fp_zero) = Some (x, y)"
      "\<exists>x y. g2_to_affine (g2_from_affine fp2_zero fp2_zero) = Some (x, y)"
    using g1_to_affine_val [OF g1_from_affine_laws(1,2) [of fp_zero fp_zero]] g2_to_affine_val [OF g2_from_affine_laws(1,2) [of fp2_zero fp2_zero]]
    by (auto simp: fp_rules fp2_rules g1_from_affine_def g2_from_affine_def)
  moreover have "\<not> z256_is_zero z256_one" by (simp add: z256_is_zero_iff z256_one_def)
  ultimately show ?thesis
    using kgc_bytes_lose_signing_secret [where k = "\<lparr>kgc_sign_master = \<lparr>smk_s = z256_one, smk_ppubs = g2_from_affine fp2_zero fp2_zero\<rparr>,
        kgc_enc_master = \<lparr>emk_s = z256_one, emk_ppube = g1_from_affine fp_zero fp_zero\<rparr>\<rparr>" and ?sm3.0 = "\<lambda>_. replicate 32 0" and S = subtle_bool]
    by fastforce
qed

end
