(* ===== verification/Sm9_Sign.thy ===== *)
theory Sm9_Sign
  imports Sm9_Key Sm9_Pairing Gm_Der
begin

text \<open>
  SM9 signatures, \<open>gm-sm9-rs/src/sign.rs\<close>: signing with its retry loop and its check of the own
  signature, verification, and the raw and DER forms of a signature.
  Shown: a signer that knows its identity returns only signatures its verifier accepts; the raw
  form is a round trip; the DER form is one exactly for hash values of at least $2^{248}$.
\<close>

section \<open>Messages\<close>

fun show_der_error :: "DerError \<Rightarrow> string" where
  "show_der_error (ParseError s) = ''DER parse error: '' @ s"
| "show_der_error (EncodeError s) = ''DER encode error: '' @ s"

definition show_hex2_lower :: "u8 \<Rightarrow> string" where
  "show_hex2_lower b = [''0123456789abcdef'' ! (unat b div 16), ''0123456789abcdef'' ! (unat b mod 16)]"

section \<open>Signatures as bytes\<close>

record Signature =
  sig_h :: Z256
  sig_s :: G1Point

definition g1_point_bytes :: "G1Point \<Rightarrow> bytes" where
  "g1_point_bytes s =
     (case g1_to_affine s of
        Some (x, y) \<Rightarrow> [0x04] @ fp_to_bytes x @ fp_to_bytes y
      | None \<Rightarrow> [0x00] @ replicate 64 0)"

definition signature_to_bytes :: "Signature \<Rightarrow> bytes" where
  "signature_to_bytes sig = z256_to_bytes_be (sig_h sig) @ g1_point_bytes (sig_s sig)"

definition asn1_integer :: "bytes \<Rightarrow> bytes" where
  "asn1_integer data =
     (let trimmed = dropWhile (\<lambda>b. b = 0) data;
          data = (if trimmed = [] then [0] else trimmed);
          needs_sign_bit = (hd data AND 0x80 \<noteq> 0);
          content_len = length data + (if needs_sign_bit then 1 else 0)
      in [0x02] @ der_len content_len @ (if needs_sign_bit then [0x00] else []) @ data)"

definition signature_to_der :: "Signature \<Rightarrow> bytes" where
  "signature_to_der sig =
     (let h_bytes = z256_to_bytes_be (sig_h sig);
          h_int = asn1_integer h_bytes;
          s_bitstring = der_bit_string (g1_point_bytes (sig_s sig))
      in der_sequence (h_int @ s_bitstring))"

definition signature_from_bytes :: "bytes \<Rightarrow> (Sm9Error, Signature) res" where
  "signature_from_bytes bs =
     (if length bs = 32 + 65 then
        bind_res (ok_or (z256_from_bytes_be (take 32 bs)) (InvalidParameter ''Invalid h value'')) (\<lambda>h.
        if bs ! 32 \<noteq> 0x04
        then Inl (InvalidParameter (''Invalid S point prefix: expected 0x04, got 0x'' @ show_hex2_lower (bs ! 32)))
        else
          bind_res (map_err ArithError (fp_from_bytes (take 32 (drop 33 bs)))) (\<lambda>x.
          bind_res (map_err ArithError (fp_from_bytes (take 32 (drop 65 bs)))) (\<lambda>y.
          let s = g1_from_affine x y in Inr \<lparr>sig_h = h, sig_s = s\<rparr>)))
      else if length bs = 32 + 64 then
        bind_res (ok_or (z256_from_bytes_be (take 32 bs)) (InvalidParameter ''Invalid h value'')) (\<lambda>h.
        bind_res (map_err ArithError (fp_from_bytes (take 32 (drop 32 bs)))) (\<lambda>x.
        bind_res (map_err ArithError (fp_from_bytes (take 32 (drop 64 bs)))) (\<lambda>y.
        let s = g1_from_affine x y in Inr \<lparr>sig_h = h, sig_s = s\<rparr>)))
      else Inl (InvalidParameter (''Invalid signature bytes length: expected 97 or 96, got '' @ show_nat (length bs))))"

definition parse_asn1_sequence :: "bytes \<Rightarrow> (Sm9Error, bytes) res" where
  "parse_asn1_sequence data =
     bind_res (map_err (\<lambda>e. InvalidParameter (show_der_error e)) (parse_der_sequence data)) (\<lambda>(rest, content). Inr content)"

definition parse_asn1_bit_string :: "bytes \<Rightarrow> (Sm9Error, bytes \<times> bytes) res" where
  "parse_asn1_bit_string data =
     bind_res (map_err (\<lambda>e. InvalidParameter (show_der_error e)) (parse_der_bit_string data)) (\<lambda>(rest, content_with_unused).
       if content_with_unused = [] \<or> hd content_with_unused \<noteq> 0
       then Inl (InvalidParameter ''Unsupported unused bits in BIT STRING'')
       else Inr (drop 1 content_with_unused, rest))"

definition parse_asn1_integer :: "bytes \<Rightarrow> (Sm9Error, bytes \<times> bytes) res" where
  "parse_asn1_integer data =
     bind_res (map_err (\<lambda>e. InvalidParameter (show_der_error e)) (parse_der_integer data)) (\<lambda>(rest, content).
       let content = (if length content > 1 \<and> hd content = 0x00 then drop 1 content else content)
       in Inr (content, rest))"

definition signature_from_der :: "bytes \<Rightarrow> (Sm9Error, Signature) res" where
  "signature_from_der der =
     bind_res (parse_asn1_sequence der) (\<lambda>content.
     bind_res (if content \<noteq> [] \<and> hd content = 0x04
               then bind_res (map_err (\<lambda>e. InvalidParameter (show_der_error e)) (parse_der_octet_string content)) (\<lambda>(rest, val). Inr (val, rest))
               else parse_asn1_integer content) (\<lambda>(h_bytes, rest).
     if length h_bytes \<noteq> 32 then Inl (InvalidParameter (''Invalid h length: expected 32, got '' @ show_nat (length h_bytes)))
     else
       bind_res (ok_or (z256_from_bytes_be h_bytes) (InvalidParameter ''Invalid h value'')) (\<lambda>h.
       bind_res (parse_asn1_bit_string rest) (\<lambda>(s_bytes, _).
       if length s_bytes \<noteq> 65 \<or> hd s_bytes \<noteq> 0x04
       then Inl (InvalidParameter (''Invalid S point format: expected 65 bytes with 0x04 prefix, got '' @ show_nat (length s_bytes) @
         '' bytes with prefix 0x'' @ show_hex2_lower (if s_bytes = [] then 0 else hd s_bytes)))
       else
         bind_res (map_err (\<lambda>_. InvalidParameter ''Invalid S x coordinate'') (fp_from_bytes (take 32 (drop 1 s_bytes)))) (\<lambda>x.
         bind_res (map_err (\<lambda>_. InvalidParameter ''Invalid S y coordinate'') (fp_from_bytes (take 32 (drop 33 s_bytes)))) (\<lambda>y.
         let s = g1_from_affine x y in Inr \<lparr>sig_h = h, sig_s = s\<rparr>))))))"

section \<open>Signing and verifying\<close>

record Signer =
  signer_key :: SignUserKey
  signer_identity :: bytes

definition signer_new :: "SignUserKey \<Rightarrow> Signer" where
  "signer_new key = \<lparr>signer_key = key, signer_identity = []\<rparr>"

definition signer_with_identity :: "SignUserKey \<Rightarrow> bytes \<Rightarrow> Signer" where
  "signer_with_identity key identity = \<lparr>signer_key = key, signer_identity = identity\<rparr>"

record Verifier =
  verifier_identity :: bytes
  verifier_ppubs :: G2Point

definition verifier_new :: "bytes \<Rightarrow> G2Point \<Rightarrow> Verifier" where
  "verifier_new identity ppubs = \<lparr>verifier_identity = identity, verifier_ppubs = ppubs\<rparr>"

definition verify :: "(bytes \<Rightarrow> bytes) \<Rightarrow> 'c subtle \<Rightarrow> Verifier \<Rightarrow> bytes \<Rightarrow> Signature \<Rightarrow> (Sm9Error, bool) res" where
  "verify sm3 S v message sig =
     (if g1_is_identity (sig_s sig) then Inr False
      else
        let h1 = hash1 sm3 (verifier_identity v) 0x01;
            p2 = g2_generator;
            p = g2_add (g2_scalar_mul S p2 h1) (verifier_ppubs v);
            p1 = g1_generator;
            g = pairing p1 (verifier_ppubs v);
            u = pairing (sig_s sig) p;
            t = fp12_pow g (sig_h sig);
            w_prime = fp12_mul u t;
            w_bytes = fp12_to_bytes_gmssl w_prime;
            h_prime = hash2 sm3 message w_bytes;
            h_matches = choice_into S (z256_ct_eq S h_prime (sig_h sig))
        in Inr h_matches)"

definition sign_attempt :: "(bytes \<Rightarrow> bytes) \<Rightarrow> 'c subtle \<Rightarrow> 'r rng \<Rightarrow> Signer \<Rightarrow> bytes \<Rightarrow> Fp12 \<Rightarrow> ('r, Sm9Error, Signature option) io" where
  "sign_attempt sm3 S fill sn message g =
     io_bind (random_scalar fill) (\<lambda>r.
       let w = fp12_pow g r;
           w_bytes = fp12_to_bytes_gmssl w;
           h = hash2 sm3 message w_bytes;
           l = sub_mod r h z256_N
       in if \<not> z256_is_zero l then
            let s = g1_scalar_mul S (suk_ds (signer_key sn)) l;
                sig = \<lparr>sig_h = h, sig_s = s\<rparr>
            in if signer_identity sn \<noteq> [] then
                 let verifier = verifier_new (signer_identity sn) (suk_ppubs (signer_key sn))
                 in case verify sm3 S verifier message sig of
                      Inl e \<Rightarrow> io_fail e
                    | Inr ok \<Rightarrow> if \<not> ok then io_return None else io_return (Some sig)
               else io_return (Some sig)
          else io_return None)"

definition MAX_SIGN_RETRIES :: nat where
  "MAX_SIGN_RETRIES = 128"

definition sign :: "(bytes \<Rightarrow> bytes) \<Rightarrow> 'c subtle \<Rightarrow> 'r rng \<Rightarrow> Signer \<Rightarrow> bytes \<Rightarrow> ('r, Sm9Error, Signature) io" where
  "sign sm3 S fill sn message =
     (let p1 = g1_generator;
          g = pairing p1 (suk_ppubs (signer_key sn))
      in io_retry MAX_SIGN_RETRIES (sign_attempt sm3 S fill sn message g)
           (io_fail (SigningError (''Max retries exceeded '' @ [CHR 0xE2, CHR 0x80, CHR 0x94] @ '' this should never happen''))))"

section \<open>The encodings\<close>

lemma g1_point_bytes_length [simp]: "length (g1_point_bytes s) = 65"
  by (simp add: g1_point_bytes_def split: option.splits)

text \<open>Reading back the coordinates of an affine point.\<close>

lemma fp_from_to_bytes: "\<exists>y. fp_from_bytes (fp_to_bytes x) = Inr y \<and> fp_ok y \<and> fp_val y = fp_val x"
  using fp_part_to_bytes [of "''''" x] by (auto simp: fp_part_def map_err_def split: sum.splits)

lemma signature_raw:
  assumes "g1_to_affine (sig_s sig) = Some (x, y)"
  shows "\<exists>x' y'. signature_from_bytes (signature_to_bytes sig) = Inr \<lparr>sig_h = sig_h sig, sig_s = g1_from_affine x' y'\<rparr> \<and>
     fp_ok x' \<and> fp_ok y' \<and> fp_val x' = fp_val x \<and> fp_val y' = fp_val y"
proof -
  obtain x' where x: "fp_from_bytes (fp_to_bytes x) = Inr x'" "fp_ok x'" "fp_val x' = fp_val x" using fp_from_to_bytes by blast
  obtain y' where y: "fp_from_bytes (fp_to_bytes y) = Inr y'" "fp_ok y'" "fp_val y' = fp_val y" using fp_from_to_bytes by blast
  have "signature_to_bytes sig = z256_to_bytes_be (sig_h sig) @ [0x04] @ fp_to_bytes x @ fp_to_bytes y"
    using assms by (simp add: signature_to_bytes_def g1_point_bytes_def)
  then show ?thesis
    using x y by (intro exI [of _ x'] exI [of _ y']) (simp add: signature_from_bytes_def z256_from_to_bytes_be nth_append)
qed

definition int_content :: "bytes \<Rightarrow> bytes" where
  "int_content data = (if dropWhile (\<lambda>b. b = 0) data = [] then [0] else dropWhile (\<lambda>b. b = 0) data)"

lemma parse_asn1_integer_enc:
  assumes "length data < 1000"
  shows "parse_asn1_integer (asn1_integer data @ rest) = Inr (int_content data, rest)"
proof -
  define c where "c = int_content data"
  define sg where "sg = (if hd c AND 0x80 \<noteq> 0 then [0x00::u8] else [])"
  have len: "length c < 1001" "c \<noteq> []" using assms length_dropWhile_le [of "\<lambda>b. b = 0" data]
    by (auto simp: c_def int_content_def)
  have hd: "hd c = 0 \<longrightarrow> length c = 1"
    using hd_dropWhile [of "\<lambda>b. b = 0" data] by (auto simp: c_def int_content_def)
  have e: "asn1_integer data = 0x02 # der_len (length (sg @ c)) @ (sg @ c)"
    unfolding asn1_integer_def Let_def int_content_def [symmetric] c_def [symmetric] by (simp add: sg_def add.commute)
  have "length (sg @ c) < 2 ^ 32" using len(1) by (simp add: sg_def)
  then have p: "parse_der_integer (asn1_integer data @ rest) = Inr (rest, sg @ c)"
    unfolding e parse_der_integer_def using parse_der_tagged_enc [of "sg @ c"] by simp
  have "(if length (sg @ c) > 1 \<and> hd (sg @ c) = 0x00 then drop 1 (sg @ c) else sg @ c) = c"
    using len(2) hd by (cases c) (auto simp: sg_def)
  then show ?thesis unfolding parse_asn1_integer_def p map_err_simps bind_res_Inr prod.case Let_def c_def [symmetric]
    by (simp only:)
qed

lemma int_content_length:
  assumes "length bs = 32"
  shows "length (int_content bs) = 32 \<longleftrightarrow> 2 ^ 248 \<le> nat_of_be bs" "2 ^ 248 \<le> nat_of_be bs \<Longrightarrow> int_content bs = bs"
proof -
  obtain b bs' where b: "bs = b # bs'" "length bs' = 31" using assms by (cases bs) auto
  have v: "nat_of_be bs = unat b * 2 ^ 248 + nat_of_be bs'" using b by (simp add: nat_of_be_Cons)
  have lt: "nat_of_be bs' < 2 ^ 248" using nat_of_be_bound [of bs'] b(2) by simp
  have z: "2 ^ 248 \<le> nat_of_be bs \<longleftrightarrow> b \<noteq> 0"
  proof (cases "b = 0")
    case False
    then have "1 * 2 ^ 248 \<le> unat b * 2 ^ 248" by (intro mult_le_mono1) (simp add: Suc_leI unat_gt_0)
    then show ?thesis using v False by simp
  qed (use v lt in simp)
  show "2 ^ 248 \<le> nat_of_be bs \<Longrightarrow> int_content bs = bs" using z b by (simp add: int_content_def)
  show "length (int_content bs) = 32 \<longleftrightarrow> 2 ^ 248 \<le> nat_of_be bs"
    using z b length_dropWhile_le [of "\<lambda>b. b = 0" bs'] by (auto simp: int_content_def)
qed

lemma parse_asn1_bit_string_enc:
  assumes "length bits < 1000"
  shows "parse_asn1_bit_string (der_bit_string bits @ rest) = Inr (bits, rest)"
  using parse_der_tagged_enc [of "0x00 # bits"] assms
  by (simp add: parse_asn1_bit_string_def der_bit_string_def parse_der_bit_string_def)

lemma asn1_integer_length:
  assumes "length data \<le> 32"
  shows "length (asn1_integer data) \<le> 40"
proof -
  have c: "length (int_content data) \<le> 33"
    using assms length_dropWhile_le [of "\<lambda>b. b = 0" data] by (auto simp: int_content_def)
  have "length (asn1_integer data) \<le> 1 + 5 + 1 + length (int_content data)"
    unfolding asn1_integer_def Let_def int_content_def [symmetric]
    using length_der_len [of "length (int_content data)"] length_der_len [of "Suc (length (int_content data))"] by simp
  then show ?thesis using c by simp
qed

lemma signature_der:
  assumes "g1_to_affine (sig_s sig) = Some (x, y)"
  shows "2 ^ 248 \<le> z256_val (sig_h sig) \<Longrightarrow> \<exists>x' y'.
      signature_from_der (signature_to_der sig) = Inr \<lparr>sig_h = sig_h sig, sig_s = g1_from_affine x' y'\<rparr> \<and>
      fp_ok x' \<and> fp_ok y' \<and> fp_val x' = fp_val x \<and> fp_val y' = fp_val y"
    and "z256_val (sig_h sig) < 2 ^ 248 \<Longrightarrow>
      signature_from_der (signature_to_der sig) = Inl (InvalidParameter (''Invalid h length: expected 32, got '' @
        show_nat (length (int_content (z256_to_bytes_be (sig_h sig))))))"
proof -
  obtain x' where x: "fp_from_bytes (fp_to_bytes x) = Inr x'" "fp_ok x'" "fp_val x' = fp_val x" using fp_from_to_bytes by blast
  obtain y' where y: "fp_from_bytes (fp_to_bytes y) = Inr y'" "fp_ok y'" "fp_val y' = fp_val y" using fp_from_to_bytes by blast
  define hb where "hb = z256_to_bytes_be (sig_h sig)"
  define bits where "bits = der_bit_string (g1_point_bytes (sig_s sig))"
  have hb: "length hb = 32" "nat_of_be hb = z256_val (sig_h sig)"
    using z256_val_bound [of "sig_h sig"] by (simp_all add: hb_def z256_to_bytes_be_val nat_of_be_to_be)
  have der: "signature_to_der sig = der_sequence (asn1_integer hb @ bits)"
    by (simp add: signature_to_der_def hb_def bits_def)
  have "length (asn1_integer hb @ bits) < 2 ^ 32"
    using asn1_integer_length [of hb] hb length_der_len [of 66] by (simp add: bits_def der_bit_string_def)
  then have sq: "parse_asn1_sequence (signature_to_der sig) = Inr (asn1_integer hb @ bits)"
    using der_seq.dec_enc_all by (simp add: der parse_asn1_sequence_def)
  have i: "parse_asn1_integer (asn1_integer hb @ bits) = Inr (int_content hb, bits)"
    by (rule parse_asn1_integer_enc) (simp add: hb)
  have tag: "asn1_integer hb @ bits \<noteq> []" "hd (asn1_integer hb @ bits) \<noteq> 0x04" by (simp_all add: asn1_integer_def Let_def)
  have b: "parse_asn1_bit_string bits = Inr (g1_point_bytes (sig_s sig), [])"
    using parse_asn1_bit_string_enc [of "g1_point_bytes (sig_s sig)" "[]"] by (simp add: bits_def)
  have pt: "g1_point_bytes (sig_s sig) = [0x04] @ fp_to_bytes x @ fp_to_bytes y" using assms by (simp add: g1_point_bytes_def)
  note eq = signature_from_der_def sq i tag bind_res_Inr prod.case
  show "\<exists>x' y'. signature_from_der (signature_to_der sig) = Inr \<lparr>sig_h = sig_h sig, sig_s = g1_from_affine x' y'\<rparr> \<and>
      fp_ok x' \<and> fp_ok y' \<and> fp_val x' = fp_val x \<and> fp_val y' = fp_val y" if "2 ^ 248 \<le> z256_val (sig_h sig)"
  proof -
    have "int_content hb = hb" using int_content_length(2) [OF hb(1)] that hb(2) by simp
    then show ?thesis using x y hb(1)
      by (intro exI [of _ x'] exI [of _ y']) (simp add: eq b pt, simp add: hb_def z256_from_to_bytes_be)
  qed
  show "signature_from_der (signature_to_der sig) = Inl (InvalidParameter (''Invalid h length: expected 32, got '' @
        show_nat (length (int_content (z256_to_bytes_be (sig_h sig))))))" if "z256_val (sig_h sig) < 2 ^ 248"
  proof -
    have "length (int_content hb) \<noteq> 32" using int_content_length(1) [OF hb(1)] that hb(2) by simp
    then show ?thesis unfolding hb_def [symmetric] by (simp add: eq)
  qed
qed


section \<open>Scalar one\<close>

text \<open>Double-and-add with the scalar one, for the concrete instances below.\<close>

lemma bit_one_iff: "bit (z256_val z256_one) i \<longleftrightarrow> i = 0"
  by (simp add: z256_one_def bit_Suc_0_iff)

lemma g1_identity_ops: "g1_double g1_identity = g1_identity" "g1_add g1_identity p = p"
  by (simp_all add: g1_double_def g1_add_def g1_identity_on(2))

lemma g1_double_and_add_one: "double_and_add g1_double g1_add g1_identity p z256_one = p"
proof -
  define st where "st = (\<lambda>r i. if bit (z256_val z256_one) i then g1_add (g1_double r) p else g1_double r)"
  have "foldl st g1_identity is = g1_identity" if "\<forall>i \<in> set is. i \<noteq> 0" for "is"
    using that by (induction "is") (simp_all add: st_def bit_one_iff g1_identity_ops)
  moreover have "rev [0..<256] = rev [1..<256] @ [0::nat]" by (simp add: upt_rec [of 0])
  ultimately have "foldl st g1_identity (rev [0..<256]) = st g1_identity 0" by simp
  then show ?thesis by (simp add: double_and_add_def st_def bit_one_iff g1_identity_ops)
qed

lemma g1_scalar_mul_one: "subtle_laws S \<Longrightarrow> g1.same (g1_scalar_mul S p z256_one) p"
  using g1.scalar_mul_same [of S z256_one p] by (simp add: g1_scalar_mul_def g1_scalar_mul_ct_def g1_double_and_add_one)

section \<open>Properties\<close>

lemma sign_attempt_verified:
  assumes "signer_identity sn \<noteq> []" "sign_attempt sm3 S fill sn message g r = Some (Inr (Some sig), r')"
  shows "verify sm3 S (verifier_new (signer_identity sn) (suk_ppubs (signer_key sn))) message sig = Inr True"
  using assms by (auto simp: sign_attempt_def io_bind_Ok Let_def split: if_splits sum.splits)

text \<open>
  C4. Sign-then-verify: a signer that was given its identity returns only signatures that the verifier
  for that identity and master key accepts, whatever the generator draws; it gives up with an error
  after 128 attempts and never returns an unchecked signature.
\<close>

theorem signatures_verify:
  assumes "signer_identity sn \<noteq> []" "sign sm3 S fill sn message rng = Some (Inr sig, rng')"
  shows "verify sm3 S (verifier_new (signer_identity sn) (suk_ppubs (signer_key sn))) message sig = Inr True \<and>
    \<not> g1_is_identity (sig_s sig)"
proof -
  have v: "verify sm3 S (verifier_new (signer_identity sn) (suk_ppubs (signer_key sn))) message sig = Inr True"
    using assms(2) sign_attempt_verified [OF assms(1)] unfolding sign_def Let_def by (auto dest!: io_retry_Ok)
  then show ?thesis by (auto simp: verify_def split: if_splits)
qed

definition two_rng :: "unit rng" where
  "two_rng = (\<lambda>_ n. (take n (replicate 32 0 @ [2] @ replicate 31 0), ()))"

lemma two_rng_scalar: "random_scalar two_rng () = Some (Inr (Z256 2 0 0 0), ())"
proof -
  have "draw two_rng () = 2"
    by (simp add: draw_def two_rng_def Let_def le_words_def u64_from_le_def nat_of_be_def replicate_numeral)
  moreover have "2 mod z256_val z256_N = z256_val (Z256 2 0 0 0)" by (simp add: z256_N_def)
  ultimately obtain s where s: "z256_val s = z256_val (Z256 2 0 0 0)"
      "random_scalar two_rng () = (if z256_val s = 0 then random_scalar two_rng (next_rng two_rng ()) else Some (Inr s, next_rng two_rng ()))"
    using random_scalar_step [of two_rng "()"] by metis
  then have "s = Z256 2 0 0 0" by (simp only: z256_val_inj)
  then show ?thesis using s by simp
qed

lemma hash_zeros: "hash1 (\<lambda>_. replicate 32 0) i hid = z256_one" "hash2 (\<lambda>_. replicate 32 0) m w = z256_one"
proof -
  have "z256_val (hash1 (\<lambda>_. replicate 32 0) i hid) = z256_val z256_one" "z256_val (hash2 (\<lambda>_. replicate 32 0) m w) = z256_val z256_one"
    using hash1_val [of "\<lambda>_. replicate 32 0" i hid] hash2_val [of "\<lambda>_. replicate 32 0" m w] N_gt_1
    unfolding hash_number_def sm3_zeros_40 by (simp_all add: z256_one_def)
  then show "hash1 (\<lambda>_. replicate 32 0) i hid = z256_one" "hash2 (\<lambda>_. replicate 32 0) m w = z256_one"
    by (simp_all only: z256_val_inj)
qed

lemma sub_two_one: "sub_mod (Z256 2 0 0 0) z256_one z256_N = z256_one"
  by (simp add: sub_mod_def sub_with_borrow_def overflowing_sub_def z256_one_def z256_of_def)

theorem signatures_verify_witness:
  "\<exists>sig. sign (\<lambda>_. replicate 32 0) subtle_bool two_rng
        (signer_with_identity \<lparr>suk_ds = g1_from_affine fp_zero fp_zero, suk_ppubs = g2_generator\<rparr> [0x41]) [] () = Some (Inr sig, ()) \<and>
     verify (\<lambda>_. replicate 32 0) subtle_bool (verifier_new [0x41] g2_generator) [] sig = Inr True"
proof -
  let ?sm3 = "\<lambda>_::bytes. replicate 32 0 :: bytes"
  define sn where "sn = signer_with_identity \<lparr>suk_ds = g1_from_affine fp_zero fp_zero, suk_ppubs = g2_generator\<rparr> [0x41]"
  define sig where "sig = \<lparr>sig_h = z256_one, sig_s = g1_scalar_mul subtle_bool (g1_from_affine fp_zero fp_zero) z256_one\<rparr>"
  have nid: "\<not> g1_is_identity (sig_s sig)"
    using g1_scalar_mul_one [OF subtle_bool_laws, of "g1_from_affine fp_zero fp_zero"] g1_from_affine_laws(2) [of fp_zero fp_zero] fp.zero_ok
    by (auto simp: sig_def g1.same_def)
  have nz: "\<not> z256_is_zero z256_one" by (simp add: z256_is_zero_iff z256_one_def)
  have v: "verify ?sm3 subtle_bool (verifier_new [0x41] g2_generator) [] sig = Inr True"
    using nid subtle_bool_laws by (simp add: verify_def Let_def hash_zeros z256_ct_eq_choice subtle_laws_def verifier_new_def) (simp add: sig_def)
  have "sign_attempt ?sm3 subtle_bool two_rng sn [] g () = Some (Inr (Some sig), ())" for g
    using nz v two_rng_scalar by (simp add: sign_attempt_def hash_zeros sub_two_one sn_def signer_with_identity_def sig_def Let_def)
  then have s: "sign ?sm3 subtle_bool two_rng sn [] () = Some (Inr sig, ())"
    unfolding sign_def Let_def MAX_SIGN_RETRIES_def by (simp add: numeral_eq_Suc io_retry_first)
  have "signer_identity sn \<noteq> []" by (simp add: sn_def signer_with_identity_def)
  from signatures_verify [OF this s] s show ?thesis by (auto simp: sn_def signer_with_identity_def)
qed

text \<open>
  C29. Signatures as bytes: the raw form $h \| S$ is read back with the same hash value and the same
  point. The DER form is read back only when $h \geq 2^{248}$; for every smaller hash value the
  reader rejects what the writer wrote, because it asks for 32 bytes of a minimal INTEGER.
\<close>

theorem signature_encodings:
  assumes "g1_to_affine (sig_s sig) = Some (x, y)"
  shows "(\<exists>x' y'. signature_from_bytes (signature_to_bytes sig) = Inr \<lparr>sig_h = sig_h sig, sig_s = g1_from_affine x' y'\<rparr> \<and>
       fp_val x' = fp_val x \<and> fp_val y' = fp_val y) \<and>
    (if 2 ^ 248 \<le> z256_val (sig_h sig)
     then \<exists>x' y'. signature_from_der (signature_to_der sig) = Inr \<lparr>sig_h = sig_h sig, sig_s = g1_from_affine x' y'\<rparr> \<and>
       fp_val x' = fp_val x \<and> fp_val y' = fp_val y
     else \<not> is_ok (signature_from_der (signature_to_der sig)))"
  using signature_raw [OF assms] signature_der [OF assms] by auto

theorem signature_encodings_witness:
  "\<not> is_ok (signature_from_der (signature_to_der \<lparr>sig_h = z256_one, sig_s = g1_from_affine fp_zero fp_zero\<rparr>))"
proof -
  have "fp_unit fp_one" by (simp add: fp_unit_def fp_rules)
  then obtain x y where "g1_to_affine (g1_from_affine fp_zero fp_zero) = Some (x, y)"
    using g1_to_affine_val [OF g1_from_affine_laws(1,2) [of fp_zero fp_zero]] by (auto simp: fp_rules g1_from_affine_def)
  then show ?thesis
    using signature_encodings [of "\<lparr>sig_h = z256_one, sig_s = g1_from_affine fp_zero fp_zero\<rparr>" x y] by (simp add: z256_one_def)
qed

end
