(* ===== verification/Sm9_Encrypt.thy ===== *)
theory Sm9_Encrypt
  imports Sm9_Sign
begin

text \<open>
  SM9 encryption, \<open>gm-sm9-rs/src/encrypt.rs\<close>: the key derivation loop, key encapsulation with its
  retries, encryption and decryption, and the two byte orders of a ciphertext.
  Shown: when the derivation returns and what it returns; that decryption inverts encryption for a
  key that agrees with the public key; that two bodies accepted under one tag are an SM3 collision;
  the round trips of the byte forms.
\<close>

section \<open>Key derivation\<close>

text \<open>
  The block counter is a \<open>u32\<close> that is incremented after every block: the increment behind block
  $2^{32} - 1$ overflows, and is \<open>None\<close> here.
\<close>

partial_function (option) kdf_loop :: "(bytes \<Rightarrow> bytes) \<Rightarrow> bytes \<Rightarrow> nat \<Rightarrow> u32 \<Rightarrow> bytes \<Rightarrow> bytes option" where
  "kdf_loop sm3 z klen counter k =
     (if length k < klen then
        let k = k @ sm3 (z @ u32_to_be counter)
        in if counter = 0xFFFFFFFF then None else kdf_loop sm3 z klen (counter + 1) k
      else Some k)"

definition sm9_kdf :: "(bytes \<Rightarrow> bytes) \<Rightarrow> bytes \<Rightarrow> bytes \<Rightarrow> bytes \<Rightarrow> nat \<Rightarrow> bytes option" where
  "sm9_kdf sm3 c1 w ident klen = map_option (take klen) (kdf_loop sm3 (c1 @ w @ ident) klen 1 [])"

section \<open>Ciphertexts as bytes\<close>

record Ciphertext =
  ct_c1 :: G1Point
  ct_c2 :: bytes
  ct_c3 :: bytes

definition to_bytes_c1c2c3 :: "Ciphertext \<Rightarrow> bytes" where
  "to_bytes_c1c2c3 ct = g1_point_bytes (ct_c1 ct) @ ct_c2 ct @ ct_c3 ct"

definition to_bytes_c1c3c2 :: "Ciphertext \<Rightarrow> bytes" where
  "to_bytes_c1c3c2 ct = g1_point_bytes (ct_c1 ct) @ ct_c3 ct @ ct_c2 ct"

definition ciphertext_to_bytes :: "Ciphertext \<Rightarrow> bytes" where
  "ciphertext_to_bytes ct = to_bytes_c1c3c2 ct"

definition from_bytes_c1c3c2 :: "bytes \<Rightarrow> (Sm9Error, Ciphertext) res" where
  "from_bytes_c1c3c2 bs =
     (if length bs < 65 + 32
      then Inl (InvalidParameter (''Ciphertext too short: '' @ show_nat (length bs) @ '' bytes, need at least 97''))
      else if bs ! 0 \<noteq> 0x04 \<and> bs ! 0 \<noteq> 0x00
      then Inl (InvalidParameter (''Invalid C1 prefix: expected 0x04 or 0x00, got 0x'' @ show_hex2_lower (bs ! 0)))
      else
        bind_res (map_err ArithError (fp_from_bytes (take 32 (drop 1 bs)))) (\<lambda>x.
        bind_res (map_err ArithError (fp_from_bytes (take 32 (drop 33 bs)))) (\<lambda>y.
        let c1 = g1_from_affine x y;
            c3 = take 32 (drop 65 bs);
            c2 = drop 97 bs
        in Inr \<lparr>ct_c1 = c1, ct_c2 = c2, ct_c3 = c3\<rparr>)))"

definition ciphertext_from_bytes :: "bytes \<Rightarrow> (Sm9Error, Ciphertext) res" where
  "ciphertext_from_bytes bs = from_bytes_c1c3c2 bs"

definition from_bytes_c1c2c3 :: "bytes \<Rightarrow> (Sm9Error, Ciphertext) res" where
  "from_bytes_c1c2c3 bs =
     (if length bs < 65 + 32
      then Inl (InvalidParameter (''Ciphertext too short: '' @ show_nat (length bs) @ '' bytes, need at least 97''))
      else if bs ! 0 \<noteq> 0x04 \<and> bs ! 0 \<noteq> 0x00
      then Inl (InvalidParameter (''Invalid C1 prefix: expected 0x04 or 0x00, got 0x'' @ show_hex2_lower (bs ! 0)))
      else
        bind_res (map_err ArithError (fp_from_bytes (take 32 (drop 1 bs)))) (\<lambda>x.
        bind_res (map_err ArithError (fp_from_bytes (take 32 (drop 33 bs)))) (\<lambda>y.
        let c1 = g1_from_affine x y;
            c3_len = 32;
            c2_len = length bs - 65 - c3_len;
            c2 = take c2_len (drop 65 bs);
            c3 = drop (65 + c2_len) bs
        in Inr \<lparr>ct_c1 = c1, ct_c2 = c2, ct_c3 = c3\<rparr>)))"

section \<open>Encryption and decryption\<close>

definition g1_to_bytes :: "G1Point \<Rightarrow> (Sm9Error, bytes) res" where
  "g1_to_bytes point =
     bind_res (ok_or (g1_to_affine point) InvalidPoint) (\<lambda>(x, y).
       let x_bytes = fp_to_bytes x;
           y_bytes = fp_to_bytes y
       in Inr ([0x04] @ x_bytes @ y_bytes))"

text \<open>\<open>key[i % key.len()]\<close> panics for an empty key as soon as there is a byte to encrypt.\<close>

definition xor_bytes :: "bytes \<Rightarrow> bytes \<Rightarrow> bytes option" where
  "xor_bytes data key =
     (if key = [] \<and> data \<noteq> [] then None
      else Some (map (\<lambda>(i, b). b XOR key ! (i mod length key)) (enumerate 0 data)))"

definition is_all_zeros :: "bytes \<Rightarrow> bool" where
  "is_all_zeros bs = (foldl (\<lambda>acc b. acc OR b) 0 bs = 0)"

record Encryptor =
  enc_recipient_id :: bytes
  enc_ppube :: G1Point

definition encryptor_new :: "bytes \<Rightarrow> G1Point \<Rightarrow> Encryptor" where
  "encryptor_new recipient_id ppube = \<lparr>enc_recipient_id = recipient_id, enc_ppube = ppube\<rparr>"

definition kem_point :: "(bytes \<Rightarrow> bytes) \<Rightarrow> 'c subtle \<Rightarrow> Encryptor \<Rightarrow> G1Point" where
  "kem_point sm3 S e =
     (let p1 = g1_generator;
          h1 = hash1 sm3 (enc_recipient_id e) 0x02;
          q_scalar = h1
      in g1_add (g1_scalar_mul S p1 q_scalar) (enc_ppube e))"

definition kem_attempt ::
  "(bytes \<Rightarrow> bytes) \<Rightarrow> 'c subtle \<Rightarrow> 'r rng \<Rightarrow> Encryptor \<Rightarrow> G1Point \<Rightarrow> nat \<Rightarrow> ('r, Sm9Error, (bytes \<times> G1Point) option) io" where
  "kem_attempt sm3 S fill e q_point klen =
     io_bind (random_scalar fill) (\<lambda>r.
       let c1 = g1_scalar_mul S q_point r;
           p2 = g2_generator;
           g = pairing (enc_ppube e) p2;
           w = fp12_pow g r;
           w_bytes = fp12_to_bytes_gmssl w
       in io_bind (io_lift (Some (g1_to_bytes c1))) (\<lambda>c1_bytes.
          io_bind (io_lift (map_option Inr (sm9_kdf sm3 c1_bytes w_bytes (enc_recipient_id e) klen))) (\<lambda>k.
          if \<not> is_all_zeros k then io_return (Some (k, c1)) else io_return None)))"

definition MAX_ENCRYPT_RETRIES :: nat where
  "MAX_ENCRYPT_RETRIES = 128"

definition kem_encrypt ::
  "(bytes \<Rightarrow> bytes) \<Rightarrow> 'c subtle \<Rightarrow> 'r rng \<Rightarrow> Encryptor \<Rightarrow> nat \<Rightarrow> ('r, Sm9Error, bytes \<times> G1Point) io" where
  "kem_encrypt sm3 S fill e klen =
     io_retry MAX_ENCRYPT_RETRIES (kem_attempt sm3 S fill e (kem_point sm3 S e) klen)
       (io_fail (EncryptionError (''Max retries exceeded '' @ [CHR 0xE2, CHR 0x80, CHR 0x94] @ '' KDF output all zeros'')))"

definition encrypt ::
  "(bytes \<Rightarrow> bytes) \<Rightarrow> 'c subtle \<Rightarrow> 'r rng \<Rightarrow> Encryptor \<Rightarrow> bytes \<Rightarrow> ('r, Sm9Error, Ciphertext) io" where
  "encrypt sm3 S fill e message =
     (let klen = length message + 32
      in io_bind (kem_encrypt sm3 S fill e klen) (\<lambda>(k, c1).
         io_bind (io_lift (map_option Inr (xor_bytes message (take (length message) k)))) (\<lambda>c2.
         let k2 = drop (length message) k;
             c3 = sm3 (k2 @ c2)
         in io_return \<lparr>ct_c1 = c1, ct_c2 = c2, ct_c3 = c3\<rparr>)))"

record Decryptor =
  dec_key :: EncUserKey

definition decryptor_new :: "EncUserKey \<Rightarrow> Decryptor" where
  "decryptor_new key = \<lparr>dec_key = key\<rparr>"

definition kem_decrypt :: "(bytes \<Rightarrow> bytes) \<Rightarrow> Decryptor \<Rightarrow> G1Point \<Rightarrow> bytes \<Rightarrow> nat \<Rightarrow> (Sm9Error, bytes) res option" where
  "kem_decrypt sm3 d c1 ident klen =
     (let w = pairing c1 (euk_de (dec_key d));
          w_bytes = fp12_to_bytes_gmssl w
      in case g1_to_bytes c1 of
           Inl e \<Rightarrow> Some (Inl e)
         | Inr c1_bytes \<Rightarrow>
             map_option (\<lambda>k. if is_all_zeros k then Inl DecryptionFailed else Inr k) (sm9_kdf sm3 c1_bytes w_bytes ident klen))"

definition decrypt :: "(bytes \<Rightarrow> bytes) \<Rightarrow> 'c subtle \<Rightarrow> Decryptor \<Rightarrow> Ciphertext \<Rightarrow> bytes \<Rightarrow> (Sm9Error, bytes) res option" where
  "decrypt sm3 S d ct ident =
     (let klen = length (ct_c2 ct) + 32
      in case kem_decrypt sm3 d (ct_c1 ct) ident klen of
           None \<Rightarrow> None
         | Some (Inl e) \<Rightarrow> Some (Inl e)
         | Some (Inr k) \<Rightarrow>
             let k2 = drop (length (ct_c2 ct)) k;
                 computed_c3 = sm3 (k2 @ ct_c2 ct);
                 c3_matches = choice_into S (bytes_ct_eq S computed_c3 (ct_c3 ct))
             in if \<not> c3_matches then Some (Inl DecryptionFailed)
                else map_option Inr (xor_bytes (ct_c2 ct) (take (length (ct_c2 ct)) k)))"

section \<open>The derivation loop\<close>

definition kdf_blocks :: "(bytes \<Rightarrow> bytes) \<Rightarrow> bytes \<Rightarrow> nat \<Rightarrow> bytes" where
  "kdf_blocks sm3 z n = concat (map (\<lambda>i. sm3 (z @ u32_to_be (word_of_nat (Suc i)))) [0..<n])"

lemma kdf_blocks_Suc: "kdf_blocks sm3 z (Suc n) = kdf_blocks sm3 z n @ sm3 (z @ u32_to_be (word_of_nat (Suc n)))"
  by (simp add: kdf_blocks_def)

lemma kdf_blocks_length: "(\<And>x. length (sm3 x) = 32) \<Longrightarrow> length (kdf_blocks sm3 z n) = 32 * n"
  by (induction n) (simp_all add: kdf_blocks_Suc, simp add: kdf_blocks_def)

lemma u32_counter:
  assumes "Suc n < 2 ^ 32"
  shows "(word_of_nat (Suc n) :: u32) = 0xFFFFFFFF \<longleftrightarrow> n = 2 ^ 32 - 2"
proof -
  have "unat (word_of_nat (Suc n) :: u32) = Suc n" using assms by (simp add: unsigned_of_nat take_bit_nat_eq_self del: of_nat_Suc)
  moreover have "unat (0xFFFFFFFF :: u32) = 2 ^ 32 - 1" by simp
  ultimately have "(word_of_nat (Suc n) :: u32) = 0xFFFFFFFF \<longleftrightarrow> Suc n = 2 ^ 32 - 1" by (metis word_unat_eq_iff)
  then show ?thesis by auto
qed

lemma kdf_loop_step:
  assumes "\<And>x. length (sm3 x) = 32" "n \<le> 2 ^ 32 - 2"
  shows "kdf_loop sm3 z klen (word_of_nat (Suc n)) (kdf_blocks sm3 z n) =
    (if 32 * n < klen then
       if n = 2 ^ 32 - 2 then None else kdf_loop sm3 z klen (word_of_nat (Suc (Suc n))) (kdf_blocks sm3 z (Suc n))
     else Some (kdf_blocks sm3 z n))"
proof -
  have "Suc n < 2 ^ 32" using assms(2) by simp
  moreover have "word_of_nat (Suc n) + (1 :: u32) = word_of_nat (Suc (Suc n))" by (simp add: add.commute)
  ultimately show ?thesis
    using u32_counter [of n]
    by (subst kdf_loop.simps) (simp add: kdf_blocks_length [OF assms(1)] kdf_blocks_Suc Let_def del: of_nat_Suc)
qed

lemma kdf_loop_val:
  assumes "\<And>x. length (sm3 x) = 32" "n \<le> 2 ^ 32 - 2" "32 * n < klen + 32"
  shows "kdf_loop sm3 z klen (word_of_nat (Suc n)) (kdf_blocks sm3 z n) =
    (if klen \<le> 32 * (2 ^ 32 - 2) then Some (kdf_blocks sm3 z ((klen + 31) div 32)) else None)"
  using assms(2,3)
proof (induction "klen + 32 - 32 * n" arbitrary: n rule: less_induct)
  case less
  show ?case
  proof (cases "32 * n < klen \<and> n \<noteq> 2 ^ 32 - 2")
    case True
    then have "Suc n \<le> 2 ^ 32 - 2" "32 * Suc n < klen + 32" "klen + 32 - 32 * Suc n < klen + 32 - 32 * n"
      using less.prems by auto
    then have "kdf_loop sm3 z klen (word_of_nat (Suc (Suc n))) (kdf_blocks sm3 z (Suc n)) =
        (if klen \<le> 32 * (2 ^ 32 - 2) then Some (kdf_blocks sm3 z ((klen + 31) div 32)) else None)"
      by (intro less.hyps)
    then show ?thesis using True kdf_loop_step [OF assms(1) less.prems(1)] by (simp only: if_True if_False)
  next
    case False
    then have "32 * n < klen \<longrightarrow> \<not> klen \<le> 32 * (2 ^ 32 - 2)" by auto
    moreover have "\<not> 32 * n < klen \<Longrightarrow> (klen + 31) div 32 = n" "\<not> 32 * n < klen \<Longrightarrow> klen \<le> 32 * (2 ^ 32 - 2)"
      using less.prems by (auto simp: linorder_not_less)
    ultimately show ?thesis using False kdf_loop_step [OF assms(1) less.prems(1)] by (cases "32 * n < klen") simp_all
  qed
qed

lemma sm9_kdf_val:
  assumes "\<And>x. length (sm3 x) = 32"
  shows "sm9_kdf sm3 c1 w ident klen =
    (if klen \<le> 32 * (2 ^ 32 - 2) then Some (take klen (kdf_blocks sm3 (c1 @ w @ ident) ((klen + 31) div 32))) else None)"
  using kdf_loop_val [OF assms, where n = 0 and klen = klen and z = "c1 @ w @ ident"]
  by (simp add: sm9_kdf_def kdf_blocks_def [of _ _ 0])

lemma sm9_kdf_length:
  assumes "\<And>x. length (sm3 x) = 32" "sm9_kdf sm3 c1 w ident klen = Some k"
  shows "length k = klen"
proof -
  have "k = take klen (kdf_blocks sm3 (c1 @ w @ ident) ((klen + 31) div 32))"
    using assms(2) unfolding sm9_kdf_val [OF assms(1)] by (simp split: if_splits)
  moreover have "klen \<le> 32 * ((klen + 31) div 32)" by simp
  ultimately show ?thesis by (simp add: kdf_blocks_length [OF assms(1)])
qed

section \<open>Masking\<close>

lemma xor_bytes_map2:
  assumes "length key = length data"
  shows "xor_bytes data key = Some (map2 (XOR) data key)"
proof -
  have "map (\<lambda>(i, b). b XOR key ! (i mod length key)) (enumerate 0 data) = map2 (XOR) data key"
    using assms by (intro nth_equalityI) (auto simp: nth_enumerate_eq)
  then show ?thesis using assms by (auto simp: xor_bytes_def)
qed

lemma is_all_zeros_iff: "is_all_zeros bs \<longleftrightarrow> (\<forall>b \<in> set bs. b = 0)"
proof -
  have o: "x OR y = 0 \<longleftrightarrow> x = 0 \<and> y = 0" for x y :: u8 by (auto simp: bit_eq_iff bit_or_iff)
  have "foldl (\<lambda>acc b. acc OR b) a bs = 0 \<longleftrightarrow> a = 0 \<and> (\<forall>b \<in> set bs. b = 0)" for a :: u8
    by (induction bs arbitrary: a) (auto simp: o)
  then show ?thesis by (simp add: is_all_zeros_def)
qed

section \<open>Encryption and decryption agree\<close>

text \<open>
  A user key agrees with the public key and identity of an encryptor when both sides derive the same
  key from every encapsulation point. The equation of the pairing values
  $e([r]Q, d_e) = e(P_{pub}, P_2)^r$ gives this.
\<close>

definition kem_agree :: "(bytes \<Rightarrow> bytes) \<Rightarrow> 'c subtle \<Rightarrow> Encryptor \<Rightarrow> Decryptor \<Rightarrow> bool" where
  "kem_agree sm3 S e d \<longleftrightarrow> (\<forall>r b klen.
     g1_to_bytes (g1_scalar_mul S (kem_point sm3 S e) r) = Inr b \<longrightarrow>
     sm9_kdf sm3 b (fp12_to_bytes_gmssl (pairing (g1_scalar_mul S (kem_point sm3 S e) r) (euk_de (dec_key d)))) (enc_recipient_id e) klen =
     sm9_kdf sm3 b (fp12_to_bytes_gmssl (fp12_pow (pairing (enc_ppube e) g2_generator) r)) (enc_recipient_id e) klen)"

lemma kem_agree_pairing:
  assumes "\<And>r. fp12_to_bytes_gmssl (pairing (g1_scalar_mul S (kem_point sm3 S e) r) (euk_de (dec_key d))) =
    fp12_to_bytes_gmssl (fp12_pow (pairing (enc_ppube e) g2_generator) r)"
  shows "kem_agree sm3 S e d"
  by (simp add: kem_agree_def assms)

lemma kem_attempt_Ok:
  assumes "kem_attempt sm3 S fill e q klen r0 = Some (Inr (Some (k, c1)), r1)"
  shows "\<exists>r b. c1 = g1_scalar_mul S q r \<and> g1_to_bytes c1 = Inr b \<and> \<not> is_all_zeros k \<and>
    sm9_kdf sm3 b (fp12_to_bytes_gmssl (fp12_pow (pairing (enc_ppube e) g2_generator) r)) (enc_recipient_id e) klen = Some k"
  using assms unfolding kem_attempt_def Let_def
  by (auto simp: io_bind_Ok io_lift_def split: if_splits)

lemma kem_encrypt_decrypt:
  assumes "kem_agree sm3 S e d" "kem_encrypt sm3 S fill e klen r0 = Some (Inr (k, c1), r1)"
  shows "kem_decrypt sm3 d c1 (enc_recipient_id e) klen = Some (Inr k)"
proof -
  obtain s s' where "kem_attempt sm3 S fill e (kem_point sm3 S e) klen s = Some (Inr (Some (k, c1)), s')"
    using assms(2) unfolding kem_encrypt_def by (auto dest!: io_retry_Ok)
  from kem_attempt_Ok [OF this] assms(1) show ?thesis
    by (auto simp: kem_decrypt_def Let_def kem_agree_def)
qed

lemma kem_encrypt_length:
  assumes "\<And>x. length (sm3 x) = 32" "kem_encrypt sm3 S fill e klen r0 = Some (Inr (k, c1), r1)"
  shows "length k = klen"
proof -
  obtain s s' where "kem_attempt sm3 S fill e (kem_point sm3 S e) klen s = Some (Inr (Some (k, c1)), s')"
    using assms(2) unfolding kem_encrypt_def by (auto dest!: io_retry_Ok)
  from kem_attempt_Ok [OF this] sm9_kdf_length [where ?sm3.0 = sm3, OF assms(1)] show ?thesis by blast
qed

text \<open>What decryption accepts: the derived key, the tag of the body under it, and the unmasked body.\<close>

lemma decrypt_Ok_iff:
  assumes "\<And>x. length (sm3 x) = 32" "subtle_laws S"
  shows "decrypt sm3 S d ct ident = Some (Inr m) \<longleftrightarrow>
    (\<exists>k. kem_decrypt sm3 d (ct_c1 ct) ident (length (ct_c2 ct) + 32) = Some (Inr k) \<and>
       sm3 (drop (length (ct_c2 ct)) k @ ct_c2 ct) = ct_c3 ct \<and>
       m = map2 (XOR) (ct_c2 ct) (take (length (ct_c2 ct)) k))"
proof -
  have len: "length k = length (ct_c2 ct) + 32"
    if "kem_decrypt sm3 d (ct_c1 ct) ident (length (ct_c2 ct) + 32) = Some (Inr k)" for k
    using that sm9_kdf_length [where ?sm3.0 = sm3, OF assms(1)]
    by (auto simp: kem_decrypt_def Let_def split: sum.splits if_splits)
  have ct: "choice_into S (bytes_ct_eq S a b) \<longleftrightarrow> a = b" for a b using assms(2) by (simp add: subtle_laws_def)
  show ?thesis
    unfolding decrypt_def Let_def ct
    by (auto simp: xor_bytes_map2 len split: option.splits sum.splits)
qed

section \<open>Properties\<close>

text \<open>
  C30. Key derivation: the loop returns if and only if at most $32 (2^{32} - 2)$ bytes are asked for,
  and then returns exactly that many, the SM3 blocks of counters 1, 2, \<dots> cut to the length. A longer
  request overflows the block counter.
\<close>

theorem sm9_kdf_terminates:
  assumes "\<And>x. length (sm3 x) = 32"
  shows "sm9_kdf sm3 c1 w ident klen =
      (if klen \<le> 32 * (2 ^ 32 - 2) then Some (take klen (kdf_blocks sm3 (c1 @ w @ ident) ((klen + 31) div 32))) else None) \<and>
    (klen \<le> 32 * (2 ^ 32 - 2) \<longrightarrow> (\<exists>k. sm9_kdf sm3 c1 w ident klen = Some k \<and> length k = klen))"
proof (intro conjI impI)
  show eq: "sm9_kdf sm3 c1 w ident klen =
      (if klen \<le> 32 * (2 ^ 32 - 2) then Some (take klen (kdf_blocks sm3 (c1 @ w @ ident) ((klen + 31) div 32))) else None)"
    by (rule sm9_kdf_val [OF assms])
  assume "klen \<le> 32 * (2 ^ 32 - 2)"
  then obtain k where "sm9_kdf sm3 c1 w ident klen = Some k" unfolding eq by (simp only: if_True)
  then show "\<exists>k. sm9_kdf sm3 c1 w ident klen = Some k \<and> length k = klen"
    using sm9_kdf_length [where ?sm3.0 = sm3, OF assms] by blast
qed

theorem sm9_kdf_terminates_witness:
  "\<exists>k. sm9_kdf (\<lambda>_. replicate 32 7) [1] [2] [3] 40 = Some k \<and> length k = 40"
  using sm9_kdf_terminates [of "\<lambda>_. replicate 32 7" "[1]" "[2]" "[3]" 40, OF length_replicate, THEN conjunct2] by simp

text \<open>
  C3. Decryption inverts encryption: a ciphertext produced for an identity is decrypted to the message
  by every key that agrees with the encryptor's public key, whatever the generator drew and however
  often the encapsulation was retried; its body is as long as the message and its tag has 32 bytes.
\<close>

theorem decrypt_encrypt:
  assumes "\<And>x. length (sm3 x) = 32" "subtle_laws S" "kem_agree sm3 S e d"
    and "encrypt sm3 S fill e message r0 = Some (Inr ct, r1)"
  shows "decrypt sm3 S d ct (enc_recipient_id e) = Some (Inr message) \<and>
    length (ct_c2 ct) = length message \<and> length (ct_c3 ct) = 32"
proof -
  let ?n = "length message"
  obtain k c1 r' c2 where k: "kem_encrypt sm3 S fill e (?n + 32) r0 = Some (Inr (k, c1), r')"
      and x: "xor_bytes message (take ?n k) = Some c2"
      and ct: "ct = \<lparr>ct_c1 = c1, ct_c2 = c2, ct_c3 = sm3 (drop ?n k @ c2)\<rparr>"
    using assms(4) by (auto simp: encrypt_def io_bind_Ok io_lift_def)
  have len: "length k = ?n + 32" by (rule kem_encrypt_length [OF assms(1) k])
  then have c2_def: "c2 = map2 (XOR) message (take ?n k)" using x by (simp add: xor_bytes_map2)
  have l2: "length c2 = ?n" using len by (simp add: c2_def)
  have "map2 (XOR) c2 (take ?n k) = message" unfolding c2_def by (rule map2_xor_involution) (simp add: len)
  then show ?thesis
    using kem_encrypt_decrypt [OF assms(3) k] l2 assms(1) by (simp add: decrypt_Ok_iff [where ?sm3.0 = sm3, OF assms(1,2)] ct)
qed


text \<open>
  Ciphertexts as bytes: both byte orders are read back with the same body and tag and with the
  affine point of the encapsulation; the identity, written with prefix 0, is read back as the affine
  point with both coordinates zero, which is not the identity.
\<close>

theorem ciphertext_encodings:
  assumes "length (ct_c3 ct) = 32"
  shows "\<exists>x' y'. ciphertext_from_bytes (ciphertext_to_bytes ct) = Inr (ct\<lparr>ct_c1 := g1_from_affine x' y'\<rparr>) \<and>
    from_bytes_c1c2c3 (to_bytes_c1c2c3 ct) = Inr (ct\<lparr>ct_c1 := g1_from_affine x' y'\<rparr>) \<and>
    \<not> g1_is_identity (g1_from_affine x' y') \<and>
    (case g1_to_affine (ct_c1 ct) of
       Some (x, y) \<Rightarrow> fp_val x' = fp_val x \<and> fp_val y' = fp_val y
     | None \<Rightarrow> fp_val x' = 0 \<and> fp_val y' = 0)"
proof -
  have pt: "\<exists>p bx by x' y'. g1_point_bytes (ct_c1 ct) = [p] @ bx @ by \<and> length bx = 32 \<and> length by = 32 \<and> (p = 0x04 \<or> p = 0x00) \<and>
     fp_from_bytes bx = Inr x' \<and> fp_from_bytes by = Inr y' \<and> fp_ok x' \<and> fp_ok y' \<and>
    (case g1_to_affine (ct_c1 ct) of
       Some (x, y) \<Rightarrow> fp_val x' = fp_val x \<and> fp_val y' = fp_val y
     | None \<Rightarrow> fp_val x' = 0 \<and> fp_val y' = 0)"
  proof (cases "g1_to_affine (ct_c1 ct)")
    case None
    obtain r where r: "fp_from_bytes (replicate 32 0) = Inr (fp_from_raw r)" "z256_val r = nat_of_be (replicate 32 0)"
      using fp_from_bytes_ok [of "replicate 32 0"] by auto
    have "replicate 64 0 = replicate 32 0 @ replicate 32 (0::u8)" by (simp flip: replicate_add)
    then show ?thesis using r fp_from_raw_laws [of r] None
      by (intro exI [of _ 0] exI [of _ "replicate 32 0"] exI [of _ "fp_from_raw r"]) (simp add: g1_point_bytes_def)
  next
    case (Some a)
    obtain x y where a: "a = (x, y)" by force
    obtain x' where x: "fp_from_bytes (fp_to_bytes x) = Inr x'" "fp_ok x'" "fp_val x' = fp_val x" using fp_from_to_bytes by blast
    obtain y' where y: "fp_from_bytes (fp_to_bytes y) = Inr y'" "fp_ok y'" "fp_val y' = fp_val y" using fp_from_to_bytes by blast
    show ?thesis using Some a x y
      by (intro exI [of _ 4] exI [of _ "fp_to_bytes x"] exI [of _ "fp_to_bytes y"] exI [of _ x'] exI [of _ y'])
        (simp add: g1_point_bytes_def)
  qed
  then obtain p bx "by" x' y' where *: "g1_point_bytes (ct_c1 ct) = [p] @ bx @ by" "length bx = 32" "length by = 32"
     "p = 0x04 \<or> p = 0x00" "fp_from_bytes bx = Inr x'" "fp_from_bytes by = Inr y'" "fp_ok x'" "fp_ok y'"
    and v: "case g1_to_affine (ct_c1 ct) of
       Some (x, y) \<Rightarrow> fp_val x' = fp_val x \<and> fp_val y' = fp_val y
     | None \<Rightarrow> fp_val x' = 0 \<and> fp_val y' = 0"
    by blast
  have "from_bytes_c1c3c2 (to_bytes_c1c3c2 ct) = Inr (ct\<lparr>ct_c1 := g1_from_affine x' y'\<rparr>)"
    using * assms by (cases ct) (auto simp: from_bytes_c1c3c2_def to_bytes_c1c3c2_def)
  moreover have "from_bytes_c1c2c3 (to_bytes_c1c2c3 ct) = Inr (ct\<lparr>ct_c1 := g1_from_affine x' y'\<rparr>)"
    using * assms by (cases ct) (auto simp: from_bytes_c1c2c3_def to_bytes_c1c2c3_def drop_Cons')
  ultimately show ?thesis using * v g1_from_affine_laws(2) [of x' y']
    unfolding ciphertext_from_bytes_def ciphertext_to_bytes_def by blast
qed


section \<open>Concrete instances\<close>

text \<open>A hash that separates the first byte 1, so that H1 is one and derived keys are not zero.\<close>

definition toy_sm3 :: "bytes \<Rightarrow> bytes" where
  "toy_sm3 x = (if x \<noteq> [] \<and> hd x = 1 then replicate 32 0 else replicate 32 1)"

lemma toy_sm3_length [simp]: "length (toy_sm3 x) = 32"
  by (simp add: toy_sm3_def)

lemma toy_hash1: "hash1 toy_sm3 i hid = z256_one"
proof -
  have "sm3_twice toy_sm3 ([0x01] @ i @ [hid]) = sm3_twice (\<lambda>_. replicate 32 0) ([0x01] @ i @ [hid])"
    by (simp add: sm3_twice_def toy_sm3_def)
  then show ?thesis using hash_zeros(1) [of i hid] by (simp add: hash1_def)
qed

lemma toy_kdf_blocks: "z \<noteq> [] \<Longrightarrow> hd z \<noteq> 1 \<Longrightarrow> kdf_blocks toy_sm3 z n = replicate (32 * n) 1"
  by (induction n) (simp_all add: kdf_blocks_Suc toy_sm3_def flip: replicate_add, simp add: kdf_blocks_def)

lemma toy_kdf:
  assumes "b \<noteq> []" "hd b \<noteq> 1" "klen \<le> 32 * (2 ^ 32 - 2)"
  shows "sm9_kdf toy_sm3 b w i klen = Some (replicate klen 1)"
  using assms by (simp add: sm9_kdf_val toy_kdf_blocks min_absorb2)

lemma g1_to_bytes_hd: "g1_to_bytes p = Inr b \<Longrightarrow> b \<noteq> [] \<and> hd b = 4"
  by (auto simp: g1_to_bytes_def ok_or_def split: option.splits)

definition toy_encryptor :: Encryptor where
  "toy_encryptor = encryptor_new [0x41] g1_identity"

definition toy_decryptor :: Decryptor where
  "toy_decryptor = decryptor_new \<lparr>euk_de = g2_generator, euk_ppube = g1_identity\<rparr>"

lemma toy_agree: "kem_agree toy_sm3 S toy_encryptor toy_decryptor"
  unfolding kem_agree_def
proof (intro allI impI)
  fix r b klen
  assume "g1_to_bytes (g1_scalar_mul S (kem_point toy_sm3 S toy_encryptor) r) = Inr b"
  then have "b \<noteq> []" "hd b \<noteq> 1" using g1_to_bytes_hd by fastforce+
  then have "kdf_blocks toy_sm3 (b @ w @ i) n = replicate (32 * n) 1" for w i n by (simp add: toy_kdf_blocks)
  then show "sm9_kdf toy_sm3 b w i klen = sm9_kdf toy_sm3 b w' i klen" for w w' i
    by (simp add: sm9_kdf_val)
qed

lemma fixed_rng_scalar: "random_scalar fixed_rng () = Some (Inr z256_one, ())"
proof -
  obtain s where s: "z256_val s = draw fixed_rng () mod z256_val z256_N"
      "random_scalar fixed_rng () = (if z256_val s = 0 then random_scalar fixed_rng (next_rng fixed_rng ()) else Some (Inr s, next_rng fixed_rng ()))"
    using random_scalar_step [of fixed_rng "()"] by blast
  then have "z256_val s = z256_val z256_one" using N_gt_1 by (simp add: fixed_rng_draw z256_one_def)
  then have "s = z256_one" by (simp only: z256_val_inj)
  then show ?thesis using s(2) by (simp add: z256_one_def)
qed

lemma g1_generator_affine: "\<not> g1_is_identity g1_generator" "\<exists>x y. g1_to_affine g1_generator = Some (x, y)"
proof -
  obtain x y where g: "g1_generator = g1_from_affine x y" "fp_ok x" "fp_ok y"
    by (simp add: g1_generator_def Let_def fp_from_raw_laws)
  show "\<not> g1_is_identity g1_generator" unfolding g(1) by (rule g1_from_affine_laws(2) [OF g(2,3)])
  have "fp_unit fp_one" by (simp add: fp_unit_def fp_rules)
  then show "\<exists>x y. g1_to_affine g1_generator = Some (x, y)"
    using g1_to_affine_val [OF g1_from_affine_laws(1,2) [OF g(2,3)]] g by (auto simp: fp_rules g1_from_affine_def)
qed

lemma g1_scalar_mul_generator: "subtle_laws S \<Longrightarrow> g1_scalar_mul S g1_generator z256_one = g1_generator"
  using g1_scalar_mul_one [of S g1_generator] g1_generator_affine(1) by (auto simp: g1.same_def)

lemma toy_kem_point: "subtle_laws S \<Longrightarrow> kem_point toy_sm3 S toy_encryptor = g1_generator"
  by (simp add: kem_point_def toy_hash1 g1_scalar_mul_generator toy_encryptor_def encryptor_new_def g1_add_def
      g1_generator_affine(1) g1_identity_on(2))

theorem decrypt_encrypt_witness:
  "\<exists>ct. encrypt toy_sm3 subtle_bool fixed_rng toy_encryptor [0x68, 0x69] () = Some (Inr ct, ()) \<and>
     decrypt toy_sm3 subtle_bool toy_decryptor ct [0x41] = Some (Inr [0x68, 0x69])"
proof -
  obtain b where b: "g1_to_bytes g1_generator = Inr b"
    using g1_generator_affine(2) by (auto simp: g1_to_bytes_def ok_or_def)
  then have hd: "b \<noteq> []" "hd b \<noteq> 1" using g1_to_bytes_hd by fastforce+
  have k: "sm9_kdf toy_sm3 b w i 34 = Some (replicate 34 1)" for w i using toy_kdf [OF hd] by simp
  have z: "\<not> is_all_zeros (replicate 34 1)" by (simp add: is_all_zeros_iff)
  have "kem_attempt toy_sm3 subtle_bool fixed_rng toy_encryptor g1_generator 34 () = Some (Inr (Some (replicate 34 1, g1_generator)), ())"
    using z by (simp add: kem_attempt_def fixed_rng_scalar g1_scalar_mul_generator [OF subtle_bool_laws] b k Let_def)
  then have "kem_encrypt toy_sm3 subtle_bool fixed_rng toy_encryptor 34 () = Some (Inr (replicate 34 1, g1_generator), ())"
    unfolding kem_encrypt_def MAX_ENCRYPT_RETRIES_def toy_kem_point [OF subtle_bool_laws] by (simp add: numeral_eq_Suc io_retry_first)
  then obtain ct where ct: "encrypt toy_sm3 subtle_bool fixed_rng toy_encryptor [0x68, 0x69] () = Some (Inr ct, ())"
    by (simp add: encrypt_def xor_bytes_map2 Let_def)
  from decrypt_encrypt [OF toy_sm3_length subtle_bool_laws toy_agree ct] ct show ?thesis
    by (simp add: toy_encryptor_def encryptor_new_def)
qed


theorem ciphertext_encodings_witness:
  "\<exists>x y. ciphertext_from_bytes (ciphertext_to_bytes \<lparr>ct_c1 = g1_identity, ct_c2 = [7], ct_c3 = replicate 32 0\<rparr>) =
     Inr \<lparr>ct_c1 = g1_from_affine x y, ct_c2 = [7], ct_c3 = replicate 32 0\<rparr> \<and> \<not> g1_is_identity (g1_from_affine x y)"
proof -
  have "length (ct_c3 \<lparr>ct_c1 = g1_identity, ct_c2 = [7], ct_c3 = replicate 32 0\<rparr>) = 32" by simp
  from ciphertext_encodings [OF this] show ?thesis by auto
qed

end
