(* ===== verification/Sm9_Rotation.thy ===== *)
theory Sm9_Rotation
  imports Sm9_Key
begin

text \<open>
  Rotation of the SM9 master keys, \<open>gm-sm9-rs/src/key_rotation.rs\<close>: versioned signing and encryption
  keys with a grace period. The clock is read by \<open>Instant::now()\<close>; every reading is an argument of
  the operation, in nanoseconds. \<open>max_instant\<close> is the largest instant the platform can represent:
  adding a duration beyond it panics, like the increment of the version $2^{32} - 1$, and is \<open>None\<close>.
  Shown: an invariant of both key tables along every sequence of operations, and what a rotation
  does to the validity of the old and the new version.
\<close>

section \<open>Data\<close>

type_synonym KeyVersion = u32

record RotationRecord =
  rr_from_version :: KeyVersion
  rr_to_version :: KeyVersion
  rr_rotated_at :: nat
  rr_grace_period :: nat
  rr_grace_expired :: bool

record VersionedSignKey =
  vs_key :: SignMasterKey
  vs_version :: KeyVersion
  vs_created_at :: nat
  vs_expires_at :: "nat option"
  vs_active :: bool

record VersionedEncKey =
  ve_key :: EncMasterKey
  ve_version :: KeyVersion
  ve_created_at :: nat
  ve_expires_at :: "nat option"
  ve_active :: bool

record KeyRotationManager =
  sign_keys :: "KeyVersion \<rightharpoonup> VersionedSignKey"
  enc_keys :: "KeyVersion \<rightharpoonup> VersionedEncKey"
  current_sign_version :: KeyVersion
  current_enc_version :: KeyVersion
  max_retained_versions :: u64
  sign_rotations :: "RotationRecord list"
  enc_rotations :: "RotationRecord list"

definition rotation_new :: KeyRotationManager where
  "rotation_new = \<lparr>sign_keys = Map.empty, enc_keys = Map.empty, current_sign_version = 0, current_enc_version = 0,
     max_retained_versions = 3, sign_rotations = [], enc_rotations = []\<rparr>"

definition with_max_versions :: "u64 \<Rightarrow> KeyRotationManager" where
  "with_max_versions n = rotation_new\<lparr>max_retained_versions := n\<rparr>"

definition from_secs :: "u64 \<Rightarrow> nat" where
  "from_secs s = unat s * 10 ^ 9"

definition instant_add :: "nat \<Rightarrow> nat \<Rightarrow> nat \<Rightarrow> nat option" where
  "instant_add max_instant now d = (if now + d \<le> max_instant then Some (now + d) else None)"

definition version_succ :: "KeyVersion \<Rightarrow> KeyVersion option" where
  "version_succ v = (if v = 0xFFFFFFFF then None else Some (v + 1))"

definition saturating_sub :: "u32 \<Rightarrow> u32 \<Rightarrow> u32" where
  "saturating_sub a b = (if a < b then 0 else a - b)"

section \<open>Signing keys\<close>

definition register_sign_key :: "nat \<Rightarrow> SignMasterKey \<Rightarrow> KeyRotationManager \<Rightarrow> (Sm9Error, KeyVersion) res \<times> KeyRotationManager" where
  "register_sign_key now key m =
     (if sign_keys m \<noteq> Map.empty
      then (Inl (CryptoError ''Signing key already registered; use rotate_sign_key instead''), m)
      else
        let version = 1
        in (Inr version, m\<lparr>current_sign_version := version,
             sign_keys := (sign_keys m)(version \<mapsto> \<lparr>vs_key = key, vs_version = version, vs_created_at = now,
               vs_expires_at = None, vs_active = True\<rparr>)\<rparr>))"

definition current_sign_key :: "KeyRotationManager \<Rightarrow> SignMasterKey option" where
  "current_sign_key m = map_option vs_key (sign_keys m (current_sign_version m))"

definition get_sign_key :: "KeyRotationManager \<Rightarrow> KeyVersion \<Rightarrow> SignMasterKey option" where
  "get_sign_key m version = map_option vs_key (sign_keys m version)"

definition prune_expired_sign_keys :: "nat \<Rightarrow> KeyRotationManager \<Rightarrow> KeyRotationManager" where
  "prune_expired_sign_keys now m =
     (let current = current_sign_version m;
          stale = (\<lambda>ver entry. ver \<noteq> current \<and> \<not> vs_active entry \<and>
            (case vs_expires_at entry of None \<Rightarrow> True | Some exp \<Rightarrow> now \<ge> exp) \<and>
            ver < saturating_sub current (ucast (max_retained_versions m)))
      in m\<lparr>sign_keys := (\<lambda>ver. case sign_keys m ver of
           Some entry \<Rightarrow> if stale ver entry then None else Some entry | None \<Rightarrow> None)\<rparr>)"

definition rotate_sign_key ::
  "nat \<Rightarrow> nat \<Rightarrow> nat \<Rightarrow> SignMasterKey \<Rightarrow> u64 \<Rightarrow> KeyRotationManager \<Rightarrow> ((Sm9Error, RotationRecord) res \<times> KeyRotationManager) option" where
  "rotate_sign_key max_instant now now_prune new_key grace_period_secs m =
     (let old_version = current_sign_version m
      in Option.bind (version_succ old_version) (\<lambda>new_version.
         Option.bind (case sign_keys m old_version of
             Some old \<Rightarrow> map_option (\<lambda>exp. (sign_keys m)(old_version \<mapsto> old\<lparr>vs_active := False, vs_expires_at := Some exp\<rparr>))
               (instant_add max_instant now (from_secs grace_period_secs))
           | None \<Rightarrow> Some (sign_keys m)) (\<lambda>keys.
         let keys = keys(new_version \<mapsto> \<lparr>vs_key = new_key, vs_version = new_version, vs_created_at = now,
               vs_expires_at = None, vs_active = True\<rparr>);
             record = \<lparr>rr_from_version = old_version, rr_to_version = new_version, rr_rotated_at = now,
               rr_grace_period = from_secs grace_period_secs, rr_grace_expired = False\<rparr>;
             m = m\<lparr>sign_keys := keys, current_sign_version := new_version, sign_rotations := sign_rotations m @ [record]\<rparr>
         in Some (Inr record, prune_expired_sign_keys now_prune m))))"

definition is_sign_key_valid :: "nat \<Rightarrow> KeyRotationManager \<Rightarrow> KeyVersion \<Rightarrow> bool" where
  "is_sign_key_valid now m version =
     (case sign_keys m version of
        Some entry \<Rightarrow> if vs_active entry then True else (case vs_expires_at entry of Some exp \<Rightarrow> now < exp | None \<Rightarrow> False)
      | None \<Rightarrow> False)"

text \<open>The hash map has no order: the versions of the answer as a set.\<close>

definition valid_sign_versions :: "nat \<Rightarrow> KeyRotationManager \<Rightarrow> KeyVersion set" where
  "valid_sign_versions now m =
     {ver. case sign_keys m ver of
        Some v \<Rightarrow> vs_active v \<or> (case vs_expires_at v of Some exp \<Rightarrow> now < exp | None \<Rightarrow> False)
      | None \<Rightarrow> False}"

section \<open>Encryption keys\<close>

definition register_enc_key :: "nat \<Rightarrow> EncMasterKey \<Rightarrow> KeyRotationManager \<Rightarrow> (Sm9Error, KeyVersion) res \<times> KeyRotationManager" where
  "register_enc_key now key m =
     (if enc_keys m \<noteq> Map.empty
      then (Inl (CryptoError ''Encryption key already registered; use rotate_enc_key instead''), m)
      else
        let version = 1
        in (Inr version, m\<lparr>current_enc_version := version,
             enc_keys := (enc_keys m)(version \<mapsto> \<lparr>ve_key = key, ve_version = version, ve_created_at = now,
               ve_expires_at = None, ve_active = True\<rparr>)\<rparr>))"

definition current_enc_key :: "KeyRotationManager \<Rightarrow> EncMasterKey option" where
  "current_enc_key m = map_option ve_key (enc_keys m (current_enc_version m))"

definition get_enc_key :: "KeyRotationManager \<Rightarrow> KeyVersion \<Rightarrow> EncMasterKey option" where
  "get_enc_key m version = map_option ve_key (enc_keys m version)"

definition prune_expired_enc_keys :: "nat \<Rightarrow> KeyRotationManager \<Rightarrow> KeyRotationManager" where
  "prune_expired_enc_keys now m =
     (let current = current_enc_version m;
          stale = (\<lambda>ver entry. ver \<noteq> current \<and> \<not> ve_active entry \<and>
            (case ve_expires_at entry of None \<Rightarrow> True | Some exp \<Rightarrow> now \<ge> exp) \<and>
            ver < saturating_sub current (ucast (max_retained_versions m)))
      in m\<lparr>enc_keys := (\<lambda>ver. case enc_keys m ver of
           Some entry \<Rightarrow> if stale ver entry then None else Some entry | None \<Rightarrow> None)\<rparr>)"

definition rotate_enc_key ::
  "nat \<Rightarrow> nat \<Rightarrow> nat \<Rightarrow> EncMasterKey \<Rightarrow> u64 \<Rightarrow> KeyRotationManager \<Rightarrow> ((Sm9Error, RotationRecord) res \<times> KeyRotationManager) option" where
  "rotate_enc_key max_instant now now_prune new_key grace_period_secs m =
     (let old_version = current_enc_version m
      in Option.bind (version_succ old_version) (\<lambda>new_version.
         Option.bind (case enc_keys m old_version of
             Some old \<Rightarrow> map_option (\<lambda>exp. (enc_keys m)(old_version \<mapsto> old\<lparr>ve_active := False, ve_expires_at := Some exp\<rparr>))
               (instant_add max_instant now (from_secs grace_period_secs))
           | None \<Rightarrow> Some (enc_keys m)) (\<lambda>keys.
         let keys = keys(new_version \<mapsto> \<lparr>ve_key = new_key, ve_version = new_version, ve_created_at = now,
               ve_expires_at = None, ve_active = True\<rparr>);
             record = \<lparr>rr_from_version = old_version, rr_to_version = new_version, rr_rotated_at = now,
               rr_grace_period = from_secs grace_period_secs, rr_grace_expired = False\<rparr>;
             m = m\<lparr>enc_keys := keys, current_enc_version := new_version, enc_rotations := enc_rotations m @ [record]\<rparr>
         in Some (Inr record, prune_expired_enc_keys now_prune m))))"

definition is_enc_key_valid :: "nat \<Rightarrow> KeyRotationManager \<Rightarrow> KeyVersion \<Rightarrow> bool" where
  "is_enc_key_valid now m version =
     (case enc_keys m version of
        Some entry \<Rightarrow> if ve_active entry then True else (case ve_expires_at entry of Some exp \<Rightarrow> now < exp | None \<Rightarrow> False)
      | None \<Rightarrow> False)"

definition valid_enc_versions :: "nat \<Rightarrow> KeyRotationManager \<Rightarrow> KeyVersion set" where
  "valid_enc_versions now m =
     {ver. case enc_keys m ver of
        Some v \<Rightarrow> ve_active v \<or> (case ve_expires_at v of Some exp \<Rightarrow> now < exp | None \<Rightarrow> False)
      | None \<Rightarrow> False}"

section \<open>The common contract\<close>

lemma succ_less:
  assumes "(c :: u32) \<noteq> 0xFFFFFFFF"
  shows "c < c + 1" "v \<le> c \<Longrightarrow> v < c + 1" "c + 1 \<noteq> 0" "v < c + 1 \<Longrightarrow> v \<le> c"
proof -
  have "unat (c + 1) = Suc (unat c)"
  proof -
    have "unat c \<noteq> 2 ^ 32 - 1" using assms word_unat_eq_iff [of c "0xFFFFFFFF"] by simp
    then have "Suc (unat c) < 2 ^ 32" using unat_bound [of c] by simp
    then show ?thesis by (simp add: unat_word_ariths)
  qed
  then show "c < c + 1" "v \<le> c \<Longrightarrow> v < c + 1" "c + 1 \<noteq> 0" "v < c + 1 \<Longrightarrow> v \<le> c"
    by (auto simp: word_less_nat_alt word_le_nat_alt)
qed

text \<open>
  Both tables obey the same laws. A table is given by its entries, of which only the version, the
  expiry, the activity and the key matter, its current version and its history.
\<close>

record 'k entry =
  en_key :: 'k
  en_version :: KeyVersion
  en_expires_at :: "nat option"
  en_active :: bool

definition stale_at :: "nat \<Rightarrow> u64 \<Rightarrow> KeyVersion \<Rightarrow> KeyVersion \<Rightarrow> 'k entry \<Rightarrow> bool" where
  "stale_at now retained current ver e \<longleftrightarrow> ver \<noteq> current \<and> \<not> en_active e \<and>
     (case en_expires_at e of None \<Rightarrow> True | Some exp \<Rightarrow> now \<ge> exp) \<and> ver < saturating_sub current (ucast retained)"

definition pruned :: "nat \<Rightarrow> u64 \<Rightarrow> KeyVersion \<Rightarrow> (KeyVersion \<rightharpoonup> 'k entry) \<Rightarrow> (KeyVersion \<rightharpoonup> 'k entry)" where
  "pruned now retained current t = (\<lambda>v. case t v of Some e \<Rightarrow> if stale_at now retained current v e then None else Some e | None \<Rightarrow> None)"

locale key_rotation =
  fixes table :: "'m \<Rightarrow> (KeyVersion \<rightharpoonup> 'k entry)" and current :: "'m \<Rightarrow> KeyVersion" and history :: "'m \<Rightarrow> RotationRecord list"
    and retained :: "'m \<Rightarrow> u64"
    and register :: "nat \<Rightarrow> 'k \<Rightarrow> 'm \<Rightarrow> (Sm9Error, KeyVersion) res \<times> 'm"
    and rotate :: "nat \<Rightarrow> nat \<Rightarrow> nat \<Rightarrow> 'k \<Rightarrow> u64 \<Rightarrow> 'm \<Rightarrow> ((Sm9Error, RotationRecord) res \<times> 'm) option"
    and valid :: "nat \<Rightarrow> 'm \<Rightarrow> KeyVersion \<Rightarrow> bool"
  assumes register_empty: "table m = Map.empty \<Longrightarrow> register now k m = (r, m') \<Longrightarrow>
      r = Inr 1 \<and> current m' = 1 \<and> history m' = history m \<and>
      table m' = [1 \<mapsto> \<lparr>en_key = k, en_version = 1, en_expires_at = None, en_active = True\<rparr>]"
    and register_again: "table m \<noteq> Map.empty \<Longrightarrow> register now k m = (r, m') \<Longrightarrow> m' = m \<and> \<not> is_ok r"
    and rotate_ok: "rotate mx now now' k g m = Some (rr, m') \<Longrightarrow>
      \<exists>rec. rr = Inr rec \<and> current m \<noteq> 0xFFFFFFFF \<and> current m' = current m + 1 \<and> history m' = history m @ [rec] \<and>
        rr_from_version rec = current m \<and> rr_to_version rec = current m + 1 \<and> \<not> rr_grace_expired rec \<and>
        table m' = pruned now' (retained m) (current m + 1)
          ((case table m (current m) of
              Some e \<Rightarrow> (table m)(current m \<mapsto> e\<lparr>en_active := False, en_expires_at := Some (now + from_secs g)\<rparr>)
            | None \<Rightarrow> table m)
           (current m + 1 \<mapsto> \<lparr>en_key = k, en_version = current m + 1, en_expires_at = None, en_active = True\<rparr>))"
    and valid_iff: "valid now m v \<longleftrightarrow> (case table m v of
        Some e \<Rightarrow> en_active e \<or> (case en_expires_at e of Some exp \<Rightarrow> now < exp | None \<Rightarrow> False) | None \<Rightarrow> False)"
begin

text \<open>
  The invariant: versions run from 1 to the current one, the current version is the only active
  one and has no expiry, every other one has, and the history counts up to the current version.
\<close>

definition wf_table :: "'m \<Rightarrow> bool" where
  "wf_table m \<longleftrightarrow>
     (if current m = 0 then table m = Map.empty \<and> history m = []
      else \<exists>e. table m (current m) = Some e \<and> en_active e \<and> en_expires_at e = None) \<and>
     (\<forall>v e. table m v = Some e \<longrightarrow> 0 < v \<and> v \<le> current m \<and> en_version e = v \<and>
        (en_active e \<longleftrightarrow> v = current m) \<and> (en_expires_at e = None \<longleftrightarrow> v = current m)) \<and>
     (\<forall>rec \<in> set (history m). rr_to_version rec = rr_from_version rec + 1 \<and> rr_to_version rec \<le> current m \<and> \<not> rr_grace_expired rec)"

lemma register_wf:
  assumes "wf_table m" "register now k m = (r, m')"
  shows "wf_table m'"
proof (cases "table m = Map.empty")
  case True
  then have "current m = 0" using assms(1) by (auto simp: wf_table_def split: if_splits)
  then have "history m = []" using assms(1) by (simp add: wf_table_def)
  then show ?thesis using register_empty [OF True assms(2)] by (auto simp: wf_table_def split: if_splits)
next
  case False
  then show ?thesis using register_again [OF _ assms(2)] assms(1) by simp
qed

lemma rotate_wf:
  assumes "wf_table m" "rotate mx now now' k g m = Some (r, m')"
  shows "wf_table m'"
proof -
  let ?c = "current m"
  obtain rec where c: "?c \<noteq> 0xFFFFFFFF" "current m' = ?c + 1" and h: "history m' = history m @ [rec]"
      "rr_from_version rec = ?c" "rr_to_version rec = ?c + 1" "\<not> rr_grace_expired rec"
    and t: "table m' = pruned now' (retained m) (?c + 1)
          ((case table m ?c of
              Some e \<Rightarrow> (table m)(?c \<mapsto> e\<lparr>en_active := False, en_expires_at := Some (now + from_secs g)\<rparr>)
            | None \<Rightarrow> table m)
           (?c + 1 \<mapsto> \<lparr>en_key = k, en_version = ?c + 1, en_expires_at = None, en_active = True\<rparr>))"
    using rotate_ok [OF assms(2)] by blast
  note lt = succ_less [OF c(1)]
  have old: "0 < v \<and> v \<le> ?c \<and> en_version e = v \<and> (en_active e \<longleftrightarrow> v = ?c) \<and> (en_expires_at e = None \<longleftrightarrow> v = ?c)"
    if "table m v = Some e" for v e
    using assms(1) that by (simp add: wf_table_def)
  have fresh: "table m (?c + 1) = None" using old lt(1) by (meson not_le option.exhaust)
  have new: "table m' (?c + 1) = Some \<lparr>en_key = k, en_version = ?c + 1, en_expires_at = None, en_active = True\<rparr>"
    by (simp add: t pruned_def stale_at_def)
  have entries: "0 < v \<and> v \<le> ?c + 1 \<and> en_version e = v \<and> (en_active e \<longleftrightarrow> v = ?c + 1) \<and> (en_expires_at e = None \<longleftrightarrow> v = ?c + 1)"
    if e: "table m' v = Some e" for v e
  proof (cases "v = ?c + 1")
    case True
    then show ?thesis using e new lt(3) by (auto simp: word_neq_0_conv)
  next
    case False
    then have "\<exists>e'. table m v = Some e' \<and> (e = e' \<and> v \<noteq> ?c \<or> v = ?c \<and> e = e'\<lparr>en_active := False, en_expires_at := Some (now + from_secs g)\<rparr>)"
      using e unfolding t pruned_def by (auto split: option.splits if_splits)
    then show ?thesis using old [of v] lt(2) [of v] False by fastforce
  qed
  have "\<forall>r \<in> set (history m'). rr_to_version r = rr_from_version r + 1 \<and> rr_to_version r \<le> ?c + 1 \<and> \<not> rr_grace_expired r"
    using assms(1) h lt(1) unfolding wf_table_def by (auto dest: order.strict_implies_order [OF lt(2)])
  then show ?thesis unfolding wf_table_def c(2) using new entries lt(3) by (intro conjI) (simp, blast, blast)
qed

lemma entry_wf:
  assumes "wf_table m" "table m v = Some e"
  shows "0 < v \<and> v \<le> current m \<and> en_version e = v \<and> (en_active e \<longleftrightarrow> v = current m) \<and> (en_expires_at e = None \<longleftrightarrow> v = current m)"
  using assms by (simp add: wf_table_def)

lemma current_valid: "wf_table m \<Longrightarrow> current m \<noteq> 0 \<Longrightarrow> valid now m (current m)"
  by (auto simp: wf_table_def valid_iff)

text \<open>Exactly the old version is put on a grace period, and pruning spares every valid version.\<close>

lemma rotate_valid:
  assumes "wf_table m" "rotate mx now now' k g m = Some (r, m')"
  shows "valid t m' (current m')" "table m' (current m') = Some \<lparr>en_key = k, en_version = current m + 1, en_expires_at = None, en_active = True\<rparr>"
    and "v \<noteq> current m \<Longrightarrow> v \<noteq> current m' \<Longrightarrow> now' \<le> t \<Longrightarrow> valid t m' v \<longleftrightarrow> valid t m v"
    and "current m \<noteq> 0 \<Longrightarrow> now' \<le> t \<Longrightarrow> valid t m' (current m) \<longleftrightarrow> t < now + from_secs g"
proof -
  let ?c = "current m"
  obtain rec where c: "?c \<noteq> 0xFFFFFFFF" "current m' = ?c + 1"
    and t: "table m' = pruned now' (retained m) (?c + 1)
          ((case table m ?c of
              Some e \<Rightarrow> (table m)(?c \<mapsto> e\<lparr>en_active := False, en_expires_at := Some (now + from_secs g)\<rparr>)
            | None \<Rightarrow> table m)
           (?c + 1 \<mapsto> \<lparr>en_key = k, en_version = ?c + 1, en_expires_at = None, en_active = True\<rparr>))"
    using rotate_ok [OF assms(2)] by blast
  show new: "table m' (current m') = Some \<lparr>en_key = k, en_version = current m + 1, en_expires_at = None, en_active = True\<rparr>"
    by (simp add: t c(2) pruned_def stale_at_def)
  then show "valid t m' (current m')" by (simp add: valid_iff)
  show "valid t m' v \<longleftrightarrow> valid t m v" if "v \<noteq> current m" "v \<noteq> current m'" "now' \<le> t"
    using that unfolding valid_iff t c(2) pruned_def stale_at_def
    by (auto split: option.splits if_splits)
  show "valid t m' (current m) \<longleftrightarrow> t < now + from_secs g" if nz: "current m \<noteq> 0" and "now' \<le> t"
  proof -
    obtain e where "table m ?c = Some e" using assms(1) nz by (auto simp: wf_table_def)
    then show ?thesis using that succ_less(1) [OF c(1)] unfolding valid_iff t pruned_def stale_at_def
      by (auto split: if_splits)
  qed
qed

end

section \<open>Both tables obey the contract\<close>

definition sign_entry :: "VersionedSignKey \<Rightarrow> SignMasterKey entry" where
  "sign_entry e = \<lparr>en_key = vs_key e, en_version = vs_version e, en_expires_at = vs_expires_at e, en_active = vs_active e\<rparr>"

definition enc_entry :: "VersionedEncKey \<Rightarrow> EncMasterKey entry" where
  "enc_entry e = \<lparr>en_key = ve_key e, en_version = ve_version e, en_expires_at = ve_expires_at e, en_active = ve_active e\<rparr>"

definition sign_table :: "KeyRotationManager \<Rightarrow> (KeyVersion \<rightharpoonup> SignMasterKey entry)" where
  "sign_table m v = map_option sign_entry (sign_keys m v)"

definition enc_table :: "KeyRotationManager \<Rightarrow> (KeyVersion \<rightharpoonup> EncMasterKey entry)" where
  "enc_table m v = map_option enc_entry (enc_keys m v)"

lemmas table_defs = sign_table_def enc_table_def sign_entry_def enc_entry_def

lemma table_empty: "sign_table m = Map.empty \<longleftrightarrow> sign_keys m = Map.empty" "enc_table m = Map.empty \<longleftrightarrow> enc_keys m = Map.empty"
  by (auto simp: fun_eq_iff table_defs)

lemma sign_table_entry: "sign_keys m v = Some e \<Longrightarrow> sign_table m v = Some (sign_entry e)"
  by (simp add: sign_table_def)

lemma enc_table_entry: "enc_keys m v = Some e \<Longrightarrow> enc_table m v = Some (enc_entry e)"
  by (simp add: enc_table_def)

lemmas rotate_defs = rotate_sign_key_def rotate_enc_key_def prune_expired_sign_keys_def prune_expired_enc_keys_def
  version_succ_def instant_add_def Let_def

interpretation sk: key_rotation sign_table current_sign_version sign_rotations max_retained_versions
  register_sign_key rotate_sign_key is_sign_key_valid
proof unfold_locales
  fix m m' :: KeyRotationManager and now k r
  assume "sign_table m = Map.empty" "register_sign_key now k m = (r, m')"
  then show "r = Inr 1 \<and> current_sign_version m' = 1 \<and> sign_rotations m' = sign_rotations m \<and>
      sign_table m' = [1 \<mapsto> \<lparr>en_key = k, en_version = 1, en_expires_at = None, en_active = True\<rparr>]"
    by (auto simp: table_empty register_sign_key_def sign_table_def sign_entry_def fun_eq_iff)
next
  fix m m' :: KeyRotationManager and now k r
  assume "sign_table m \<noteq> Map.empty" "register_sign_key now k m = (r, m')"
  then show "m' = m \<and> \<not> is_ok r" by (auto simp: table_empty register_sign_key_def)
next
  fix m m' :: KeyRotationManager and mx now now' k g rr
  assume "rotate_sign_key mx now now' k g m = Some (rr, m')"
  then show "\<exists>rec. rr = Inr rec \<and> current_sign_version m \<noteq> 0xFFFFFFFF \<and> current_sign_version m' = current_sign_version m + 1 \<and>
      sign_rotations m' = sign_rotations m @ [rec] \<and>
      rr_from_version rec = current_sign_version m \<and> rr_to_version rec = current_sign_version m + 1 \<and> \<not> rr_grace_expired rec \<and>
      sign_table m' = pruned now' (max_retained_versions m) (current_sign_version m + 1)
          ((case sign_table m (current_sign_version m) of
              Some e \<Rightarrow> (sign_table m)(current_sign_version m \<mapsto> e\<lparr>en_active := False, en_expires_at := Some (now + from_secs g)\<rparr>)
            | None \<Rightarrow> sign_table m)
           (current_sign_version m + 1 \<mapsto> \<lparr>en_key = k, en_version = current_sign_version m + 1, en_expires_at = None, en_active = True\<rparr>))"
    by (auto simp: rotate_defs fun_eq_iff sign_table_def sign_entry_def pruned_def stale_at_def split: option.splits if_splits)
next
  fix now m v
  show "is_sign_key_valid now m v \<longleftrightarrow> (case sign_table m v of
        Some e \<Rightarrow> en_active e \<or> (case en_expires_at e of Some exp \<Rightarrow> now < exp | None \<Rightarrow> False) | None \<Rightarrow> False)"
    by (auto simp: is_sign_key_valid_def sign_table_def sign_entry_def split: option.splits)
qed

interpretation ek: key_rotation enc_table current_enc_version enc_rotations max_retained_versions
  register_enc_key rotate_enc_key is_enc_key_valid
proof unfold_locales
  fix m m' :: KeyRotationManager and now k r
  assume "enc_table m = Map.empty" "register_enc_key now k m = (r, m')"
  then show "r = Inr 1 \<and> current_enc_version m' = 1 \<and> enc_rotations m' = enc_rotations m \<and>
      enc_table m' = [1 \<mapsto> \<lparr>en_key = k, en_version = 1, en_expires_at = None, en_active = True\<rparr>]"
    by (auto simp: table_empty register_enc_key_def enc_table_def enc_entry_def fun_eq_iff)
next
  fix m m' :: KeyRotationManager and now k r
  assume "enc_table m \<noteq> Map.empty" "register_enc_key now k m = (r, m')"
  then show "m' = m \<and> \<not> is_ok r" by (auto simp: table_empty register_enc_key_def)
next
  fix m m' :: KeyRotationManager and mx now now' k g rr
  assume "rotate_enc_key mx now now' k g m = Some (rr, m')"
  then show "\<exists>rec. rr = Inr rec \<and> current_enc_version m \<noteq> 0xFFFFFFFF \<and> current_enc_version m' = current_enc_version m + 1 \<and>
      enc_rotations m' = enc_rotations m @ [rec] \<and>
      rr_from_version rec = current_enc_version m \<and> rr_to_version rec = current_enc_version m + 1 \<and> \<not> rr_grace_expired rec \<and>
      enc_table m' = pruned now' (max_retained_versions m) (current_enc_version m + 1)
          ((case enc_table m (current_enc_version m) of
              Some e \<Rightarrow> (enc_table m)(current_enc_version m \<mapsto> e\<lparr>en_active := False, en_expires_at := Some (now + from_secs g)\<rparr>)
            | None \<Rightarrow> enc_table m)
           (current_enc_version m + 1 \<mapsto> \<lparr>en_key = k, en_version = current_enc_version m + 1, en_expires_at = None, en_active = True\<rparr>))"
    by (auto simp: rotate_defs fun_eq_iff enc_table_def enc_entry_def pruned_def stale_at_def split: option.splits if_splits)
next
  fix now m v
  show "is_enc_key_valid now m v \<longleftrightarrow> (case enc_table m v of
        Some e \<Rightarrow> en_active e \<or> (case en_expires_at e of Some exp \<Rightarrow> now < exp | None \<Rightarrow> False) | None \<Rightarrow> False)"
    by (auto simp: is_enc_key_valid_def enc_table_def enc_entry_def split: option.splits)
qed

section \<open>Sequences of operations\<close>

inductive rot_reachable :: "KeyRotationManager \<Rightarrow> bool" where
  rot_new: "rot_reachable rotation_new"
| rot_retained: "rot_reachable (with_max_versions n)"
| rot_register_sign: "rot_reachable m \<Longrightarrow> register_sign_key now k m = (r, m') \<Longrightarrow> rot_reachable m'"
| rot_rotate_sign: "rot_reachable m \<Longrightarrow> rotate_sign_key mx now now' k g m = Some (rr, m') \<Longrightarrow> rot_reachable m'"
| rot_register_enc: "rot_reachable m \<Longrightarrow> register_enc_key now k' m = (r, m') \<Longrightarrow> rot_reachable m'"
| rot_rotate_enc: "rot_reachable m \<Longrightarrow> rotate_enc_key mx now now' k' g m = Some (rr, m') \<Longrightarrow> rot_reachable m'"

text \<open>An operation on one table leaves the other one alone.\<close>

lemma sign_frame:
  "register_sign_key now k m = (r, m') \<Longrightarrow> enc_keys m' = enc_keys m \<and> current_enc_version m' = current_enc_version m \<and> enc_rotations m' = enc_rotations m"
  "rotate_sign_key mx now now' k g m = Some (rr, m') \<Longrightarrow>
     enc_keys m' = enc_keys m \<and> current_enc_version m' = current_enc_version m \<and> enc_rotations m' = enc_rotations m"
  by (auto simp: register_sign_key_def rotate_defs split: option.splits if_splits)

lemma enc_frame:
  "register_enc_key now k m = (r, m') \<Longrightarrow> sign_keys m' = sign_keys m \<and> current_sign_version m' = current_sign_version m \<and> sign_rotations m' = sign_rotations m"
  "rotate_enc_key mx now now' k g m = Some (rr, m') \<Longrightarrow>
     sign_keys m' = sign_keys m \<and> current_sign_version m' = current_sign_version m \<and> sign_rotations m' = sign_rotations m"
  by (auto simp: register_enc_key_def rotate_defs split: option.splits if_splits)

lemma wf_frame:
  "enc_keys m' = enc_keys m \<and> current_enc_version m' = current_enc_version m \<and> enc_rotations m' = enc_rotations m \<Longrightarrow>
     ek.wf_table m' = ek.wf_table m"
  "sign_keys m' = sign_keys m \<and> current_sign_version m' = current_sign_version m \<and> sign_rotations m' = sign_rotations m \<Longrightarrow>
     sk.wf_table m' = sk.wf_table m"
proof -
  show "ek.wf_table m' = ek.wf_table m"
    if f: "enc_keys m' = enc_keys m \<and> current_enc_version m' = current_enc_version m \<and> enc_rotations m' = enc_rotations m"
  proof -
    have "enc_table m' = enc_table m" using f by (simp add: fun_eq_iff enc_table_def)
    then show ?thesis using f by (simp add: ek.wf_table_def)
  qed
  show "sk.wf_table m' = sk.wf_table m"
    if f: "sign_keys m' = sign_keys m \<and> current_sign_version m' = current_sign_version m \<and> sign_rotations m' = sign_rotations m"
  proof -
    have "sign_table m' = sign_table m" using f by (simp add: fun_eq_iff sign_table_def)
    then show ?thesis using f by (simp add: sk.wf_table_def)
  qed
qed

lemma reachable_wf: "rot_reachable m \<Longrightarrow> sk.wf_table m \<and> ek.wf_table m"
proof (induction rule: rot_reachable.induct)
  case (rot_register_sign m now k r m')
  then show ?case using sk.register_wf wf_frame(1) [OF sign_frame(1)] by blast
next
  case (rot_rotate_sign m mx now now' k g rr m')
  then show ?case using sk.rotate_wf wf_frame(1) [OF sign_frame(2)] by blast
next
  case (rot_register_enc m now k' r m')
  then show ?case using ek.register_wf wf_frame(2) [OF enc_frame(1)] by blast
next
  case (rot_rotate_enc m mx now now' k' g rr m')
  then show ?case using ek.rotate_wf wf_frame(2) [OF enc_frame(2)] by blast
qed (auto simp: sk.wf_table_def ek.wf_table_def rotation_new_def with_max_versions_def table_empty, simp_all add: table_defs)

section \<open>Properties\<close>

text \<open>
  C26. The key tables along every sequence of registrations and rotations: the versions of each table
  lie between 1 and its current version, the current version is present once a key was given, is the
  only active one and the only one without expiry; every recorded rotation goes from one version to
  the next and is still marked as not expired.
\<close>

theorem rotation_invariant:
  assumes "rot_reachable m"
  shows "(\<forall>v e. sign_keys m v = Some e \<longrightarrow> 0 < v \<and> v \<le> current_sign_version m \<and> vs_version e = v \<and>
        (vs_active e \<longleftrightarrow> v = current_sign_version m) \<and> (vs_expires_at e = None \<longleftrightarrow> v = current_sign_version m)) \<and>
     (current_sign_version m \<noteq> 0 \<longrightarrow> current_sign_key m \<noteq> None \<and> is_sign_key_valid now m (current_sign_version m)) \<and>
     (\<forall>rec \<in> set (sign_rotations m). rr_to_version rec = rr_from_version rec + 1 \<and> \<not> rr_grace_expired rec) \<and>
     (\<forall>v e. enc_keys m v = Some e \<longrightarrow> 0 < v \<and> v \<le> current_enc_version m \<and> ve_version e = v \<and>
        (ve_active e \<longleftrightarrow> v = current_enc_version m) \<and> (ve_expires_at e = None \<longleftrightarrow> v = current_enc_version m)) \<and>
     (current_enc_version m \<noteq> 0 \<longrightarrow> current_enc_key m \<noteq> None \<and> is_enc_key_valid now m (current_enc_version m)) \<and>
     (\<forall>rec \<in> set (enc_rotations m). rr_to_version rec = rr_from_version rec + 1 \<and> \<not> rr_grace_expired rec)"
proof -
  have s: "sk.wf_table m" and e: "ek.wf_table m" using reachable_wf [OF assms] by auto
  have "\<forall>v e. sign_keys m v = Some e \<longrightarrow> 0 < v \<and> v \<le> current_sign_version m \<and> vs_version e = v \<and>
        (vs_active e \<longleftrightarrow> v = current_sign_version m) \<and> (vs_expires_at e = None \<longleftrightarrow> v = current_sign_version m)"
    by (intro allI impI, drule sign_table_entry, drule sk.entry_wf [OF s]) (simp add: sign_entry_def)
  moreover have "\<forall>v e. enc_keys m v = Some e \<longrightarrow> 0 < v \<and> v \<le> current_enc_version m \<and> ve_version e = v \<and>
        (ve_active e \<longleftrightarrow> v = current_enc_version m) \<and> (ve_expires_at e = None \<longleftrightarrow> v = current_enc_version m)"
    by (intro allI impI, drule enc_table_entry, drule ek.entry_wf [OF e]) (simp add: enc_entry_def)
  moreover have "current_sign_version m \<noteq> 0 \<longrightarrow> current_sign_key m \<noteq> None \<and> is_sign_key_valid now m (current_sign_version m)"
    using s sk.current_valid [OF s] by (auto simp: sk.wf_table_def sign_table_def current_sign_key_def)
  moreover have "current_enc_version m \<noteq> 0 \<longrightarrow> current_enc_key m \<noteq> None \<and> is_enc_key_valid now m (current_enc_version m)"
    using e ek.current_valid [OF e] by (auto simp: ek.wf_table_def enc_table_def current_enc_key_def)
  moreover have "\<forall>rec \<in> set (sign_rotations m). rr_to_version rec = rr_from_version rec + 1 \<and> \<not> rr_grace_expired rec"
    using s by (simp add: sk.wf_table_def)
  moreover have "\<forall>rec \<in> set (enc_rotations m). rr_to_version rec = rr_from_version rec + 1 \<and> \<not> rr_grace_expired rec"
    using e by (simp add: ek.wf_table_def)
  ultimately show ?thesis by blast
qed

text \<open>
  C27. A rotation of the signing key: the new key is the current one and valid from then on; the old
  version stays valid exactly until its grace period has passed; the validity of every other version
  is untouched, so pruning removes no valid version; the encryption keys are untouched.
\<close>

theorem rotation_grace:
  assumes "rot_reachable m" "rotate_sign_key mx now now' k g m = Some (rr, m')" "now' \<le> t"
  shows "current_sign_key m' = Some k \<and> is_sign_key_valid t m' (current_sign_version m') \<and>
    current_sign_version m' = current_sign_version m + 1 \<and>
    (current_sign_version m \<noteq> 0 \<longrightarrow> is_sign_key_valid t m' (current_sign_version m) = (t < now + unat g * 10 ^ 9)) \<and>
    (\<forall>v. v \<noteq> current_sign_version m \<longrightarrow> v \<noteq> current_sign_version m' \<longrightarrow> is_sign_key_valid t m' v = is_sign_key_valid t m v) \<and>
    enc_keys m' = enc_keys m"
proof -
  have s: "sk.wf_table m" using reachable_wf [OF assms(1)] by simp
  note v = sk.rotate_valid [OF s assms(2)]
  have "current_sign_version m' = current_sign_version m + 1" using sk.rotate_ok [OF assms(2)] by blast
  moreover have "current_sign_key m' = Some k" using v(2) by (auto simp: current_sign_key_def sign_table_def sign_entry_def)
  ultimately show ?thesis using v(1,3,4) assms(3) sign_frame(2) [OF assms(2)] by (simp add: from_secs_def)
qed

definition demo_key :: SignMasterKey where
  "demo_key = \<lparr>smk_s = z256_one, smk_ppubs = g2_generator\<rparr>"

definition demo_registered :: KeyRotationManager where
  "demo_registered = snd (register_sign_key 5 demo_key rotation_new)"

definition demo_rotated :: KeyRotationManager where
  "demo_rotated = snd (the (rotate_sign_key (10 ^ 20) 7 8 demo_key 3600 demo_registered))"

lemma demo_reachable: "rot_reachable demo_registered"
  using rot_register_sign [OF rot_new, of 5 demo_key "fst (register_sign_key 5 demo_key rotation_new)" demo_registered]
  by (simp add: demo_registered_def)

lemma demo_run:
  "\<exists>rec. rotate_sign_key (10 ^ 20) 7 8 demo_key 3600 demo_registered = Some (Inr rec, demo_rotated)"
  "current_sign_version demo_registered = 1" "current_sign_version demo_rotated = 2"
  by (simp_all add: demo_rotated_def demo_registered_def rotate_sign_key_def register_sign_key_def rotation_new_def version_succ_def
      instant_add_def from_secs_def prune_expired_sign_keys_def Let_def)

theorem rotation_invariant_witness:
  "current_sign_key demo_rotated \<noteq> None \<and> is_sign_key_valid 99 demo_rotated 2"
proof -
  have "rot_reachable demo_rotated" using demo_run(1) rot_rotate_sign [OF demo_reachable] by blast
  from rotation_invariant [OF this, of 99] show ?thesis by (simp add: demo_run(3))
qed

theorem rotation_grace_witness:
  "is_sign_key_valid 3599000000000 demo_rotated 1 \<and> \<not> is_sign_key_valid 3600000000007 demo_rotated 1"
proof -
  obtain rec where r: "rotate_sign_key (10 ^ 20) 7 8 demo_key 3600 demo_registered = Some (Inr rec, demo_rotated)"
    using demo_run(1) by blast
  show ?thesis
    using rotation_grace [OF demo_reachable r, of 3599000000000] rotation_grace [OF demo_reachable r, of 3600000000007]
    by (simp add: demo_run(2))
qed

end
