(* ===== verification/Gm_Crypto.thy ===== *)
theory Gm_Crypto
  imports Gm_Prelude
begin

text \<open>
  The symmetric part of \<open>gm-crypto\<close>: HMAC over SM3 (\<open>sm3.rs\<close>) and the modes of operation of SM4
  (\<open>sm4.rs\<close>). The SM3 compression, the SM4 block cipher, counter mode and GHASH come from other crates
  and are parameters.
  Shown: decryption inverts encryption in every mode, GCM accepts exactly the tag it computes, and
  HMAC is the standard construction for every key length.
\<close>

section \<open>Errors\<close>

datatype CryptoError =
    Sm2Error string
  | Sm2KexError string
  | Sm3Error string
  | Sm4Error string
  | Sm9Error string
  | InvalidHex string
  | InvalidBase64 string
  | InvalidKeyLength nat nat
  | InvalidDataLength string
  | SignatureVerificationFailed
  | EncryptionFailed string
  | DecryptionFailed string
  | InvalidPadding nat
  | CertificateVerificationFailed string
  | CrlVerificationFailed string

text \<open>\<open>Display\<close> of a \<^typ>\<open>CryptoError\<close>, as its \<open>#[error]\<close> attributes give it.\<close>

fun display_crypto_error :: "CryptoError \<Rightarrow> string" where
  "display_crypto_error (Sm2Error s) = ''SM2 error: '' @ s"
| "display_crypto_error (Sm2KexError s) = ''SM2 KEX error: '' @ s"
| "display_crypto_error (Sm3Error s) = ''SM3 error: '' @ s"
| "display_crypto_error (Sm4Error s) = ''SM4 error: '' @ s"
| "display_crypto_error (Sm9Error s) = ''SM9 error: '' @ s"
| "display_crypto_error (InvalidHex s) = ''invalid hex string: '' @ s"
| "display_crypto_error (InvalidBase64 s) = ''invalid Base64 string: '' @ s"
| "display_crypto_error (InvalidKeyLength expected actual) =
     ''invalid key length: expected '' @ show_nat expected @ '', got '' @ show_nat actual"
| "display_crypto_error (InvalidDataLength s) = ''invalid data length: '' @ s"
| "display_crypto_error SignatureVerificationFailed = ''signature verification failed''"
| "display_crypto_error (EncryptionFailed s) = ''encryption failed: '' @ s"
| "display_crypto_error (DecryptionFailed s) = ''decryption failed: '' @ s"
| "display_crypto_error (InvalidPadding expected) =
     ''invalid PKCS#7 padding: expected '' @ show_nat expected @ '' padding bytes''"
| "display_crypto_error (CertificateVerificationFailed s) = ''certificate verification failed: '' @ s"
| "display_crypto_error (CrlVerificationFailed s) = ''CRL verification failed: '' @ s"

text \<open>Derived \<open>Debug\<close> of a \<^typ>\<open>CryptoError\<close>; string payloads are quoted, with quotes and backslashes escaped.\<close>

definition debug_string :: "string \<Rightarrow> string" where
  "debug_string s =
     [CHR 0x22] @ concat (map (\<lambda>c. if c = CHR 0x22 \<or> c = CHR 0x5C then [CHR 0x5C, c] else [c]) s) @ [CHR 0x22]"

definition debug_tuple :: "string \<Rightarrow> string \<Rightarrow> string" where
  "debug_tuple name s = name @ ''('' @ debug_string s @ '')''"

fun debug_crypto_error :: "CryptoError \<Rightarrow> string" where
  "debug_crypto_error (Sm2Error s) = debug_tuple ''Sm2Error'' s"
| "debug_crypto_error (Sm2KexError s) = debug_tuple ''Sm2KexError'' s"
| "debug_crypto_error (Sm3Error s) = debug_tuple ''Sm3Error'' s"
| "debug_crypto_error (Sm4Error s) = debug_tuple ''Sm4Error'' s"
| "debug_crypto_error (Sm9Error s) = debug_tuple ''Sm9Error'' s"
| "debug_crypto_error (InvalidHex s) = debug_tuple ''InvalidHex'' s"
| "debug_crypto_error (InvalidBase64 s) = debug_tuple ''InvalidBase64'' s"
| "debug_crypto_error (InvalidKeyLength expected actual) =
     ''InvalidKeyLength { expected: '' @ show_nat expected @ '', actual: '' @ show_nat actual @ '' }''"
| "debug_crypto_error (InvalidDataLength s) = debug_tuple ''InvalidDataLength'' s"
| "debug_crypto_error SignatureVerificationFailed = ''SignatureVerificationFailed''"
| "debug_crypto_error (EncryptionFailed s) = debug_tuple ''EncryptionFailed'' s"
| "debug_crypto_error (DecryptionFailed s) = debug_tuple ''DecryptionFailed'' s"
| "debug_crypto_error (InvalidPadding expected) = ''InvalidPadding { expected: '' @ show_nat expected @ '' }''"
| "debug_crypto_error (CertificateVerificationFailed s) = debug_tuple ''CertificateVerificationFailed'' s"
| "debug_crypto_error (CrlVerificationFailed s) = debug_tuple ''CrlVerificationFailed'' s"

text \<open>A byte string literal.\<close>

definition ascii :: "string \<Rightarrow> bytes" where
  "ascii s = map of_char s"

section \<open>Parameters\<close>

text \<open>
  The crates \<open>sm4\<close>, \<open>ctr\<close>, \<open>ghash\<close> and \<open>subtle\<close>: the two directions of the block cipher under a key,
  the key stream of \<open>Ctr128BE\<close> applied to data, GHASH of a sequence of blocks under a hash key, and
  the comparison of byte slices as a truth value.
\<close>

record sm4_crates =
  encrypt_block :: "bytes \<Rightarrow> bytes \<Rightarrow> bytes"
  decrypt_block :: "bytes \<Rightarrow> bytes \<Rightarrow> bytes"
  apply_keystream :: "bytes \<Rightarrow> bytes \<Rightarrow> bytes \<Rightarrow> bytes"
  ghash_blocks :: "bytes \<Rightarrow> bytes list \<Rightarrow> bytes"
  slices_ct_eq :: "bytes \<Rightarrow> bytes \<Rightarrow> bool"

definition sm4_laws :: "sm4_crates \<Rightarrow> bool" where
  "sm4_laws P \<longleftrightarrow>
     (\<forall>k b. length k = 16 \<longrightarrow> length b = 16 \<longrightarrow>
        length (encrypt_block P k b) = 16 \<and> length (decrypt_block P k b) = 16 \<and>
        decrypt_block P k (encrypt_block P k b) = b) \<and>
     (\<forall>k iv d. length (apply_keystream P k iv d) = length d \<and> apply_keystream P k iv (apply_keystream P k iv d) = d) \<and>
     (\<forall>h bs. length (ghash_blocks P h bs) = 16) \<and>
     (\<forall>x y. slices_ct_eq P x y = (x = y))"

section \<open>HMAC-SM3\<close>

definition sm3_hash :: "(bytes \<Rightarrow> bytes) \<Rightarrow> bytes \<Rightarrow> (CryptoError, bytes) res" where
  "sm3_hash sm3 data = Inr (sm3 data)"

record Sm3Hmac =
  hmac_key :: bytes

definition sm3_hmac_new :: "bytes \<Rightarrow> Sm3Hmac" where
  "sm3_hmac_new key = \<lparr>hmac_key = key\<rparr>"

definition sm3_hmac_compute :: "(bytes \<Rightarrow> bytes) \<Rightarrow> Sm3Hmac \<Rightarrow> bytes \<Rightarrow> (CryptoError, bytes) res" where
  "sm3_hmac_compute sm3 h data =
     (let block_size = 64
      in bind_res (if length (hmac_key h) > block_size
                   then bind_res (sm3_hash sm3 (hmac_key h)) (\<lambda>key_hash. Inr (key_hash @ replicate (block_size - length key_hash) 0))
                   else Inr (hmac_key h @ replicate (block_size - length (hmac_key h)) 0)) (\<lambda>key_padded.
         let ipad = map (\<lambda>i. 0x36 XOR key_padded ! i) [0..<block_size];
             inner_hash = sm3 (ipad @ data);
             opad = map (\<lambda>i. 0x5C XOR key_padded ! i) [0..<block_size];
             hmac = sm3 (opad @ inner_hash)
         in Inr hmac))"

definition sm3_hmac_verify :: "(bytes \<Rightarrow> bytes) \<Rightarrow> sm4_crates \<Rightarrow> Sm3Hmac \<Rightarrow> bytes \<Rightarrow> bytes \<Rightarrow> (CryptoError, bool) res" where
  "sm3_hmac_verify sm3 P h data hmac =
     bind_res (sm3_hmac_compute sm3 h data) (\<lambda>computed.
       if length computed \<noteq> length hmac then Inr False else Inr (slices_ct_eq P computed hmac))"

section \<open>SM4\<close>

definition SM4_KEY_LENGTH :: nat where
  "SM4_KEY_LENGTH = 16"

definition SM4_BLOCK_SIZE :: nat where
  "SM4_BLOCK_SIZE = 16"

definition SM4_GCM_TAG_LENGTH :: nat where
  "SM4_GCM_TAG_LENGTH = 16"

definition SM4_GCM_NONCE_LENGTH :: nat where
  "SM4_GCM_NONCE_LENGTH = 12"

lemmas sm4_sizes = SM4_KEY_LENGTH_def SM4_BLOCK_SIZE_def SM4_GCM_TAG_LENGTH_def SM4_GCM_NONCE_LENGTH_def

record Sm4Cipher =
  key_bytes :: bytes

definition sm4_new :: "bytes \<Rightarrow> (CryptoError, Sm4Cipher) res" where
  "sm4_new key =
     (if length key \<noteq> SM4_KEY_LENGTH then Inl (InvalidKeyLength SM4_KEY_LENGTH (length key))
      else Inr \<lparr>key_bytes = key\<rparr>)"

text \<open>\<open>chunks_exact(16)\<close>: the complete blocks of a slice, without the remainder.\<close>

fun chunks_exact :: "nat \<Rightarrow> 'a list \<Rightarrow> 'a list list" where
  "chunks_exact n xs = (if n = 0 \<or> length xs < n then [] else take n xs # chunks_exact n (drop n xs))"

declare chunks_exact.simps [simp del]

definition chunks_remainder :: "nat \<Rightarrow> 'a list \<Rightarrow> 'a list" where
  "chunks_remainder n xs = drop (length xs div n * n) xs"

definition encrypt_ecb :: "sm4_crates \<Rightarrow> Sm4Cipher \<Rightarrow> bytes \<Rightarrow> (CryptoError, bytes) res" where
  "encrypt_ecb P c data =
     (if length data mod SM4_BLOCK_SIZE \<noteq> 0
      then Inl (InvalidDataLength (''Data length must be a multiple of '' @ show_nat SM4_BLOCK_SIZE @ '' bytes''))
      else Inr (concat (map (encrypt_block P (key_bytes c)) (chunks_exact SM4_BLOCK_SIZE data))))"

definition decrypt_ecb :: "sm4_crates \<Rightarrow> Sm4Cipher \<Rightarrow> bytes \<Rightarrow> (CryptoError, bytes) res" where
  "decrypt_ecb P c data =
     (if length data mod SM4_BLOCK_SIZE \<noteq> 0
      then Inl (InvalidDataLength (''Data length must be a multiple of '' @ show_nat SM4_BLOCK_SIZE @ '' bytes''))
      else Inr (concat (map (decrypt_block P (key_bytes c)) (chunks_exact SM4_BLOCK_SIZE data))))"

fun cbc_encrypt_blocks :: "sm4_crates \<Rightarrow> bytes \<Rightarrow> bytes \<Rightarrow> bytes list \<Rightarrow> bytes" where
  "cbc_encrypt_blocks P k prev_block [] = []"
| "cbc_encrypt_blocks P k prev_block (chunk # chunks) =
     (let block_data = map (\<lambda>(a, b). a XOR b) (zip chunk prev_block);
          block = encrypt_block P k block_data
      in block @ cbc_encrypt_blocks P k block chunks)"

fun cbc_decrypt_blocks :: "sm4_crates \<Rightarrow> bytes \<Rightarrow> bytes \<Rightarrow> bytes list \<Rightarrow> bytes" where
  "cbc_decrypt_blocks P k prev_block [] = []"
| "cbc_decrypt_blocks P k prev_block (chunk # chunks) =
     (let block = decrypt_block P k chunk
      in map (\<lambda>(i, b). b XOR prev_block ! i) (enumerate 0 block) @ cbc_decrypt_blocks P k chunk chunks)"

definition iv_error :: CryptoError where
  "iv_error = InvalidDataLength (''IV length must be '' @ show_nat SM4_BLOCK_SIZE @ '' bytes'')"

definition raw_error :: CryptoError where
  "raw_error = InvalidDataLength (''Raw CBC input must be a non-empty multiple of '' @ show_nat SM4_BLOCK_SIZE @ '' bytes'')"

definition encrypt_cbc_raw :: "sm4_crates \<Rightarrow> Sm4Cipher \<Rightarrow> bytes \<Rightarrow> bytes \<Rightarrow> (CryptoError, bytes) res" where
  "encrypt_cbc_raw P c data iv =
     (if length iv \<noteq> SM4_BLOCK_SIZE then Inl iv_error
      else if data = [] \<or> length data mod SM4_BLOCK_SIZE \<noteq> 0 then Inl raw_error
      else Inr (cbc_encrypt_blocks P (key_bytes c) iv (chunks_exact SM4_BLOCK_SIZE data)))"

definition decrypt_cbc_raw :: "sm4_crates \<Rightarrow> Sm4Cipher \<Rightarrow> bytes \<Rightarrow> bytes \<Rightarrow> (CryptoError, bytes) res" where
  "decrypt_cbc_raw P c encrypted_data iv =
     (if length iv \<noteq> SM4_BLOCK_SIZE then Inl iv_error
      else if encrypted_data = [] \<or> length encrypted_data mod SM4_BLOCK_SIZE \<noteq> 0 then Inl raw_error
      else Inr (cbc_decrypt_blocks P (key_bytes c) iv (chunks_exact SM4_BLOCK_SIZE encrypted_data)))"

definition encrypt_cbc :: "sm4_crates \<Rightarrow> Sm4Cipher \<Rightarrow> bytes \<Rightarrow> bytes \<Rightarrow> (CryptoError, bytes) res" where
  "encrypt_cbc P c data iv =
     (if length iv \<noteq> SM4_BLOCK_SIZE then Inl iv_error
      else
        let padding_len = SM4_BLOCK_SIZE - (length data mod SM4_BLOCK_SIZE);
            padded_data = data @ replicate padding_len (word_of_nat padding_len)
        in Inr (cbc_encrypt_blocks P (key_bytes c) iv (chunks_exact SM4_BLOCK_SIZE padded_data)))"

definition remove_padding :: "bytes \<Rightarrow> (CryptoError, bytes) res" where
  "remove_padding result =
     (if result = [] then Inr result
      else
        let padding_byte = last result;
            padding_len = unat padding_byte
        in if padding_len > 0 \<and> padding_len \<le> SM4_BLOCK_SIZE then
             let expected_len = length result - padding_len;
                 valid = foldl (\<lambda>valid b. valid AND (if b = padding_byte then 1 else 0)) (1::u8) (drop expected_len result)
             in if valid = 1 then Inr (take expected_len result) else Inl (InvalidPadding padding_len)
           else Inl (InvalidPadding padding_len))"

definition decrypt_cbc :: "sm4_crates \<Rightarrow> Sm4Cipher \<Rightarrow> bytes \<Rightarrow> bytes \<Rightarrow> (CryptoError, bytes) res" where
  "decrypt_cbc P c encrypted_data iv =
     (if length iv \<noteq> SM4_BLOCK_SIZE then Inl iv_error
      else if length encrypted_data mod SM4_BLOCK_SIZE \<noteq> 0
      then Inl (InvalidDataLength (''Data length must be a multiple of '' @ show_nat SM4_BLOCK_SIZE @ '' bytes''))
      else remove_padding (cbc_decrypt_blocks P (key_bytes c) iv (chunks_exact SM4_BLOCK_SIZE encrypted_data)))"

section \<open>GCM\<close>

text \<open>\<open>ghash.update\<close> appends blocks to the hashed sequence; the sequences of the three updates are concatenated.\<close>

definition ghash_update :: "bytes \<Rightarrow> bytes list" where
  "ghash_update data =
     (if data = [] then []
      else
        let blocks = chunks_exact 16 data;
            rem = chunks_remainder 16 data
        in if rem \<noteq> [] then blocks @ [rem @ replicate (16 - length rem) 0] else blocks)"

definition ghash_lengths :: "nat \<Rightarrow> nat \<Rightarrow> bytes list" where
  "ghash_lengths aad_len c_len =
     (let aad_bits = (word_of_nat aad_len :: u64) * 8;
          c_bits = (word_of_nat c_len :: u64) * 8
      in [u64_to_be aad_bits @ u64_to_be c_bits])"

definition inc32 :: "bytes \<Rightarrow> bytes" where
  "inc32 block = take 12 block @ u32_to_be (u32_from_be (take 4 (drop 12 block)) + 1)"

definition gcm_j0 :: "bytes \<Rightarrow> bytes" where
  "gcm_j0 nonce = nonce @ [0, 0, 0, 1]"

definition gcm_tag :: "sm4_crates \<Rightarrow> bytes \<Rightarrow> bytes \<Rightarrow> bytes \<Rightarrow> bytes \<Rightarrow> bytes" where
  "gcm_tag P k j0 aad ciphertext =
     (let h = encrypt_block P k (replicate 16 0);
          s = ghash_blocks P h (ghash_update aad @ ghash_update ciphertext @ ghash_lengths (length aad) (length ciphertext));
          t_block = encrypt_block P k j0
      in map (\<lambda>i. t_block ! i XOR s ! i) [0..<SM4_GCM_TAG_LENGTH])"

definition nonce_error :: CryptoError where
  "nonce_error = InvalidDataLength (''Nonce length must be '' @ show_nat SM4_GCM_NONCE_LENGTH @ '' bytes'')"

definition encrypt_gcm :: "sm4_crates \<Rightarrow> Sm4Cipher \<Rightarrow> bytes \<Rightarrow> bytes \<Rightarrow> bytes \<Rightarrow> (CryptoError, bytes \<times> bytes) res" where
  "encrypt_gcm P c data nonce aad =
     (if length nonce \<noteq> SM4_GCM_NONCE_LENGTH then Inl nonce_error
      else
        let j0 = gcm_j0 nonce;
            ctr_iv = inc32 j0;
            ciphertext = apply_keystream P (key_bytes c) ctr_iv data;
            tag = gcm_tag P (key_bytes c) j0 aad ciphertext
        in Inr (ciphertext, tag))"

definition decrypt_gcm :: "sm4_crates \<Rightarrow> Sm4Cipher \<Rightarrow> bytes \<Rightarrow> bytes \<Rightarrow> bytes \<Rightarrow> bytes \<Rightarrow> (CryptoError, bytes) res" where
  "decrypt_gcm P c encrypted_data nonce aad tag =
     (if length nonce \<noteq> SM4_GCM_NONCE_LENGTH then Inl nonce_error
      else if length tag \<noteq> SM4_GCM_TAG_LENGTH
      then Inl (InvalidDataLength (''Tag length must be '' @ show_nat SM4_GCM_TAG_LENGTH @ '' bytes''))
      else
        let j0 = gcm_j0 nonce;
            expected_tag = gcm_tag P (key_bytes c) j0 aad encrypted_data
        in if \<not> slices_ct_eq P expected_tag tag then Inl (Sm4Error ''SM4-GCM authentication failed'')
           else
             let ctr_iv = inc32 j0
             in Inr (apply_keystream P (key_bytes c) ctr_iv encrypted_data))"

section \<open>Blocks\<close>

lemma chunks_exact_concat:
  assumes "n \<noteq> 0" "n dvd length xs"
  shows "concat (chunks_exact n xs) = xs"
  using assms
proof (induction n xs rule: chunks_exact.induct)
  case (1 n xs)
  show ?case
  proof (cases "length xs < n")
    case True
    then have "xs = []" using "1.prems" by (auto simp: dvd_def)
    then show ?thesis using "1.prems" by (simp add: chunks_exact.simps [of n])
  next
    case False
    then have "n dvd length (drop n xs)" using "1.prems" by (simp add: dvd_diff_nat)
    then show ?thesis using 1 False by (simp add: chunks_exact.simps [of n xs])
  qed
qed

lemma chunks_exact_length: "b \<in> set (chunks_exact n xs) \<Longrightarrow> length b = n"
proof (induction n xs rule: chunks_exact.induct)
  case (1 n xs)
  then show ?case by (subst (asm) (2) chunks_exact.simps) (auto split: if_splits)
qed

lemma chunks_exact_append:
  assumes "n \<noteq> 0" "length b = n"
  shows "chunks_exact n (b @ xs) = b # chunks_exact n xs"
  using assms by (subst chunks_exact.simps) simp

lemma chunks_exact_blocks:
  assumes "n \<noteq> 0" "\<forall>b \<in> set bs. length b = n"
  shows "chunks_exact n (concat bs) = bs"
  using assms(2) by (induction bs) (simp_all add: chunks_exact.simps [of n "[]"] assms(1) chunks_exact_append)

lemma length_chunked: "\<forall>b \<in> set bs. length b = n \<Longrightarrow> length (concat bs) = n * length bs"
  by (induction bs) auto

section \<open>Cipher block chaining\<close>

lemma cbc_encrypt_length:
  assumes "sm4_laws P" "length k = 16" "length prev = 16" "\<forall>b \<in> set cs. length b = 16"
  shows "length (cbc_encrypt_blocks P k prev cs) = 16 * length cs"
  using assms(3,4)
proof (induction cs arbitrary: prev)
  case (Cons c cs)
  then have "length (encrypt_block P k (map (\<lambda>(a, b). a XOR b) (zip c prev))) = 16" using assms(1,2) by (simp add: sm4_laws_def)
  then show ?case using Cons by (simp add: Let_def)
qed simp

lemma cbc_decrypt_length:
  assumes "sm4_laws P" "length k = 16" "length prev = 16" "\<forall>b \<in> set cs. length b = 16"
  shows "length (cbc_decrypt_blocks P k prev cs) = 16 * length cs"
  using assms(3,4)
proof (induction cs arbitrary: prev)
  case (Cons c cs)
  then have "length (decrypt_block P k c) = 16" using assms(1,2) by (simp add: sm4_laws_def)
  then show ?case using Cons by (simp add: Let_def)
qed simp

lemma xor_enumerate:
  assumes "length b = length prev"
  shows "map (\<lambda>(i, x). x XOR prev ! i) (enumerate 0 (map (\<lambda>(a, b). a XOR b) (zip b prev))) = (b :: bytes)"
  using assms by (intro nth_equalityI) (auto simp: nth_enumerate_eq xor.assoc)

lemma cbc_roundtrip:
  assumes "sm4_laws P" "length k = 16" "length prev = 16" "\<forall>b \<in> set cs. length b = 16"
  shows "cbc_decrypt_blocks P k prev (chunks_exact 16 (cbc_encrypt_blocks P k prev cs)) = concat cs"
  using assms(3,4)
proof (induction cs arbitrary: prev)
  case Nil
  then show ?case by (simp add: chunks_exact.simps)
next
  case (Cons c cs)
  define x where "x = map (\<lambda>(a, b). a XOR b) (zip c prev)"
  define e where "e = encrypt_block P k x"
  have x: "length x = 16" using Cons.prems by (simp add: x_def)
  then have e: "length e = 16" "decrypt_block P k e = x" using assms(1,2) by (simp_all add: sm4_laws_def e_def)
  have "cbc_encrypt_blocks P k prev (c # cs) = e @ cbc_encrypt_blocks P k e cs" by (simp add: Let_def e_def x_def)
  moreover have "map (\<lambda>(i, y). y XOR prev ! i) (enumerate 0 x) = c" unfolding x_def using Cons.prems by (intro xor_enumerate) simp
  ultimately show ?case using Cons.IH [OF e(1)] Cons.prems e by (simp add: chunks_exact_append Let_def)
qed

lemma remove_padding_ok:
  assumes "0 < n" "n \<le> 16"
  shows "remove_padding (data @ replicate n (word_of_nat n)) = Inr data"
proof -
  define b :: u8 where "b = word_of_nat n"
  have "foldl (\<lambda>valid x. valid AND (if x = b then 1 else 0)) (1::u8) (replicate m b) = 1" for m
    by (induction m) auto
  moreover have "unat b = n" using assms by (simp add: b_def)
  ultimately show ?thesis using assms by (simp add: remove_padding_def SM4_BLOCK_SIZE_def flip: b_def)
qed

lemma padded_length: "16 dvd n + (16 - n mod 16 :: nat)"
  by presburger

lemma cbc_padded_roundtrip:
  assumes "sm4_laws P" "length (key_bytes c) = 16" "length iv = 16"
  shows "bind_res (encrypt_cbc P c data iv) (\<lambda>e. decrypt_cbc P c e iv) = Inr data"
proof -
  define n where "n = 16 - length data mod 16"
  define pad where "pad = data @ replicate n (word_of_nat n)"
  define e where "e = cbc_encrypt_blocks P (key_bytes c) iv (chunks_exact 16 pad)"
  have n: "0 < n" "n \<le> 16" by (simp_all add: n_def)
  have dvd: "16 dvd length pad" using padded_length [of "length data"] by (simp add: pad_def n_def)
  have "\<forall>b \<in> set (chunks_exact 16 pad). length b = 16" using chunks_exact_length by blast
  then have e: "length e = 16 * length (chunks_exact 16 pad)" "cbc_decrypt_blocks P (key_bytes c) iv (chunks_exact 16 e) = pad"
    using cbc_encrypt_length [OF assms] cbc_roundtrip [OF assms] chunks_exact_concat [OF _ dvd] by (simp_all add: e_def)
  have "encrypt_cbc P c data iv = Inr e"
    using assms(3) by (simp add: encrypt_cbc_def SM4_BLOCK_SIZE_def Let_def e_def pad_def flip: n_def)
  then show ?thesis using e remove_padding_ok [OF n, of data] assms(3)
    by (simp add: decrypt_cbc_def SM4_BLOCK_SIZE_def flip: pad_def)
qed

lemma cbc_raw_roundtrip:
  assumes "sm4_laws P" "length (key_bytes c) = 16" "length iv = 16" "data \<noteq> []" "16 dvd length data"
  shows "bind_res (encrypt_cbc_raw P c data iv) (\<lambda>e. decrypt_cbc_raw P c e iv) = Inr data"
proof -
  have l: "length (cbc_encrypt_blocks P (key_bytes c) iv (chunks_exact 16 data)) = 16 * length (chunks_exact 16 data)"
    using cbc_encrypt_length [OF assms(1-3)] chunks_exact_length by blast
  have "chunks_exact 16 data \<noteq> []" using assms(4,5) chunks_exact_concat [of 16 data] by auto
  then have "cbc_encrypt_blocks P (key_bytes c) iv (chunks_exact 16 data) \<noteq> []" using l by auto
  then show ?thesis
    using l assms cbc_roundtrip [OF assms(1-3), of "chunks_exact 16 data"] chunks_exact_length [of _ 16 data] chunks_exact_concat [of 16 data]
    by (simp add: encrypt_cbc_raw_def decrypt_cbc_raw_def SM4_BLOCK_SIZE_def dvd_eq_mod_eq_0)
qed

lemma ecb_roundtrip:
  assumes "sm4_laws P" "length (key_bytes c) = 16" "16 dvd length data"
  shows "bind_res (encrypt_ecb P c data) (decrypt_ecb P c) = Inr data"
proof -
  let ?bs = "map (encrypt_block P (key_bytes c)) (chunks_exact 16 data)"
  have b: "\<forall>b \<in> set ?bs. length b = 16" using assms chunks_exact_length [of _ 16 data] by (auto simp: sm4_laws_def)
  have "map (decrypt_block P (key_bytes c)) ?bs = chunks_exact 16 data"
    using assms chunks_exact_length [of _ 16 data] by (simp add: sm4_laws_def map_idI)
  then show ?thesis using assms chunks_exact_blocks [OF _ b] length_chunked [OF b] chunks_exact_concat [of 16 data]
    by (simp add: encrypt_ecb_def decrypt_ecb_def SM4_BLOCK_SIZE_def dvd_eq_mod_eq_0)
qed

section \<open>Galois counter mode and HMAC\<close>

lemma length_gcm_tag [simp]: "length (gcm_tag P k j0 aad e) = 16"
  by (simp add: gcm_tag_def SM4_GCM_TAG_LENGTH_def Let_def)

lemma decrypt_gcm_iff:
  assumes "sm4_laws P"
  shows "decrypt_gcm P c e nonce aad tag = Inr m \<longleftrightarrow> encrypt_gcm P c m nonce aad = Inr (e, tag)"
proof -
  have 1: "\<forall>k iv d. apply_keystream P k iv (apply_keystream P k iv d) = d" and 2: "\<forall>x y. slices_ct_eq P x y = (x = y)"
    using assms by (simp_all add: sm4_laws_def)
  show ?thesis unfolding encrypt_gcm_def decrypt_gcm_def Let_def using 1 by (auto simp: 2 SM4_GCM_TAG_LENGTH_def)
qed

lemma encrypt_gcm_ok:
  assumes "length nonce = 12"
  obtains e tag where "encrypt_gcm P c m nonce aad = Inr (e, tag)" "length tag = 16"
    "e = apply_keystream P (key_bytes c) (inc32 (gcm_j0 nonce)) m"
  using assms by (simp add: encrypt_gcm_def SM4_GCM_NONCE_LENGTH_def Let_def)

text \<open>The standard definition of HMAC (RFC 2104) with blocks of 64 bytes.\<close>

definition hmac_ref :: "(bytes \<Rightarrow> bytes) \<Rightarrow> bytes \<Rightarrow> bytes \<Rightarrow> bytes" where
  "hmac_ref sm3 key m =
     (let k0 = (if length key > 64 then sm3 key else key);
          k = k0 @ replicate (64 - length k0) 0
      in sm3 (map ((XOR) 0x5C) k @ sm3 (map ((XOR) 0x36) k @ m)))"

lemma hmac_compute_eq:
  assumes "\<And>x. length (sm3 x) = 32"
  shows "sm3_hmac_compute sm3 (sm3_hmac_new key) data = Inr (hmac_ref sm3 key data)"
proof -
  have m: "map (\<lambda>i. c XOR k ! i) [0..<64] = map ((XOR) c) k" if "length k = 64" for c :: u8 and k
    using that by (intro nth_equalityI) auto
  show ?thesis using assms
    by (cases "length key > 64") (simp_all add: sm3_hmac_compute_def sm3_hmac_new_def hmac_ref_def sm3_hash_def Let_def m)
qed

lemma length_hmac_ref:
  assumes "\<And>x. length (sm3 x) = 32"
  shows "length (hmac_ref sm3 k m) = 32"
  by (simp add: hmac_ref_def Let_def assms)

section \<open>A concrete cipher\<close>

definition xor_crates :: sm4_crates where
  "xor_crates =
     \<lparr>encrypt_block = (\<lambda>k b. map (\<lambda>(x, y). x XOR y) (zip k b)),
      decrypt_block = (\<lambda>k b. map (\<lambda>(x, y). x XOR y) (zip k b)),
      apply_keystream = (\<lambda>k iv d. map ((XOR) 0x5A) d),
      ghash_blocks = (\<lambda>h bs. map (\<lambda>i. foldl (XOR) 0 (map (\<lambda>b. b ! i) bs)) [0..<16]),
      slices_ct_eq = (=)\<rparr>"

lemma xor_crates_laws: "sm4_laws xor_crates"
proof -
  have "map (\<lambda>(x, y). x XOR y) (zip k (map (\<lambda>(x, y). x XOR y) (zip k b))) = b" if "length k = 16" "length b = 16" for k b :: bytes
    using that by (intro nth_equalityI) (auto simp flip: xor.assoc)
  moreover have "(0x5A XOR (0x5A XOR x)) = x" for x :: u8 by (simp flip: xor.assoc)
  ultimately show ?thesis by (simp add: sm4_laws_def xor_crates_def comp_def)
qed

section \<open>Properties\<close>

text \<open>
  C14. The modes of SM4 invert each other for every key of 16 bytes: padded CBC on every message, raw CBC
  and ECB on whole blocks, GCM on every message with the tag it produced. GCM decryption accepts a tag
  exactly if encryption of the message it returns gives this ciphertext and this tag.
\<close>

theorem sm4_modes_roundtrip:
  assumes "sm4_laws P" "sm4_new key = Inr c" "length iv = 16" "length nonce = 12"
  shows "bind_res (encrypt_cbc P c data iv) (\<lambda>e. decrypt_cbc P c e iv) = Inr data \<and>
    (data \<noteq> [] \<longrightarrow> 16 dvd length data \<longrightarrow> bind_res (encrypt_cbc_raw P c data iv) (\<lambda>e. decrypt_cbc_raw P c e iv) = Inr data) \<and>
    (16 dvd length data \<longrightarrow> bind_res (encrypt_ecb P c data) (decrypt_ecb P c) = Inr data) \<and>
    bind_res (encrypt_gcm P c data nonce aad) (\<lambda>(e, tag). decrypt_gcm P c e nonce aad tag) = Inr data \<and>
    (decrypt_gcm P c e nonce aad tag = Inr m \<longleftrightarrow> encrypt_gcm P c m nonce aad = Inr (e, tag))"
proof -
  have k: "length (key_bytes c) = 16" using assms(2) by (auto simp: sm4_new_def sm4_sizes split: if_splits)
  obtain e' tag' where "encrypt_gcm P c data nonce aad = Inr (e', tag')" using encrypt_gcm_ok [OF assms(4)] by metis
  then show ?thesis
    using cbc_padded_roundtrip [OF assms(1) k assms(3)] cbc_raw_roundtrip [OF assms(1) k assms(3)] ecb_roundtrip [OF assms(1) k]
      decrypt_gcm_iff [OF assms(1)] by auto
qed

theorem sm4_modes_roundtrip_witness:
  "\<exists>c. sm4_new (replicate 16 7) = Inr c \<and>
     bind_res (encrypt_cbc xor_crates c [1, 2, 3] (replicate 16 9)) (\<lambda>e. decrypt_cbc xor_crates c e (replicate 16 9)) = Inr [1, 2, 3]"
  using sm4_modes_roundtrip [OF xor_crates_laws, of "replicate 16 7" "\<lparr>key_bytes = replicate 16 7\<rparr>" "replicate 16 9" "replicate 12 0" "[1, 2, 3]"]
  by (simp add: sm4_new_def SM4_KEY_LENGTH_def)

text \<open>
  \<^const>\<open>sm3_hmac_compute\<close> is HMAC with SM3 and blocks of 64 bytes for keys of every length, and
  \<^const>\<open>sm3_hmac_verify\<close> accepts exactly this value.
\<close>

theorem sm3_hmac_correct:
  assumes "\<And>x. length (sm3 x) = 32" "sm4_laws P"
  shows "sm3_hmac_compute sm3 (sm3_hmac_new key) data = Inr (hmac_ref sm3 key data) \<and>
    sm3_hmac_verify sm3 P (sm3_hmac_new key) data mac = Inr (mac = hmac_ref sm3 key data)"
  using hmac_compute_eq [where ?sm3.0 = sm3, OF assms(1)] assms(2) by (auto simp: sm3_hmac_verify_def sm4_laws_def)

definition sum_sm3 :: "bytes \<Rightarrow> bytes" where
  "sum_sm3 x = replicate 31 (sum_list x) @ [word_of_nat (length x)]"

lemma length_sum_sm3 [simp]: "length (sum_sm3 x) = 32"
  by (simp add: sum_sm3_def)

theorem sm3_hmac_correct_witness:
  "sm3_hmac_verify sum_sm3 xor_crates (sm3_hmac_new [1]) [2] (hmac_ref sum_sm3 [1] [2]) = Inr True"
  using sm3_hmac_correct [where ?sm3.0 = sum_sm3 and P = xor_crates and key = "[1]" and data = "[2]" and mac = "hmac_ref sum_sm3 [1] [2]", OF length_sum_sm3 xor_crates_laws] by simp

end
