(* ===== verification/Gm_Sm2.thy ===== *)
theory Gm_Sm2
  imports Gm_Crypto Gm_Rng Gm_Der
begin

text \<open>
  SM2 of \<open>gm-crypto\<close> (\<open>sm2.rs\<close>): key pairs, signer and verifier, public key encryption with its raw, DER
  and versioned forms, conversion of signatures, and Diffie-Hellman. The curve and the signature scheme
  are the crate \<open>sm2\<close>, a parameter; SM3 is a parameter as before. Shown: every form of a ciphertext is
  decrypted to the message, up to the one length at which the DER form is malformed; signatures survive
  the conversion to DER and back; the signer only returns what the verifier accepts; the two sides of a
  Diffie-Hellman exchange agree.
\<close>

section \<open>The curve\<close>

text \<open>
  The crate \<open>sm2\<close> with \<open>elliptic_curve\<close> and \<open>signature\<close>. Points have a type of their own; a scalar is its
  value below the order. \<open>sm2_encode\<close> is \<open>to_encoded_point\<close>, with compression or not, as bytes; \<open>sm2_parse\<close>
  the check of \<open>EncodedPoint::from_bytes\<close> with the text of its error; \<open>sm2_decode\<close> is
  \<open>from_encoded_point\<close>. \<open>sm2_coords\<close> gives the coordinates of the uncompressed encoding.
  \<open>sm2_secret\<close> and \<open>sm2_scalar\<close> are \<open>SecretKey::random\<close> and \<open>Scalar::random\<close> on a generator. Signatures
  are by distinguishing identifier, key and message.
\<close>

record ('p, 'r) sm2_crate =
  sm2_order :: nat
  sm2_generator :: 'p
  sm2_identity :: 'p
  sm2_add :: "'p \<Rightarrow> 'p \<Rightarrow> 'p"
  sm2_mul :: "nat \<Rightarrow> 'p \<Rightarrow> 'p"
  sm2_encode :: "bool \<Rightarrow> 'p \<Rightarrow> bytes"
  sm2_coords :: "'p \<Rightarrow> (bytes \<times> bytes) option"
  sm2_parse :: "bytes \<Rightarrow> (string, unit) res"
  sm2_decode :: "bytes \<Rightarrow> 'p option"
  sm2_secret :: "'r \<Rightarrow> nat \<times> 'r"
  sm2_scalar :: "'r \<Rightarrow> nat \<times> 'r"
  dsa_signing_key :: "string \<Rightarrow> nat \<Rightarrow> (string, unit) res"
  dsa_verifying_key :: "string \<Rightarrow> 'p \<Rightarrow> (string, unit) res"
  dsa_sign :: "string \<Rightarrow> nat \<Rightarrow> bytes \<Rightarrow> bytes"
  dsa_sign_rng :: "string \<Rightarrow> nat \<Rightarrow> bytes \<Rightarrow> 'r \<Rightarrow> (string, bytes) res \<times> 'r"
  dsa_signature :: "bytes \<Rightarrow> (string, unit) res"
  dsa_verify :: "string \<Rightarrow> 'p \<Rightarrow> bytes \<Rightarrow> bytes \<Rightarrow> (string, unit) res"
  secret_error :: string
  sec1_error :: "bytes \<Rightarrow> string"

text \<open>
  What the code relies on: the points are the multiples of the generator, whose order is prime; points
  other than the identity have coordinates of 32 bytes, which their uncompressed encoding holds, and both
  encodings of theirs are decoded; whatever is decoded from 65 bytes is encoded to the same bytes; secret
  keys are non-zero scalars; a signature verifies under the public key.
\<close>

definition sm2_laws :: "('p, 'r) sm2_crate \<Rightarrow> bool" where
  "sm2_laws C \<longleftrightarrow>
     (let n = sm2_order C; G = sm2_generator C; mul = sm2_mul C
      in 1 < n \<and> n < 2 ^ 256 \<and> (\<forall>k l. n dvd k * l \<longrightarrow> n dvd k \<or> n dvd l) \<and>
         (\<forall>k l. mul k (mul l G) = mul (k * l) G) \<and>
         (\<forall>k l. sm2_add C (mul k G) (mul l G) = mul (k + l) G) \<and>
         (\<forall>k l. mul k G = mul l G \<longleftrightarrow> k mod n = l mod n) \<and>
         sm2_identity C = mul 0 G)"

definition sm2_encoding_laws :: "('p, 'r) sm2_crate \<Rightarrow> bool" where
  "sm2_encoding_laws C \<longleftrightarrow>
     sm2_coords C (sm2_identity C) = None \<and> (\<forall>c. sm2_encode C c (sm2_identity C) = [0]) \<and>
     (\<forall>p. p \<noteq> sm2_identity C \<longrightarrow>
        (\<exists>x y. sm2_coords C p = Some (x, y) \<and> length x = 32 \<and> length y = 32 \<and> sm2_encode C False p = 0x04 # x @ y)) \<and>
     (\<forall>k c. let p = sm2_mul C k (sm2_generator C) in
        p \<noteq> sm2_identity C \<longrightarrow> sm2_parse C (sm2_encode C c p) = Inr () \<and> sm2_decode C (sm2_encode C c p) = Some p) \<and>
     (\<forall>b p. sm2_decode C b = Some p \<longrightarrow>
        (\<exists>k. p = sm2_mul C k (sm2_generator C)) \<and> (length b = 65 \<longrightarrow> p \<noteq> sm2_identity C \<and> sm2_encode C False p = b))"

definition sm2_rng_laws :: "('p, 'r) sm2_crate \<Rightarrow> bool" where
  "sm2_rng_laws C \<longleftrightarrow>
     (\<forall>r. 0 < fst (sm2_secret C r) \<and> fst (sm2_secret C r) < sm2_order C) \<and> (\<forall>r. fst (sm2_scalar C r) < sm2_order C)"

section \<open>Keys\<close>

definition GM_TLS_DEFAULT_ID :: string where
  "GM_TLS_DEFAULT_ID = ''1234567812345678''"

definition SM2_MAX_PLAINTEXT_LEN :: nat where
  "SM2_MAX_PLAINTEXT_LEN = 64 * 1024"

definition SM2_CIPHER_VERSIONED_HEADER :: bytes where
  "SM2_CIPHER_VERSIONED_HEADER = [0x53, 0x4D]"

definition SM2_CIPHER_VERSION_1 :: u8 where
  "SM2_CIPHER_VERSION_1 = 0x01"

definition SM2_CIPHER_FORMAT_RAW :: u8 where
  "SM2_CIPHER_FORMAT_RAW = 0x00"

definition SM2_CIPHER_FORMAT_DER :: u8 where
  "SM2_CIPHER_FORMAT_DER = 0x01"

definition SM2_VERSIONED_HEADER_LEN :: nat where
  "SM2_VERSIONED_HEADER_LEN = 4"

lemmas sm2_constants = SM2_MAX_PLAINTEXT_LEN_def SM2_CIPHER_VERSIONED_HEADER_def SM2_CIPHER_VERSION_1_def
  SM2_CIPHER_FORMAT_RAW_def SM2_CIPHER_FORMAT_DER_def SM2_VERSIONED_HEADER_LEN_def

record 'p Sm2KeyPair =
  kp_private_key :: nat
  kp_public_key :: 'p
  kp_distid :: string

definition generate_with_distid :: "('p, 'r) sm2_crate \<Rightarrow> string \<Rightarrow> 'r \<Rightarrow> 'p Sm2KeyPair \<times> 'r" where
  "generate_with_distid C distid r =
     (let (private_key, r) = sm2_secret C r
      in (\<lparr>kp_private_key = private_key, kp_public_key = sm2_mul C private_key (sm2_generator C), kp_distid = distid\<rparr>, r))"

definition key_pair_generate :: "('p, 'r) sm2_crate \<Rightarrow> 'r \<Rightarrow> 'p Sm2KeyPair \<times> 'r" where
  "key_pair_generate C = generate_with_distid C ''1234567812345678''"

text \<open>\<open>SecretKey::from_bytes\<close> takes an array of 32 bytes, big-endian, of a scalar that is not zero.\<close>

definition secret_from_bytes :: "('p, 'r) sm2_crate \<Rightarrow> bytes \<Rightarrow> (string, nat) res" where
  "secret_from_bytes C bs =
     (if 0 < nat_of_be bs \<and> nat_of_be bs < sm2_order C then Inr (nat_of_be bs) else Inl (secret_error C))"

text \<open>The conversion of a slice of another length into that array panics.\<close>

definition from_private_key_with_distid ::
  "('p, 'r) sm2_crate \<Rightarrow> bytes \<Rightarrow> string \<Rightarrow> (CryptoError, 'p Sm2KeyPair) res option" where
  "from_private_key_with_distid C private_key_bytes distid =
     (if length private_key_bytes \<noteq> 32 then None
      else Some (bind_res (map_err (\<lambda>e. Sm2Error (''invalid private key: '' @ e)) (secret_from_bytes C private_key_bytes)) (\<lambda>private_key.
        Inr \<lparr>kp_private_key = private_key, kp_public_key = sm2_mul C private_key (sm2_generator C), kp_distid = distid\<rparr>)))"

definition from_private_key :: "('p, 'r) sm2_crate \<Rightarrow> bytes \<Rightarrow> (CryptoError, 'p Sm2KeyPair) res option" where
  "from_private_key C private_key_bytes = from_private_key_with_distid C private_key_bytes ''1234567812345678''"

definition private_key_bytes :: "'p Sm2KeyPair \<Rightarrow> bytes" where
  "private_key_bytes kp = nat_to_be 32 (kp_private_key kp)"

definition public_key_bytes :: "('p, 'r) sm2_crate \<Rightarrow> 'p Sm2KeyPair \<Rightarrow> bytes" where
  "public_key_bytes C kp = sm2_encode C True (kp_public_key kp)"

definition public_key_bytes_uncompressed :: "('p, 'r) sm2_crate \<Rightarrow> 'p Sm2KeyPair \<Rightarrow> bytes" where
  "public_key_bytes_uncompressed C kp = sm2_encode C False (kp_public_key kp)"

section \<open>Signatures\<close>

record Sm2Signer =
  signer_distid :: string
  signer_key :: nat

definition signer_new_with_distid :: "('p, 'r) sm2_crate \<Rightarrow> 'p Sm2KeyPair \<Rightarrow> string \<Rightarrow> (CryptoError, Sm2Signer) res" where
  "signer_new_with_distid C kp distid =
     bind_res (map_err (\<lambda>e. Sm2Error (''failed to create signing key: '' @ e)) (dsa_signing_key C distid (kp_private_key kp))) (\<lambda>_.
       Inr \<lparr>signer_distid = distid, signer_key = kp_private_key kp\<rparr>)"

definition signer_new :: "('p, 'r) sm2_crate \<Rightarrow> 'p Sm2KeyPair \<Rightarrow> (CryptoError, Sm2Signer) res" where
  "signer_new C kp = signer_new_with_distid C kp (kp_distid kp)"

definition em_dash :: string where
  "em_dash = [CHR 0xE2, CHR 0x80, CHR 0x94]"

text \<open>Each of the three signing methods verifies the signature before it returns it.\<close>

definition checked_signature :: "('p, 'r) sm2_crate \<Rightarrow> string \<Rightarrow> Sm2Signer \<Rightarrow> bytes \<Rightarrow> bytes \<Rightarrow> (CryptoError, bytes) res" where
  "checked_signature C message s data signature =
     (case dsa_verify C (signer_distid s) (sm2_mul C (signer_key s) (sm2_generator C)) data signature of
        Inl _ \<Rightarrow> Inl (Sm2Error message)
      | Inr _ \<Rightarrow> Inr signature)"

definition sm2_sign :: "('p, 'r) sm2_crate \<Rightarrow> Sm2Signer \<Rightarrow> bytes \<Rightarrow> (CryptoError, bytes) res" where
  "sm2_sign C s data =
     checked_signature C (''Sign-then-verify check failed '' @ em_dash @ '' possible fault injection'') s data (dsa_sign C (signer_distid s) (signer_key s) data)"

definition deterministic_sign :: "('p, 'r) sm2_crate \<Rightarrow> Sm2Signer \<Rightarrow> bytes \<Rightarrow> (CryptoError, bytes) res" where
  "deterministic_sign C s data =
     checked_signature C (''Deterministic sign-then-verify check failed '' @ em_dash @ '' possible fault injection'') s data
       (dsa_sign C (signer_distid s) (signer_key s) data)"

definition randomized_sign :: "('p, 'r) sm2_crate \<Rightarrow> Sm2Signer \<Rightarrow> bytes \<Rightarrow> ('r, CryptoError, bytes) io" where
  "randomized_sign C s data r =
     (case dsa_sign_rng C (signer_distid s) (signer_key s) data r of
        (Inl e, r) \<Rightarrow> Some (Inl (Sm2Error (''randomized sign failed: '' @ e)), r)
      | (Inr signature, r) \<Rightarrow>
          Some (checked_signature C (''Randomized sign-then-verify check failed '' @ em_dash @ '' possible fault injection'') s data signature, r))"

record 'p Sm2Verifier =
  verifier_distid :: string
  verifier_key :: 'p

text \<open>\<open>from_sec1_bytes\<close>: the bytes are those of a point other than the identity.\<close>

definition public_key_from_sec1 :: "('p, 'r) sm2_crate \<Rightarrow> bytes \<Rightarrow> (string, 'p) res" where
  "public_key_from_sec1 C bs =
     bind_res (sm2_parse C bs) (\<lambda>_.
       case sm2_decode C bs of
         None \<Rightarrow> Inl (sec1_error C bs)
       | Some p \<Rightarrow> if p = sm2_identity C then Inl (sec1_error C bs) else Inr p)"

definition verifier_new :: "('p, 'r) sm2_crate \<Rightarrow> bytes \<Rightarrow> string \<Rightarrow> (CryptoError, 'p Sm2Verifier) res" where
  "verifier_new C public_key distid =
     map_err (\<lambda>e. Sm2Error (''invalid public key: '' @ e))
       (bind_res (public_key_from_sec1 C public_key) (\<lambda>p.
        bind_res (dsa_verifying_key C distid p) (\<lambda>_. Inr \<lparr>verifier_distid = distid, verifier_key = p\<rparr>)))"

definition sm2_verify :: "('p, 'r) sm2_crate \<Rightarrow> 'p Sm2Verifier \<Rightarrow> bytes \<Rightarrow> bytes \<Rightarrow> (CryptoError, unit) res" where
  "sm2_verify C v data signature =
     (if length signature \<noteq> 64
      then Inl (Sm2Error (''signature length error: expected 64 bytes, got '' @ show_nat (length signature) @ '' bytes''))
      else
        bind_res (map_err (\<lambda>e. Sm2Error (''invalid signature format: '' @ e)) (dsa_signature C signature)) (\<lambda>_.
          map_err (\<lambda>e. Sm2Error (''signature verification failed: '' @ e))
            (dsa_verify C (verifier_distid v) (verifier_key v) data signature)))"

section \<open>Conversion to and from DER\<close>

definition strip_leading_zeros :: "bytes \<Rightarrow> bytes" where
  "strip_leading_zeros val = dropWhile (\<lambda>b. b = 0) val"

definition der_encode_length :: "nat \<Rightarrow> bytes" where
  "der_encode_length len = der_len len"

definition der_integer_len :: "bytes \<Rightarrow> nat" where
  "der_integer_len val =
     (let stripped = strip_leading_zeros val
      in if stripped = [] then 3
         else if hd stripped AND 0x80 \<noteq> 0 then 3 + length stripped
         else 2 + length stripped)"

definition der_octet_string_len :: "bytes \<Rightarrow> nat" where
  "der_octet_string_len data =
     (if length data < 128 then 2 + length data
      else if length data < 256 then 3 + length data
      else 4 + length data)"

definition der_encode_integer :: "bytes \<Rightarrow> bytes" where
  "der_encode_integer val =
     (let stripped = strip_leading_zeros val
      in if stripped = [] then [0x02] @ der_encode_length 1 @ [0]
         else if hd stripped AND 0x80 \<noteq> 0 then [0x02] @ der_encode_length (length stripped + 1) @ [0x00] @ stripped
         else [0x02] @ der_encode_length (length stripped) @ stripped)"

definition der_encode_octet_string :: "bytes \<Rightarrow> bytes" where
  "der_encode_octet_string data = [0x04] @ der_encode_length (length data) @ data"

text \<open>\<open>Display\<close> of a \<^typ>\<open>DerError\<close>.\<close>

fun display_der_error :: "DerError \<Rightarrow> string" where
  "display_der_error (ParseError s) = ''DER parse error: '' @ s"
| "display_der_error (EncodeError s) = ''DER encode error: '' @ s"

text \<open>The parsers return what they read with the number of bytes they took.\<close>

definition sm2_parse_der_length :: "bytes \<Rightarrow> (CryptoError, nat \<times> nat) res" where
  "sm2_parse_der_length bs =
     bind_res (map_err (\<lambda>e. Sm2Error (display_der_error e)) (parse_der_length bs)) (\<lambda>(rest, len).
       Inr (len, length bs - length rest))"

definition sm2_parse_der_integer :: "bytes \<Rightarrow> (CryptoError, bytes \<times> nat) res" where
  "sm2_parse_der_integer bs =
     (if bs = [] \<or> hd bs \<noteq> 0x02 then Inl (Sm2Error ''expected INTEGER tag 0x02'')
      else
        bind_res (sm2_parse_der_length (drop 1 bs)) (\<lambda>(len, consumed).
          let pos = 1 + consumed
          in if length bs < pos + len then Inl (Sm2Error ''INTEGER content truncated'')
             else
               let content = take len (drop pos bs);
                   stripped = strip_leading_zeros content;
                   val = (if stripped = [] then replicate len 0 else stripped)
               in if length val > 32
                  then Inl (Sm2Error (''INTEGER too large for SM2 field: '' @ show_nat (length val) @ '' bytes''))
                  else Inr (replicate (32 - length val) 0 @ val, pos + len)))"

definition sm2_parse_der_octet_string :: "bytes \<Rightarrow> (CryptoError, bytes \<times> nat) res" where
  "sm2_parse_der_octet_string bs =
     (if bs = [] \<or> hd bs \<noteq> 0x04 then Inl (Sm2Error ''expected OCTET STRING tag 0x04'')
      else
        bind_res (sm2_parse_der_length (drop 1 bs)) (\<lambda>(len, consumed).
          let pos = 1 + consumed
          in if length bs < pos + len then Inl (Sm2Error ''OCTET STRING content truncated'')
             else Inr (take len (drop pos bs), pos + len)))"

definition parse_sm2_cipher_der :: "bytes \<Rightarrow> (CryptoError, bytes \<times> bytes \<times> bytes \<times> bytes) res" where
  "parse_sm2_cipher_der der =
     (if der = [] \<or> hd der \<noteq> 0x30 then Inl (Sm2Error ''expected SEQUENCE tag 0x30'')
      else
        bind_res (sm2_parse_der_length (drop 1 der)) (\<lambda>(seq_len, consumed).
        let pos = 1 + consumed
        in if pos + seq_len > length der then Inl (Sm2Error ''SEQUENCE length exceeds input'')
           else
             let seq_end = pos + seq_len
             in bind_res (sm2_parse_der_integer (drop pos der)) (\<lambda>(c1x, n).
                let pos = pos + n
                in if length c1x \<noteq> 32 then Inl (Sm2Error (''C1x must be 32 bytes, got '' @ show_nat (length c1x)))
                   else
                     bind_res (sm2_parse_der_integer (drop pos der)) (\<lambda>(c1y, n).
                     let pos = pos + n
                     in if length c1y \<noteq> 32 then Inl (Sm2Error (''C1y must be 32 bytes, got '' @ show_nat (length c1y)))
                        else
                          bind_res (sm2_parse_der_octet_string (drop pos der)) (\<lambda>(c3, n).
                          let pos = pos + n
                          in bind_res (sm2_parse_der_octet_string (drop pos der)) (\<lambda>(c2, n).
                             let pos = pos + n
                             in if pos \<noteq> seq_end then Inl (Sm2Error ''extra bytes after SM2Cipher SEQUENCE'')
                                else Inr (c1x, c1y, c3, c2)))))))"

definition sm2_cipher_der_to_raw :: "bytes \<Rightarrow> (CryptoError, bytes) res" where
  "sm2_cipher_der_to_raw der =
     bind_res (parse_sm2_cipher_der der) (\<lambda>(c1x, c1y, c3, c2). Inr ([0x04] @ c1x @ c1y @ c3 @ c2))"

definition sm2_cipher_raw_to_der :: "bytes \<Rightarrow> (CryptoError, bytes) res" where
  "sm2_cipher_raw_to_der raw =
     (if length raw < 65 + 32 then Inl (Sm2Error ''raw ciphertext too short: need at least C1(65) + C3(32)'')
      else if hd raw \<noteq> 0x04 then Inl (Sm2Error ''raw ciphertext must start with 0x04 (uncompressed point)'')
      else
        let c1x = take 32 (drop 1 raw);
            c1y = take 32 (drop 33 raw);
            c3 = take 32 (drop 65 raw);
            c2 = drop 97 raw;
            content_len = der_integer_len c1x + der_integer_len c1y + der_octet_string_len c3 + der_octet_string_len c2
        in Inr ([0x30] @ der_encode_length content_len @ der_encode_integer c1x @ der_encode_integer c1y @
                der_encode_octet_string c3 @ der_encode_octet_string c2))"

definition sm2_signature_der_to_raw :: "bytes \<Rightarrow> (CryptoError, bytes) res" where
  "sm2_signature_der_to_raw der =
     (if der = [] \<or> hd der \<noteq> 0x30 then Inl (Sm2Error ''expected SEQUENCE tag 0x30 for signature'')
      else
        bind_res (sm2_parse_der_length (drop 1 der)) (\<lambda>(seq_len, consumed).
        let pos = 1 + consumed;
            seq_end = pos + seq_len
        in if seq_end > length der then Inl (Sm2Error ''signature SEQUENCE length exceeds input'')
           else
             bind_res (sm2_parse_der_integer (drop pos der)) (\<lambda>(r, n).
             let pos = pos + n
             in if length r \<noteq> 32 then Inl (Sm2Error (''signature r must be 32 bytes, got '' @ show_nat (length r)))
                else
                  bind_res (sm2_parse_der_integer (drop pos der)) (\<lambda>(s, n).
                  let pos = pos + n
                  in if length s \<noteq> 32 then Inl (Sm2Error (''signature s must be 32 bytes, got '' @ show_nat (length s)))
                     else if pos \<noteq> seq_end then Inl (Sm2Error ''extra bytes after signature SEQUENCE'')
                     else Inr (r @ s)))))"

definition sm2_signature_raw_to_der :: "bytes \<Rightarrow> bytes" where
  "sm2_signature_raw_to_der raw =
     (let r = take 32 raw;
          s = drop 32 raw;
          content_len = der_integer_len r + der_integer_len s
      in [0x30] @ der_encode_length content_len @ der_encode_integer r @ der_encode_integer s)"

section \<open>Encryption\<close>

definition point_xy_bytes :: "('p, 'r) sm2_crate \<Rightarrow> 'p \<Rightarrow> (CryptoError, bytes \<times> bytes) res" where
  "point_xy_bytes C p =
     (case sm2_coords C p of
        None \<Rightarrow> Inl (Sm2Error ''X coordinate missing'')
      | Some (x, y) \<Rightarrow> Inr (x, y))"

lemma unat_word_add_1: "ct + 1 \<noteq> 0 \<Longrightarrow> unat (ct + 1 :: u32) = unat ct + 1"
  by (metis Suc_eq_plus1 add.commute unatSuc)

function kdf_sm3_loop :: "(bytes \<Rightarrow> bytes) \<Rightarrow> bytes \<Rightarrow> nat \<Rightarrow> u32 \<Rightarrow> bytes \<Rightarrow> (CryptoError, bytes) res" where
  "kdf_sm3_loop sm3 xy key_len ct key =
     (if length key < key_len then
        if ct = 0 then Inl (Sm2Error ''KDF key length exceeds maximum (128GB)'')
        else
          case sm3_hash sm3 (xy @ u32_to_be ct) of
            Inl e \<Rightarrow> Inl e
          | Inr block \<Rightarrow>
              let remain = key_len - length key
              in kdf_sm3_loop sm3 xy key_len (ct + 1) (key @ (if remain \<ge> length block then block else take remain block))
      else Inr key)"
  by pat_completeness auto
termination kdf_sm3_loop
proof (relation "measure (\<lambda>(_, _, _, ct, _). if ct = 0 then 0 else 2 ^ 32 - unat ct)")
  fix sm3 xy key_len and ct :: u32 and key block x
  assume ct: "ct \<noteq> 0"
  show "((sm3, xy, key_len, ct + 1, key @ (if x \<ge> length block then block else take x block)), sm3, xy, key_len, ct, key) \<in>
      measure (\<lambda>(_, _, _, ct, _). if ct = 0 then 0 else 2 ^ 32 - unat ct)"
    using ct unat_bound [of ct] unat_word_add_1 [of ct] by auto
qed auto

declare kdf_sm3_loop.simps [simp del]

definition kdf_sm3 :: "(bytes \<Rightarrow> bytes) \<Rightarrow> bytes \<Rightarrow> bytes \<Rightarrow> nat \<Rightarrow> (CryptoError, bytes) res" where
  "kdf_sm3 sm3 x y key_len = kdf_sm3_loop sm3 (x @ y) key_len 1 []"

definition sm3_hash_concat :: "(bytes \<Rightarrow> bytes) \<Rightarrow> bytes \<Rightarrow> bytes \<Rightarrow> bytes \<Rightarrow> (CryptoError, bytes) res" where
  "sm3_hash_concat sm3 x m y = sm3_hash sm3 (x @ m @ y)"

definition encryptor_new :: "('p, 'r) sm2_crate \<Rightarrow> bytes \<Rightarrow> (CryptoError, 'p) res" where
  "encryptor_new C bs = map_err (\<lambda>e. Sm2Error (''invalid public key: '' @ e)) (public_key_from_sec1 C bs)"

definition sm2_encrypt :: "('p, 'r) sm2_crate \<Rightarrow> (bytes \<Rightarrow> bytes) \<Rightarrow> 'p \<Rightarrow> bytes \<Rightarrow> ('r, CryptoError, bytes) io" where
  "sm2_encrypt C sm3 public_key data r =
     (if length data > SM2_MAX_PLAINTEXT_LEN
      then Some (Inl (Sm2Error (''plaintext too large: '' @ show_nat (length data) @ '' bytes (max '' @ show_nat SM2_MAX_PLAINTEXT_LEN @ '')'')), r)
      else
        let (k, r) = sm2_scalar C r;
            c1_bytes = sm2_encode C False (sm2_mul C k (sm2_generator C))
        in Some (bind_res (ok_or (sm2_decode C (sm2_encode C False public_key)) (Sm2Error ''public key point parse failed'')) (\<lambda>p_pub.
                 bind_res (point_xy_bytes C (sm2_mul C k p_pub)) (\<lambda>(x2, y2).
                 bind_res (kdf_sm3 sm3 x2 y2 (length data)) (\<lambda>key_stream.
                 let c2 = map (\<lambda>(a, b). a XOR b) (zip data key_stream)
                 in bind_res (sm3_hash_concat sm3 x2 data y2) (\<lambda>c3.
                    Inr (c1_bytes @ c3 @ c2))))), r))"

definition encrypt_der :: "('p, 'r) sm2_crate \<Rightarrow> (bytes \<Rightarrow> bytes) \<Rightarrow> 'p \<Rightarrow> bytes \<Rightarrow> ('r, CryptoError, bytes) io" where
  "encrypt_der C sm3 public_key data =
     io_bind (sm2_encrypt C sm3 public_key data) (\<lambda>raw. io_lift (Some (sm2_cipher_raw_to_der raw)))"

definition encrypt_versioned :: "('p, 'r) sm2_crate \<Rightarrow> (bytes \<Rightarrow> bytes) \<Rightarrow> 'p \<Rightarrow> bytes \<Rightarrow> ('r, CryptoError, bytes) io" where
  "encrypt_versioned C sm3 public_key data =
     io_bind (sm2_encrypt C sm3 public_key data) (\<lambda>raw.
       io_return (SM2_CIPHER_VERSIONED_HEADER @ [SM2_CIPHER_VERSION_1] @ [SM2_CIPHER_FORMAT_RAW] @ raw))"

definition encrypt_versioned_der :: "('p, 'r) sm2_crate \<Rightarrow> (bytes \<Rightarrow> bytes) \<Rightarrow> 'p \<Rightarrow> bytes \<Rightarrow> ('r, CryptoError, bytes) io" where
  "encrypt_versioned_der C sm3 public_key data =
     io_bind (encrypt_der C sm3 public_key data) (\<lambda>der.
       io_return (SM2_CIPHER_VERSIONED_HEADER @ [SM2_CIPHER_VERSION_1] @ [SM2_CIPHER_FORMAT_DER] @ der))"

text \<open>The private key of a key pair is a scalar already, so its conversion to one succeeds.\<close>

definition sm2_decrypt_raw :: "('p, 'r) sm2_crate \<Rightarrow> (bytes \<Rightarrow> bytes) \<Rightarrow> sm4_crates \<Rightarrow> 'p Sm2KeyPair \<Rightarrow> bytes \<Rightarrow> (CryptoError, bytes) res" where
  "sm2_decrypt_raw C sm3 P kp encrypted_data =
     (if length encrypted_data < 65 + 32 then Inl (Sm2Error ''ciphertext length insufficient'')
      else if hd encrypted_data \<noteq> 0x04 then Inl (Sm2Error ''raw ciphertext must start with 0x04'')
      else
        let c1_bytes = take 65 encrypted_data;
            c3 = take 32 (drop 65 encrypted_data);
            c2 = drop 97 encrypted_data
        in bind_res (map_err (\<lambda>e. Sm2Error (''C1 parse failed: '' @ e)) (sm2_parse C c1_bytes)) (\<lambda>_.
           bind_res (ok_or (sm2_decode C c1_bytes) (Sm2Error ''C1 is not on the SM2 curve'')) (\<lambda>c1_point.
           if c1_point = sm2_identity C then Inl (Sm2Error ''C1 is the identity point (point at infinity)'')
           else
             bind_res (point_xy_bytes C (sm2_mul C (kp_private_key kp) c1_point)) (\<lambda>(x2, y2).
             bind_res (kdf_sm3 sm3 x2 y2 (length c2)) (\<lambda>key_stream.
             let m = map (\<lambda>(a, b). a XOR b) (zip c2 key_stream)
             in bind_res (sm3_hash_concat sm3 x2 m y2) (\<lambda>c3_calc.
                if \<not> slices_ct_eq P c3_calc c3
                then Inl (Sm2Error ''C3 verification failed, ciphertext has been tampered with'')
                else Inr m))))))"

definition sm2_decrypt :: "('p, 'r) sm2_crate \<Rightarrow> (bytes \<Rightarrow> bytes) \<Rightarrow> sm4_crates \<Rightarrow> 'p Sm2KeyPair \<Rightarrow> bytes \<Rightarrow> (CryptoError, bytes) res" where
  "sm2_decrypt C sm3 P kp encrypted_data =
     (if length encrypted_data \<ge> SM2_VERSIONED_HEADER_LEN \<and> take 2 encrypted_data = SM2_CIPHER_VERSIONED_HEADER
      then
        let format = encrypted_data ! 3;
            payload = drop SM2_VERSIONED_HEADER_LEN encrypted_data
        in if format = SM2_CIPHER_FORMAT_RAW then sm2_decrypt_raw C sm3 P kp payload
           else if format = SM2_CIPHER_FORMAT_DER
           then bind_res (sm2_cipher_der_to_raw payload) (sm2_decrypt_raw C sm3 P kp)
           else Inl (Sm2Error (''unknown SM2 ciphertext format type: 0x'' @ show_hex2 format))
      else if take 1 encrypted_data = [0x30]
      then bind_res (sm2_cipher_der_to_raw encrypted_data) (sm2_decrypt_raw C sm3 P kp)
      else if take 1 encrypted_data = [0x04] then sm2_decrypt_raw C sm3 P kp encrypted_data
      else Inl (Sm2Error ''ciphertext must start with 0x534D (versioned), 0x30 (DER), or 0x04 (raw C1||C3||C2)''))"

section \<open>Public keys and Diffie-Hellman\<close>

definition decompress_sm2_pubkey :: "('p, 'r) sm2_crate \<Rightarrow> bytes \<Rightarrow> (CryptoError, bytes) res" where
  "decompress_sm2_pubkey C sec1_pubkey =
     bind_res (map_err (\<lambda>e. Sm2Error (''invalid SEC1 public key format: '' @ e)) (sm2_parse C sec1_pubkey)) (\<lambda>_.
     bind_res (ok_or (sm2_decode C sec1_pubkey) (Sm2Error ''invalid SM2 public key point'')) (\<lambda>point.
       Inr (sm2_encode C False point)))"

text \<open>\<open>PublicKey::from_encoded_point\<close> rejects the identity.\<close>

definition parse_sm2_public_key :: "('p, 'r) sm2_crate \<Rightarrow> bytes \<Rightarrow> (CryptoError, 'p) res" where
  "parse_sm2_public_key C bs =
     bind_res (map_err (\<lambda>e. Sm2Error (''invalid SM2 public key encoding: '' @ e)) (sm2_parse C bs)) (\<lambda>_.
       ok_or (case sm2_decode C bs of None \<Rightarrow> None | Some p \<Rightarrow> if p = sm2_identity C then None else Some p)
         (Sm2Error ''SM2 public key decoding failed''))"

record 'p Sm2EcdhKeypair =
  ecdh_scalar :: nat
  ecdh_public_key :: 'p

definition ecdh_generate :: "('p, 'r) sm2_crate \<Rightarrow> 'r \<Rightarrow> 'p Sm2EcdhKeypair \<times> 'r" where
  "ecdh_generate C r =
     (let (scalar, r) = sm2_secret C r
      in (\<lparr>ecdh_scalar = scalar, ecdh_public_key = sm2_mul C scalar (sm2_generator C)\<rparr>, r))"

definition ecdh_public_key_bytes :: "('p, 'r) sm2_crate \<Rightarrow> 'p Sm2EcdhKeypair \<Rightarrow> bytes" where
  "ecdh_public_key_bytes C kp = sm2_encode C False (ecdh_public_key kp)"

definition ecdh_private_key_bytes :: "'p Sm2EcdhKeypair \<Rightarrow> bytes" where
  "ecdh_private_key_bytes kp = nat_to_be 32 (ecdh_scalar kp)"

definition shared_x :: "('p, 'r) sm2_crate \<Rightarrow> string \<Rightarrow> 'p \<Rightarrow> (CryptoError, bytes) res" where
  "shared_x C message shared =
     (if shared = sm2_identity C then Inl (Sm2Error message)
      else
        case sm2_coords C shared of
          None \<Rightarrow> Inl (Sm2Error ''shared point X coordinate missing'')
        | Some (x, _) \<Rightarrow> Inr x)"

definition compute_shared_secret :: "('p, 'r) sm2_crate \<Rightarrow> 'p Sm2EcdhKeypair \<Rightarrow> bytes \<Rightarrow> (CryptoError, bytes) res" where
  "compute_shared_secret C kp peer_public_bytes =
     bind_res (parse_sm2_public_key C peer_public_bytes) (\<lambda>peer_pk.
       shared_x C ''ECDH shared point is the identity (invalid peer key)'' (sm2_mul C (ecdh_scalar kp) peer_pk))"

definition sm2_ecdh :: "('p, 'r) sm2_crate \<Rightarrow> nat \<Rightarrow> bytes \<Rightarrow> (CryptoError, bytes) res" where
  "sm2_ecdh C private_key peer_public_bytes =
     bind_res (parse_sm2_public_key C peer_public_bytes) (\<lambda>peer_pk.
       shared_x C ''ECDH shared point is the identity'' (sm2_mul C private_key peer_pk))"

section \<open>DER forms are read back\<close>

lemma length_der_len_eq:
  "length (der_len n) = (if n < 0x80 then 1 else if n < 0x100 then 2 else if n < 0x10000 then 3 else if n < 0x1000000 then 4 else 5)"
  by (simp add: der_len_def)

lemma sm2_parse_der_length_ok:
  assumes "n < 2 ^ 32" shows "sm2_parse_der_length (der_len n @ rest) = Inr (n, length (der_len n))"
  using parse_der_length_der_len [OF assms] by (simp add: sm2_parse_der_length_def)

lemma strip_leading_zeros_split: "replicate (length val - length (strip_leading_zeros val)) 0 @ strip_leading_zeros val = val"
  by (induction val) (auto simp: strip_leading_zeros_def Suc_diff_le length_dropWhile_le)

lemma length_strip: "length (strip_leading_zeros val) \<le> length val"
  by (simp add: strip_leading_zeros_def length_dropWhile_le)

lemma strip_strip: "strip_leading_zeros (strip_leading_zeros val) = strip_leading_zeros val"
  by (simp add: strip_leading_zeros_def)

lemma strip_zero_Cons: "strip_leading_zeros (0 # val) = strip_leading_zeros val"
  by (simp add: strip_leading_zeros_def)

text \<open>What the encoder writes after the tag and length.\<close>

definition integer_content :: "bytes \<Rightarrow> bytes" where
  "integer_content val =
     (let stripped = strip_leading_zeros val
      in if stripped = [] then [0] else if hd stripped AND 0x80 \<noteq> 0 then 0 # stripped else stripped)"

lemma der_encode_integer_content: "der_encode_integer val = 0x02 # der_len (length (integer_content val)) @ integer_content val"
  by (auto simp: der_encode_integer_def integer_content_def der_encode_length_def Let_def)

lemma strip_integer_content: "strip_leading_zeros (integer_content val) = strip_leading_zeros val"
  using strip_strip [of val] by (auto simp: integer_content_def Let_def strip_zero_Cons)

lemma length_integer_content: "length val = 32 \<Longrightarrow> 0 < length (integer_content val) \<and> length (integer_content val) \<le> 33"
  using length_strip [of val] by (auto simp: integer_content_def Let_def)

lemma length_der_encode_integer:
  "length val = 32 \<Longrightarrow> length (der_encode_integer val) = der_integer_len val"
  using length_strip [of val]
  by (auto simp: der_encode_integer_content integer_content_def der_integer_len_def length_der_len_eq Let_def)

lemma der_integer_len_bound: "length val = 32 \<Longrightarrow> der_integer_len val \<le> 35"
  using length_strip [of val] by (auto simp: der_integer_len_def Let_def)

lemma parse_der_integer_ok:
  assumes "length val = 32"
  shows "sm2_parse_der_integer (der_encode_integer val @ rest) = Inr (val, der_integer_len val)"
proof -
  let ?c = "integer_content val"
  have c: "0 < length ?c" "length ?c \<le> 33" using length_integer_content [OF assms] by auto
  have one: "strip_leading_zeros val = [] \<Longrightarrow> length ?c = 1" by (simp add: integer_content_def)
  have whole: "replicate (32 - length (strip_leading_zeros val)) 0 @ strip_leading_zeros val = val"
    using strip_leading_zeros_split [of val] assms by simp
  have "replicate 31 0 @ [0] = replicate (Suc 31) (0 :: u8)" by (simp only: replicate_append_same replicate_Suc)
  then have zeros: "replicate 31 0 @ [0] = replicate 32 (0 :: u8)" by simp
  have zero: "strip_leading_zeros val = [] \<Longrightarrow> replicate 31 0 @ [0] = val"
    using whole zeros by simp
  have len: "length (der_encode_integer val) = 1 + length (der_len (length ?c)) + length ?c"
    by (simp add: der_encode_integer_content)
  have "sm2_parse_der_length (der_len (length ?c) @ ?c @ rest) = Inr (length ?c, length (der_len (length ?c)))"
    using c by (intro sm2_parse_der_length_ok) simp
  then show ?thesis
    using c whole zero one len length_strip [of val] assms length_der_encode_integer [OF assms]
    by (auto simp: sm2_parse_der_integer_def der_encode_integer_content strip_integer_content Let_def)
qed

lemma length_der_encode_octet_string:
  assumes "length data < 0x1000000"
  shows "length (der_encode_octet_string data) = der_octet_string_len data + (if length data < 0x10000 then 0 else 1)"
  using assms by (simp add: der_encode_octet_string_def der_encode_length_def length_der_len_eq der_octet_string_len_def)

lemma parse_der_octet_string_ok:
  assumes "length data < 2 ^ 32"
  shows "sm2_parse_der_octet_string (der_encode_octet_string data @ rest) = Inr (data, length (der_encode_octet_string data))"
  using sm2_parse_der_length_ok [OF assms, of "data @ rest"]
  by (simp add: sm2_parse_der_octet_string_def der_encode_octet_string_def der_encode_length_def)

text \<open>Fields behind one another: the position of a field is the length of what stands before it.\<close>

lemma drop_length_append: "n = length xs \<Longrightarrow> drop n (xs @ ys) = ys"
  by simp

lemma signature_raw_der:
  assumes "length raw = 64"
  shows "sm2_signature_der_to_raw (sm2_signature_raw_to_der raw) = Inr raw"
proof -
  let ?r = "take 32 raw" and ?s = "drop 32 raw"
  let ?n = "der_integer_len ?r + der_integer_len ?s"
  have l: "length ?r = 32" "length ?s = 32" using assms by simp_all
  note len = length_der_encode_integer [OF l(1)] length_der_encode_integer [OF l(2)]
  have n: "?n < 2 ^ 32" using der_integer_len_bound [OF l(1)] der_integer_len_bound [OF l(2)] by simp
  have r: "sm2_parse_der_integer (der_encode_integer ?r @ der_encode_integer ?s) = Inr (?r, der_integer_len ?r)"
    by (rule parse_der_integer_ok [OF l(1)])
  have s: "sm2_parse_der_integer (der_encode_integer ?s) = Inr (?s, der_integer_len ?s)"
    using parse_der_integer_ok [OF l(2), of "[]"] by simp
  show ?thesis
    using l sm2_parse_der_length_ok [OF n, of "der_encode_integer ?r @ der_encode_integer ?s"]
    by (simp add: sm2_signature_der_to_raw_def sm2_signature_raw_to_der_def der_encode_length_def Let_def len r s)
qed

text \<open>
  The DER form of a ciphertext. The length of the last field is computed for at most three length bytes,
  so with \<open>c2\<close> of $2^{16}$ bytes the sequence announces one byte less than follows.
\<close>

lemma cipher_raw_der:
  assumes "length c1x = 32" "length c1y = 32" "length c3 = 32" "length c2 \<le> 0x10000"
  shows "\<exists>der. sm2_cipher_raw_to_der (0x04 # c1x @ c1y @ c3 @ c2) = Inr (0x30 # der) \<and>
    sm2_cipher_der_to_raw (0x30 # der) =
      (if length c2 < 0x10000 then Inr (0x04 # c1x @ c1y @ c3 @ c2) else Inl (Sm2Error ''extra bytes after SM2Cipher SEQUENCE''))"
proof -
  let ?n = "der_integer_len c1x + der_integer_len c1y + der_octet_string_len c3 + der_octet_string_len c2"
  let ?fields = "der_encode_integer c1x @ der_encode_integer c1y @ der_encode_octet_string c3 @ der_encode_octet_string c2"
  have o: "length (der_encode_octet_string c3) = der_octet_string_len c3"
    "length (der_encode_octet_string c2) = der_octet_string_len c2 + (if length c2 < 0x10000 then 0 else 1)"
    using length_der_encode_octet_string [of c3] length_der_encode_octet_string [of c2] assms by simp_all
  have "der_octet_string_len c3 \<le> 36" "der_octet_string_len c2 \<le> 0x10004" using assms by (simp_all add: der_octet_string_len_def)
  then have n: "?n < 2 ^ 32" using der_integer_len_bound [OF assms(1)] der_integer_len_bound [OF assms(2)] by simp
  note len = length_der_encode_integer [OF assms(1)] length_der_encode_integer [OF assms(2)] o
  have p: "sm2_parse_der_integer (der_encode_integer c1x @ rest) = Inr (c1x, der_integer_len c1x)"
    "sm2_parse_der_integer (der_encode_integer c1y @ rest) = Inr (c1y, der_integer_len c1y)" for rest
    by (rule parse_der_integer_ok [OF assms(1)], rule parse_der_integer_ok [OF assms(2)])
  have q: "sm2_parse_der_octet_string (der_encode_octet_string c3 @ rest) = Inr (c3, der_octet_string_len c3)" for rest
    using parse_der_octet_string_ok [of c3 rest] assms o by simp
  have q2: "sm2_parse_der_octet_string (der_encode_octet_string c2) = Inr (c2, length (der_encode_octet_string c2))"
    using parse_der_octet_string_ok [of c2 "[]"] assms by simp
  have "sm2_cipher_raw_to_der (0x04 # c1x @ c1y @ c3 @ c2) = Inr (0x30 # der_len ?n @ ?fields)"
    using assms by (simp add: sm2_cipher_raw_to_der_def der_encode_length_def)
  moreover have "sm2_cipher_der_to_raw (0x30 # der_len ?n @ ?fields) =
      (if length c2 < 0x10000 then Inr (0x04 # c1x @ c1y @ c3 @ c2) else Inl (Sm2Error ''extra bytes after SM2Cipher SEQUENCE''))"
    using sm2_parse_der_length_ok [OF n, of ?fields] assms
    by (simp add: sm2_cipher_der_to_raw_def parse_sm2_cipher_der_def Let_def len p q q2)
  ultimately show ?thesis by blast
qed

section \<open>Key derivation\<close>

text \<open>The key derivation function of GB/T 32918.4: hashes of the input with a counter from 1, cut to length.\<close>

definition kdf_stream :: "(bytes \<Rightarrow> bytes) \<Rightarrow> bytes \<Rightarrow> nat \<Rightarrow> bytes" where
  "kdf_stream sm3 z n = concat (map (\<lambda>i. sm3 (z @ u32_to_be (word_of_nat (Suc i)))) [0..<n])"

definition kdf_ref :: "(bytes \<Rightarrow> bytes) \<Rightarrow> bytes \<Rightarrow> nat \<Rightarrow> bytes" where
  "kdf_ref sm3 z klen = take klen (kdf_stream sm3 z ((klen + 31) div 32))"

lemma kdf_stream_Suc: "kdf_stream sm3 z (Suc n) = kdf_stream sm3 z n @ sm3 (z @ u32_to_be (word_of_nat (Suc n)))"
  by (simp add: kdf_stream_def)

lemma length_kdf_stream: "(\<And>x. length (sm3 x) = 32) \<Longrightarrow> length (kdf_stream sm3 z n) = 32 * n"
  by (induction n) (simp_all add: kdf_stream_Suc, simp add: kdf_stream_def)

lemma length_kdf_ref: "(\<And>x. length (sm3 x) = 32) \<Longrightarrow> length (kdf_ref sm3 z n) = n"
  by (simp add: kdf_ref_def length_kdf_stream)

lemma kdf_sm3_loop_ok:
  assumes sm3: "\<And>x. length (sm3 x) = 32" and "klen \<le> 32 * (2 ^ 32 - 1)" and "c \<le> (klen + 31) div 32"
  shows "kdf_sm3_loop sm3 z klen (word_of_nat (Suc c)) (take klen (kdf_stream sm3 z c)) = Inr (kdf_ref sm3 z klen)"
  using assms(3)
proof (induction "(klen + 31) div 32 - c" arbitrary: c)
  case 0
  then have c: "c = (klen + 31) div 32" by simp
  then have "length (take klen (kdf_stream sm3 z c)) = klen" by (simp add: length_kdf_stream [where ?sm3.0 = sm3, OF sm3])
  then show ?case by (subst kdf_sm3_loop.simps) (simp add: kdf_ref_def c)
next
  case (Suc d)
  have len: "length (kdf_stream sm3 z c) = 32 * c" by (rule length_kdf_stream) (rule sm3)
  have c: "32 * c < klen" "Suc c < 2 ^ 32" using Suc.hyps(2) assms(2) by auto
  define ct :: u32 where "ct = word_of_nat (Suc c)"
  have "unat ct = Suc c" using c(2) by (simp add: ct_def unsigned_of_nat take_bit_nat_eq_self del: of_nat_Suc)
  then have ct: "ct \<noteq> 0" by auto
  have step: "kdf_stream sm3 z (Suc c) = kdf_stream sm3 z c @ sm3 (z @ u32_to_be ct)" by (simp only: kdf_stream_Suc ct_def)
  have next_key: "take klen (kdf_stream sm3 z c) @ (if klen - 32 * c \<ge> 32 then sm3 (z @ u32_to_be ct)
      else take (klen - 32 * c) (sm3 (z @ u32_to_be ct))) = take klen (kdf_stream sm3 z (Suc c))"
    using c(1) len by (simp add: step sm3)
  have "kdf_sm3_loop sm3 z klen (word_of_nat (Suc (Suc c))) (take klen (kdf_stream sm3 z (Suc c))) = Inr (kdf_ref sm3 z klen)"
    using Suc.hyps by (intro Suc.hyps(1)) auto
  moreover have "(word_of_nat (Suc (Suc c)) :: u32) = ct + 1" by (simp add: ct_def)
  ultimately have "kdf_sm3_loop sm3 z klen (ct + 1) (take klen (kdf_stream sm3 z (Suc c))) = Inr (kdf_ref sm3 z klen)"
    by (simp only:)
  then have "kdf_sm3_loop sm3 z klen ct (take klen (kdf_stream sm3 z c)) = Inr (kdf_ref sm3 z klen)"
    using c(1) len ct next_key by (subst kdf_sm3_loop.simps) (simp add: sm3_hash_def sm3 min_def Let_def)
  then show ?case unfolding ct_def .
qed

lemma kdf_sm3_ok:
  assumes "\<And>x. length (sm3 x) = 32" "klen \<le> 32 * (2 ^ 32 - 1)"
  shows "kdf_sm3 sm3 x y klen = Inr (kdf_ref sm3 (x @ y) klen)"
  using kdf_sm3_loop_ok [where ?sm3.0 = sm3, OF assms, of 0] by (simp add: kdf_sm3_def kdf_stream_def)

section \<open>The curve\<close>

lemma sm2_mul_mul: "sm2_laws C \<Longrightarrow> sm2_mul C k (sm2_mul C l (sm2_generator C)) = sm2_mul C (k * l) (sm2_generator C)"
  by (simp add: sm2_laws_def Let_def)

lemma sm2_mul_swap:
  assumes "sm2_laws C"
  shows "sm2_mul C k (sm2_mul C l (sm2_generator C)) = sm2_mul C l (sm2_mul C k (sm2_generator C))"
  by (simp add: sm2_mul_mul [OF assms] mult.commute)

lemma sm2_identity_iff:
  assumes "sm2_laws C"
  shows "sm2_mul C k (sm2_generator C) = sm2_identity C \<longleftrightarrow> sm2_order C dvd k"
  using assms by (auto simp: sm2_laws_def Let_def dvd_eq_mod_eq_0)

lemma sm2_key_not_identity:
  assumes "sm2_laws C" "0 < k" "k < sm2_order C"
  shows "sm2_mul C k (sm2_generator C) \<noteq> sm2_identity C"
  using assms(2,3) by (auto simp: sm2_identity_iff [OF assms(1)] dest: dvd_imp_le)

lemma sm2_product_not_identity:
  assumes "sm2_laws C" "0 < k" "k < sm2_order C" "0 < l" "l < sm2_order C"
  shows "sm2_mul C k (sm2_mul C l (sm2_generator C)) \<noteq> sm2_identity C"
proof
  assume "sm2_mul C k (sm2_mul C l (sm2_generator C)) = sm2_identity C"
  then have "sm2_order C dvd k * l" using assms(1) by (simp add: sm2_mul_mul sm2_identity_iff)
  then have "sm2_order C dvd k \<or> sm2_order C dvd l" using assms(1) by (auto simp: sm2_laws_def Let_def)
  then show False using assms(2-5) by (auto dest: dvd_imp_le)
qed

lemma sm2_encoded:
  assumes "sm2_encoding_laws C" "sm2_mul C k (sm2_generator C) \<noteq> sm2_identity C"
  obtains x y where "sm2_coords C (sm2_mul C k (sm2_generator C)) = Some (x, y)" "length x = 32" "length y = 32"
    "sm2_encode C False (sm2_mul C k (sm2_generator C)) = 0x04 # x @ y"
    "\<And>c. sm2_parse C (sm2_encode C c (sm2_mul C k (sm2_generator C))) = Inr ()"
    "\<And>c. sm2_decode C (sm2_encode C c (sm2_mul C k (sm2_generator C))) = Some (sm2_mul C k (sm2_generator C))"
  using assms unfolding sm2_encoding_laws_def Let_def by metis

section \<open>Encryption is inverted\<close>

definition key_pair_ok :: "('p, 'r) sm2_crate \<Rightarrow> 'p Sm2KeyPair \<Rightarrow> bool" where
  "key_pair_ok C kp \<longleftrightarrow> 0 < kp_private_key kp \<and> kp_private_key kp < sm2_order C \<and>
     kp_public_key kp = sm2_mul C (kp_private_key kp) (sm2_generator C)"

lemma key_pair_generate_ok: "sm2_rng_laws C \<Longrightarrow> key_pair_ok C (fst (generate_with_distid C distid r))"
  by (simp add: key_pair_ok_def generate_with_distid_def sm2_rng_laws_def split_beta Let_def)

text \<open>The parts of a raw ciphertext made with scalar \<open>k\<close>: the point \<open>kG\<close>, and hash and key stream from the shared point.\<close>

definition cipher_parts ::
  "('p, 'r) sm2_crate \<Rightarrow> (bytes \<Rightarrow> bytes) \<Rightarrow> 'p Sm2KeyPair \<Rightarrow> nat \<Rightarrow> bytes \<Rightarrow> bytes \<Rightarrow> bytes \<Rightarrow> bytes \<Rightarrow> bytes \<Rightarrow> bool" where
  "cipher_parts C sm3 kp k m x1 y1 c3 c2 \<longleftrightarrow>
     length x1 = 32 \<and> length y1 = 32 \<and> sm2_encode C False (sm2_mul C k (sm2_generator C)) = 0x04 # x1 @ y1 \<and>
     (\<exists>x2 y2. sm2_coords C (sm2_mul C k (kp_public_key kp)) = Some (x2, y2) \<and>
        c3 = sm3 (x2 @ m @ y2) \<and> c2 = map (\<lambda>(a, b). a XOR b) (zip m (kdf_ref sm3 (x2 @ y2) (length m))))"

lemma sm2_encrypt_ok:
  assumes "sm2_laws C" "sm2_encoding_laws C" "\<And>x. length (sm3 x) = 32" "key_pair_ok C kp" "length m \<le> SM2_MAX_PLAINTEXT_LEN"
    and k: "0 < fst (sm2_scalar C r)" "fst (sm2_scalar C r) < sm2_order C"
  obtains x1 y1 c3 c2 where "cipher_parts C sm3 kp (fst (sm2_scalar C r)) m x1 y1 c3 c2"
    "sm2_encrypt C sm3 (kp_public_key kp) m r = Some (Inr (0x04 # x1 @ y1 @ c3 @ c2), snd (sm2_scalar C r))"
proof -
  let ?k = "fst (sm2_scalar C r)" and ?d = "kp_private_key kp" and ?G = "sm2_generator C"
  have d: "0 < ?d" "?d < sm2_order C" "kp_public_key kp = sm2_mul C ?d ?G" using assms(4) by (simp_all add: key_pair_ok_def)
  obtain x1 y1 where c1: "length x1 = 32" "length y1 = 32" "sm2_encode C False (sm2_mul C ?k ?G) = 0x04 # x1 @ y1"
    using sm2_encoded [OF assms(2) sm2_key_not_identity [OF assms(1) k]] by metis
  have pub: "sm2_decode C (sm2_encode C False (kp_public_key kp)) = Some (kp_public_key kp)"
    using sm2_encoded [OF assms(2) sm2_key_not_identity [OF assms(1) d(1,2)]] d(3) by metis
  have "sm2_mul C (?k * ?d) ?G \<noteq> sm2_identity C"
    using sm2_product_not_identity [OF assms(1) k d(1,2)] by (simp add: sm2_mul_mul [OF assms(1)])
  then obtain x2 y2 where s: "sm2_coords C (sm2_mul C ?k (kp_public_key kp)) = Some (x2, y2)"
    using sm2_encoded [OF assms(2)] d(3) by (metis sm2_mul_mul [OF assms(1)])
  have kdf: "kdf_sm3 sm3 x2 y2 (length m) = Inr (kdf_ref sm3 (x2 @ y2) (length m))"
    using assms(5) by (intro kdf_sm3_ok assms(3)) (simp add: SM2_MAX_PLAINTEXT_LEN_def)
  show thesis
  proof (rule that)
    show "cipher_parts C sm3 kp ?k m x1 y1 (sm3 (x2 @ m @ y2)) (map (\<lambda>(a, b). a XOR b) (zip m (kdf_ref sm3 (x2 @ y2) (length m))))"
      using c1 s by (simp add: cipher_parts_def)
    show "sm2_encrypt C sm3 (kp_public_key kp) m r = Some (Inr (0x04 # x1 @ y1 @ sm3 (x2 @ m @ y2) @
        map (\<lambda>(a, b). a XOR b) (zip m (kdf_ref sm3 (x2 @ y2) (length m)))), snd (sm2_scalar C r))"
      using assms(5) c1(3) pub s kdf
      by (simp add: sm2_encrypt_def split_beta Let_def point_xy_bytes_def sm3_hash_concat_def sm3_hash_def)
  qed
qed

lemma sm2_decrypt_raw_ok:
  assumes "sm2_laws C" "sm2_encoding_laws C" "sm4_laws P" "\<And>x. length (sm3 x) = 32" "key_pair_ok C kp" "length m \<le> SM2_MAX_PLAINTEXT_LEN"
    and k: "0 < k" "k < sm2_order C" and parts: "cipher_parts C sm3 kp k m x1 y1 c3 c2"
  shows "sm2_decrypt_raw C sm3 P kp (0x04 # x1 @ y1 @ c3 @ c2) = Inr m"
proof -
  let ?d = "kp_private_key kp" and ?c1 = "sm2_mul C k (sm2_generator C)"
  obtain x2 y2 where p: "length x1 = 32" "length y1 = 32" "sm2_encode C False ?c1 = 0x04 # x1 @ y1"
    "sm2_coords C (sm2_mul C k (kp_public_key kp)) = Some (x2, y2)"
    "c3 = sm3 (x2 @ m @ y2)" "c2 = map (\<lambda>(a, b). a XOR b) (zip m (kdf_ref sm3 (x2 @ y2) (length m)))"
    using parts unfolding cipher_parts_def by blast
  have lk: "length (kdf_ref sm3 (x2 @ y2) (length m)) = length m" by (intro length_kdf_ref assms(4))
  have c2: "length c2 = length m" "map (\<lambda>(a, b). a XOR b) (zip c2 (kdf_ref sm3 (x2 @ y2) (length m))) = m"
    using p(6) lk map2_xor_involution [OF lk] by simp_all
  have ni: "?c1 \<noteq> sm2_identity C" by (rule sm2_key_not_identity [OF assms(1) k])
  have dec: "sm2_parse C (0x04 # x1 @ y1) = Inr ()" "sm2_decode C (0x04 # x1 @ y1) = Some ?c1"
    using sm2_encoded [OF assms(2) ni] p(3) by metis+
  have shared: "sm2_coords C (sm2_mul C ?d ?c1) = Some (x2, y2)"
    using p(4) assms(5) sm2_mul_swap [OF assms(1), of k ?d] by (simp add: key_pair_ok_def)
  have kdf: "kdf_sm3 sm3 x2 y2 (length m) = Inr (kdf_ref sm3 (x2 @ y2) (length m))"
    using assms(6) by (intro kdf_sm3_ok assms(4)) (simp add: SM2_MAX_PLAINTEXT_LEN_def)
  have c3: "length c3 = 32" "sm3 (x2 @ m @ y2) = c3" "slices_ct_eq P c3 c3" using p(5) assms(3,4) by (simp_all add: sm4_laws_def)
  show ?thesis
    using p(1,2) ni shared kdf c2 c3
    by (simp add: sm2_decrypt_raw_def dec Let_def point_xy_bytes_def sm3_hash_concat_def sm3_hash_def)
qed

lemma sm2_encrypt_zero_scalar:
  assumes "sm2_laws C" "sm2_encoding_laws C" "key_pair_ok C kp" "length m \<le> SM2_MAX_PLAINTEXT_LEN" "fst (sm2_scalar C r) = 0"
  shows "sm2_encrypt C sm3 (kp_public_key kp) m r = Some (Inl (Sm2Error ''X coordinate missing''), snd (sm2_scalar C r))"
proof -
  let ?d = "kp_private_key kp"
  have d: "0 < ?d" "?d < sm2_order C" "kp_public_key kp = sm2_mul C ?d (sm2_generator C)" using assms(3) by (simp_all add: key_pair_ok_def)
  have pub: "sm2_decode C (sm2_encode C False (kp_public_key kp)) = Some (kp_public_key kp)"
    using sm2_encoded [OF assms(2) sm2_key_not_identity [OF assms(1) d(1,2)]] d(3) by metis
  have "sm2_mul C 0 (kp_public_key kp) = sm2_identity C" using d(3) sm2_mul_mul [OF assms(1), of 0] assms(1) by (simp add: sm2_laws_def Let_def)
  moreover have "sm2_coords C (sm2_identity C) = None" using assms(2) unfolding sm2_encoding_laws_def by blast
  ultimately show ?thesis
    using assms(4,5) pub by (simp add: sm2_encrypt_def split_beta Let_def point_xy_bytes_def)
qed

lemma sm2_decrypt_forms:
  assumes "sm2_decrypt_raw C sm3 P kp (0x04 # raw) = Inr m"
  shows "sm2_decrypt C sm3 P kp (0x04 # raw) = Inr m"
    and "sm2_decrypt C sm3 P kp (SM2_CIPHER_VERSIONED_HEADER @ [SM2_CIPHER_VERSION_1, SM2_CIPHER_FORMAT_RAW] @ 0x04 # raw) = Inr m"
    and "sm2_decrypt C sm3 P kp (0x30 # der) = bind_res (sm2_cipher_der_to_raw (0x30 # der)) (sm2_decrypt_raw C sm3 P kp)"
    and "sm2_decrypt C sm3 P kp (SM2_CIPHER_VERSIONED_HEADER @ [SM2_CIPHER_VERSION_1, SM2_CIPHER_FORMAT_DER] @ der') =
      bind_res (sm2_cipher_der_to_raw der') (sm2_decrypt_raw C sm3 P kp)"
  using assms by (simp_all add: sm2_decrypt_def sm2_constants)

section \<open>A small curve\<close>

text \<open>The residues modulo 7 with generator 1; the identity is 0, and a point encodes as its number.\<close>

definition toy_encode :: "bool \<Rightarrow> nat \<Rightarrow> bytes" where
  "toy_encode c p = (if p = 0 then [0] else if c then 0x02 # nat_to_be 32 p else 0x04 # nat_to_be 32 p @ replicate 32 0)"

definition toy_decode :: "bytes \<Rightarrow> nat option" where
  "toy_decode b = (if b = [0] then Some 0 else find (\<lambda>p. b = toy_encode True p \<or> b = toy_encode False p) [1..<7])"

definition toy_sm2 :: "(nat, nat) sm2_crate" where
  "toy_sm2 = \<lparr>sm2_order = 7, sm2_generator = 1, sm2_identity = 0, sm2_add = (\<lambda>p q. (p + q) mod 7), sm2_mul = (\<lambda>k p. k * p mod 7),
     sm2_encode = toy_encode, sm2_coords = (\<lambda>p. if p = 0 then None else Some (nat_to_be 32 p, replicate 32 0)),
     sm2_parse = (\<lambda>_. Inr ()), sm2_decode = toy_decode,
     sm2_secret = (\<lambda>r. (r mod 6 + 1, r + 1)), sm2_scalar = (\<lambda>r. (r mod 7, r + 1)),
     dsa_signing_key = (\<lambda>_ _. Inr ()), dsa_verifying_key = (\<lambda>_ _. Inr ()),
     dsa_sign = (\<lambda>_ d _. replicate 64 (word_of_nat d)), dsa_sign_rng = (\<lambda>_ d _ r. (Inr (replicate 64 (word_of_nat d)), r)),
     dsa_signature = (\<lambda>_. Inr ()), dsa_verify = (\<lambda>_ p _ sig. if sig = replicate 64 (word_of_nat p) then Inr () else Inl ''mismatch''),
     secret_error = ''invalid'', sec1_error = (\<lambda>_. ''invalid'')\<rparr>"

lemma toy_sm2_laws: "sm2_laws toy_sm2"
proof -
  have "7 dvd k \<or> 7 dvd l" if "7 dvd k * l" for k l :: nat
  proof -
    have "(k mod 7) * (l mod 7) mod 7 = 0" using that by (simp add: mod_simps dvd_eq_mod_eq_0)
    moreover have "k mod 7 \<in> {0, 1, 2, 3, 4, 5, 6}" "l mod 7 \<in> {0, 1, 2, 3, 4, 5, 6}" by auto
    ultimately show ?thesis by (auto simp: dvd_eq_mod_eq_0)
  qed
  then show ?thesis by (auto simp: sm2_laws_def toy_sm2_def mod_simps)
qed

lemma toy_sm2_rng_laws: "sm2_rng_laws toy_sm2"
  by (simp add: sm2_rng_laws_def toy_sm2_def)

lemma toy_encode_inj: "p < 7 \<Longrightarrow> q < 7 \<Longrightarrow> toy_encode c p = toy_encode c' q \<Longrightarrow> p = q"
  using nat_to_be_inj [of p 32 q] by (auto simp: toy_encode_def split: if_splits)

lemma toy_decode_encode:
  assumes "0 < p" "p < 7" shows "toy_decode (toy_encode c p) = Some p"
proof -
  let ?P = "\<lambda>q. toy_encode c p = toy_encode True q \<or> toy_encode c p = toy_encode False q"
  have "?P q \<longleftrightarrow> q = p" if "q < 7" for q using toy_encode_inj [of p q c] that assms by (cases c) auto
  then have "find ?P [1..<7] = find (\<lambda>q. q = p) [1..<7]" by (intro find_cong) auto
  also have "\<dots> = Some p" using assms by (auto simp: upt_conv_Cons numeral_eq_Suc less_Suc_eq)
  finally show ?thesis using assms(1) by (simp add: toy_decode_def) (simp add: toy_encode_def)
qed

lemma toy_decode_Some:
  assumes "toy_decode b = Some p"
  shows "p < 7" "length b = 65 \<Longrightarrow> p \<noteq> 0 \<and> toy_encode False p = b"
proof -
  have "b = [0] \<and> p = 0 \<or> 0 < p \<and> p < 7 \<and> (b = toy_encode True p \<or> b = toy_encode False p)"
    using assms by (auto simp: toy_decode_def find_Some_iff split: if_splits)
  then show "p < 7" "length b = 65 \<Longrightarrow> p \<noteq> 0 \<and> toy_encode False p = b" by (auto simp: toy_encode_def)
qed

lemma toy_sm2_encoding_laws: "sm2_encoding_laws toy_sm2"
proof -
  have "\<exists>k. p = k mod 7" if "toy_decode b = Some p" for b p using toy_decode_Some(1) [OF that] by (metis mod_less)
  then show ?thesis
    using toy_decode_encode toy_decode_Some(2)
    unfolding sm2_encoding_laws_def Let_def by (simp add: toy_sm2_def) (simp add: toy_encode_def)
qed

section \<open>Properties\<close>

text \<open>
  C0. Encryption and decryption. For a key pair and a scalar other than zero, every message of up to 65536
  bytes is encrypted in all four formats, and decryption finds the format and returns the message; only
  the two DER forms of a message of exactly 65536 bytes are rejected, because the length of their
  sequence is one too small. With scalar zero encryption fails, and longer messages are refused.
\<close>

theorem sm2_encrypt_decrypt:
  assumes "sm2_laws C" "sm2_encoding_laws C" "sm2_rng_laws C" "sm4_laws P" "\<And>x. length (sm3 x) = 32" "key_pair_ok C kp"
  shows "if length m > SM2_MAX_PLAINTEXT_LEN then \<exists>e. sm2_encrypt C sm3 (kp_public_key kp) m r = Some (Inl e, r)
    else if fst (sm2_scalar C r) = 0 then \<exists>e r'. sm2_encrypt C sm3 (kp_public_key kp) m r = Some (Inl e, r')
    else \<exists>raw der vraw vder r'.
      sm2_encrypt C sm3 (kp_public_key kp) m r = Some (Inr raw, r') \<and> encrypt_der C sm3 (kp_public_key kp) m r = Some (Inr der, r') \<and>
      encrypt_versioned C sm3 (kp_public_key kp) m r = Some (Inr vraw, r') \<and>
      encrypt_versioned_der C sm3 (kp_public_key kp) m r = Some (Inr vder, r') \<and>
      sm2_decrypt C sm3 P kp raw = Inr m \<and> sm2_decrypt C sm3 P kp vraw = Inr m \<and>
      (\<forall>d \<in> {der, vder}. sm2_decrypt C sm3 P kp d =
         (if length m < 65536 then Inr m else Inl (Sm2Error ''extra bytes after SM2Cipher SEQUENCE'')))"
    (is "if _ then _ else if _ then _ else ?formats")
proof -
  let ?k = "fst (sm2_scalar C r)"
  have "\<exists>e. sm2_encrypt C sm3 (kp_public_key kp) m r = Some (Inl e, r)" if "length m > SM2_MAX_PLAINTEXT_LEN"
    using that by (simp add: sm2_encrypt_def)
  moreover have ?formats
    if m: "length m \<le> SM2_MAX_PLAINTEXT_LEN" and k: "?k \<noteq> 0"
  proof -
    have k: "0 < ?k" "?k < sm2_order C" using k assms(3) by (simp_all add: sm2_rng_laws_def)
    obtain x1 y1 c3 c2 where parts: "cipher_parts C sm3 kp ?k m x1 y1 c3 c2"
      and enc: "sm2_encrypt C sm3 (kp_public_key kp) m r = Some (Inr (0x04 # x1 @ y1 @ c3 @ c2), snd (sm2_scalar C r))"
      by (rule sm2_encrypt_ok [where ?sm3.0 = sm3, OF assms(1,2,5,6) m k])
    have l: "length x1 = 32" "length y1 = 32" "length c3 = 32" "length c2 = length m"
      using parts length_kdf_ref [where ?sm3.0 = sm3, OF assms(5)] assms(5) by (auto simp: cipher_parts_def)
    have dec: "sm2_decrypt_raw C sm3 P kp (0x04 # x1 @ y1 @ c3 @ c2) = Inr m"
      by (rule sm2_decrypt_raw_ok [where ?sm3.0 = sm3, OF assms(1,2,4,5,6) m k parts])
    have "length c2 \<le> 0x10000" using m l(4) by (simp add: SM2_MAX_PLAINTEXT_LEN_def)
    then obtain der where der: "sm2_cipher_raw_to_der (0x04 # x1 @ y1 @ c3 @ c2) = Inr (0x30 # der)"
      "sm2_cipher_der_to_raw (0x30 # der) = (if length c2 < 0x10000 then Inr (0x04 # x1 @ y1 @ c3 @ c2)
         else Inl (Sm2Error ''extra bytes after SM2Cipher SEQUENCE''))"
      using cipher_raw_der [OF l(1-3)] by blast
    show ?thesis
      unfolding encrypt_der_def encrypt_versioned_def encrypt_versioned_der_def
      using enc der sm2_decrypt_forms [OF dec] dec l(4) by simp
  qed
  ultimately show ?thesis using sm2_encrypt_zero_scalar [OF assms(1,2,6)] by (simp add: not_less)
qed

definition toy_key_pair :: "nat Sm2KeyPair" where
  "toy_key_pair = \<lparr>kp_private_key = 3, kp_public_key = 3, kp_distid = GM_TLS_DEFAULT_ID\<rparr>"

lemma toy_key_pair_ok: "key_pair_ok toy_sm2 toy_key_pair"
  by (simp add: key_pair_ok_def toy_key_pair_def toy_sm2_def)

theorem sm2_encrypt_decrypt_witness:
  "\<exists>raw der r'. sm2_encrypt toy_sm2 sum_sm3 3 [1, 2, 3] 2 = Some (Inr raw, r') \<and>
     encrypt_der toy_sm2 sum_sm3 3 [1, 2, 3] 2 = Some (Inr der, r') \<and>
     sm2_decrypt toy_sm2 sum_sm3 xor_crates toy_key_pair raw = Inr [1, 2, 3] \<and>
     sm2_decrypt toy_sm2 sum_sm3 xor_crates toy_key_pair der = Inr [1, 2, 3]"
proof -
  have "\<not> length [1, 2, 3 :: u8] > SM2_MAX_PLAINTEXT_LEN" "fst (sm2_scalar toy_sm2 2) \<noteq> 0" "kp_public_key toy_key_pair = 3"
    by (simp_all add: SM2_MAX_PLAINTEXT_LEN_def toy_sm2_def toy_key_pair_def)
  then show ?thesis
    using sm2_encrypt_decrypt [where ?sm3.0 = sum_sm3 and m = "[1, 2, 3]" and r = 2,
        OF toy_sm2_laws toy_sm2_encoding_laws toy_sm2_rng_laws xor_crates_laws length_sum_sm3 toy_key_pair_ok] by auto
qed

text \<open>What the crate promises of its signatures: 64 bytes that parse as one.\<close>

definition sm2_signature_laws :: "('p, 'r) sm2_crate \<Rightarrow> bool" where
  "sm2_signature_laws C \<longleftrightarrow>
     (\<forall>i d m. length (dsa_sign C i d m) = 64 \<and> dsa_signature C (dsa_sign C i d m) = Inr ()) \<and>
     (\<forall>i d m r sig r'. dsa_sign_rng C i d m r = (Inr sig, r') \<longrightarrow> length sig = 64 \<and> dsa_signature C sig = Inr ())"

lemma verifier_new_own_key:
  assumes "sm2_laws C" "sm2_encoding_laws C" "key_pair_ok C kp" "dsa_verifying_key C distid (kp_public_key kp) = Inr ()"
  shows "verifier_new C (sm2_encode C c (kp_public_key kp)) distid = Inr \<lparr>verifier_distid = distid, verifier_key = kp_public_key kp\<rparr>"
proof -
  have d: "kp_public_key kp = sm2_mul C (kp_private_key kp) (sm2_generator C)" using assms(3) by (simp add: key_pair_ok_def)
  have ni: "sm2_mul C (kp_private_key kp) (sm2_generator C) \<noteq> sm2_identity C"
    using assms(3) by (intro sm2_key_not_identity assms(1)) (simp_all add: key_pair_ok_def)
  have "sm2_parse C (sm2_encode C c (kp_public_key kp)) = Inr ()" "sm2_decode C (sm2_encode C c (kp_public_key kp)) = Some (kp_public_key kp)"
    using sm2_encoded [OF assms(2) ni] d by metis+
  then show ?thesis using ni d assms(4) by (simp add: verifier_new_def public_key_from_sec1_def)
qed

text \<open>
  C0. Whatever a signer returns, by any of its three methods, the verifier made from either byte form of
  its public key and the same identifier accepts, also after a detour through DER; and every 64 bytes
  survive that detour.
\<close>

theorem sm2_signatures_verify:
  assumes "sm2_laws C" "sm2_encoding_laws C" "sm2_signature_laws C" "key_pair_ok C kp"
    and "signer_new_with_distid C kp distid = Inr s" "dsa_verifying_key C distid (kp_public_key kp) = Inr ()"
    and "sm2_sign C s data = Inr sig \<or> deterministic_sign C s data = Inr sig \<or> randomized_sign C s data r = Some (Inr sig, r')"
    and "pub \<in> {public_key_bytes C kp, public_key_bytes_uncompressed C kp}"
  shows "(\<exists>v raw. verifier_new C pub distid = Inr v \<and> sm2_verify C v data sig = Inr () \<and>
       sm2_signature_der_to_raw (sm2_signature_raw_to_der sig) = Inr raw \<and> sm2_verify C v data raw = Inr ()) \<and>
     (\<forall>bs. length bs = 64 \<longrightarrow> sm2_signature_der_to_raw (sm2_signature_raw_to_der bs) = Inr bs)"
proof -
  let ?v = "\<lparr>verifier_distid = distid, verifier_key = kp_public_key kp\<rparr>"
  have v: "verifier_new C pub distid = Inr ?v"
    using assms(8) verifier_new_own_key [OF assms(1,2,4,6)] by (auto simp: public_key_bytes_def public_key_bytes_uncompressed_def)
  have s: "s = \<lparr>signer_distid = distid, signer_key = kp_private_key kp\<rparr>"
    using assms(5) by (auto simp: signer_new_with_distid_def bind_res_eq_Inr)
  have sig: "length sig = 64 \<and> dsa_signature C sig = Inr () \<and> dsa_verify C distid (kp_public_key kp) data sig = Inr ()"
    using assms(3,4,7) unfolding s sm2_sign_def deterministic_sign_def randomized_sign_def checked_signature_def
    by (fastforce simp: sm2_signature_laws_def key_pair_ok_def split: sum.splits prod.splits)
  then have "sm2_verify C ?v data sig = Inr ()" by (simp add: sm2_verify_def)
  then show ?thesis using v sig signature_raw_der by metis
qed

theorem sm2_signatures_verify_witness:
  "\<exists>v. verifier_new toy_sm2 (public_key_bytes toy_sm2 toy_key_pair) GM_TLS_DEFAULT_ID = Inr v \<and>
     sm2_verify toy_sm2 v [9] (replicate 64 3) = Inr ()"
proof -
  have "sm2_signature_laws toy_sm2" by (simp add: sm2_signature_laws_def toy_sm2_def)
  moreover have "signer_new_with_distid toy_sm2 toy_key_pair GM_TLS_DEFAULT_ID = Inr \<lparr>signer_distid = GM_TLS_DEFAULT_ID, signer_key = 3\<rparr>"
    "dsa_verifying_key toy_sm2 GM_TLS_DEFAULT_ID (kp_public_key toy_key_pair) = Inr ()"
    "sm2_sign toy_sm2 \<lparr>signer_distid = GM_TLS_DEFAULT_ID, signer_key = 3\<rparr> [9] = Inr (replicate 64 3)"
    by (simp_all add: signer_new_with_distid_def toy_sm2_def toy_key_pair_def sm2_sign_def checked_signature_def)
  ultimately show ?thesis
    using sm2_signatures_verify [OF toy_sm2_laws toy_sm2_encoding_laws _ toy_key_pair_ok, where r = 0 and r' = 0] by blast
qed

lemma parse_own_key:
  assumes "sm2_laws C" "sm2_encoding_laws C" "0 < k" "k < sm2_order C"
  shows "parse_sm2_public_key C (sm2_encode C c (sm2_mul C k (sm2_generator C))) = Inr (sm2_mul C k (sm2_generator C))"
proof -
  note ni = sm2_key_not_identity [OF assms(1,3,4)]
  then have "sm2_parse C (sm2_encode C c (sm2_mul C k (sm2_generator C))) = Inr ()"
    "sm2_decode C (sm2_encode C c (sm2_mul C k (sm2_generator C))) = Some (sm2_mul C k (sm2_generator C))"
    using sm2_encoded [OF assms(2) ni] by metis+
  then show ?thesis using ni by (simp add: parse_sm2_public_key_def)
qed

lemma shared_x_ok:
  assumes "sm2_laws C" "sm2_encoding_laws C" "0 < k" "k < sm2_order C" "0 < l" "l < sm2_order C"
  obtains x where "\<And>msg. shared_x C msg (sm2_mul C k (sm2_mul C l (sm2_generator C))) = Inr x" "length x = 32"
proof -
  have eq: "sm2_mul C k (sm2_mul C l (sm2_generator C)) = sm2_mul C (k * l) (sm2_generator C)" by (rule sm2_mul_mul [OF assms(1)])
  have ni: "sm2_mul C (k * l) (sm2_generator C) \<noteq> sm2_identity C"
    using sm2_product_not_identity [OF assms(1,3-6)] by (simp only: eq not_False_eq_True)
  obtain x y where "sm2_coords C (sm2_mul C (k * l) (sm2_generator C)) = Some (x, y)" "length x = 32"
    using sm2_encoded [OF assms(2) ni] .
  with ni that [of x] show thesis by (simp add: shared_x_def eq)
qed

text \<open>
  C0. Diffie-Hellman. Two parties with generated ephemeral key pairs, or a party with a static key in any
  byte form of the public key, compute the same 32 bytes from their own private key and the public key
  bytes of the other, and both succeed.
\<close>

theorem sm2_ecdh_agreement:
  assumes "sm2_laws C" "sm2_encoding_laws C" "sm2_rng_laws C" "key_pair_ok C kp"
    and "ecdh_generate C r = (a, r')" "ecdh_generate C s = (b, s')"
  shows "(\<exists>x. length x = 32 \<and> compute_shared_secret C a (ecdh_public_key_bytes C b) = Inr x \<and>
       compute_shared_secret C b (ecdh_public_key_bytes C a) = Inr x) \<and>
     (\<exists>x. length x = 32 \<and> sm2_ecdh C (kp_private_key kp) (ecdh_public_key_bytes C a) = Inr x \<and>
       (\<forall>pub \<in> {public_key_bytes C kp, public_key_bytes_uncompressed C kp}. compute_shared_secret C a pub = Inr x))"
proof -
  have gen: "0 < ecdh_scalar c \<and> ecdh_scalar c < sm2_order C \<and> ecdh_public_key c = sm2_mul C (ecdh_scalar c) (sm2_generator C)"
    if "ecdh_generate C t = (c, t')" for c t t'
    using that assms(3) by (auto simp: ecdh_generate_def sm2_rng_laws_def split_beta Let_def)
  note a = gen [OF assms(5)] and b = gen [OF assms(6)]
  have d: "0 < kp_private_key kp" "kp_private_key kp < sm2_order C" "kp_public_key kp = sm2_mul C (kp_private_key kp) (sm2_generator C)"
    using assms(4) by (simp_all add: key_pair_ok_def)
  note parse = parse_own_key [OF assms(1,2)]
  obtain x where x: "\<And>msg. shared_x C msg (sm2_mul C (ecdh_scalar a) (sm2_mul C (ecdh_scalar b) (sm2_generator C))) = Inr x" "length x = 32"
    using shared_x_ok [OF assms(1,2)] a b by metis
  obtain y where y: "\<And>msg. shared_x C msg (sm2_mul C (ecdh_scalar a) (sm2_mul C (kp_private_key kp) (sm2_generator C))) = Inr y" "length y = 32"
    using shared_x_ok [OF assms(1,2)] a d by metis
  have "compute_shared_secret C a (ecdh_public_key_bytes C b) = Inr x" "compute_shared_secret C b (ecdh_public_key_bytes C a) = Inr x"
    using a b parse x(1) sm2_mul_swap [OF assms(1), of "ecdh_scalar a"] by (simp_all add: compute_shared_secret_def ecdh_public_key_bytes_def)
  moreover have "sm2_ecdh C (kp_private_key kp) (ecdh_public_key_bytes C a) = Inr y"
    "\<forall>pub \<in> {public_key_bytes C kp, public_key_bytes_uncompressed C kp}. compute_shared_secret C a pub = Inr y"
    using a d parse y(1) sm2_mul_swap [OF assms(1), of "ecdh_scalar a"]
    by (simp_all add: compute_shared_secret_def sm2_ecdh_def ecdh_public_key_bytes_def public_key_bytes_def public_key_bytes_uncompressed_def)
  ultimately show ?thesis using x(2) y(2) by blast
qed

theorem sm2_ecdh_agreement_witness:
  "\<exists>x. length x = 32 \<and>
     compute_shared_secret toy_sm2 \<lparr>ecdh_scalar = 2, ecdh_public_key = 2\<rparr> (ecdh_public_key_bytes toy_sm2 \<lparr>ecdh_scalar = 5, ecdh_public_key = 5\<rparr>) = Inr x \<and>
     compute_shared_secret toy_sm2 \<lparr>ecdh_scalar = 5, ecdh_public_key = 5\<rparr> (ecdh_public_key_bytes toy_sm2 \<lparr>ecdh_scalar = 2, ecdh_public_key = 2\<rparr>) = Inr x"
proof -
  have "ecdh_generate toy_sm2 1 = (\<lparr>ecdh_scalar = 2, ecdh_public_key = 2\<rparr>, 2)" "ecdh_generate toy_sm2 4 = (\<lparr>ecdh_scalar = 5, ecdh_public_key = 5\<rparr>, 5)"
    by (simp_all add: ecdh_generate_def toy_sm2_def)
  then show ?thesis
    using sm2_ecdh_agreement [OF toy_sm2_laws toy_sm2_encoding_laws toy_sm2_rng_laws toy_key_pair_ok] by blast
qed

end
