(* ===== verification/Gm_Transport.thy ===== *)
theory Gm_Transport
  imports Gm_Crypto Gm_Rng
begin

text \<open>
  What the record layers of \<open>gm-tls\<close> and \<open>gm-tlcp\<close> share: the wrapped asynchronous transport, which is
  a parameter, with the laws of a reliable one; the nonces both derive from a base nonce and a
  sequence number; and the rules for computations that keep a predicate of their state. Concrete
  transports for examples are at the end.
\<close>

section \<open>The transport\<close>

datatype io_error = IoErr (is_eof: bool) (io_message: string)

datatype 'a poll = Ready 'a | Pending

text \<open>\<open>AsyncRead\<close> and \<open>AsyncWrite\<close> of the wrapped stream, with the extension methods of \<open>tokio\<close>
  (\<open>write_u8\<close> and \<open>write_u16\<close> write the big-endian bytes with \<open>write_all\<close>).\<close>

record 's transport =
  write_all :: "bytes \<Rightarrow> 's \<Rightarrow> (io_error, unit) res \<times> 's"
  flush :: "'s \<Rightarrow> (io_error, unit) res \<times> 's"
  read_exact :: "nat \<Rightarrow> 's \<Rightarrow> (io_error, bytes) res \<times> 's"
  inner_poll_read :: "nat \<Rightarrow> 's \<Rightarrow> (io_error, bytes) res poll \<times> 's"
  inner_poll_write :: "bytes \<Rightarrow> 's \<Rightarrow> (io_error, nat) res poll \<times> 's"
  inner_poll_flush :: "'s \<Rightarrow> (io_error, unit) res poll \<times> 's"
  inner_poll_shutdown :: "'s \<Rightarrow> (io_error, unit) res poll \<times> 's"

definition io_other :: "string \<Rightarrow> io_error" where
  "io_other msg = IoErr False msg"

text \<open>A loop that writes a slice in full; the result is an early return, if any.\<close>

function poll_write_slice ::
  "'s transport \<Rightarrow> string \<Rightarrow> bytes \<Rightarrow> 's \<Rightarrow> (io_error, nat) res poll option \<times> 's" where
  "poll_write_slice T failed data s =
     (if data = [] then (None, s)
      else
        case inner_poll_write T data s of
          (Ready (Inr n), s') \<Rightarrow>
            if n > 0 then poll_write_slice T failed (drop n data) s' else (Some (Ready (Inl (io_other failed))), s')
        | (Ready (Inl e), s') \<Rightarrow> (Some (Ready (Inl e)), s')
        | (Pending, s') \<Rightarrow> (Some Pending, s'))"
  by pat_completeness auto
termination poll_write_slice
  by (relation "measure (\<lambda>(_, _, data, _). length data)") auto

declare poll_write_slice.simps [simp del]

section \<open>Laws of transports\<close>

text \<open>\<open>tokio\<close>'s \<open>write_all\<close>, \<open>flush\<close> and \<open>read_exact\<close> on a transport without failures: the bytes sent
  are appended to \<open>tx\<close>, the bytes read are taken from the front of \<open>rx\<close>.\<close>

definition accepts :: "'s transport \<Rightarrow> ('s \<Rightarrow> bytes) \<Rightarrow> bool" where
  "accepts T tx \<longleftrightarrow>
     (\<forall>data s. \<exists>s'. write_all T data s = (Inr (), s') \<and> tx s' = tx s @ data) \<and>
     (\<forall>s. \<exists>s'. flush T s = (Inr (), s') \<and> tx s' = tx s)"

definition delivers :: "'s transport \<Rightarrow> ('s \<Rightarrow> bytes) \<Rightarrow> bool" where
  "delivers T rx \<longleftrightarrow>
     (\<forall>n s. n \<le> length (rx s) \<longrightarrow> (\<exists>s'. read_exact T n s = (Inr (take n (rx s)), s') \<and> rx s' = drop n (rx s)))"

text \<open>The contract of \<open>AsyncRead\<close>: a poll puts at most as many bytes as the buffer has room for.\<close>

definition fits_buffer :: "'s transport \<Rightarrow> bool" where
  "fits_buffer T \<longleftrightarrow> (\<forall>n s chunk s'. inner_poll_read T n s = (Ready (Inr chunk), s') \<longrightarrow> length chunk \<le> n)"

text \<open>\<open>AsyncRead\<close>: a poll takes a prefix of the bytes to come that fits the buffer, or takes nothing.\<close>

definition polled :: "'s transport \<Rightarrow> ('s \<Rightarrow> bytes) \<Rightarrow> bool" where
  "polled T rx \<longleftrightarrow>
     (\<forall>n s p s'. inner_poll_read T n s = (p, s') \<longrightarrow>
        (\<forall>chunk. p = Ready (Inr chunk) \<longrightarrow> length chunk \<le> n \<and> rx s = chunk @ rx s') \<and>
        ((\<forall>chunk. p \<noteq> Ready (Inr chunk)) \<longrightarrow> rx s' = rx s))"

lemma polled_chunk: "polled T rx \<Longrightarrow> inner_poll_read T n s = (Ready (Inr chunk), s') \<Longrightarrow> length chunk \<le> n \<and> rx s = chunk @ rx s'"
  unfolding polled_def by blast

lemma polled_none: "polled T rx \<Longrightarrow> inner_poll_read T n s = (p, s') \<Longrightarrow> (\<And>chunk. p = Ready (Inr chunk) \<Longrightarrow> chunk = []) \<Longrightarrow> rx s' = rx s"
  unfolding polled_def by (metis append_Nil)

lemma polled_fits: "polled T rx \<Longrightarrow> fits_buffer T"
  by (auto simp: fits_buffer_def dest: polled_chunk)

section \<open>Nonces and ciphers\<close>

lemma nth_u64_to_be_inj: "(\<And>i. i < 8 \<Longrightarrow> u64_to_be a ! i = u64_to_be b ! i) \<Longrightarrow> a = b"
  using nth_equalityI [of "u64_to_be a" "u64_to_be b"] by simp

definition nonce_of :: "bytes \<Rightarrow> u64 \<Rightarrow> bytes" where
  "nonce_of base seq = map (\<lambda>i. if i < 4 then base ! i else base ! i XOR u64_to_be seq ! (i - 4)) [0..<12]"

lemma length_nonce_of [simp]: "length (nonce_of base seq) = 12"
  by (simp add: nonce_of_def)

lemma nonce_of_inj: "nonce_of base a = nonce_of base b \<longleftrightarrow> a = b"
proof
  assume eq: "nonce_of base a = nonce_of base b"
  show "a = b"
  proof (rule nth_u64_to_be_inj)
    fix i :: nat assume i: "i < 8"
    have "nonce_of base a ! (i + 4) = nonce_of base b ! (i + 4)" by (simp add: eq)
    then have "base ! (i + 4) XOR u64_to_be a ! i = base ! (i + 4) XOR u64_to_be b ! i" using i by (simp add: nonce_of_def)
    then have "base ! (i + 4) XOR (base ! (i + 4) XOR u64_to_be a ! i) = base ! (i + 4) XOR (base ! (i + 4) XOR u64_to_be b ! i)" by simp
    then show "u64_to_be a ! i = u64_to_be b ! i" by (simp flip: xor.assoc)
  qed
qed simp

lemma nat_to_be_zero: "nat_to_be k 0 = replicate k 0"
  by (induction k) (simp_all add: replicate_append_same)

lemma u64_to_be_zero: "u64_to_be 0 = replicate 8 0"
  by (simp add: u64_to_be_def nat_to_be_zero)

lemma nonce_of_zero: "length base = 12 \<Longrightarrow> nonce_of base 0 = base"
  by (intro nth_equalityI) (auto simp: nonce_of_def u64_to_be_zero)

definition cache_ok :: "Sm4Cipher option \<Rightarrow> bytes \<Rightarrow> bool" where
  "cache_ok c key = (case c of None \<Rightarrow> True | Some cipher \<Rightarrow> key_bytes cipher = key)"

lemma cache_ok_simps [simp]: "cache_ok None k" "cache_ok (Some c) k \<longleftrightarrow> key_bytes c = k"
  by (simp_all add: cache_ok_def)

lemma sm4_new_16: "length k = 16 \<Longrightarrow> sm4_new k = Inr \<lparr>key_bytes = k\<rparr>"
  by (simp add: sm4_new_def SM4_KEY_LENGTH_def)

lemma encrypt_gcm_12:
  "length nonce = 12 \<Longrightarrow> encrypt_gcm P c m nonce aad =
     Inr (apply_keystream P (key_bytes c) (inc32 (gcm_j0 nonce)) m,
          gcm_tag P (key_bytes c) (gcm_j0 nonce) aad (apply_keystream P (key_bytes c) (inc32 (gcm_j0 nonce)) m))"
  by (simp add: encrypt_gcm_def SM4_GCM_NONCE_LENGTH_def Let_def)

lemma word_less_succ: "(a :: u64) < b + 1 \<longleftrightarrow> a < b \<or> a = b" if "b \<noteq> 0xFFFFFFFFFFFFFFFF" for b
proof -
  have "unat b \<noteq> unat (0xFFFFFFFFFFFFFFFF :: u64)" using that by (auto simp: word_unat_eq_iff)
  then have "unat b + 1 < 2 ^ 64" using unat_bound [of b] by simp
  then have "unat (b + 1) = unat b + 1" by (simp add: unat_word_ariths)
  then show ?thesis by (auto simp: word_less_nat_alt word_unat_eq_iff)
qed

section \<open>Computations that keep a predicate\<close>

definition keeps :: "('r \<Rightarrow> bool) \<Rightarrow> ('r, 'e, 'a) io \<Rightarrow> bool" where
  "keeps I m \<longleftrightarrow> (\<forall>st r st'. I st \<longrightarrow> m st = Some (r, st') \<longrightarrow> I st')"

named_theorems keeps_rules \<open>computations that keep a state predicate\<close>

lemma keeps_bind [keeps_rules]:
  assumes "keeps I m" "\<And>x. keeps I (f x)"
  shows "keeps I (io_bind m f)"
  unfolding keeps_def
proof (intro allI impI)
  fix st r st' assume st: "I st" "io_bind m f st = Some (r, st')"
  then obtain x s where m: "m st = Some (x, s)" by (cases "m st") auto
  then have "I s" using st(1) assms(1) unfolding keeps_def by blast
  then show "I st'" using st(2) m assms(2) unfolding keeps_def by (cases x) auto
qed

lemma keeps_return [keeps_rules]: "keeps I (io_return x)" "keeps I (io_fail e)" "keeps I (io_lift (Some y))"
  by (simp_all add: keeps_def)

lemma keeps_state:
  "(\<And>st r st'. I st \<Longrightarrow> m st = Some (r, st') \<Longrightarrow> I st') \<Longrightarrow> keeps I m"
  by (auto simp: keeps_def)

lemma keeps_use: "keeps I m \<Longrightarrow> I st \<Longrightarrow> m st = Some (r, st') \<Longrightarrow> I st'"
  by (auto simp: keeps_def)

section \<open>Concrete transports\<close>

text \<open>A transport that holds the bytes to read and the bytes written.\<close>

definition queue_transport :: "(bytes \<times> bytes) transport" where
  "queue_transport =
     \<lparr>write_all = (\<lambda>data (rx, tx). (Inr (), (rx, tx @ data))), flush = (\<lambda>s. (Inr (), s)),
      read_exact = (\<lambda>n (rx, tx). if n \<le> length rx then (Inr (take n rx), (drop n rx, tx)) else (Inl (IoErr True ''early eof''), ([], tx))),
      inner_poll_read = (\<lambda>n (rx, tx). (Ready (Inr (take n rx)), (drop n rx, tx))),
      inner_poll_write = (\<lambda>data (rx, tx). (Ready (Inr (length data)), (rx, tx @ data))),
      inner_poll_flush = (\<lambda>s. (Ready (Inr ()), s)), inner_poll_shutdown = (\<lambda>s. (Ready (Inr ()), s))\<rparr>"

lemma queue_transport_reliable: "accepts queue_transport snd" "delivers queue_transport fst"
  by (auto simp: accepts_def delivers_def queue_transport_def)

lemma queue_transport_fits: "fits_buffer queue_transport"
  by (auto simp: fits_buffer_def queue_transport_def)

text \<open>A transport that holds its input as a list and hands out one byte at a time.\<close>

definition byte_transport :: "bytes transport" where
  "byte_transport =
     \<lparr>write_all = (\<lambda>data s. (Inr (), s)), flush = (\<lambda>s. (Inr (), s)),
      read_exact = (\<lambda>n s. if n \<le> length s then (Inr (take n s), drop n s) else (Inl (IoErr True ''early eof''), [])),
      inner_poll_read = (\<lambda>n s. (Ready (Inr (take (min 1 n) s)), drop (min 1 n) s)),
      inner_poll_write = (\<lambda>data s. (Ready (Inr (length data)), s)),
      inner_poll_flush = (\<lambda>s. (Ready (Inr ()), s)), inner_poll_shutdown = (\<lambda>s. (Ready (Inr ()), s))\<rparr>"

lemma byte_transport_polled: "polled byte_transport (\<lambda>s. s)"
  by (auto simp: polled_def byte_transport_def)

text \<open>A transport that accepts one call and is not ready for the second.\<close>

definition stalling_transport :: "nat transport" where
  "stalling_transport =
     \<lparr>write_all = (\<lambda>data s. (Inr (), s)), flush = (\<lambda>s. (Inr (), s)), read_exact = (\<lambda>n s. (Inl (IoErr True ''early eof''), s)),
      inner_poll_read = (\<lambda>n s. (Pending, s)),
      inner_poll_write = (\<lambda>data s. if s = 0 then (Ready (Inr (length data)), 1) else (Pending, s)),
      inner_poll_flush = (\<lambda>s. (Ready (Inr ()), s)), inner_poll_shutdown = (\<lambda>s. (Ready (Inr ()), s))\<rparr>"

end
