(* ===== verification/Tls_Kdf.thy ===== *)
theory Tls_Kdf
  imports Gm_Crypto
begin

text \<open>
  Errors and key derivation of \<open>gm-tls\<close>: the error type with its codes (\<open>error.rs\<close>), HKDF over
  HMAC-SM3 (\<open>kdf.rs\<close>) and the derivation steps of a key update (\<open>key_update.rs\<close>). The encoding of a
  curve point (crate \<open>elliptic-curve\<close>) enters as its optional coordinates.
  Shown: the loop of HKDF computes the output of RFC 5869 up to 8160 bytes and fails above, and each
  traffic secret gives a key and a nonce of the lengths the record layer expects.
\<close>

section \<open>Errors\<close>

datatype ErrorCode =
    Code_ConfigError
  | Code_HandshakeFailed
  | Code_HandshakeFailedSource
  | Code_CertificateVerificationFailed
  | Code_CrlVerificationFailed
  | Code_IoError
  | Code_Unimplemented
  | Code_SequenceOverflow
  | Code_SessionStoreError
  | Code_DerParseError
  | Code_SerializationFailed
  | Code_TlsRecordError
  | Code_ParseError
  | Code_NonceReuse
  | Code_InvalidHandshakeType
  | Code_InvalidMessage
  | Code_InvalidState
  | Code_SessionTicket
  | Code_Cipher
  | Code_HandshakeMessageParse
  | Code_Sm2Key
  | Code_Kat

datatype TlsError =
    ConfigError string
  | HandshakeFailed string
  | HandshakeFailedSource string string
  | TlsCertificateVerificationFailed string
  | TlsCrlVerificationFailed string
  | IoError string
  | Unimplemented string
  | SequenceOverflow
  | SessionStoreError string
  | DerParseError string
  | SerializationFailed string
  | TlsRecordError string
  | ParseError string
  | NonceReuse
  | InvalidHandshakeType u8
  | InvalidMessage string
  | InvalidState string
  | SessionTicketInvalid string
  | SessionTicketExpired
  | SessionTicketReplay
  | CipherError string
  | HandshakeMessageParse string
  | Sm2KeyError string
  | KatFailed string

fun tls_error_code :: "TlsError \<Rightarrow> ErrorCode" where
  "tls_error_code (ConfigError _) = Code_ConfigError"
| "tls_error_code (HandshakeFailed _) = Code_HandshakeFailed"
| "tls_error_code (HandshakeFailedSource _ _) = Code_HandshakeFailedSource"
| "tls_error_code (TlsCertificateVerificationFailed _) = Code_CertificateVerificationFailed"
| "tls_error_code (TlsCrlVerificationFailed _) = Code_CrlVerificationFailed"
| "tls_error_code (IoError _) = Code_IoError"
| "tls_error_code (Unimplemented _) = Code_Unimplemented"
| "tls_error_code SequenceOverflow = Code_SequenceOverflow"
| "tls_error_code (SessionStoreError _) = Code_SessionStoreError"
| "tls_error_code (DerParseError _) = Code_DerParseError"
| "tls_error_code (SerializationFailed _) = Code_SerializationFailed"
| "tls_error_code (TlsRecordError _) = Code_TlsRecordError"
| "tls_error_code (ParseError _) = Code_ParseError"
| "tls_error_code NonceReuse = Code_NonceReuse"
| "tls_error_code (InvalidHandshakeType _) = Code_InvalidHandshakeType"
| "tls_error_code (InvalidMessage _) = Code_InvalidMessage"
| "tls_error_code (InvalidState _) = Code_InvalidState"
| "tls_error_code (SessionTicketInvalid _) = Code_SessionTicket"
| "tls_error_code SessionTicketExpired = Code_SessionTicket"
| "tls_error_code SessionTicketReplay = Code_SessionTicket"
| "tls_error_code (CipherError _) = Code_Cipher"
| "tls_error_code (HandshakeMessageParse _) = Code_HandshakeMessageParse"
| "tls_error_code (Sm2KeyError _) = Code_Sm2Key"
| "tls_error_code (KatFailed _) = Code_Kat"

definition is_config_error :: "TlsError \<Rightarrow> bool" where
  "is_config_error e \<longleftrightarrow> tls_error_code e = Code_ConfigError"

definition is_transient :: "TlsError \<Rightarrow> bool" where
  "is_transient e \<longleftrightarrow> tls_error_code e \<in> {Code_IoError, Code_SessionStoreError}"

fun tls_from_crypto :: "CryptoError \<Rightarrow> TlsError" where
  "tls_from_crypto (CertificateVerificationFailed msg) = TlsCertificateVerificationFailed msg"
| "tls_from_crypto (CrlVerificationFailed msg) = TlsCrlVerificationFailed msg"
| "tls_from_crypto other = HandshakeFailed (display_crypto_error other)"

fun display_tls_error :: "TlsError \<Rightarrow> string" where
  "display_tls_error (ConfigError s) = ''configuration error: '' @ s"
| "display_tls_error (HandshakeFailed s) = ''handshake failed: '' @ s"
| "display_tls_error (HandshakeFailedSource msg source) = ''handshake failed: '' @ msg"
| "display_tls_error (TlsCertificateVerificationFailed s) = ''certificate verification failed: '' @ s"
| "display_tls_error (TlsCrlVerificationFailed s) = ''CRL verification failed: '' @ s"
| "display_tls_error (IoError s) = ''I/O error: '' @ s"
| "display_tls_error (Unimplemented s) = ''not implemented: '' @ s"
| "display_tls_error SequenceOverflow = ''sequence overflow: GCM nonce cannot exceed 2^64-1''"
| "display_tls_error (SessionStoreError s) = ''session store error: '' @ s"
| "display_tls_error (DerParseError s) = ''DER parse error: '' @ s"
| "display_tls_error (SerializationFailed s) = ''serialization failed: '' @ s"
| "display_tls_error (TlsRecordError s) = ''TLS record error: '' @ s"
| "display_tls_error (ParseError s) = ''parse error: '' @ s"
| "display_tls_error NonceReuse = ''GCM nonce reuse detected: same nonce used twice with the same key''"
| "display_tls_error (InvalidHandshakeType b) = ''invalid handshake type: '' @ show_nat (unat b)"
| "display_tls_error (InvalidMessage s) = ''invalid message: '' @ s"
| "display_tls_error (InvalidState s) = ''invalid state: '' @ s"
| "display_tls_error (SessionTicketInvalid s) = ''session ticket invalid: '' @ s"
| "display_tls_error SessionTicketExpired = ''session ticket has expired''"
| "display_tls_error SessionTicketReplay = ''session ticket replay detected''"
| "display_tls_error (CipherError s) = ''GM cipher error: '' @ s"
| "display_tls_error (HandshakeMessageParse s) = ''handshake message parse failed: '' @ s"
| "display_tls_error (Sm2KeyError s) = ''SM2 key error: '' @ s"
| "display_tls_error (KatFailed s) = ''KAT self-test failed: '' @ s"

section \<open>HKDF\<close>

definition SM3_HASH_LEN :: nat where
  "SM3_HASH_LEN = 32"

definition HKDF_MAX_OUTPUT :: nat where
  "HKDF_MAX_OUTPUT = 255 * SM3_HASH_LEN"

definition SM4_KEY_LEN :: nat where
  "SM4_KEY_LEN = 16"

definition SM4_NONCE_LEN :: nat where
  "SM4_NONCE_LEN = 12"

definition hmac_tls :: "(bytes \<Rightarrow> bytes) \<Rightarrow> bytes \<Rightarrow> bytes \<Rightarrow> (TlsError, bytes) res" where
  "hmac_tls sm3 key data = map_err tls_from_crypto (sm3_hmac_compute sm3 (sm3_hmac_new key) data)"

function hkdf_expand :: "(bytes \<Rightarrow> bytes) \<Rightarrow> bytes \<Rightarrow> bytes \<Rightarrow> nat \<Rightarrow> bytes \<Rightarrow> bytes \<Rightarrow> u8 \<Rightarrow> (TlsError, bytes) res" where
  "hkdf_expand sm3 prk info len okm t_prev counter =
     (if length okm < len then
        case hmac_tls sm3 prk (t_prev @ info @ [counter]) of
          Inl e \<Rightarrow> Inl e
        | Inr t_i \<Rightarrow>
            if length (okm @ t_i) < len then
              if counter = 255 then Inl (HandshakeFailed ''HKDF-Expand counter overflow'')
              else hkdf_expand sm3 prk info len (okm @ t_i) t_i (counter + 1)
            else hkdf_expand sm3 prk info len (okm @ t_i) t_i counter
      else Inr (take len okm))"
  by pat_completeness auto

lemma byte_increment:
  assumes "(c :: u8) \<noteq> 255"
  shows "unat (c + 1) = unat c + 1"
proof -
  have "unat c \<noteq> 255" using assms by (auto simp: word_unat_eq_iff)
  then have "unat c + 1 < 256" using unat_byte_less [of c] by linarith
  then show ?thesis by (simp add: unat_word_ariths)
qed

termination hkdf_expand
proof (relation "measure (\<lambda>(_, _, _, len, okm, _, c). if length okm < len then 256 - unat c else 0)", goal_cases)
  case (2 sm3 prk info len okm t_prev counter t_i)
  then show ?case using byte_increment [of counter] by (simp, insert unat_byte_less [of counter], linarith)
next
  case (3 sm3 prk info len okm t_prev counter t_i)
  then show ?case by simp
qed simp

declare hkdf_expand.simps [simp del]

definition hkdf_sm3 :: "(bytes \<Rightarrow> bytes) \<Rightarrow> bytes \<Rightarrow> bytes \<Rightarrow> bytes \<Rightarrow> nat \<Rightarrow> (TlsError, bytes) res" where
  "hkdf_sm3 sm3 ikm salt info len =
     (if len > HKDF_MAX_OUTPUT
      then Inl (HandshakeFailed (''HKDF output length '' @ show_nat len @ '' exceeds maximum '' @ show_nat HKDF_MAX_OUTPUT @ '' bytes''))
      else bind_res (if salt = [] then hmac_tls sm3 (replicate SM3_HASH_LEN 0) ikm else hmac_tls sm3 salt ikm)
             (\<lambda>prk. hkdf_expand sm3 prk info len [] [] 1))"

definition derive_key_iv_from_secret :: "(bytes \<Rightarrow> bytes) \<Rightarrow> bytes \<Rightarrow> (TlsError, bytes \<times> bytes) res" where
  "derive_key_iv_from_secret sm3 secret =
     bind_res (hkdf_sm3 sm3 secret [] (ascii ''key'') SM4_KEY_LEN) (\<lambda>key.
     bind_res (hkdf_sm3 sm3 secret [] (ascii ''iv'') SM4_NONCE_LEN) (\<lambda>nonce.
       Inr (key, nonce)))"

record SessionKeys =
  client_key :: bytes
  client_nonce :: bytes
  server_key :: bytes
  server_nonce :: bytes

record HandshakeSecrets =
  master_secret :: bytes
  client_traffic_secret :: bytes
  server_traffic_secret :: bytes
  session_keys :: SessionKeys

definition derive_session_keys_sm2 :: "(bytes \<Rightarrow> bytes) \<Rightarrow> bytes option \<Rightarrow> bytes option \<Rightarrow> (TlsError, HandshakeSecrets) res" where
  "derive_session_keys_sm2 sm3 enc_x enc_y =
     bind_res (ok_or enc_x (HandshakeFailed ''shared point missing X'')) (\<lambda>x.
     bind_res (ok_or enc_y (HandshakeFailed ''shared point missing Y'')) (\<lambda>y.
     bind_res (hkdf_sm3 sm3 (x @ y) [] (ascii ''GM/TLS-master-secret'') 32) (\<lambda>master_secret.
     bind_res (hkdf_sm3 sm3 master_secret [] (ascii ''GM/TLS-client-traffic-secret'') SM3_HASH_LEN) (\<lambda>client_traffic_secret.
     bind_res (hkdf_sm3 sm3 master_secret [] (ascii ''GM/TLS-server-traffic-secret'') SM3_HASH_LEN) (\<lambda>server_traffic_secret.
     bind_res (derive_key_iv_from_secret sm3 client_traffic_secret) (\<lambda>(client_key, client_nonce).
     bind_res (derive_key_iv_from_secret sm3 server_traffic_secret) (\<lambda>(server_key, server_nonce).
       Inr \<lparr>master_secret = master_secret, client_traffic_secret = client_traffic_secret,
            server_traffic_secret = server_traffic_secret,
            session_keys = \<lparr>client_key = client_key, client_nonce = client_nonce,
                            server_key = server_key, server_nonce = server_nonce\<rparr>\<rparr>)))))))"

section \<open>Key update\<close>

datatype KeyUpdateRequest = UpdateNotRequested | UpdateRequested

definition key_update_request_from_byte :: "u8 \<Rightarrow> (TlsError, KeyUpdateRequest) res" where
  "key_update_request_from_byte b =
     (if b = 0 then Inr UpdateNotRequested
      else if b = 1 then Inr UpdateRequested
      else Inl (InvalidMessage (''invalid KeyUpdateRequest value: '' @ show_nat (unat b))))"

fun key_update_request_to_byte :: "KeyUpdateRequest \<Rightarrow> u8" where
  "key_update_request_to_byte UpdateNotRequested = 0"
| "key_update_request_to_byte UpdateRequested = 1"

record KeyUpdate =
  update_requested :: KeyUpdateRequest

definition key_update_new :: "KeyUpdateRequest \<Rightarrow> KeyUpdate" where
  "key_update_new r = \<lparr>update_requested = r\<rparr>"

definition key_update_to_bytes :: "KeyUpdate \<Rightarrow> bytes" where
  "key_update_to_bytes ku = [key_update_request_to_byte (update_requested ku)]"

definition key_update_from_bytes :: "bytes \<Rightarrow> (TlsError, KeyUpdate) res" where
  "key_update_from_bytes data =
     (if length data \<noteq> 1
      then Inl (InvalidMessage (''KeyUpdate body must be exactly 1 byte, got '' @ show_nat (length data)))
      else bind_res (key_update_request_from_byte (data ! 0)) (\<lambda>r. Inr \<lparr>update_requested = r\<rparr>))"

definition KEY_UPDATE_THRESHOLD :: u64 where
  "KEY_UPDATE_THRESHOLD = push_bit 32 1 * 4 div 5"

definition GCM_CONFIDENTIALITY_LIMIT :: u64 where
  "GCM_CONFIDENTIALITY_LIMIT = push_bit 32 1"

definition update_traffic_secret :: "(bytes \<Rightarrow> bytes) \<Rightarrow> bytes \<Rightarrow> (TlsError, bytes) res" where
  "update_traffic_secret sm3 old_secret =
     (if length old_secret \<noteq> SM3_HASH_LEN
      then Inl (HandshakeFailed (''traffic secret must be '' @ show_nat SM3_HASH_LEN @ '' bytes, got '' @ show_nat (length old_secret)))
      else hkdf_sm3 sm3 old_secret [] (ascii ''traffic upd'') SM3_HASH_LEN)"

definition derive_key_and_nonce :: "(bytes \<Rightarrow> bytes) \<Rightarrow> bytes \<Rightarrow> (TlsError, bytes \<times> bytes) res" where
  "derive_key_and_nonce sm3 secret =
     bind_res (hkdf_sm3 sm3 secret [] (ascii ''key'') SM4_KEY_LEN) (\<lambda>new_key.
     bind_res (hkdf_sm3 sm3 secret [] (ascii ''iv'') SM4_NONCE_LEN) (\<lambda>new_nonce.
       Inr (new_key, new_nonce)))"

section \<open>HKDF computes the output of RFC 5869\<close>

fun hkdf_T :: "(bytes \<Rightarrow> bytes) \<Rightarrow> bytes \<Rightarrow> bytes \<Rightarrow> nat \<Rightarrow> bytes" where
  "hkdf_T sm3 prk info 0 = []"
| "hkdf_T sm3 prk info (Suc i) = hmac_ref sm3 prk (hkdf_T sm3 prk info i @ info @ [word_of_nat (Suc i)])"

definition hkdf_blocks :: "(bytes \<Rightarrow> bytes) \<Rightarrow> bytes \<Rightarrow> bytes \<Rightarrow> nat \<Rightarrow> bytes" where
  "hkdf_blocks sm3 prk info n = concat (map (hkdf_T sm3 prk info) [1..<Suc n])"

definition hkdf_ref :: "(bytes \<Rightarrow> bytes) \<Rightarrow> bytes \<Rightarrow> bytes \<Rightarrow> bytes \<Rightarrow> nat \<Rightarrow> bytes" where
  "hkdf_ref sm3 ikm salt info len =
     (let prk = hmac_ref sm3 (if salt = [] then replicate 32 0 else salt) ikm
      in take len (hkdf_blocks sm3 prk info ((len + 31) div 32)))"

lemma hkdf_blocks_Suc: "hkdf_blocks sm3 prk info n @ hkdf_T sm3 prk info (Suc n) = hkdf_blocks sm3 prk info (Suc n)"
  by (simp add: hkdf_blocks_def)

lemma length_hkdf_blocks:
  assumes "\<And>x. length (sm3 x) = 32"
  shows "length (hkdf_blocks sm3 prk info n) = 32 * n"
  by (induction n) (simp_all add: hkdf_blocks_def length_hmac_ref [where ?sm3.0 = sm3, OF assms])

lemma hkdf_expand_eq:
  assumes sm3: "\<And>x. length (sm3 x) = 32" and n: "n = (len + 31) div 32" "n \<le> 255"
  shows "c \<le> n \<Longrightarrow> (c < n \<Longrightarrow> counter = word_of_nat (Suc c)) \<Longrightarrow>
    hkdf_expand sm3 prk info len (hkdf_blocks sm3 prk info c) (hkdf_T sm3 prk info c) counter =
      Inr (take len (hkdf_blocks sm3 prk info n))"
proof (induction "n - c" arbitrary: c counter)
  case 0
  then have "\<not> 32 * c < len" using n(1) by linarith
  then show ?case using 0 by (subst hkdf_expand.simps) (simp add: length_hkdf_blocks [where ?sm3.0 = sm3, OF sm3])
next
  case (Suc d)
  have N: "len \<le> 32 * n" "32 * n < len + 32"
    using n(1) div_mult_mod_eq [of "len + 31" 32] mod_less_divisor [of 32 "len + 31"] by simp_all
  have c: "c < n" "32 * c < len" using Suc n(1) by linarith+
  have counter: "counter = word_of_nat (Suc c)" using Suc.prems(2) c(1) by simp
  have T: "hmac_tls sm3 prk (hkdf_T sm3 prk info c @ info @ [counter]) = Inr (hkdf_T sm3 prk info (Suc c))"
    using hmac_compute_eq [where ?sm3.0 = sm3, OF sm3] by (simp add: hmac_tls_def counter)
  have len: "length (hkdf_blocks sm3 prk info k) = 32 * k" for k by (rule length_hkdf_blocks [where ?sm3.0 = sm3, OF sm3])
  have ov: "counter \<noteq> 255" "counter + 1 = word_of_nat (Suc (Suc c))" if "32 * Suc c < len"
  proof -
    have "Suc c < 255" using that N n(2) by simp
    then have "unat counter \<noteq> unat (255 :: u8)" by (simp add: counter del: of_nat_Suc)
    then show "counter \<noteq> 255" by auto
  qed (simp add: counter add.commute)
  have IH: "hkdf_expand sm3 prk info len (hkdf_blocks sm3 prk info (Suc c)) (hkdf_T sm3 prk info (Suc c)) counter' =
      Inr (take len (hkdf_blocks sm3 prk info n))"
    if ctr: "32 * Suc c < len \<Longrightarrow> counter' = word_of_nat (Suc (Suc c))" for counter'
  proof (rule Suc.hyps(1))
    show "counter' = word_of_nat (Suc (Suc c))" if "Suc c < n" using that ctr N by simp
  qed (use Suc.hyps(2) c(1) in linarith)+
  show ?case
    using ov IH by (subst hkdf_expand.simps) (simp add: T hkdf_blocks_Suc len c(2) del: hkdf_T.simps mult_Suc_right)
qed

lemma hkdf_sm3_eq:
  assumes sm3: "\<And>x. length (sm3 x) = 32" and len: "len \<le> 8160"
  shows "hkdf_sm3 sm3 ikm salt info len = Inr (hkdf_ref sm3 ikm salt info len)"
proof -
  have "hkdf_expand sm3 prk info len [] [] 1 = Inr (take len (hkdf_blocks sm3 prk info ((len + 31) div 32)))" for prk
    using hkdf_expand_eq [where ?sm3.0 = sm3, OF sm3 refl, of len 0 1 prk info] len by (simp add: hkdf_blocks_def [of _ _ _ 0])
  then show ?thesis using len hmac_compute_eq [where ?sm3.0 = sm3, OF sm3]
    by (simp add: hkdf_sm3_def hkdf_ref_def hmac_tls_def HKDF_MAX_OUTPUT_def SM3_HASH_LEN_def Let_def)
qed

lemma length_hkdf_ref:
  assumes "\<And>x. length (sm3 x) = 32"
  shows "length (hkdf_ref sm3 ikm salt info len) = len"
  using length_hkdf_blocks [where ?sm3.0 = sm3, OF assms] by (simp add: hkdf_ref_def Let_def)

text \<open>What an update of the traffic secret and a derivation of keys give.\<close>

lemma key_derivation:
  assumes sm3: "\<And>x. length (sm3 x) = 32" and "length secret = 32"
  obtains new_secret new_key new_nonce where
    "update_traffic_secret sm3 secret = Inr new_secret" "length new_secret = 32"
    "derive_key_and_nonce sm3 new_secret = Inr (new_key, new_nonce)" "length new_key = 16" "length new_nonce = 12"
  using assms(2) hkdf_sm3_eq [where ?sm3.0 = sm3, OF sm3] length_hkdf_ref [where ?sm3.0 = sm3, OF sm3]
  by (simp add: update_traffic_secret_def derive_key_and_nonce_def SM3_HASH_LEN_def SM4_KEY_LEN_def SM4_NONCE_LEN_def)

lemma key_update_roundtrip: "key_update_from_bytes (key_update_to_bytes ku) = Inr ku"
  by (cases "update_requested ku")
     (simp_all add: key_update_from_bytes_def key_update_to_bytes_def key_update_request_from_byte_def)

section \<open>Properties\<close>

text \<open>
  C15. \<^const>\<open>hkdf_sm3\<close> returns the HKDF output of RFC 5869 over HMAC-SM3 for every requested length up to
  8160 bytes, of exactly that length, and the length error above; the block counter never overflows.
\<close>

theorem hkdf_sm3_correct:
  assumes "\<And>x. length (sm3 x) = 32"
  shows "hkdf_sm3 sm3 ikm salt info len =
      (if len \<le> 8160 then Inr (hkdf_ref sm3 ikm salt info len)
       else Inl (HandshakeFailed (''HKDF output length '' @ show_nat len @ '' exceeds maximum '' @ show_nat 8160 @ '' bytes''))) \<and>
    length (hkdf_ref sm3 ikm salt info len) = len"
  using hkdf_sm3_eq [where ?sm3.0 = sm3, OF assms] length_hkdf_ref [where ?sm3.0 = sm3, OF assms]
  by (auto simp: hkdf_sm3_def HKDF_MAX_OUTPUT_def SM3_HASH_LEN_def)

theorem hkdf_sm3_correct_witness:
  "hkdf_sm3 sum_sm3 [1] [] [2] 40 = Inr (hkdf_ref sum_sm3 [1] [] [2] 40) \<and> length (hkdf_ref sum_sm3 [1] [] [2] 40) = 40"
  using hkdf_sm3_correct [where ?sm3.0 = sum_sm3 and ikm = "[1]" and salt = "[]" and info = "[2]" and len = 40, OF length_sum_sm3]
  by simp

end
