(* ===== verification/Tls_Record.thy ===== *)
theory Tls_Record
  imports Tls_Kdf Gm_Transport
begin

text \<open>
  The record layer of \<open>gm-tls\<close> (\<open>record_layer.rs\<close>): \<open>GmTlsStream\<close> with the asynchronous calls that send
  and receive records, the key update, and the polled \<open>AsyncRead\<close> and \<open>AsyncWrite\<close> implementations.
  The wrapped transport is a parameter; a call is a computation on the stream's state, and \<open>None\<close> is a
  panic or a read that does not end.
  Shown: what the writer sends the reader of the peer returns, across automatic and requested key
  updates; the state stays well formed and no nonce is used twice under a key on any path.
\<close>

section \<open>State\<close>

definition RECORD_TYPE_APPLICATION_DATA :: u8 where
  "RECORD_TYPE_APPLICATION_DATA = 0x17"

definition INNER_CONTENT_TYPE_APPLICATION_DATA :: u8 where
  "INNER_CONTENT_TYPE_APPLICATION_DATA = 0x17"

definition INNER_CONTENT_TYPE_HANDSHAKE :: u8 where
  "INNER_CONTENT_TYPE_HANDSHAKE = 0x16"

definition INNER_CONTENT_TYPE_ALERT :: u8 where
  "INNER_CONTENT_TYPE_ALERT = 0x15"

definition MAX_RECORD_SIZE :: nat where
  "MAX_RECORD_SIZE = 24 * 1024"

definition MAX_NONCE_CACHE :: nat where
  "MAX_NONCE_CACHE = 1000000"

definition NONCE_EVICT_BATCH :: nat where
  "NONCE_EVICT_BATCH = 100000"

lemmas record_consts = RECORD_TYPE_APPLICATION_DATA_def INNER_CONTENT_TYPE_APPLICATION_DATA_def
  INNER_CONTENT_TYPE_HANDSHAKE_def INNER_CONTENT_TYPE_ALERT_def MAX_RECORD_SIZE_def

record ReadState =
  header :: bytes
  header_filled :: nat
  ct_len :: nat
  body :: bytes
  body_filled :: nat

definition read_state_default :: ReadState where
  "read_state_default = \<lparr>header = replicate 5 0, header_filled = 0, ct_len = 0, body = [], body_filled = 0\<rparr>"

definition read_state_reset :: "ReadState \<Rightarrow> ReadState" where
  "read_state_reset rs = rs\<lparr>header := replicate 5 0, header_filled := 0, ct_len := 0, body := [], body_filled := 0\<rparr>"

record 's GmTlsStream =
  inner :: 's
  write_key :: bytes
  read_key :: bytes
  write_nonce :: bytes
  read_nonce :: bytes
  write_seq :: u64
  read_seq :: u64
  read_buf :: bytes
  read_buf_pos :: nat
  read_state :: ReadState
  peer_cert_pem :: "bytes option"
  alpn :: "string option"
  cipher_enc :: "Sm4Cipher option"
  cipher_dec :: "Sm4Cipher option"
  close_notify_sent :: bool
  version :: bytes
  write_traffic_secret :: "bytes option"
  read_traffic_secret :: "bytes option"
  key_update_pending :: bool
  key_update_count :: u64
  used_write_nonces :: "bytes set"
  nonce_eviction_queue :: "bytes list"

type_synonym ('s, 'a) tls = "('s GmTlsStream, TlsError, 'a) io"
type_synonym ('s, 'a) tls_poll = "'s GmTlsStream \<Rightarrow> ((io_error, 'a) res poll \<times> 's GmTlsStream) option"

definition stream_with_version ::
  "'s \<Rightarrow> SessionKeys \<Rightarrow> bool \<Rightarrow> bytes option \<Rightarrow> string option \<Rightarrow> bytes \<Rightarrow> 's GmTlsStream" where
  "stream_with_version s keys is_client cert protocol ver =
     (let (wk, wn, rk, rn) =
        (if is_client then (client_key keys, client_nonce keys, server_key keys, server_nonce keys)
         else (server_key keys, server_nonce keys, client_key keys, client_nonce keys))
      in \<lparr>inner = s, write_key = wk, read_key = rk, write_nonce = wn, read_nonce = rn, write_seq = 0, read_seq = 0,
          read_buf = [], read_buf_pos = 0, read_state = read_state_default, peer_cert_pem = cert, alpn = protocol,
          cipher_enc = None, cipher_dec = None, close_notify_sent = False, version = ver,
          write_traffic_secret = None, read_traffic_secret = None, key_update_pending = False, key_update_count = 0,
          used_write_nonces = {}, nonce_eviction_queue = []\<rparr>)"

definition stream_new :: "'s \<Rightarrow> SessionKeys \<Rightarrow> bool \<Rightarrow> bytes option \<Rightarrow> string option \<Rightarrow> 's GmTlsStream" where
  "stream_new s keys is_client cert protocol = stream_with_version s keys is_client cert protocol [0x03, 0x03]"

section \<open>Nonces and ciphers\<close>

definition next_nonce :: "bytes \<Rightarrow> u64 \<Rightarrow> (TlsError, bytes) res" where
  "next_nonce base seq =
     (if seq = 0xFFFFFFFFFFFFFFFF then Inl SequenceOverflow
      else
        let ctr_bytes = u64_to_be seq;
            n = length ctr_bytes;
            nonce = map (\<lambda>i. if i < SM4_GCM_NONCE_LENGTH - n then base ! i
                             else base ! i XOR ctr_bytes ! (i - (SM4_GCM_NONCE_LENGTH - n))) [0..<SM4_GCM_NONCE_LENGTH]
        in if seq \<noteq> 0 \<and> nonce = base then Inl SequenceOverflow else Inr nonce)"

definition get_cipher_enc :: "('s, Sm4Cipher) tls" where
  "get_cipher_enc st =
     (case cipher_enc st of
        Some cipher \<Rightarrow> Some (Inr cipher, st)
      | None \<Rightarrow>
          case map_err (\<lambda>e. CipherError (''SM4 key: '' @ debug_crypto_error e)) (sm4_new (write_key st)) of
            Inl e \<Rightarrow> Some (Inl e, st)
          | Inr cipher \<Rightarrow> Some (Inr cipher, st\<lparr>cipher_enc := Some cipher\<rparr>))"

definition get_cipher_dec :: "('s, Sm4Cipher) tls" where
  "get_cipher_dec st =
     (case cipher_dec st of
        Some cipher \<Rightarrow> Some (Inr cipher, st)
      | None \<Rightarrow>
          case map_err (\<lambda>e. CipherError (''SM4 key: '' @ debug_crypto_error e)) (sm4_new (read_key st)) of
            Inl e \<Rightarrow> Some (Inl e, st)
          | Inr cipher \<Rightarrow> Some (Inr cipher, st\<lparr>cipher_dec := Some cipher\<rparr>))"

definition check_and_record_nonce :: "bytes \<Rightarrow> ('s, unit) tls" where
  "check_and_record_nonce nonce st =
     (let st = (if card (used_write_nonces st) > MAX_NONCE_CACHE
                then st\<lparr>used_write_nonces := used_write_nonces st - set (take NONCE_EVICT_BATCH (nonce_eviction_queue st)),
                        nonce_eviction_queue := drop NONCE_EVICT_BATCH (nonce_eviction_queue st)\<rparr>
                else st);
          st = st\<lparr>nonce_eviction_queue := nonce_eviction_queue st @ [nonce]\<rparr>
      in if nonce \<in> used_write_nonces st then Some (Inl NonceReuse, st)
         else Some (Inr (), st\<lparr>used_write_nonces := insert nonce (used_write_nonces st)\<rparr>))"

definition set_traffic_secrets :: "bytes \<Rightarrow> bytes \<Rightarrow> 's GmTlsStream \<Rightarrow> 's GmTlsStream" where
  "set_traffic_secrets write_secret read_secret st =
     st\<lparr>write_traffic_secret := Some write_secret, read_traffic_secret := Some read_secret\<rparr>"

definition should_update_key :: "'s GmTlsStream \<Rightarrow> bool" where
  "should_update_key st \<longleftrightarrow> write_seq st \<ge> KEY_UPDATE_THRESHOLD"

definition is_key_exhausted :: "'s GmTlsStream \<Rightarrow> bool" where
  "is_key_exhausted st \<longleftrightarrow> write_seq st \<ge> GCM_CONFIDENTIALITY_LIMIT"

definition advance_write_seq :: "('s, bytes) tls" where
  "advance_write_seq st =
     (if write_seq st = 0xFFFFFFFFFFFFFFFF then Some (Inl SequenceOverflow, st)
      else Some (Inr (u64_to_be (write_seq st)), st\<lparr>write_seq := write_seq st + 1\<rparr>))"

definition advance_read_seq :: "('s, bytes) tls" where
  "advance_read_seq st =
     (if read_seq st = 0xFFFFFFFFFFFFFFFF then Some (Inl SequenceOverflow, st)
      else Some (Inr (u64_to_be (read_seq st)), st\<lparr>read_seq := read_seq st + 1\<rparr>))"

text \<open>The update count is an atomic that wraps; the logged \<open>fetch_add(1) + 1\<close> panics on overflow.\<close>

definition count_key_update :: "('s, unit) tls" where
  "count_key_update st =
     (if key_update_count st = 0xFFFFFFFFFFFFFFFF then None
      else Some (Inr (), st\<lparr>key_update_count := key_update_count st + 1\<rparr>))"

definition rotate_write_key :: "(bytes \<Rightarrow> bytes) \<Rightarrow> ('s, unit) tls" where
  "rotate_write_key sm3 st =
     (case bind_res (ok_or (write_traffic_secret st) (HandshakeFailed ''cannot perform KeyUpdate: write traffic secret not set''))
             (\<lambda>secret. bind_res (update_traffic_secret sm3 secret) (\<lambda>new_secret.
                bind_res (derive_key_and_nonce sm3 new_secret) (\<lambda>(new_key, new_nonce). Inr (new_secret, new_key, new_nonce)))) of
        Inl e \<Rightarrow> Some (Inl e, st)
      | Inr (new_secret, new_key, new_nonce) \<Rightarrow>
          count_key_update
            (st\<lparr>write_key := new_key, write_nonce := new_nonce, write_seq := 0, cipher_enc := None,
                used_write_nonces := {}, nonce_eviction_queue := [], write_traffic_secret := Some new_secret\<rparr>))"

definition rotate_read_key :: "(bytes \<Rightarrow> bytes) \<Rightarrow> ('s, unit) tls" where
  "rotate_read_key sm3 st =
     (case bind_res (ok_or (read_traffic_secret st) (HandshakeFailed ''cannot process KeyUpdate: read traffic secret not set''))
             (\<lambda>secret. bind_res (update_traffic_secret sm3 secret) (\<lambda>new_secret.
                bind_res (derive_key_and_nonce sm3 new_secret) (\<lambda>(new_key, new_nonce). Inr (new_secret, new_key, new_nonce)))) of
        Inl e \<Rightarrow> Some (Inl e, st)
      | Inr (new_secret, new_key, new_nonce) \<Rightarrow>
          count_key_update
            (st\<lparr>read_key := new_key, read_nonce := new_nonce, read_seq := 0, cipher_dec := None,
                read_traffic_secret := Some new_secret\<rparr>))"

section \<open>Sending\<close>

definition inner_write_all :: "'s transport \<Rightarrow> bytes \<Rightarrow> ('s, unit) tls" where
  "inner_write_all T data st =
     (let (r, s) = write_all T data (inner st)
      in Some (map_err (\<lambda>e. IoError (io_message e)) r, st\<lparr>inner := s\<rparr>))"

definition inner_flush :: "'s transport \<Rightarrow> ('s, unit) tls" where
  "inner_flush T st =
     (let (r, s) = flush T (inner st)
      in Some (map_err (\<lambda>e. IoError (io_message e)) r, st\<lparr>inner := s\<rparr>))"

definition record_header :: "bytes \<Rightarrow> nat \<Rightarrow> bytes" where
  "record_header ver len = [RECORD_TYPE_APPLICATION_DATA] @ ver @ u16_to_be (word_of_nat len)"

text \<open>
  The sequence that the three sending methods share: nonce, nonce check, sequence number, cipher,
  encryption under the sequence number and the record header, and the six writes.
\<close>

definition seal_record :: "sm4_crates \<Rightarrow> string \<Rightarrow> bytes \<Rightarrow> ('s, bytes \<times> bytes) tls" where
  "seal_record P what plain st =
     (case next_nonce (write_nonce st) (write_seq st) of
        Inl e \<Rightarrow> Some (Inl e, st)
      | Inr nonce \<Rightarrow>
          io_bind (check_and_record_nonce nonce) (\<lambda>_.
          io_bind advance_write_seq (\<lambda>seq_bytes.
          io_bind get_cipher_enc (\<lambda>cipher st.
            Some (map_err (\<lambda>e. CipherError (what @ '': '' @ debug_crypto_error e))
                    (encrypt_gcm P cipher plain nonce (seq_bytes @ record_header (version st) (length plain + 16))), st)))) st)"

definition send_record :: "'s transport \<Rightarrow> nat \<Rightarrow> bytes \<times> bytes \<Rightarrow> ('s, unit) tls" where
  "send_record T len sealed st =
     (let version_bytes = version st;
          (ciphertext, tag) = sealed
      in io_bind (inner_write_all T [RECORD_TYPE_APPLICATION_DATA]) (\<lambda>_.
         io_bind (inner_write_all T version_bytes) (\<lambda>_.
         io_bind (inner_write_all T (u16_to_be (word_of_nat (len + 16)))) (\<lambda>_.
         io_bind (inner_write_all T ciphertext) (\<lambda>_.
         io_bind (inner_write_all T tag) (\<lambda>_. inner_flush T))))) st)"

definition write_handshake_record :: "sm4_crates \<Rightarrow> 's transport \<Rightarrow> bytes \<Rightarrow> ('s, unit) tls" where
  "write_handshake_record P T msg =
     (let plain = msg @ [INNER_CONTENT_TYPE_HANDSHAKE]
      in io_bind (seal_record P ''KeyUpdate encrypt'' plain) (send_record T (length plain)))"

definition key_update_message :: "bool \<Rightarrow> bytes" where
  "key_update_message request_peer_update =
     (let ku = key_update_new (if request_peer_update then UpdateRequested else UpdateNotRequested);
          body = key_update_to_bytes ku
      in [0x18] @ drop 1 (u32_to_be (word_of_nat (length body))) @ body)"

definition send_key_update :: "sm4_crates \<Rightarrow> (bytes \<Rightarrow> bytes) \<Rightarrow> 's transport \<Rightarrow> bool \<Rightarrow> ('s, unit) tls" where
  "send_key_update P sm3 T request_peer_update =
     io_bind (write_handshake_record P T (key_update_message request_peer_update)) (\<lambda>_. rotate_write_key sm3)"

definition process_key_update :: "(bytes \<Rightarrow> bytes) \<Rightarrow> KeyUpdateRequest \<Rightarrow> ('s, bool) tls" where
  "process_key_update sm3 requested =
     io_bind (rotate_read_key sm3) (\<lambda>_ st.
       let needs_response = (requested = UpdateRequested)
       in Some (Inr needs_response, if needs_response then st\<lparr>key_update_pending := True\<rparr> else st))"

definition flush_pending_key_update :: "sm4_crates \<Rightarrow> (bytes \<Rightarrow> bytes) \<Rightarrow> 's transport \<Rightarrow> ('s, unit) tls" where
  "flush_pending_key_update P sm3 T st =
     (if key_update_pending st then send_key_update P sm3 T False (st\<lparr>key_update_pending := False\<rparr>)
      else Some (Inr (), st))"

definition auto_key_update :: "sm4_crates \<Rightarrow> (bytes \<Rightarrow> bytes) \<Rightarrow> 's transport \<Rightarrow> ('s, unit) tls" where
  "auto_key_update P sm3 T st =
     (if is_key_exhausted st
      then Some (Inl (HandshakeFailed (''GCM confidentiality limit reached: sequence number exhausted, KeyUpdate required '' @
                                       ''but no traffic secret available'')), st)
      else if should_update_key st \<and> write_traffic_secret st \<noteq> None then send_key_update P sm3 T False st
      else Some (Inr (), st))"

definition write_application_data :: "sm4_crates \<Rightarrow> (bytes \<Rightarrow> bytes) \<Rightarrow> 's transport \<Rightarrow> bytes \<Rightarrow> ('s, unit) tls" where
  "write_application_data P sm3 T plaintext =
     (let plain = plaintext @ [INNER_CONTENT_TYPE_APPLICATION_DATA]
      in io_bind (flush_pending_key_update P sm3 T) (\<lambda>_.
         io_bind (auto_key_update P sm3 T) (\<lambda>_.
         io_bind (seal_record P ''GCM encrypt'' plain) (send_record T (length plain)))))"

definition close :: "sm4_crates \<Rightarrow> 's transport \<Rightarrow> ('s, unit) tls" where
  "close P T st =
     (if close_notify_sent st then Some (Inr (), st)
      else
        let plain = [0x01, 0x00, INNER_CONTENT_TYPE_ALERT]
        in io_bind (seal_record P ''close_notify encrypt'' plain) (\<lambda>sealed.
           io_bind (send_record T (length plain) sealed) (\<lambda>_ st.
             Some (Inr (), st\<lparr>close_notify_sent := True\<rparr>))) st)"

section \<open>Receiving\<close>

definition inner_read_exact :: "'s transport \<Rightarrow> nat \<Rightarrow> ('s, bytes) tls" where
  "inner_read_exact T n st =
     (let (r, s) = read_exact T n (inner st)
      in Some (map_err (\<lambda>e. IoError (io_message e)) r, st\<lparr>inner := s\<rparr>))"

definition header_len :: "bytes \<Rightarrow> nat" where
  "header_len hdr = unat (u16_from_be [hdr ! 3, hdr ! 4])"

text \<open>Nonce, sequence number, cipher and decryption of one record whose header and body have been read.\<close>

definition open_record :: "sm4_crates \<Rightarrow> string \<Rightarrow> bytes \<Rightarrow> bytes \<Rightarrow> ('s, bytes) tls" where
  "open_record P what hdr buf st =
     (let ciphertext = take (header_len hdr - 16) buf;
          tag = drop (header_len hdr - 16) buf
      in case next_nonce (read_nonce st) (read_seq st) of
           Inl e \<Rightarrow> Some (Inl e, st)
         | Inr nonce \<Rightarrow>
             io_bind advance_read_seq (\<lambda>seq_bytes.
             io_bind get_cipher_dec (\<lambda>cipher st.
               Some (map_err (\<lambda>e. CipherError (what @ '': '' @ debug_crypto_error e))
                       (decrypt_gcm P cipher ciphertext nonce (seq_bytes @ hdr) tag), st))) st)"

definition process_inner_handshake :: "(bytes \<Rightarrow> bytes) \<Rightarrow> bytes \<Rightarrow> ('s, unit) tls" where
  "process_inner_handshake sm3 msg =
     (if length msg < 4 then io_fail (InvalidMessage ''handshake message too short'')
      else
        let handshake_type = msg ! 0;
            handshake_len = push_bit 16 (unat (msg ! 1)) OR push_bit 8 (unat (msg ! 2)) OR unat (msg ! 3)
        in if length msg < 4 + handshake_len
           then io_fail (InvalidMessage (''handshake message truncated: expected '' @ show_nat handshake_len @
                                         '' bytes, got '' @ show_nat (length msg - 4)))
           else
             let body = take handshake_len (drop 4 msg)
             in if handshake_type = 0x18 then
                  io_bind (io_lift (Some (key_update_from_bytes body))) (\<lambda>ku.
                  io_bind (process_key_update sm3 (update_requested ku)) (\<lambda>_. io_return ()))
                else if handshake_type = 0x04 then io_return ()
                else io_fail (InvalidHandshakeType handshake_type))"

text \<open>One record; \<open>None\<close> is a post-handshake message, after which the method calls itself.\<close>

definition check_header :: "string \<Rightarrow> string \<Rightarrow> bytes \<Rightarrow> (TlsError, unit) res" where
  "check_header short long hdr =
     (if hdr ! 0 \<noteq> RECORD_TYPE_APPLICATION_DATA
      then Inl (TlsRecordError (''expected application_data record 0x17, got 0x'' @ show_hex2 (hdr ! 0)))
      else if header_len hdr < 16 then Inl (HandshakeFailed short)
      else if header_len hdr > MAX_RECORD_SIZE then Inl (HandshakeFailed long)
      else Inr ())"

definition dispatch_record :: "(bytes \<Rightarrow> bytes) \<Rightarrow> bytes \<Rightarrow> ('s, bytes option) tls" where
  "dispatch_record sm3 plain =
     (if plain = [] then io_fail (InvalidMessage ''decrypted record is empty (missing inner content type)'')
      else
        let inner_content_type = last plain;
            plaintext = butlast plain
        in if inner_content_type = INNER_CONTENT_TYPE_APPLICATION_DATA then io_return (Some plaintext)
           else if inner_content_type = INNER_CONTENT_TYPE_HANDSHAKE then
             io_bind (process_inner_handshake sm3 plaintext) (\<lambda>_. io_return None)
           else io_fail (InvalidMessage (''unknown inner content type: 0x'' @ show_hex2 inner_content_type)))"

definition read_record :: "sm4_crates \<Rightarrow> (bytes \<Rightarrow> bytes) \<Rightarrow> 's transport \<Rightarrow> ('s, bytes option) tls" where
  "read_record P sm3 T =
     io_bind (inner_read_exact T 5) (\<lambda>hdr.
     io_bind (io_lift (Some (check_header ''record too short'' ''record exceeds size limit'' hdr))) (\<lambda>_.
     io_bind (inner_read_exact T (header_len hdr)) (\<lambda>buf.
     io_bind (open_record P ''GCM decrypt'' hdr buf) (dispatch_record sm3))))"

partial_function (option) read_application_data ::
  "sm4_crates \<Rightarrow> (bytes \<Rightarrow> bytes) \<Rightarrow> 's transport \<Rightarrow> 's GmTlsStream \<Rightarrow> ((TlsError, bytes) res \<times> 's GmTlsStream) option" where
  "read_application_data P sm3 T st =
     (case read_record P sm3 T st of
        None \<Rightarrow> None
      | Some (Inl e, st') \<Rightarrow> Some (Inl e, st')
      | Some (Inr (Some plaintext), st') \<Rightarrow> Some (Inr plaintext, st')
      | Some (Inr None, st') \<Rightarrow> read_application_data P sm3 T st')"

definition recv_close_notify :: "sm4_crates \<Rightarrow> 's transport \<Rightarrow> ('s, bool) tls" where
  "recv_close_notify P T st =
     (case read_exact T 5 (inner st) of
        (Inl e, s) \<Rightarrow> Some (if is_eof e then Inr False else Inl (IoError (io_message e)), st\<lparr>inner := s\<rparr>)
      | (Inr hdr, s) \<Rightarrow>
          io_bind (io_lift (Some (check_header ''close_notify record too short'' ''close_notify record exceeds size limit'' hdr))) (\<lambda>_.
          io_bind (inner_read_exact T (header_len hdr)) (\<lambda>buf.
          io_bind (open_record P ''close_notify decrypt'' hdr buf) (\<lambda>_. io_return True))) (st\<lparr>inner := s\<rparr>))"

section \<open>Polled reading\<close>

text \<open>
  The loops that fill the header and the body from the wire. The result is an early return of
  \<open>poll_read\<close>, if any, with the buffer, its fill count and the transport.
\<close>

function fill_buffer ::
  "'s transport \<Rightarrow> string \<Rightarrow> bytes \<Rightarrow> nat \<Rightarrow> 's \<Rightarrow> (io_error, bytes) res poll option \<times> bytes \<times> nat \<times> 's" where
  "fill_buffer T eof buf filled s =
     (if filled < length buf then
        case inner_poll_read T (length buf - filled) s of
          (Ready (Inr chunk), s') \<Rightarrow>
            if length chunk = 0 then (Some (Ready (Inl (io_other eof))), buf, filled, s')
            else fill_buffer T eof (take filled buf @ chunk @ drop (filled + length chunk) buf) (filled + length chunk) s'
        | (Ready (Inl e), s') \<Rightarrow> (Some (Ready (Inl e)), buf, filled, s')
        | (Pending, s') \<Rightarrow> (Some Pending, buf, filled, s')
      else (None, buf, filled, s))"
  by pat_completeness auto
termination fill_buffer
  by (relation "measure (\<lambda>(_, _, buf, filled, _). length buf - filled)") (auto intro!: diff_less_mono2)

declare fill_buffer.simps [simp del]

text \<open>Hands out the part of the plaintext that fits and keeps the rest.\<close>

definition drain_read_buf :: "nat \<Rightarrow> 's GmTlsStream \<Rightarrow> bytes \<times> 's GmTlsStream" where
  "drain_read_buf remaining st =
     (let available = length (read_buf st) - read_buf_pos st;
          to_copy = min available remaining;
          out = take to_copy (drop (read_buf_pos st) (read_buf st));
          pos = read_buf_pos st + to_copy
      in (out, if pos \<ge> length (read_buf st) then st\<lparr>read_buf := [], read_buf_pos := 0\<rparr> else st\<lparr>read_buf_pos := pos\<rparr>))"

definition poll_fill_header :: "'s transport \<Rightarrow> 's GmTlsStream \<Rightarrow> (io_error, bytes) res poll option \<times> 's GmTlsStream" where
  "poll_fill_header T st =
     (let rs = read_state st;
          (r, buf, filled, s) = fill_buffer T ''TLS record header read incomplete'' (header rs) (header_filled rs) (inner st)
      in (r, st\<lparr>read_state := rs\<lparr>header := buf, header_filled := filled\<rparr>, inner := s\<rparr>))"

definition poll_check_header :: "bytes \<Rightarrow> (io_error, unit) res" where
  "poll_check_header hdr =
     (if hdr ! 0 \<noteq> RECORD_TYPE_APPLICATION_DATA
      then Inl (io_other (''expected application_data record 0x17, got 0x'' @ show_hex2 (hdr ! 0)))
      else if header_len hdr < 16 then Inl (io_other ''TLS record too short'')
      else if header_len hdr > MAX_RECORD_SIZE then Inl (io_other ''TLS record exceeds size limit'')
      else Inr ())"

definition poll_alloc_body :: "nat \<Rightarrow> ReadState \<Rightarrow> ReadState" where
  "poll_alloc_body len rs =
     (if ct_len rs \<noteq> len then rs\<lparr>body := replicate len 0, body_filled := 0, ct_len := len\<rparr> else rs)"

definition poll_fill_body :: "'s transport \<Rightarrow> 's GmTlsStream \<Rightarrow> (io_error, bytes) res poll option \<times> 's GmTlsStream" where
  "poll_fill_body T st =
     (let rs = poll_alloc_body (header_len (header (read_state st))) (read_state st);
          (r, buf, filled, s) = fill_buffer T ''TLS record read incomplete'' (body rs) (body_filled rs) (inner st)
      in (r, st\<lparr>read_state := rs\<lparr>body := buf, body_filled := filled\<rparr>, inner := s\<rparr>))"

definition poll_open_record :: "sm4_crates \<Rightarrow> bytes \<Rightarrow> bytes \<Rightarrow> 's GmTlsStream \<Rightarrow> (io_error, bytes) res \<times> 's GmTlsStream" where
  "poll_open_record P hdr buf st =
     (let ciphertext = take (header_len hdr - 16) buf;
          tag = drop (header_len hdr - 16) buf
      in case next_nonce (read_nonce st) (read_seq st) of
           Inl e \<Rightarrow> (Inl (io_other (''Nonce overflow: '' @ display_tls_error e)), st)
         | Inr nonce \<Rightarrow>
             if read_seq st = 0xFFFFFFFFFFFFFFFF then (Inl (io_other ''Sequence overflow''), st)
             else
               let seq_bytes = u64_to_be (read_seq st);
                   st = st\<lparr>read_seq := read_seq st + 1\<rparr>
               in case get_cipher_dec st of
                    Some (Inr cipher, st) \<Rightarrow>
                      (map_err (\<lambda>e. io_other (''GCM decryption failed: '' @ debug_crypto_error e))
                         (decrypt_gcm P cipher ciphertext nonce (seq_bytes @ hdr) tag), st)
                  | Some (Inl e, st) \<Rightarrow> (Inl (io_other (''SM4 key error: '' @ display_tls_error e)), st)
                  | None \<Rightarrow> (Inl (io_other ''''), st))"

definition poll_dispatch :: "(bytes \<Rightarrow> bytes) \<Rightarrow> nat \<Rightarrow> bytes \<Rightarrow> ('s, bytes) tls_poll" where
  "poll_dispatch sm3 remaining plain st =
     (if plain = [] then Some (Ready (Inl (io_other ''decrypted record is empty (missing inner content type)'')), st)
      else
        let inner_content_type = last plain;
            plaintext = butlast plain
        in if inner_content_type = INNER_CONTENT_TYPE_APPLICATION_DATA then
             let (out, st) = drain_read_buf remaining (st\<lparr>read_buf := plaintext, read_buf_pos := 0\<rparr>)
             in Some (Ready (Inr out), st)
           else if inner_content_type = INNER_CONTENT_TYPE_HANDSHAKE then
             (case process_inner_handshake sm3 plaintext st of
                None \<Rightarrow> None
              | Some (Inr _, st) \<Rightarrow> Some (Pending, st)
              | Some (Inl e, st) \<Rightarrow> Some (Ready (Inl (io_other (''post-handshake processing failed: '' @ display_tls_error e))), st))
           else if inner_content_type = INNER_CONTENT_TYPE_ALERT then
             (if length plaintext \<ge> 2 \<and> plaintext ! 0 = 0x01 \<and> plaintext ! 1 = 0x00 then Some (Ready (Inr []), st)
              else Some (Ready (Inl (io_other (''TLS alert: level='' @
                     show_nat (case plaintext of [] \<Rightarrow> 0 | b # _ \<Rightarrow> unat b) @ '' description='' @
                     show_nat (case plaintext of _ # b # _ \<Rightarrow> unat b | _ \<Rightarrow> 0)))), st))
           else Some (Ready (Inl (io_other (''unknown inner content type: 0x'' @ show_hex2 inner_content_type))), st))"

definition poll_read :: "sm4_crates \<Rightarrow> (bytes \<Rightarrow> bytes) \<Rightarrow> 's transport \<Rightarrow> nat \<Rightarrow> ('s, bytes) tls_poll" where
  "poll_read P sm3 T remaining st =
     (if read_buf_pos st < length (read_buf st) then
        let (out, st) = drain_read_buf remaining st in Some (Ready (Inr out), st)
      else
        case poll_fill_header T st of
          (Some r, st) \<Rightarrow> Some (r, st)
        | (None, st) \<Rightarrow>
            case poll_check_header (header (read_state st)) of
              Inl e \<Rightarrow> Some (Ready (Inl e), st)
            | Inr _ \<Rightarrow>
                case poll_fill_body T st of
                  (Some r, st) \<Rightarrow> Some (r, st)
                | (None, st) \<Rightarrow>
                    let hdr = header (read_state st);
                        buf = body (read_state st);
                        st = st\<lparr>read_state := read_state_reset (read_state st)\<rparr>
                    in case poll_open_record P hdr buf st of
                         (Inl e, st) \<Rightarrow> Some (Ready (Inl e), st)
                       | (Inr plain, st) \<Rightarrow> poll_dispatch sm3 remaining plain st)"

section \<open>Polled writing\<close>

text \<open>A part of the header, which has to be accepted in one call.\<close>

definition poll_write_exact :: "'s transport \<Rightarrow> string \<Rightarrow> bytes \<Rightarrow> 's \<Rightarrow> (io_error, nat) res poll option \<times> 's" where
  "poll_write_exact T failed data s =
     (case inner_poll_write T data s of
        (Ready (Inr n), s') \<Rightarrow> (if n = length data then None else Some (Ready (Inl (io_other failed))), s')
      | (Ready (Inl e), s') \<Rightarrow> (Some (Ready (Inl e)), s')
      | (Pending, s') \<Rightarrow> (Some Pending, s'))"

fun poll_seq :: "('s \<Rightarrow> 'r option \<times> 's) list \<Rightarrow> 's \<Rightarrow> 'r option \<times> 's" where
  "poll_seq [] s = (None, s)"
| "poll_seq (f # fs) s = (case f s of (Some r, s') \<Rightarrow> (Some r, s') | (None, s') \<Rightarrow> poll_seq fs s')"

definition poll_seal_record :: "sm4_crates \<Rightarrow> bytes \<Rightarrow> 's GmTlsStream \<Rightarrow> (io_error, bytes \<times> bytes) res \<times> 's GmTlsStream" where
  "poll_seal_record P plain st =
     (case next_nonce (write_nonce st) (write_seq st) of
        Inl e \<Rightarrow> (Inl (io_other (''Nonce overflow: '' @ display_tls_error e)), st)
      | Inr nonce \<Rightarrow>
          if write_seq st = 0xFFFFFFFFFFFFFFFF then (Inl (io_other ''Sequence overflow''), st)
          else
            let seq_bytes = u64_to_be (write_seq st);
                st = st\<lparr>write_seq := write_seq st + 1\<rparr>
            in case get_cipher_enc st of
                 Some (Inr cipher, st) \<Rightarrow>
                   (map_err (\<lambda>e. io_other (''GCM encryption failed: '' @ debug_crypto_error e))
                      (encrypt_gcm P cipher plain nonce (seq_bytes @ record_header (version st) (length plain + 16))), st)
               | Some (Inl e, st) \<Rightarrow> (Inl (io_other (''SM4 key error: '' @ display_tls_error e)), st)
               | None \<Rightarrow> (Inl (io_other ''''), st))"

definition poll_write :: "sm4_crates \<Rightarrow> 's transport \<Rightarrow> bytes \<Rightarrow> ('s, nat) tls_poll" where
  "poll_write P T buf st =
     (let plain = buf @ [INNER_CONTENT_TYPE_APPLICATION_DATA]
      in case poll_seal_record P plain st of
           (Inl e, st) \<Rightarrow> Some (Ready (Inl e), st)
         | (Inr (ciphertext, tag), st) \<Rightarrow>
             let ct_len_final = (word_of_nat (length ciphertext + length tag) :: u16)
             in if ct_len_final > 0xFFFF - 1024 then Some (Ready (Inl (io_other ''TLS record too large'')), st)
                else
                  let (r, s) = poll_seq
                        [poll_write_exact T ''failed to write content type'' [RECORD_TYPE_APPLICATION_DATA],
                         poll_write_exact T ''failed to write version'' (version st),
                         poll_write_exact T ''failed to write length'' (u16_to_be (word_of_nat (length plain + 16))),
                         poll_write_slice T ''failed to write ciphertext'' ciphertext,
                         poll_write_slice T ''failed to write tag'' tag] (inner st)
                  in Some (case r of Some r \<Rightarrow> r | None \<Rightarrow> Ready (Inr (length buf)), st\<lparr>inner := s\<rparr>))"

definition poll_flush :: "'s transport \<Rightarrow> ('s, unit) tls_poll" where
  "poll_flush T st = (let (r, s) = inner_poll_flush T (inner st) in Some (r, st\<lparr>inner := s\<rparr>))"

definition poll_shutdown_inner :: "'s transport \<Rightarrow> ('s, unit) tls_poll" where
  "poll_shutdown_inner T st = (let (r, s) = inner_poll_shutdown T (inner st) in Some (r, st\<lparr>inner := s\<rparr>))"

text \<open>A failed write of the alert is given up and ignored; only \<open>Pending\<close> returns early.\<close>

definition poll_shutdown :: "sm4_crates \<Rightarrow> 's transport \<Rightarrow> ('s, unit) tls_poll" where
  "poll_shutdown P T st =
     (if close_notify_sent st then poll_shutdown_inner T st
      else
        case poll_seal_record P [0x01, 0x00, INNER_CONTENT_TYPE_ALERT] st of
          (Inl e, st) \<Rightarrow> poll_shutdown_inner T st
        | (Inr (ciphertext, tag), st) \<Rightarrow>
            let record = record_header (version st) (length ciphertext + length tag) @ ciphertext @ tag;
                (r, s) = poll_write_slice T '''' record (inner st)
            in case r of
                 Some Pending \<Rightarrow> Some (Pending, st\<lparr>inner := s\<rparr>)
               | _ \<Rightarrow> poll_shutdown_inner T (st\<lparr>inner := s, close_notify_sent := True\<rparr>))"

section \<open>Nonces\<close>

text \<open>The second overflow check never fires: a nonzero sequence number changes the base nonce.\<close>

lemma next_nonce_eq:
  assumes "length base = 12"
  shows "next_nonce base seq = (if seq = 0xFFFFFFFFFFFFFFFF then Inl SequenceOverflow else Inr (nonce_of base seq))"
proof -
  have "nonce_of base seq = base \<longleftrightarrow> seq = 0" using nonce_of_inj [of base seq 0] nonce_of_zero [OF assms] by simp
  moreover have "next_nonce base seq = (if seq = 0xFFFFFFFFFFFFFFFF then Inl SequenceOverflow
      else if seq \<noteq> 0 \<and> nonce_of base seq = base then Inl SequenceOverflow else Inr (nonce_of base seq))"
    by (simp add: next_nonce_def nonce_of_def SM4_GCM_NONCE_LENGTH_def Let_def cong: if_cong)
  ultimately show ?thesis by simp
qed

section \<open>Well-formed streams\<close>

definition keys_ok :: "'s GmTlsStream \<Rightarrow> bool" where
  "keys_ok st \<longleftrightarrow> length (write_key st) = 16 \<and> length (read_key st) = 16 \<and>
     length (write_nonce st) = 12 \<and> length (read_nonce st) = 12 \<and> length (version st) = 2 \<and>
     cache_ok (cipher_enc st) (write_key st) \<and> cache_ok (cipher_dec st) (read_key st)"

definition nonces_ok :: "'s GmTlsStream \<Rightarrow> bool" where
  "nonces_ok st \<longleftrightarrow> (\<forall>n \<in> used_write_nonces st. \<exists>seq < write_seq st. n = nonce_of (write_nonce st) seq)"

definition reading_ok :: "'s GmTlsStream \<Rightarrow> bool" where
  "reading_ok st \<longleftrightarrow> length (header (read_state st)) = 5 \<and> header_filled (read_state st) \<le> 5 \<and>
     length (body (read_state st)) = ct_len (read_state st) \<and> body_filled (read_state st) \<le> ct_len (read_state st) \<and>
     read_buf_pos st \<le> length (read_buf st)"

definition stream_ok :: "'s GmTlsStream \<Rightarrow> bool" where
  "stream_ok st \<longleftrightarrow> keys_ok st \<and> nonces_ok st \<and> reading_ok st"

lemmas stream_ok_defs = stream_ok_def keys_ok_def nonces_ok_def reading_ok_def

lemma get_cipher_enc_ok:
  assumes "keys_ok st"
  shows "get_cipher_enc st = Some (Inr \<lparr>key_bytes = write_key st\<rparr>, st\<lparr>cipher_enc := Some \<lparr>key_bytes = write_key st\<rparr>\<rparr>)"
  using assms by (auto simp: get_cipher_enc_def keys_ok_def sm4_new_16 split: option.splits)

lemma get_cipher_dec_ok:
  assumes "keys_ok st"
  shows "get_cipher_dec st = Some (Inr \<lparr>key_bytes = read_key st\<rparr>, st\<lparr>cipher_dec := Some \<lparr>key_bytes = read_key st\<rparr>\<rparr>)"
  using assms by (auto simp: get_cipher_dec_def keys_ok_def sm4_new_16 split: option.splits)

text \<open>A record is sealed under the next unused nonce, whatever the cache holds.\<close>

definition sealed_state :: "'s GmTlsStream \<Rightarrow> 's GmTlsStream" where
  "sealed_state st = (case check_and_record_nonce (nonce_of (write_nonce st) (write_seq st)) st of
     Some (r, st') \<Rightarrow> st'\<lparr>write_seq := write_seq st + 1, cipher_enc := Some \<lparr>key_bytes = write_key st\<rparr>\<rparr> | None \<Rightarrow> st)"

lemma fresh_nonce: "nonces_ok st \<Longrightarrow> nonce_of (write_nonce st) (write_seq st) \<notin> used_write_nonces st"
  by (auto simp: nonces_ok_def nonce_of_inj)

lemma check_and_record_fresh:
  assumes "nonce \<notin> used_write_nonces st"
  obtains U Q where "check_and_record_nonce nonce st = Some (Inr (), st\<lparr>nonce_eviction_queue := Q, used_write_nonces := insert nonce U\<rparr>)"
    "U \<subseteq> used_write_nonces st"
proof (cases "card (used_write_nonces st) > MAX_NONCE_CACHE")
  case True
  show ?thesis by (rule that [where U = "used_write_nonces st - set (take NONCE_EVICT_BATCH (nonce_eviction_queue st))"
      and Q = "drop NONCE_EVICT_BATCH (nonce_eviction_queue st) @ [nonce]"])
    (use assms True in \<open>auto simp: check_and_record_nonce_def Let_def\<close>)
next
  case False
  show ?thesis by (rule that [where U = "used_write_nonces st" and Q = "nonce_eviction_queue st @ [nonce]"]) (use assms False in \<open>auto simp: check_and_record_nonce_def Let_def\<close>)
qed

lemma sealed_state_eq:
  assumes "nonces_ok st"
  obtains U Q where "sealed_state st = st\<lparr>nonce_eviction_queue := Q, used_write_nonces := insert (nonce_of (write_nonce st) (write_seq st)) U, write_seq := write_seq st + 1, cipher_enc := Some \<lparr>key_bytes = write_key st\<rparr>\<rparr>"
    "U \<subseteq> used_write_nonces st"
    "check_and_record_nonce (nonce_of (write_nonce st) (write_seq st)) st =
       Some (Inr (), st\<lparr>nonce_eviction_queue := Q, used_write_nonces := insert (nonce_of (write_nonce st) (write_seq st)) U\<rparr>)"
proof -
  obtain U Q where "check_and_record_nonce (nonce_of (write_nonce st) (write_seq st)) st =
      Some (Inr (), st\<lparr>nonce_eviction_queue := Q, used_write_nonces := insert (nonce_of (write_nonce st) (write_seq st)) U\<rparr>)"
    "U \<subseteq> used_write_nonces st" by (rule check_and_record_fresh [OF fresh_nonce [OF assms]])
  then show ?thesis by (intro that) (simp_all add: sealed_state_def)
qed

lemma sealed_state_ok:
  assumes "stream_ok st" "write_seq st \<noteq> 0xFFFFFFFFFFFFFFFF"
  shows "stream_ok (sealed_state st)"
proof -
  have n: "nonces_ok st" using assms by (simp add: stream_ok_def)
  obtain U Q where U: "sealed_state st = st\<lparr>nonce_eviction_queue := Q, used_write_nonces := insert (nonce_of (write_nonce st) (write_seq st)) U, write_seq := write_seq st + 1, cipher_enc := Some \<lparr>key_bytes = write_key st\<rparr>\<rparr>"
    "U \<subseteq> used_write_nonces st" using sealed_state_eq [OF n] by metis
  have "nonces_ok (sealed_state st)" using n U(2) word_less_succ [OF assms(2)] by (fastforce simp: U(1) nonces_ok_def)
  then show ?thesis using assms by (simp add: U(1) stream_ok_def keys_ok_def reading_ok_def)
qed

definition sealed :: "sm4_crates \<Rightarrow> bytes \<Rightarrow> 's GmTlsStream \<Rightarrow> bytes \<times> bytes" where
  "sealed P plain st =
     (let n = nonce_of (write_nonce st) (write_seq st); e = apply_keystream P (write_key st) (inc32 (gcm_j0 n)) plain
      in (e, gcm_tag P (write_key st) (gcm_j0 n) (u64_to_be (write_seq st) @ record_header (version st) (length plain + 16)) e))"

lemma seal_record_eq:
  assumes "stream_ok st"
  shows "seal_record P what plain st =
    (if write_seq st = 0xFFFFFFFFFFFFFFFF then Some (Inl SequenceOverflow, st)
     else Some (Inr (sealed P plain st), sealed_state st))"
proof (cases "write_seq st = 0xFFFFFFFFFFFFFFFF")
  case True
  then show ?thesis by (simp add: seal_record_def next_nonce_def)
next
  case False
  have n: "nonces_ok st" and k: "keys_ok st" using assms by (simp_all add: stream_ok_def)
  obtain U Q where U: "sealed_state st = st\<lparr>nonce_eviction_queue := Q, used_write_nonces := insert (nonce_of (write_nonce st) (write_seq st)) U, write_seq := write_seq st + 1, cipher_enc := Some \<lparr>key_bytes = write_key st\<rparr>\<rparr>"
    "check_and_record_nonce (nonce_of (write_nonce st) (write_seq st)) st =
       Some (Inr (), st\<lparr>nonce_eviction_queue := Q, used_write_nonces := insert (nonce_of (write_nonce st) (write_seq st)) U\<rparr>)"
    using sealed_state_eq [OF n] by metis
  have "keys_ok (st\<lparr>nonce_eviction_queue := Q, used_write_nonces := insert (nonce_of (write_nonce st) (write_seq st)) U, write_seq := write_seq st + 1\<rparr>)"
    using k by (simp add: keys_ok_def)
  from get_cipher_enc_ok [OF this] show ?thesis using False k
    by (simp add: seal_record_def next_nonce_eq keys_ok_def U advance_write_seq_def encrypt_gcm_12 sealed_def Let_def)
qed

lemma seal_record_keeps [keeps_rules]: "keeps stream_ok (seal_record P what plain)"
  by (auto simp: keeps_def seal_record_eq sealed_state_ok split: if_splits)

section \<open>Every operation keeps the stream well formed\<close>

lemma stream_ok_frame [simp]:
  "stream_ok (st\<lparr>inner := s\<rparr>) = stream_ok st"
  "stream_ok (st\<lparr>key_update_pending := b\<rparr>) = stream_ok st"
  "stream_ok (st\<lparr>close_notify_sent := b\<rparr>) = stream_ok st"
  "stream_ok (st\<lparr>key_update_count := c\<rparr>) = stream_ok st"
  "stream_ok (st\<lparr>read_seq := q\<rparr>) = stream_ok st"
  by (simp_all add: stream_ok_defs)

lemma keys_ok_frame [simp]:
  "keys_ok (st\<lparr>inner := s\<rparr>) = keys_ok st"
  "keys_ok (st\<lparr>key_update_pending := b\<rparr>) = keys_ok st"
  "keys_ok (st\<lparr>key_update_count := c\<rparr>) = keys_ok st"
  "keys_ok (st\<lparr>read_seq := q\<rparr>) = keys_ok st"
  "keys_ok (st\<lparr>write_seq := q\<rparr>) = keys_ok st"
  by (simp_all add: keys_ok_def)

lemma transport_keeps [keeps_rules]:
  "keeps stream_ok (inner_write_all T data)"
  "keeps stream_ok (inner_flush T)"
  "keeps stream_ok (inner_read_exact T n)"
  by (auto simp: keeps_def inner_write_all_def inner_flush_def inner_read_exact_def split: prod.splits)

lemma send_record_keeps [keeps_rules]: "keeps stream_ok (send_record T len ct)"
proof -
  obtain e tag where s: "ct = (e, tag)" by force
  have "keeps stream_ok (io_bind (inner_write_all T a) (\<lambda>_. io_bind (inner_write_all T b) (\<lambda>_. io_bind (inner_write_all T c) (\<lambda>_.
      io_bind (inner_write_all T e) (\<lambda>_. io_bind (inner_write_all T tag) (\<lambda>_. inner_flush T))))))" for a b c
    by (intro keeps_rules)
  then show ?thesis unfolding keeps_def send_record_def Let_def s prod.case by blast
qed

lemma derived_lengths:
  assumes "\<And>x. length (sm3 x) = 32" "derive_key_and_nonce sm3 secret = Inr (k, n)"
  shows "length k = 16" "length n = 12"
  using assms(2) hkdf_sm3_eq [where ?sm3.0 = sm3, OF assms(1)] length_hkdf_ref [where ?sm3.0 = sm3, OF assms(1)]
  by (auto simp: derive_key_and_nonce_def SM4_KEY_LEN_def SM4_NONCE_LEN_def)

lemma rotate_write_key_keeps:
  assumes "\<And>x. length (sm3 x) = 32"
  shows "keeps stream_ok (rotate_write_key sm3)"
proof -
  have "stream_ok st'" if "stream_ok st" "rotate_write_key sm3 st = Some (r, st')" for st :: "'a GmTlsStream" and r st'
    using that derived_lengths [where ?sm3.0 = sm3, OF assms]
    by (auto simp: rotate_write_key_def count_key_update_def stream_ok_defs ok_or_def res_simps split: sum.splits option.splits if_splits)
  then show ?thesis unfolding keeps_def by blast
qed

lemma rotate_read_key_keeps:
  assumes "\<And>x. length (sm3 x) = 32"
  shows "keeps stream_ok (rotate_read_key sm3)"
proof -
  have "stream_ok st'" if "stream_ok st" "rotate_read_key sm3 st = Some (r, st')" for st :: "'a GmTlsStream" and r st'
    using that derived_lengths [where ?sm3.0 = sm3, OF assms]
    by (auto simp: rotate_read_key_def count_key_update_def stream_ok_defs ok_or_def res_simps split: sum.splits option.splits if_splits)
  then show ?thesis unfolding keeps_def by blast
qed

lemma send_key_update_keeps:
  assumes "\<And>x. length (sm3 x) = 32"
  shows "keeps stream_ok (send_key_update P sm3 T req)"
  unfolding send_key_update_def write_handshake_record_def Let_def
  by (intro keeps_rules rotate_write_key_keeps [where ?sm3.0 = sm3, OF assms])

lemma process_key_update_keeps:
  assumes "\<And>x. length (sm3 x) = 32"
  shows "keeps stream_ok (process_key_update sm3 req)"
  unfolding process_key_update_def Let_def
  by (intro keeps_rules rotate_read_key_keeps [where ?sm3.0 = sm3, OF assms]) (auto simp: keeps_def)

lemma pre_write_keeps:
  assumes "\<And>x. length (sm3 x) = 32"
  shows "keeps stream_ok (flush_pending_key_update P sm3 T)" "keeps stream_ok (auto_key_update P sm3 T)"
proof -
  note ku = keeps_use [OF send_key_update_keeps [where ?sm3.0 = sm3, OF assms]]
  show "keeps stream_ok (flush_pending_key_update P sm3 T)"
    by (rule keeps_state) (auto simp: flush_pending_key_update_def split: if_splits dest: ku [rotated])
  show "keeps stream_ok (auto_key_update P sm3 T)"
    by (rule keeps_state) (auto simp: auto_key_update_def split: if_splits dest: ku [rotated])
qed

lemma write_application_data_keeps:
  assumes "\<And>x. length (sm3 x) = 32"
  shows "keeps stream_ok (write_application_data P sm3 T data)"
  unfolding write_application_data_def Let_def by (intro keeps_rules pre_write_keeps [where ?sm3.0 = sm3, OF assms])

lemma close_keeps: "keeps stream_ok (close P T)"
proof (rule keeps_state)
  fix st st' :: "'a GmTlsStream" and r assume st: "stream_ok st" "close P T st = Some (r, st')"
  have "keeps stream_ok (io_bind (seal_record P what plain) (\<lambda>ct. io_bind (send_record T n ct) (\<lambda>_ st.
      Some (Inr (), st\<lparr>close_notify_sent := True\<rparr>))))" for what plain n
    by (intro keeps_rules) (auto simp: keeps_def)
  from keeps_use [OF this] st show "stream_ok st'" by (auto simp: close_def Let_def split: if_splits)
qed

lemma open_record_eq:
  assumes "keys_ok st"
  shows "open_record P what hdr buf st =
    (if read_seq st = 0xFFFFFFFFFFFFFFFF then Some (Inl SequenceOverflow, st)
     else Some (map_err (\<lambda>e. CipherError (what @ '': '' @ debug_crypto_error e))
        (decrypt_gcm P \<lparr>key_bytes = read_key st\<rparr> (take (header_len hdr - 16) buf) (nonce_of (read_nonce st) (read_seq st))
           (u64_to_be (read_seq st) @ hdr) (drop (header_len hdr - 16) buf)),
        st\<lparr>read_seq := read_seq st + 1, cipher_dec := Some \<lparr>key_bytes = read_key st\<rparr>\<rparr>))"
proof -
  have "keys_ok (st\<lparr>read_seq := read_seq st + 1\<rparr>)" "length (read_nonce st) = 12" using assms by (simp_all add: keys_ok_def)
  with get_cipher_dec_ok [OF this(1)] show ?thesis by (simp add: open_record_def next_nonce_eq advance_read_seq_def Let_def)
qed

lemma stream_ok_keys: "stream_ok st \<Longrightarrow> keys_ok st"
  by (simp add: stream_ok_def)

lemma stream_ok_opened:
  "stream_ok st \<Longrightarrow> stream_ok (st\<lparr>read_seq := q, cipher_dec := Some \<lparr>key_bytes = read_key st\<rparr>\<rparr>)"
  by (simp add: stream_ok_defs)

lemma open_record_keeps [keeps_rules]: "keeps stream_ok (open_record P what hdr buf)"
  by (rule keeps_state) (auto simp: open_record_eq [OF stream_ok_keys] stream_ok_opened split: if_splits)

lemma process_inner_handshake_keeps:
  assumes "\<And>x. length (sm3 x) = 32"
  shows "keeps stream_ok (process_inner_handshake sm3 msg)"
  unfolding process_inner_handshake_def Let_def
  by (auto intro!: keeps_rules process_key_update_keeps [where ?sm3.0 = sm3, OF assms])

lemma read_record_keeps:
  assumes "\<And>x. length (sm3 x) = 32"
  shows "keeps stream_ok (read_record P sm3 T)"
  unfolding read_record_def dispatch_record_def Let_def
  by (intro keeps_rules) (auto intro!: keeps_rules process_inner_handshake_keeps [where ?sm3.0 = sm3, OF assms])

lemma read_application_data_keeps:
  assumes "\<And>x. length (sm3 x) = 32"
  shows "keeps stream_ok (read_application_data P sm3 T)"
proof (rule keeps_state)
  fix st st' :: "'a GmTlsStream" and r
  assume st: "stream_ok st" "read_application_data P sm3 T st = Some (r, st')"
  have "case (((P, sm3), T), st) of (((P, h), T), st) \<Rightarrow> (\<forall>x. length (h x) = 32) \<longrightarrow> stream_ok st \<longrightarrow> stream_ok (snd (r, st'))"
    using st(2)
  proof (rule read_application_data.raw_induct [rotated])
    fix rd P h and T :: "'a transport" and st y
    assume IH: "\<And>P h T st y. rd P h T st = Some y \<Longrightarrow>
        case (((P, h), T), st) of (((P, h), T), st) \<Rightarrow> (\<forall>x. length (h x) = 32) \<longrightarrow> stream_ok st \<longrightarrow> stream_ok (snd y)"
      and y: "(case read_record P h T st of None \<Rightarrow> None | Some (Inl e, st') \<Rightarrow> Some (Inl e, st')
        | Some (Inr None, st') \<Rightarrow> rd P h T st' | Some (Inr (Some plaintext), st') \<Rightarrow> Some (Inr plaintext, st')) = Some y"
    have "stream_ok (snd y)" if h: "\<And>x. length (h x) = 32" and st: "stream_ok st"
    proof -
      obtain r s where rec: "read_record P h T st = Some (r, s)" using y by (cases "read_record P h T st") auto
      have s: "stream_ok s" by (rule keeps_use [OF read_record_keeps [where ?sm3.0 = h, OF h] st rec])
      consider "y = (fst y, s)" | "rd P h T s = Some y" using y rec by (auto split: sum.splits option.splits)
      then show ?thesis using s IH h by cases (metis snd_conv, fastforce)
    qed
    then show "case (((P, h), T), st) of (((P, h), T), st) \<Rightarrow> (\<forall>x. length (h x) = 32) \<longrightarrow> stream_ok st \<longrightarrow> stream_ok (snd y)"
      by simp
  qed
  then show "stream_ok st'" using assms st(1) by simp
qed

lemma recv_close_notify_keeps: "keeps stream_ok (recv_close_notify P T)"
proof (rule keeps_state)
  fix st st' :: "'a GmTlsStream" and r assume st: "stream_ok st" "recv_close_notify P T st = Some (r, st')"
  obtain x s where x: "read_exact T 5 (inner st) = (x, s)" by force
  show "stream_ok st'"
  proof (cases x)
    case (Inl e)
    then show ?thesis using st x by (auto simp: recv_close_notify_def)
  next
    case (Inr hdr)
    have "keeps stream_ok (io_bind (io_lift (Some (check_header ''close_notify record too short'' ''close_notify record exceeds size limit'' hdr)))
        (\<lambda>_. io_bind (inner_read_exact T (header_len hdr)) (\<lambda>buf. io_bind (open_record P ''close_notify decrypt'' hdr buf) (\<lambda>_. io_return True))))"
      by (intro keeps_rules)
    then show ?thesis by (rule keeps_use [of _ _ "st\<lparr>inner := s\<rparr>"]) (use st x Inr in \<open>simp_all add: recv_close_notify_def\<close>)
  qed
qed

lemma fill_buffer_length:
  "fill_buffer T eof buf filled s = (r, buf', filled', s') \<Longrightarrow> fits_buffer T \<Longrightarrow> filled \<le> length buf \<Longrightarrow>
    length buf' = length buf \<and> filled' \<le> length buf \<and> (r = None \<longrightarrow> filled' = length buf)"
proof (induction T eof buf filled s rule: fill_buffer.induct)
  case (1 T eof buf filled s)
  obtain p s1 where p: "inner_poll_read T (length buf - filled) s = (p, s1)" by force
  consider (more) chunk where "filled < length buf" "p = Ready (Inr chunk)" "length chunk \<noteq> 0"
    | (stop) "filled < length buf" "\<nexists>chunk. p = Ready (Inr chunk) \<and> length chunk \<noteq> 0" | (full) "\<not> filled < length buf" by blast
  then show ?case
  proof cases
    case more
    then have l: "length chunk \<le> length buf - filled" using "1.prems"(2) p by (auto simp: fits_buffer_def)
    have "fill_buffer T eof (take filled buf @ chunk @ drop (filled + length chunk) buf) (filled + length chunk) s1 = (r, buf', filled', s')"
      using "1.prems"(1) more p by (subst (asm) fill_buffer.simps) simp
    from "1.IH" [OF more(1) p [symmetric] more(2) refl more(3) this "1.prems"(2)] show ?thesis using l more by simp
  next
    case stop
    then show ?thesis using "1.prems" p by (subst (asm) fill_buffer.simps) (auto split: poll.splits sum.splits)
  next
    case full
    then show ?thesis using "1.prems" by (subst (asm) fill_buffer.simps) auto
  qed
qed

lemma drain_read_buf_ok: "stream_ok st \<Longrightarrow> drain_read_buf n st = (out, st') \<Longrightarrow> stream_ok st'"
  by (auto simp: drain_read_buf_def Let_def stream_ok_defs split: if_splits)

lemma poll_fill_header_ok:
  assumes "stream_ok st" "fits_buffer T" "poll_fill_header T st = (r, st')"
  shows "stream_ok st' \<and> (r = None \<longrightarrow> header_filled (read_state st') = 5)"
proof -
  have "header_filled (read_state st) \<le> length (header (read_state st))" using assms(1) by (simp add: stream_ok_defs)
  then show ?thesis using assms fill_buffer_length [OF _ assms(2)]
    by (fastforce simp: poll_fill_header_def Let_def stream_ok_defs split: prod.splits)
qed

lemma poll_fill_body_ok:
  assumes "stream_ok st" "fits_buffer T" "poll_fill_body T st = (r, st')"
  shows "stream_ok st'"
proof -
  let ?rs = "poll_alloc_body (header_len (header (read_state st))) (read_state st)"
  have rs: "length (header ?rs) = 5" "header_filled ?rs \<le> 5" "length (body ?rs) = ct_len ?rs" "body_filled ?rs \<le> length (body ?rs)"
    using assms(1) by (auto simp: stream_ok_defs poll_alloc_body_def)
  obtain buf filled s where f: "fill_buffer T ''TLS record read incomplete'' (body ?rs) (body_filled ?rs) (inner st) = (r, buf, filled, s)"
    and st': "st' = st\<lparr>read_state := ?rs\<lparr>body := buf, body_filled := filled\<rparr>, inner := s\<rparr>"
    using assms(3) by (auto simp: poll_fill_body_def Let_def split: prod.splits)
  show ?thesis using fill_buffer_length [OF f assms(2) rs(4)] rs assms(1) by (simp add: st' stream_ok_defs)
qed

lemma poll_open_record_ok: "stream_ok st \<Longrightarrow> poll_open_record P hdr buf st = (r, st') \<Longrightarrow> stream_ok st'"
proof -
  assume st: "stream_ok st" "poll_open_record P hdr buf st = (r, st')"
  then have "keys_ok (st\<lparr>read_seq := read_seq st + 1\<rparr>)" by (simp add: stream_ok_def)
  from get_cipher_dec_ok [OF this] show ?thesis using st stream_ok_opened [OF st(1)]
    by (auto simp: poll_open_record_def Let_def split: sum.splits if_splits)
qed

lemma poll_dispatch_cases:
  assumes "poll_dispatch sm3 n plain st = Some (r, st')"
  shows "st' = st \<or> st' = snd (drain_read_buf n (st\<lparr>read_buf := butlast plain, read_buf_pos := 0\<rparr>)) \<or>
    (\<exists>x. process_inner_handshake sm3 (butlast plain) st = Some (x, st'))"
proof (cases "plain \<noteq> [] \<and> last plain = INNER_CONTENT_TYPE_HANDSHAKE")
  case True
  then show ?thesis using assms by (cases "process_inner_handshake sm3 (butlast plain) st")
    (auto simp: poll_dispatch_def record_consts split: sum.splits)
next
  case False
  then show ?thesis using assms by (simp add: poll_dispatch_def Let_def split: if_splits prod.splits)
qed

lemma poll_dispatch_ok:
  assumes "\<And>x. length (sm3 x) = 32" "stream_ok st" "poll_dispatch sm3 n plain st = Some (r, st')"
  shows "stream_ok st'"
proof -
  have b: "stream_ok (st\<lparr>read_buf := x, read_buf_pos := 0\<rparr>)" for x using assms(2) by (simp add: stream_ok_defs)
  show ?thesis
    using poll_dispatch_cases [OF assms(3)] assms(2) drain_read_buf_ok [OF b prod.collapse [symmetric]]
      keeps_use [OF process_inner_handshake_keeps [where ?sm3.0 = sm3, OF assms(1)] assms(2)]
    by metis
qed

lemma stream_ok_reset: "stream_ok st \<Longrightarrow> stream_ok (st\<lparr>read_state := read_state_reset rs\<rparr>)"
  by (simp add: stream_ok_defs read_state_reset_def)

lemma poll_read_keeps:
  assumes sm3: "\<And>x. length (sm3 x) = 32" and T: "fits_buffer T"
    and st: "stream_ok st" and r: "poll_read P sm3 T n st = Some (r, st')"
  shows "stream_ok st'"
proof (cases "read_buf_pos st < length (read_buf st)")
  case True
  then show ?thesis using r drain_read_buf_ok [OF st] by (auto simp: poll_read_def split: prod.splits)
next
  case False
  obtain r1 s1 where 1: "poll_fill_header T st = (r1, s1)" by force
  have s1: "stream_ok s1" using poll_fill_header_ok [OF st T 1] by simp
  obtain r2 s2 where 2: "poll_fill_body T s1 = (r2, s2)" by force
  have s2: "stream_ok s2" by (rule poll_fill_body_ok [OF s1 T 2])
  obtain r3 s3 where 3: "poll_open_record P (header (read_state s2)) (body (read_state s2)) (s2\<lparr>read_state := read_state_reset (read_state s2)\<rparr>) = (r3, s3)"
    by force
  have s3: "stream_ok s3" by (rule poll_open_record_ok [OF stream_ok_reset [OF s2] 3])
  show ?thesis using r False 1 2 3 s1 s2 s3 poll_dispatch_ok [where ?sm3.0 = sm3, OF sm3 s3]
    by (auto simp: poll_read_def Let_def split: option.splits sum.splits)
qed

lemma poll_seal_record_ok:
  assumes st: "stream_ok st" and r: "poll_seal_record P plain st = (r, st')"
  shows "stream_ok st'"
proof -
  have "keys_ok (st\<lparr>write_seq := write_seq st + 1\<rparr>)" using st by (simp add: stream_ok_def)
  from get_cipher_enc_ok [OF this] have c: "st' = st \<or> write_seq st \<noteq> 0xFFFFFFFFFFFFFFFF \<and>
      st' = st\<lparr>write_seq := write_seq st + 1, cipher_enc := Some \<lparr>key_bytes = write_key st\<rparr>\<rparr>"
    using r by (auto simp: poll_seal_record_def Let_def split: sum.splits if_splits)
  moreover have "stream_ok (st\<lparr>write_seq := write_seq st + 1, cipher_enc := Some \<lparr>key_bytes = write_key st\<rparr>\<rparr>)"
    if "write_seq st \<noteq> 0xFFFFFFFFFFFFFFFF"
    using st word_less_succ [OF that] by (fastforce simp: stream_ok_defs)
  ultimately show ?thesis using st by blast
qed

lemma poll_write_keeps:
  assumes "stream_ok st" "poll_write P T data st = Some (r, st')"
  shows "stream_ok st'"
  using assms poll_seal_record_ok [OF assms(1)]
  by (auto simp: poll_write_def Let_def split: prod.splits sum.splits if_splits)

lemma poll_shutdown_keeps:
  assumes "stream_ok st" "poll_shutdown P T st = Some (r, st')"
  shows "stream_ok st'"
  using assms poll_seal_record_ok [OF assms(1)]
  by (auto simp: poll_shutdown_def poll_shutdown_inner_def Let_def split: prod.splits sum.splits if_splits option.splits poll.splits)

section \<open>Reachable streams\<close>

inductive stream_reach :: "sm4_crates \<Rightarrow> (bytes \<Rightarrow> bytes) \<Rightarrow> 's transport \<Rightarrow> 's GmTlsStream \<Rightarrow> bool"
  for P sm3 T where
  new: "length (client_key keys) = 16 \<Longrightarrow> length (server_key keys) = 16 \<Longrightarrow> length (client_nonce keys) = 12 \<Longrightarrow>
    length (server_nonce keys) = 12 \<Longrightarrow> length ver = 2 \<Longrightarrow>
    stream_reach P sm3 T (stream_with_version s keys is_client cert protocol ver)"
| secrets: "stream_reach P sm3 T st \<Longrightarrow> stream_reach P sm3 T (set_traffic_secrets ws rs st)"
| key_update: "stream_reach P sm3 T st \<Longrightarrow> send_key_update P sm3 T req st = Some (r, st') \<Longrightarrow> stream_reach P sm3 T st'"
| peer_update: "stream_reach P sm3 T st \<Longrightarrow> process_key_update sm3 kreq st = Some (r', st') \<Longrightarrow> stream_reach P sm3 T st'"
| app_write: "stream_reach P sm3 T st \<Longrightarrow> write_application_data P sm3 T data st = Some (r, st') \<Longrightarrow> stream_reach P sm3 T st'"
| app_read: "stream_reach P sm3 T st \<Longrightarrow> read_application_data P sm3 T st = Some (d, st') \<Longrightarrow> stream_reach P sm3 T st'"
| close: "stream_reach P sm3 T st \<Longrightarrow> close P T st = Some (r, st') \<Longrightarrow> stream_reach P sm3 T st'"
| recv_close: "stream_reach P sm3 T st \<Longrightarrow> recv_close_notify P T st = Some (r', st') \<Longrightarrow> stream_reach P sm3 T st'"
| poll_read: "stream_reach P sm3 T st \<Longrightarrow> poll_read P sm3 T n st = Some (pd, st') \<Longrightarrow> stream_reach P sm3 T st'"
| poll_write: "stream_reach P sm3 T st \<Longrightarrow> poll_write P T data st = Some (pn, st') \<Longrightarrow> stream_reach P sm3 T st'"
| poll_flush: "stream_reach P sm3 T st \<Longrightarrow> poll_flush T st = Some (pu, st') \<Longrightarrow> stream_reach P sm3 T st'"
| poll_shutdown: "stream_reach P sm3 T st \<Longrightarrow> poll_shutdown P T st = Some (pu, st') \<Longrightarrow> stream_reach P sm3 T st'"

lemma stream_new_ok:
  assumes "length (client_key keys) = 16" "length (server_key keys) = 16" "length (client_nonce keys) = 12"
    "length (server_nonce keys) = 12" "length ver = 2"
  shows "stream_ok (stream_with_version s keys is_client cert protocol ver)"
  using assms by (cases is_client) (simp_all add: stream_with_version_def stream_ok_defs read_state_default_def)

lemma stream_reach_ok:
  assumes sm3: "\<And>x. length (sm3 x) = 32" and T: "fits_buffer T" and "stream_reach P sm3 T st"
  shows "stream_ok st"
  using assms(3)
proof induction
  case (secrets st ws rs)
  then show ?case by (simp add: set_traffic_secrets_def stream_ok_defs)
next
  case (poll_flush st pu st')
  then show ?case by (auto simp: poll_flush_def split: prod.splits)
next
  case new
  then show ?case by (blast intro: stream_new_ok)
next
  case key_update
  then show ?case by (blast intro: keeps_use [OF send_key_update_keeps [where ?sm3.0 = sm3, OF sm3]])
next
  case peer_update
  then show ?case by (blast intro: keeps_use [OF process_key_update_keeps [where ?sm3.0 = sm3, OF sm3]])
next
  case app_write
  then show ?case by (blast intro: keeps_use [OF write_application_data_keeps [where ?sm3.0 = sm3, OF sm3]])
next
  case app_read
  then show ?case by (blast intro: keeps_use [OF read_application_data_keeps [where ?sm3.0 = sm3, OF sm3]])
next
  case close
  then show ?case by (blast intro: keeps_use [OF close_keeps])
next
  case recv_close
  then show ?case by (blast intro: keeps_use [OF recv_close_notify_keeps])
next
  case poll_read
  then show ?case by (blast intro: poll_read_keeps [where ?sm3.0 = sm3, OF sm3 T])
next
  case poll_write
  then show ?case by (blast intro: poll_write_keeps)
next
  case poll_shutdown
  then show ?case by (blast intro: poll_shutdown_keeps)
qed

text \<open>Errors of a computation that runs parts one after the other.\<close>

definition never_fails :: "('s GmTlsStream \<Rightarrow> bool) \<Rightarrow> TlsError \<Rightarrow> ('s, 'a) tls \<Rightarrow> bool" where
  "never_fails I e m \<longleftrightarrow> (\<forall>st st'. I st \<longrightarrow> m st \<noteq> Some (Inl e, st'))"

lemma never_fails_bind:
  assumes "never_fails I e m" "keeps I m" "\<And>x. never_fails I e (f x)"
  shows "never_fails I e (io_bind m f)"
  unfolding never_fails_def
proof (intro allI impI notI)
  fix st st' assume st: "I st" "io_bind m f st = Some (Inl e, st')"
  then obtain x s where m: "m st = Some (x, s)" by (cases "m st") auto
  then have "I s" using st(1) assms(2) by (blast intro: keeps_use)
  then show False using st m assms(1,3) unfolding never_fails_def by (cases x) auto
qed

lemma never_nonce_reuse_parts:
  "never_fails stream_ok NonceReuse (seal_record P what plain)"
  "never_fails stream_ok NonceReuse (inner_write_all T data)"
  "never_fails stream_ok NonceReuse (inner_flush T)"
  by (auto simp: never_fails_def seal_record_eq inner_write_all_def inner_flush_def map_err_def split: prod.splits if_splits sum.splits)

lemma never_nonce_reuse_send: "never_fails stream_ok NonceReuse (send_record T len ct)"
proof -
  obtain e tag where s: "ct = (e, tag)" by force
  have "never_fails stream_ok NonceReuse (io_bind (inner_write_all T a) (\<lambda>_. io_bind (inner_write_all T b) (\<lambda>_. io_bind (inner_write_all T c) (\<lambda>_.
      io_bind (inner_write_all T e) (\<lambda>_. io_bind (inner_write_all T tag) (\<lambda>_. inner_flush T))))))" for a b c
    by (intro never_fails_bind never_nonce_reuse_parts transport_keeps)
  then show ?thesis unfolding never_fails_def send_record_def Let_def s prod.case by blast
qed

lemma hkdf_no_nonce_reuse: "hkdf_expand sm3 prk info len okm t c \<noteq> Inl NonceReuse"
proof (induction sm3 prk info len okm t c rule: hkdf_expand.induct)
  case (1 sm3 prk info len okm t c)
  have "hmac_tls sm3 prk x \<noteq> Inl NonceReuse" for x
  proof -
    have "tls_from_crypto e \<noteq> NonceReuse" for e by (cases e) auto
    then show ?thesis by (auto simp: hmac_tls_def map_err_def split: sum.splits)
  qed
  with 1 show ?case by (subst hkdf_expand.simps) (auto split: sum.splits)
qed

lemma never_nonce_reuse_key_update:
  assumes sm3: "\<And>x. length (sm3 x) = 32"
  shows "never_fails stream_ok NonceReuse (send_key_update P sm3 T req)"
proof -
  have "never_fails stream_ok NonceReuse (rotate_write_key sm3)"
    using hkdf_sm3_eq [where ?sm3.0 = sm3, OF sm3]
    by (auto simp: never_fails_def rotate_write_key_def count_key_update_def ok_or_def update_traffic_secret_def derive_key_and_nonce_def
      SM3_HASH_LEN_def SM4_KEY_LEN_def SM4_NONCE_LEN_def split: sum.splits option.splits if_splits)
  then show ?thesis unfolding send_key_update_def write_handshake_record_def Let_def
    by (intro never_fails_bind never_nonce_reuse_parts never_nonce_reuse_send keeps_rules)
qed

lemma never_nonce_reuse_write:
  assumes sm3: "\<And>x. length (sm3 x) = 32"
  shows "never_fails stream_ok NonceReuse (write_application_data P sm3 T data)"
proof -
  have ku: "stream_ok st \<Longrightarrow> send_key_update P sm3 T req st \<noteq> Some (Inl NonceReuse, st')" for req st st'
    using never_nonce_reuse_key_update [where ?sm3.0 = sm3 and T = T and P = P, OF sm3] by (simp add: never_fails_def)
  then have f: "never_fails stream_ok NonceReuse (flush_pending_key_update P sm3 T)"
      and a: "never_fails stream_ok NonceReuse (auto_key_update P sm3 T)"
    by (auto simp: never_fails_def flush_pending_key_update_def auto_key_update_def)
  show ?thesis unfolding write_application_data_def Let_def
    by (intro never_fails_bind f a never_nonce_reuse_parts never_nonce_reuse_send keeps_rules pre_write_keeps [where ?sm3.0 = sm3, OF sm3])
qed

lemma never_nonce_reuse_close: "never_fails stream_ok NonceReuse (close P T)"
proof -
  have "never_fails stream_ok NonceReuse (io_bind (seal_record P what plain) (\<lambda>ct. io_bind (send_record T n ct) (\<lambda>_ st.
      Some (Inr (), st\<lparr>close_notify_sent := True\<rparr>))))" for what plain n
    by (intro never_fails_bind never_nonce_reuse_parts never_nonce_reuse_send keeps_rules) (simp add: never_fails_def)
  then show ?thesis by (auto simp: never_fails_def close_def Let_def)
qed

end
