(* ===== verification/Tls_Channel.thy ===== *)
theory Tls_Channel
  imports Tls_Record
begin

text \<open>
  Two record-layer streams over a reliable transport. \<open>paired\<close> relates a writer and the reader of the
  peer; one lemma per kind of record shows that reading it keeps them paired, and the properties of
  the record layer follow by composing them.
\<close>

section \<open>Writing to a reliable transport\<close>

definition wire :: "sm4_crates \<Rightarrow> bytes \<Rightarrow> 's GmTlsStream \<Rightarrow> bytes" where
  "wire P plain st = record_header (version st) (length plain + 16) @ fst (sealed P plain st) @ snd (sealed P plain st)"

lemma inner_write_all_ok:
  assumes "accepts T tx"
  obtains s where "inner_write_all T data st = Some (Inr (), st\<lparr>inner := s\<rparr>)" "tx s = tx (inner st) @ data"
  using assms unfolding accepts_def inner_write_all_def by (metis case_prod_conv map_err_simps(2))

lemma inner_flush_ok:
  assumes "accepts T tx"
  obtains s where "inner_flush T st = Some (Inr (), st\<lparr>inner := s\<rparr>)" "tx s = tx (inner st)"
  using assms unfolding accepts_def inner_flush_def by (metis case_prod_conv map_err_simps(2))

lemma send_record_ok:
  assumes T: "accepts T tx"
  obtains s where "send_record T len (e, tag) st = Some (Inr (), st\<lparr>inner := s\<rparr>)"
    "tx s = tx (inner st) @ record_header (version st) (len + 16) @ e @ tag"
proof -
  obtain s1 where 1: "inner_write_all T [RECORD_TYPE_APPLICATION_DATA] st = Some (Inr (), st\<lparr>inner := s1\<rparr>)"
    "tx s1 = tx (inner st) @ [RECORD_TYPE_APPLICATION_DATA]" by (rule inner_write_all_ok [OF T])
  obtain s2 where 2: "inner_write_all T (version st) (st\<lparr>inner := s1\<rparr>) = Some (Inr (), st\<lparr>inner := s1\<rparr>\<lparr>inner := s2\<rparr>)"
    "tx s2 = tx (inner (st\<lparr>inner := s1\<rparr>)) @ version st" by (rule inner_write_all_ok [OF T])
  obtain s3 where 3: "inner_write_all T (u16_to_be (word_of_nat (len + 16))) (st\<lparr>inner := s2\<rparr>) = Some (Inr (), st\<lparr>inner := s2\<rparr>\<lparr>inner := s3\<rparr>)"
    "tx s3 = tx (inner (st\<lparr>inner := s2\<rparr>)) @ u16_to_be (word_of_nat (len + 16))" by (rule inner_write_all_ok [OF T])
  obtain s4 where 4: "inner_write_all T e (st\<lparr>inner := s3\<rparr>) = Some (Inr (), st\<lparr>inner := s3\<rparr>\<lparr>inner := s4\<rparr>)"
    "tx s4 = tx (inner (st\<lparr>inner := s3\<rparr>)) @ e" by (rule inner_write_all_ok [OF T])
  obtain s5 where 5: "inner_write_all T tag (st\<lparr>inner := s4\<rparr>) = Some (Inr (), st\<lparr>inner := s4\<rparr>\<lparr>inner := s5\<rparr>)"
    "tx s5 = tx (inner (st\<lparr>inner := s4\<rparr>)) @ tag" by (rule inner_write_all_ok [OF T])
  obtain s6 where 6: "inner_flush T (st\<lparr>inner := s5\<rparr>) = Some (Inr (), st\<lparr>inner := s5\<rparr>\<lparr>inner := s6\<rparr>)"
    "tx s6 = tx (inner (st\<lparr>inner := s5\<rparr>))" by (rule inner_flush_ok [OF T])
  show thesis
  proof (rule that)
    show "send_record T len (e, tag) st = Some (Inr (), st\<lparr>inner := s6\<rparr>)"
      using 1 2 3 4 5 6 by (simp add: send_record_def Let_def)
    show "tx s6 = tx (inner st) @ record_header (version st) (len + 16) @ e @ tag"
      using 1(2) 2(2) 3(2) 4(2) 5(2) 6(2) by (simp add: record_header_def)
  qed
qed

section \<open>Paired streams\<close>

definition paired :: "'s GmTlsStream \<Rightarrow> 's GmTlsStream \<Rightarrow> bool" where
  "paired w r \<longleftrightarrow> read_key r = write_key w \<and> read_nonce r = write_nonce w \<and> read_seq r = write_seq w \<and>
     read_traffic_secret r = write_traffic_secret w"

lemma list2E:
  assumes "length xs = 2"
  obtains a b where "xs = [a, b]"
  using assms by (auto simp: length_Suc_conv numeral_2_eq_2)

lemma record_header_fields:
  assumes "length ver = 2" "n < 65536"
  shows "length (record_header ver n) = 5" "record_header ver n ! 0 = RECORD_TYPE_APPLICATION_DATA" "header_len (record_header ver n) = n"
proof -
  obtain a b where ver: "ver = [a, b]" by (rule list2E [OF assms(1)])
  obtain c d where cd: "u16_to_be (word_of_nat n) = [c, d]" by (rule list2E [OF length_to_be(1)])
  have "header_len (record_header ver n) = unat (u16_from_be (u16_to_be (word_of_nat n)))"
    by (simp add: header_len_def record_header_def ver cd eval_nat_numeral)
  also have "\<dots> = n" using assms(2) by (simp add: unsigned_of_nat take_bit_nat_eq_self)
  finally show "header_len (record_header ver n) = n" .
qed (use assms in \<open>simp_all add: record_header_def\<close>)

text \<open>The reader opens what the writer sealed.\<close>

lemma open_sealed:
  assumes P: "sm4_laws P" and p: "paired w r" and k: "keys_ok r" "keys_ok w" and seq: "write_seq w \<noteq> 0xFFFFFFFFFFFFFFFF"
    and len: "length plain + 16 < 65536"
  shows "open_record P what (record_header (version w) (length plain + 16)) (fst (sealed P plain w) @ snd (sealed P plain w)) r =
    Some (Inr plain, r\<lparr>read_seq := write_seq w + 1, cipher_dec := Some \<lparr>key_bytes = write_key w\<rparr>\<rparr>)"
proof -
  define n where "n = nonce_of (write_nonce w) (write_seq w)"
  define aad where "aad = u64_to_be (write_seq w) @ record_header (version w) (length plain + 16)"
  obtain e tag where s: "sealed P plain w = (e, tag)" by force
  have "encrypt_gcm P \<lparr>key_bytes = write_key w\<rparr> plain n aad = Inr (e, tag)"
    using s by (auto simp: encrypt_gcm_12 n_def aad_def sealed_def Let_def)
  then have dec: "decrypt_gcm P \<lparr>key_bytes = write_key w\<rparr> e n aad tag = Inr plain" by (simp add: decrypt_gcm_iff [OF P])
  have "length e = length plain" using s P by (auto simp: sealed_def Let_def sm4_laws_def)
  moreover have "header_len (record_header (version w) (length plain + 16)) = length plain + 16"
    using record_header_fields(3) [OF _ len] k(2) by (simp add: keys_ok_def)
  ultimately show ?thesis using p seq dec by (simp add: open_record_eq [OF k(1)] paired_def s n_def aad_def)
qed

lemma read_sealed:
  assumes T: "delivers T rx" and P: "sm4_laws P" and p: "paired w r" and k: "keys_ok r" "keys_ok w"
    and seq: "write_seq w \<noteq> 0xFFFFFFFFFFFFFFFF" and len: "length plain \<le> 24560"
    and rx: "rx (inner r) = wire P plain w @ rest"
  obtains s where "rx s = rest"
    "read_record P sm3 T r = dispatch_record sm3 plain (r\<lparr>inner := s, read_seq := write_seq w + 1, cipher_dec := Some \<lparr>key_bytes = write_key w\<rparr>\<rparr>)"
proof -
  define hdr where "hdr = record_header (version w) (length plain + 16)"
  define ct where "ct = fst (sealed P plain w) @ snd (sealed P plain w)"
  have v: "length (version w) = 2" using k by (simp add: keys_ok_def)
  have l: "length plain + 16 < 65536" using len by simp
  have hdr: "length hdr = 5" "hdr ! 0 = RECORD_TYPE_APPLICATION_DATA" "header_len hdr = length plain + 16"
    using record_header_fields [OF v l] by (simp_all add: hdr_def)
  have ct: "length ct = header_len hdr" using P by (simp add: ct_def hdr sealed_def Let_def sm4_laws_def)
  have rx: "rx (inner r) = hdr @ ct @ rest" using rx by (simp add: wire_def hdr_def ct_def)
  have "5 \<le> length (rx (inner r))" using rx hdr(1) by simp
  then obtain s1 where s1: "read_exact T 5 (inner r) = (Inr (take 5 (rx (inner r))), s1)" "rx s1 = drop 5 (rx (inner r))"
    using T unfolding delivers_def by blast
  then have s1: "read_exact T 5 (inner r) = (Inr hdr, s1)" "rx s1 = ct @ rest" using rx hdr(1) by simp_all
  have "header_len hdr \<le> length (rx s1)" using s1 ct by simp
  then obtain s2 where s2: "read_exact T (header_len hdr) s1 = (Inr (take (header_len hdr) (rx s1)), s2)" "rx s2 = drop (header_len hdr) (rx s1)"
    using T unfolding delivers_def by blast
  then have s2: "read_exact T (header_len hdr) s1 = (Inr ct, s2)" "rx s2 = rest" using s1 ct by simp_all
  have "open_record P ''GCM decrypt'' hdr ct (r\<lparr>inner := s2\<rparr>) = Some (Inr plain, r\<lparr>inner := s2, read_seq := write_seq w + 1, cipher_dec := Some \<lparr>key_bytes = write_key w\<rparr>\<rparr>)"
    using open_sealed [OF P, of w "r\<lparr>inner := s2\<rparr>" plain] p k seq l by (simp add: paired_def hdr_def ct_def)
  moreover have "check_header ''record too short'' ''record exceeds size limit'' hdr = Inr ()"
    using hdr len by (simp add: check_header_def MAX_RECORD_SIZE_def)
  ultimately show thesis using s1 s2
    by (intro that [of s2]) (simp_all add: read_record_def inner_read_exact_def)
qed

section \<open>Key updates\<close>

lemma sealed_state_fields:
  assumes "stream_ok st"
  shows "inner (sealed_state st) = inner st" "version (sealed_state st) = version st" "write_key (sealed_state st) = write_key st"
    "write_nonce (sealed_state st) = write_nonce st" "write_seq (sealed_state st) = write_seq st + 1"
    "write_traffic_secret (sealed_state st) = write_traffic_secret st" "key_update_pending (sealed_state st) = key_update_pending st"
    "key_update_count (sealed_state st) = key_update_count st"
proof -
  obtain U Q where "sealed_state st = st\<lparr>nonce_eviction_queue := Q, used_write_nonces := insert (nonce_of (write_nonce st) (write_seq st)) U,
      write_seq := write_seq st + 1, cipher_enc := Some \<lparr>key_bytes = write_key st\<rparr>\<rparr>"
    using assms sealed_state_eq [of st] by (metis stream_ok_def)
  then show "inner (sealed_state st) = inner st" "version (sealed_state st) = version st" "write_key (sealed_state st) = write_key st"
    "write_nonce (sealed_state st) = write_nonce st" "write_seq (sealed_state st) = write_seq st + 1"
    "write_traffic_secret (sealed_state st) = write_traffic_secret st" "key_update_pending (sealed_state st) = key_update_pending st"
    "key_update_count (sealed_state st) = key_update_count st"
    by simp_all
qed

lemma send_sealed:
  assumes T: "accepts T tx" and w: "stream_ok w" and seq: "write_seq w \<noteq> 0xFFFFFFFFFFFFFFFF"
  obtains s where "io_bind (seal_record P what plain) (send_record T (length plain)) w = Some (Inr (), (sealed_state w)\<lparr>inner := s\<rparr>)"
    "tx s = tx (inner w) @ wire P plain w"
proof -
  obtain e tag where s: "sealed P plain w = (e, tag)" by force
  obtain s where "send_record T (length plain) (e, tag) (sealed_state w) = Some (Inr (), (sealed_state w)\<lparr>inner := s\<rparr>)"
    "tx s = tx (inner (sealed_state w)) @ record_header (version (sealed_state w)) (length plain + 16) @ e @ tag"
    by (rule send_record_ok [OF T])
  then show thesis using seq by (intro that [of s]) (simp_all add: seal_record_eq [OF w] s wire_def sealed_state_fields [OF w])
qed

lemma paired_next:
  assumes "paired w r" "stream_ok w"
  shows "paired ((sealed_state w)\<lparr>inner := s\<rparr>) (r\<lparr>inner := s', read_seq := write_seq w + 1, cipher_dec := c\<rparr>)"
  using assms(1) by (simp add: paired_def sealed_state_fields [OF assms(2)])

lemma rotate_pair:
  assumes sm3: "\<And>x. length (sm3 x) = 32" and sec: "write_traffic_secret w = Some sec" "length sec = 32"
    and count: "key_update_count w \<noteq> 0xFFFFFFFFFFFFFFFF"
  obtains w' sec' where "rotate_write_key sm3 w = Some (Inr (), w')" "inner w' = inner w" "write_seq w' = 0"
    "write_traffic_secret w' = Some sec'" "length sec' = 32" "key_update_pending w' = key_update_pending w"
    "key_update_count w' = key_update_count w + 1"
    "\<And>r. paired w r \<Longrightarrow> key_update_count r \<noteq> 0xFFFFFFFFFFFFFFFF \<Longrightarrow>
       \<exists>r'. rotate_read_key sm3 r = Some (Inr (), r') \<and> paired w' r' \<and> inner r' = inner r \<and> key_update_count r' = key_update_count r + 1"
proof -
  obtain new k n where k: "update_traffic_secret sm3 sec = Inr new" "length new = 32" "derive_key_and_nonce sm3 new = Inr (k, n)"
    by (rule key_derivation [where ?sm3.0 = sm3, OF sm3 sec(2)])
  have "\<exists>w'. rotate_write_key sm3 w = Some (Inr (), w') \<and> inner w' = inner w \<and> write_seq w' = 0 \<and> write_key w' = k \<and> write_nonce w' = n \<and>
      write_traffic_secret w' = Some new \<and> key_update_pending w' = key_update_pending w \<and> key_update_count w' = key_update_count w + 1"
    using k sec count by (simp add: rotate_write_key_def count_key_update_def)
  then obtain w' where w': "rotate_write_key sm3 w = Some (Inr (), w')" "inner w' = inner w" "write_seq w' = 0" "write_key w' = k" "write_nonce w' = n"
      "write_traffic_secret w' = Some new" "key_update_pending w' = key_update_pending w" "key_update_count w' = key_update_count w + 1"
    by blast
  have "\<exists>r'. rotate_read_key sm3 r = Some (Inr (), r') \<and> paired w' r' \<and> inner r' = inner r \<and> key_update_count r' = key_update_count r + 1"
    if "paired w r" "key_update_count r \<noteq> 0xFFFFFFFFFFFFFFFF" for r
    using that k sec w' by (simp add: rotate_read_key_def count_key_update_def paired_def)
  then show thesis using that w' k(2) by blast
qed

lemma process_key_update_message:
  "process_inner_handshake sm3 (key_update_message b) =
     io_bind (process_key_update sm3 (if b then UpdateRequested else UpdateNotRequested)) (\<lambda>_. io_return ())"
proof -
  let ?b = "key_update_request_to_byte (if b then UpdateRequested else UpdateNotRequested)"
  have one: "u32_to_be 1 = [0, 0, 0, 1]" by (simp add: u32_to_be_def nat_to_be_numeral)
  have msg: "key_update_message b = [0x18, 0, 0, 1, ?b]"
    by (simp add: key_update_message_def key_update_new_def key_update_to_bytes_def one)
  have "key_update_from_bytes [?b] = Inr \<lparr>update_requested = if b then UpdateRequested else UpdateNotRequested\<rparr>"
    using key_update_roundtrip [of "\<lparr>update_requested = if b then UpdateRequested else UpdateNotRequested\<rparr>"]
    by (simp add: key_update_to_bytes_def)
  then show ?thesis by (simp add: process_inner_handshake_def msg io_bind_def fun_eq_iff)
qed

section \<open>Messages the reader consumes on the way\<close>

text \<open>The peer of \<open>w\<close> that has the bytes \<open>data\<close> in front reads on as the peer of \<open>w'\<close> behind them, after at most \<open>k\<close> key updates.\<close>

definition consumed ::
  "sm4_crates \<Rightarrow> (bytes \<Rightarrow> bytes) \<Rightarrow> 's transport \<Rightarrow> ('s \<Rightarrow> bytes) \<Rightarrow> 's GmTlsStream \<Rightarrow> 's GmTlsStream \<Rightarrow> bytes \<Rightarrow> nat \<Rightarrow> bool" where
  "consumed P sm3 T rx w w' data k \<longleftrightarrow>
     (\<forall>r rest. paired w r \<longrightarrow> stream_ok r \<longrightarrow> rx (inner r) = data @ rest \<longrightarrow> unat (key_update_count r) + k < 2 ^ 64 \<longrightarrow>
        (\<exists>r'. read_application_data P sm3 T r = read_application_data P sm3 T r' \<and> paired w' r' \<and> stream_ok r' \<and>
              rx (inner r') = rest \<and> unat (key_update_count r') \<le> unat (key_update_count r) + k))"

lemma consumed_nothing: "paired w = paired w' \<Longrightarrow> consumed P sm3 T rx w w' [] k"
  by (auto simp: consumed_def)

lemma consumed_trans:
  assumes "consumed P sm3 T rx w w1 a k" "consumed P sm3 T rx w1 w2 b l"
  shows "consumed P sm3 T rx w w2 (a @ b) (k + l)"
  unfolding consumed_def
proof (intro allI impI)
  fix r rest assume r: "paired w r" "stream_ok r" "rx (inner r) = (a @ b) @ rest" "unat (key_update_count r) + (k + l) < 2 ^ 64"
  then obtain r1 where r1: "read_application_data P sm3 T r = read_application_data P sm3 T r1" "paired w1 r1" "stream_ok r1"
      "rx (inner r1) = b @ rest" "unat (key_update_count r1) \<le> unat (key_update_count r) + k"
    using assms(1) unfolding consumed_def by (metis add_lessD1 append_assoc ab_semigroup_add_class.add_ac(1))
  moreover have "unat (key_update_count r1) + l < 2 ^ 64" using r1(5) r(4) by linarith
  ultimately obtain r2 where "read_application_data P sm3 T r1 = read_application_data P sm3 T r2" "paired w2 r2" "stream_ok r2"
      "rx (inner r2) = rest" "unat (key_update_count r2) \<le> unat (key_update_count r1) + l"
    using assms(2) unfolding consumed_def by metis
  then show "\<exists>r'. read_application_data P sm3 T r = read_application_data P sm3 T r' \<and> paired w2 r' \<and> stream_ok r' \<and>
      rx (inner r') = rest \<and> unat (key_update_count r') \<le> unat (key_update_count r) + (k + l)"
    using r1 by (intro exI [of _ r2]) auto
qed

lemma count_step:
  assumes "unat (c :: u64) + 1 < 2 ^ 64"
  shows "c \<noteq> 0xFFFFFFFFFFFFFFFF" "unat (c + 1) = unat c + 1"
proof -
  show "unat (c + 1) = unat c + 1" using assms by (simp add: unat_word_ariths)
  show "c \<noteq> 0xFFFFFFFFFFFFFFFF" using assms by auto
qed

lemma send_key_update_sync:
  assumes laws: "sm4_laws P" "\<And>x. length (sm3 x) = 32" "accepts T tx" "delivers T rx"
    and w: "stream_ok w" "write_seq w \<noteq> 0xFFFFFFFFFFFFFFFF" "write_traffic_secret w = Some sec" "length sec = 32"
      "unat (key_update_count w) + 1 < 2 ^ 64"
  obtains w' sec' data where "send_key_update P sm3 T b w = Some (Inr (), w')" "stream_ok w'" "tx (inner w') = tx (inner w) @ data"
    "write_seq w' = 0" "write_traffic_secret w' = Some sec'" "length sec' = 32" "key_update_pending w' = key_update_pending w"
    "unat (key_update_count w') = unat (key_update_count w) + 1" "consumed P sm3 T rx w w' data 1"
proof -
  let ?plain = "key_update_message b @ [INNER_CONTENT_TYPE_HANDSHAKE]"
  obtain s where s: "io_bind (seal_record P ''KeyUpdate encrypt'' ?plain) (send_record T (length ?plain)) w = Some (Inr (), (sealed_state w)\<lparr>inner := s\<rparr>)"
    "tx s = tx (inner w) @ wire P ?plain w" by (rule send_sealed [OF laws(3) w(1,2)])
  define w1 where "w1 = (sealed_state w)\<lparr>inner := s\<rparr>"
  note f = sealed_state_fields [OF w(1)]
  have w1: "write_traffic_secret w1 = Some sec" "key_update_count w1 \<noteq> 0xFFFFFFFFFFFFFFFF"
    using w(3) count_step(1) [OF w(5)] by (simp_all add: w1_def f)
  obtain w' sec' where w': "rotate_write_key sm3 w1 = Some (Inr (), w')" "inner w' = inner w1" "write_seq w' = 0"
      "write_traffic_secret w' = Some sec'" "length sec' = 32" "key_update_pending w' = key_update_pending w1"
      "key_update_count w' = key_update_count w1 + 1"
    and rd: "\<And>r. paired w1 r \<Longrightarrow> key_update_count r \<noteq> 0xFFFFFFFFFFFFFFFF \<Longrightarrow>
       \<exists>r'. rotate_read_key sm3 r = Some (Inr (), r') \<and> paired w' r' \<and> inner r' = inner r \<and> key_update_count r' = key_update_count r + 1"
    by (rule rotate_pair [where ?sm3.0 = sm3, OF laws(2) w1(1) w(4) w1(2)]) blast
  have sent: "send_key_update P sm3 T b w = Some (Inr (), w')" using s(1) w'(1) by (simp add: send_key_update_def write_handshake_record_def w1_def)
  have ok: "stream_ok w'" by (rule keeps_use [OF send_key_update_keeps [where ?sm3.0 = sm3, OF laws(2)] w(1) sent])
  have "consumed P sm3 T rx w w' (wire P ?plain w) 1"
    unfolding consumed_def
  proof (intro allI impI)
    fix r rest assume r: "paired w r" "stream_ok r" "rx (inner r) = wire P ?plain w @ rest" "unat (key_update_count r) + 1 < 2 ^ 64"
    have len: "length ?plain \<le> 24560" by (simp add: key_update_message_def key_update_to_bytes_def)
    obtain q where q: "rx q = rest" "read_record P sm3 T r =
        dispatch_record sm3 ?plain (r\<lparr>inner := q, read_seq := write_seq w + 1, cipher_dec := Some \<lparr>key_bytes = write_key w\<rparr>\<rparr>)"
      by (rule read_sealed [OF laws(4,1) r(1) stream_ok_keys [OF r(2)] stream_ok_keys [OF w(1)] w(2) len r(3)])
    define r1 where "r1 = r\<lparr>inner := q, read_seq := write_seq w + 1, cipher_dec := Some \<lparr>key_bytes = write_key w\<rparr>\<rparr>"
    have "paired w1 r1" using paired_next [OF r(1) w(1)] by (simp add: w1_def r1_def)
    moreover have "key_update_count r1 = key_update_count r" "inner r1 = q" by (simp_all add: r1_def)
    ultimately obtain r' where r': "rotate_read_key sm3 r1 = Some (Inr (), r')" "paired w' r'" "inner r' = q"
        "key_update_count r' = key_update_count r + 1" using rd [of r1] count_step(1) [OF r(4)] by auto
    define r'' where "r'' = (if b then r'\<lparr>key_update_pending := True\<rparr> else r')"
    have rec: "read_record P sm3 T r = Some (Inr None, r'')"
      using r'(1) by (simp add: q(2) dispatch_record_def process_key_update_message process_key_update_def r''_def record_consts flip: r1_def)
    have "stream_ok r''" by (rule keeps_use [OF read_record_keeps [where ?sm3.0 = sm3, OF laws(2)] r(2) rec])
    moreover have "read_application_data P sm3 T r = read_application_data P sm3 T r''"
      by (subst read_application_data.simps) (simp add: rec)
    moreover have "paired w' r''" "inner r'' = q" "key_update_count r'' = key_update_count r + 1" using r' by (simp_all add: r''_def paired_def)
    ultimately show "\<exists>r'. read_application_data P sm3 T r = read_application_data P sm3 T r' \<and> paired w' r' \<and> stream_ok r' \<and>
        rx (inner r') = rest \<and> unat (key_update_count r') \<le> unat (key_update_count r) + 1"
      using q(1) count_step(2) [OF r(4)] by (intro exI [of _ r'']) simp
  qed
  then show thesis
    using sent ok s(2) w' count_step(2) [OF w(5)] by (intro that) (simp_all add: w1_def f)
qed

section \<open>Application data\<close>

text \<open>A writer that can send: sequence number below the limit, a secret of 32 bytes where an update needs one.\<close>

definition can_send :: "'s GmTlsStream \<Rightarrow> bool" where
  "can_send w \<longleftrightarrow> stream_ok w \<and> write_seq w < GCM_CONFIDENTIALITY_LIMIT \<and>
     (key_update_pending w \<longrightarrow> write_traffic_secret w \<noteq> None) \<and> (\<forall>s. write_traffic_secret w = Some s \<longrightarrow> length s = 32)"

lemma limit_not_max: "x < GCM_CONFIDENTIALITY_LIMIT \<Longrightarrow> x \<noteq> 0xFFFFFFFFFFFFFFFF" "0 < GCM_CONFIDENTIALITY_LIMIT"
  by (auto simp: GCM_CONFIDENTIALITY_LIMIT_def)

text \<open>The two steps before a write send at most one key update each.\<close>

definition sends :: "sm4_crates \<Rightarrow> (bytes \<Rightarrow> bytes) \<Rightarrow> 's transport \<Rightarrow> ('s \<Rightarrow> bytes) \<Rightarrow> ('s \<Rightarrow> bytes) \<Rightarrow> ('s, unit) tls \<Rightarrow> 's GmTlsStream \<Rightarrow> 's GmTlsStream \<Rightarrow> bool" where
  "sends P sm3 T tx rx m w w' \<longleftrightarrow> m w = Some (Inr (), w') \<and> can_send w' \<and> unat (key_update_count w') \<le> unat (key_update_count w) + 1 \<and>
     (\<exists>data. tx (inner w') = tx (inner w) @ data \<and> consumed P sm3 T rx w w' data 1)"

lemma sends_key_update:
  assumes laws: "sm4_laws P" "\<And>x. length (sm3 x) = 32" "accepts T tx" "delivers T rx"
    and w: "can_send w" "write_traffic_secret w \<noteq> None" "unat (key_update_count w) + 1 < 2 ^ 64"
  shows "\<exists>w'. sends P sm3 T tx rx (send_key_update P sm3 T b) w w'"
proof -
  obtain sec where sec: "write_traffic_secret w = Some sec" "length sec = 32" using w(1,2) by (auto simp: can_send_def)
  have ok: "stream_ok w" "write_seq w \<noteq> 0xFFFFFFFFFFFFFFFF" using w(1) limit_not_max(1) by (auto simp: can_send_def)
  obtain w' sec' data where w': "send_key_update P sm3 T b w = Some (Inr (), w')" "stream_ok w'" "tx (inner w') = tx (inner w) @ data"
    "write_seq w' = 0" "write_traffic_secret w' = Some sec'" "length sec' = 32" "key_update_pending w' = key_update_pending w"
    "unat (key_update_count w') = unat (key_update_count w) + 1" "consumed P sm3 T rx w w' data 1"
    by (rule send_key_update_sync [where ?sm3.0 = sm3, OF laws ok sec w(3)])
  then show ?thesis unfolding sends_def can_send_def using limit_not_max(2) by (intro exI [of _ w']) auto
qed

lemma sends_nothing: "can_send w \<Longrightarrow> m w = Some (Inr (), w) \<Longrightarrow> sends P sm3 T tx rx m w w"
  by (auto simp: sends_def intro!: exI [of _ "[]"] consumed_nothing)

lemma sends_flush:
  assumes laws: "sm4_laws P" "\<And>x. length (sm3 x) = 32" "accepts T tx" "delivers T rx"
    and w: "can_send w" "unat (key_update_count w) + 1 < 2 ^ 64"
  shows "\<exists>w'. sends P sm3 T tx rx (flush_pending_key_update P sm3 T) w w'"
proof (cases "key_update_pending w")
  case True
  have "can_send (w\<lparr>key_update_pending := False\<rparr>)" "write_traffic_secret (w\<lparr>key_update_pending := False\<rparr>) \<noteq> None"
    using w(1) True by (simp_all add: can_send_def)
  then obtain w' where "sends P sm3 T tx rx (send_key_update P sm3 T False) (w\<lparr>key_update_pending := False\<rparr>) w'"
    using sends_key_update [where ?sm3.0 = sm3, OF laws] w(2) by fastforce
  moreover have "consumed P sm3 T rx w w' = consumed P sm3 T rx (w\<lparr>key_update_pending := False\<rparr>) w'" for w'
    by (simp add: consumed_def paired_def fun_eq_iff)
  ultimately show ?thesis using True by (auto simp: sends_def flush_pending_key_update_def)
next
  case False
  then show ?thesis by (intro exI [of _ w] sends_nothing [OF w(1)]) (simp add: flush_pending_key_update_def)
qed

lemma sends_auto:
  assumes laws: "sm4_laws P" "\<And>x. length (sm3 x) = 32" "accepts T tx" "delivers T rx"
    and w: "can_send w" "unat (key_update_count w) + 1 < 2 ^ 64"
  shows "\<exists>w'. sends P sm3 T tx rx (auto_key_update P sm3 T) w w'"
proof -
  have e: "\<not> is_key_exhausted w" using w(1) by (auto simp: can_send_def is_key_exhausted_def not_le)
  show ?thesis
  proof (cases "should_update_key w \<and> write_traffic_secret w \<noteq> None")
    case True
    then obtain w' where "sends P sm3 T tx rx (send_key_update P sm3 T False) w w'"
      using sends_key_update [where ?sm3.0 = sm3, OF laws w(1) _ w(2)] by blast
    then show ?thesis using True e by (auto simp: sends_def auto_key_update_def)
  next
    case False
    then show ?thesis using e by (intro exI [of _ w] sends_nothing [OF w(1)]) (auto simp: auto_key_update_def)
  qed
qed

lemma write_read:
  assumes laws: "sm4_laws P" "\<And>x. length (sm3 x) = 32" "accepts T tx" "delivers T rx"
    and w: "can_send w" "unat (key_update_count w) + 2 < 2 ^ 64" and len: "length data \<le> 24559"
  obtains w' sent where "write_application_data P sm3 T data w = Some (Inr (), w')" "tx (inner w') = tx (inner w) @ sent"
    "\<And>r rest. paired w r \<Longrightarrow> stream_ok r \<Longrightarrow> rx (inner r) = sent @ rest \<Longrightarrow> unat (key_update_count r) + 2 < 2 ^ 64 \<Longrightarrow>
      \<exists>r'. read_application_data P sm3 T r = Some (Inr data, r') \<and> paired w' r' \<and> stream_ok r' \<and> rx (inner r') = rest"
proof -
  obtain w1 a where w1: "flush_pending_key_update P sm3 T w = Some (Inr (), w1)" "can_send w1" "unat (key_update_count w1) \<le> unat (key_update_count w) + 1"
      "tx (inner w1) = tx (inner w) @ a" "consumed P sm3 T rx w w1 a 1"
    using sends_flush [where ?sm3.0 = sm3, OF laws w(1)] w(2) by (auto simp: sends_def)
  have "unat (key_update_count w1) + 1 < 2 ^ 64" using w(2) w1(3) by linarith
  then obtain w2 b where w2: "auto_key_update P sm3 T w1 = Some (Inr (), w2)" "can_send w2"
      "tx (inner w2) = tx (inner w1) @ b" "consumed P sm3 T rx w1 w2 b 1"
    using sends_auto [where ?sm3.0 = sm3, OF laws w1(2)] by (auto simp: sends_def)
  have ok: "stream_ok w2" "write_seq w2 \<noteq> 0xFFFFFFFFFFFFFFFF" using w2(2) limit_not_max(1) by (auto simp: can_send_def)
  let ?plain = "data @ [INNER_CONTENT_TYPE_APPLICATION_DATA]"
  obtain s where s: "io_bind (seal_record P ''GCM encrypt'' ?plain) (send_record T (length ?plain)) w2 = Some (Inr (), (sealed_state w2)\<lparr>inner := s\<rparr>)"
    "tx s = tx (inner w2) @ wire P ?plain w2" by (rule send_sealed [OF laws(3) ok])
  show thesis
  proof (rule that)
    show "write_application_data P sm3 T data w = Some (Inr (), (sealed_state w2)\<lparr>inner := s\<rparr>)"
      using w1(1) w2(1) s(1) by (simp add: write_application_data_def)
    show "tx (inner ((sealed_state w2)\<lparr>inner := s\<rparr>)) = tx (inner w) @ (a @ b) @ wire P ?plain w2" using s(2) w1(4) w2(3) by simp
    fix r rest assume r: "paired w r" "stream_ok r" "rx (inner r) = ((a @ b) @ wire P ?plain w2) @ rest" "unat (key_update_count r) + 2 < 2 ^ 64"
    then obtain r1 where r1: "read_application_data P sm3 T r = read_application_data P sm3 T r1" "paired w2 r1" "stream_ok r1"
        "rx (inner r1) = wire P ?plain w2 @ rest"
      using consumed_trans [OF w1(5) w2(4)] unfolding consumed_def by (metis append_assoc one_add_one)
    have l: "length ?plain \<le> 24560" using len by simp
    obtain q where q: "rx q = rest" "read_record P sm3 T r1 =
        dispatch_record sm3 ?plain (r1\<lparr>inner := q, read_seq := write_seq w2 + 1, cipher_dec := Some \<lparr>key_bytes = write_key w2\<rparr>\<rparr>)"
      by (rule read_sealed [OF laws(4,1) r1(2) stream_ok_keys [OF r1(3)] stream_ok_keys [OF ok(1)] ok(2) l r1(4)])
    define r' where "r' = r1\<lparr>inner := q, read_seq := write_seq w2 + 1, cipher_dec := Some \<lparr>key_bytes = write_key w2\<rparr>\<rparr>"
    have rec: "read_record P sm3 T r1 = Some (Inr (Some data), r')" by (simp add: q(2) dispatch_record_def flip: r'_def)
    have "read_application_data P sm3 T r = Some (Inr data, r')" unfolding r1(1) by (subst read_application_data.simps) (simp add: rec)
    moreover have "stream_ok r'" by (rule keeps_use [OF read_record_keeps [where ?sm3.0 = sm3, OF laws(2)] r1(3) rec])
    moreover have "paired ((sealed_state w2)\<lparr>inner := s\<rparr>) r'" using paired_next [OF r1(2) ok(1)] by (simp add: r'_def)
    ultimately show "\<exists>r'. read_application_data P sm3 T r = Some (Inr data, r') \<and> paired ((sealed_state w2)\<lparr>inner := s\<rparr>) r' \<and> stream_ok r' \<and> rx (inner r') = rest"
      using q(1) by (intro exI [of _ r']) (simp add: r'_def)
  qed
qed

section \<open>Properties\<close>

text \<open>
  C1. Over a reliable transport, every write of up to 24559 bytes by a stream below its record limit
  succeeds, and the reader of the peer returns exactly these bytes: also when the write first sends a
  key update that the peer asked for or one that the sequence number triggers. Afterwards the two
  streams are in step again and the reader stands behind the record.
\<close>

theorem record_roundtrip:
  assumes "sm4_laws P" "\<And>x. length (sm3 x) = 32" "accepts T tx" "delivers T rx"
    "can_send w" "unat (key_update_count w) + 2 < 2 ^ 64" "length data \<le> 24559"
    "paired w r" "stream_ok r" "unat (key_update_count r) + 2 < 2 ^ 64"
    "rx (inner r) = drop (length (tx (inner w))) (tx (inner (snd (the (write_application_data P sm3 T data w))))) @ rest"
  shows "\<exists>w' r'. write_application_data P sm3 T data w = Some (Inr (), w') \<and>
    read_application_data P sm3 T r = Some (Inr data, r') \<and> paired w' r' \<and> stream_ok w' \<and> stream_ok r' \<and> rx (inner r') = rest"
proof -
  obtain w' sent where w': "write_application_data P sm3 T data w = Some (Inr (), w')" "tx (inner w') = tx (inner w) @ sent"
    and rd: "\<And>r rest. paired w r \<Longrightarrow> stream_ok r \<Longrightarrow> rx (inner r) = sent @ rest \<Longrightarrow> unat (key_update_count r) + 2 < 2 ^ 64 \<Longrightarrow>
      \<exists>r'. read_application_data P sm3 T r = Some (Inr data, r') \<and> paired w' r' \<and> stream_ok r' \<and> rx (inner r') = rest"
    by (rule write_read [where ?sm3.0 = sm3, OF assms(1-7)]) blast
  have "stream_ok w" using assms(5) by (simp add: can_send_def)
  then have "stream_ok w'" by (rule keeps_use [OF write_application_data_keeps [where ?sm3.0 = sm3, OF assms(2)] _ w'(1)])
  moreover have "rx (inner r) = sent @ rest" using assms(11) w' by simp
  ultimately show ?thesis using rd [OF assms(8,9) _ assms(10)] w'(1) by blast
qed

definition demo_keys :: SessionKeys where
  "demo_keys = \<lparr>client_key = replicate 16 1, client_nonce = replicate 12 2, server_key = replicate 16 3, server_nonce = replicate 12 4\<rparr>"

lemma demo_stream_ok: "stream_ok (stream_new s demo_keys b cert protocol)"
  unfolding stream_new_def by (rule stream_new_ok) (simp_all add: demo_keys_def)

theorem record_roundtrip_witness:
  "\<exists>w' r' input. write_application_data xor_crates sum_sm3 queue_transport [1, 2, 3] (stream_new ([], []) demo_keys True None None) = Some (Inr (), w') \<and>
     read_application_data xor_crates sum_sm3 queue_transport (stream_new (input, []) demo_keys False None None) = Some (Inr [1, 2, 3], r')"
proof -
  let ?w = "stream_new ([] :: bytes, [] :: bytes) demo_keys True None None"
  let ?r = "\<lambda>input. stream_new (input :: bytes, [] :: bytes) demo_keys False None None"
  define input where "input = drop (length (snd (inner ?w))) (snd (inner (snd (the (write_application_data xor_crates sum_sm3 queue_transport [1, 2, 3] ?w)))))"
  have f: "write_seq ?w = 0" "key_update_count ?w = 0" "key_update_pending ?w = False" "write_traffic_secret ?w = None" "paired ?w (?r i)"
      "key_update_count (?r i) = 0" "inner (?r i) = (i, [])" for i
    by (simp_all add: stream_new_def stream_with_version_def paired_def)
  have w: "can_send ?w" "unat (key_update_count ?w) + 2 < 2 ^ 64" using limit_not_max(2) by (simp_all add: can_send_def f demo_stream_ok)
  have r: "unat (key_update_count (?r input)) + 2 < 2 ^ 64" by (simp add: f)
  have i: "fst (inner (?r input)) = drop (length (snd (inner ?w))) (snd (inner (snd (the (write_application_data xor_crates sum_sm3 queue_transport [1, 2, 3] ?w))))) @ []"
    by (simp only: f(7) fst_conv append_Nil2 input_def)
  have d: "length [1, 2, 3 :: u8] \<le> 24559" by simp
  from record_roundtrip [where ?sm3.0 = sum_sm3, OF xor_crates_laws length_sum_sm3 queue_transport_reliable w d f(5) demo_stream_ok r i]
  show ?thesis by blast
qed

text \<open>
  C7. Every stream that the public operations can reach from a new one, over any transport that keeps
  the contract of \<open>AsyncRead\<close>, is well formed: keys of 16 bytes and nonces of 12, cached ciphers that
  match the current keys, read positions inside their buffers, and a nonce cache that holds only
  nonces of sequence numbers already used.
\<close>

theorem stream_well_formed:
  assumes "\<And>x. length (sm3 x) = 32" "fits_buffer T" "stream_reach P sm3 T st"
  shows "stream_ok st"
  using stream_reach_ok [where ?sm3.0 = sm3, OF assms] .

theorem stream_well_formed_witness: "stream_ok (set_traffic_secrets [] [] (stream_new ([] :: bytes, [] :: bytes) demo_keys True None None))"
proof -
  have "stream_reach xor_crates sum_sm3 queue_transport (set_traffic_secrets [] [] (stream_new ([], []) demo_keys True None None))"
    unfolding stream_new_def by (intro stream_reach.secrets stream_reach.new) (simp_all add: demo_keys_def)
  from stream_well_formed [where ?sm3.0 = sum_sm3, OF length_sum_sm3 queue_transport_fits this] show ?thesis .
qed



text \<open>
  C38. A message of 24560 to 65518 bytes is written without error, but the reader of the peer rejects
  the record for its size.
\<close>

theorem oversized_record_rejected:
  assumes "sm4_laws P" "accepts T tx" "delivers T rx" "stream_ok w" "write_seq w < KEY_UPDATE_THRESHOLD" "\<not> key_update_pending w"
    "24559 < length data" "length data \<le> 65518"
    "rx (inner r) = drop (length (tx (inner w))) (tx (inner (snd (the (write_application_data P sm3 T data w)))))"
  shows "\<exists>w' r'. write_application_data P sm3 T data w = Some (Inr (), w') \<and>
    read_application_data P sm3 T r = Some (Inl (HandshakeFailed ''record exceeds size limit''), r')"
proof -
  let ?plain = "data @ [INNER_CONTENT_TYPE_APPLICATION_DATA]"
  have t: "KEY_UPDATE_THRESHOLD < GCM_CONFIDENTIALITY_LIMIT" by (simp add: KEY_UPDATE_THRESHOLD_def GCM_CONFIDENTIALITY_LIMIT_def)
  then have ex: "\<not> is_key_exhausted w" "\<not> should_update_key w" using assms(5) by (auto simp: is_key_exhausted_def should_update_key_def)
  have seq: "write_seq w \<noteq> 0xFFFFFFFFFFFFFFFF" using assms(5) t limit_not_max(1) by (metis less_trans)
  obtain s where s: "io_bind (seal_record P ''GCM encrypt'' ?plain) (send_record T (length ?plain)) w = Some (Inr (), (sealed_state w)\<lparr>inner := s\<rparr>)"
    "tx s = tx (inner w) @ wire P ?plain w" by (rule send_sealed [OF assms(2,4) seq])
  then have wr: "write_application_data P sm3 T data w = Some (Inr (), (sealed_state w)\<lparr>inner := s\<rparr>)"
    using ex assms(6) by (simp add: write_application_data_def flush_pending_key_update_def auto_key_update_def)
  define hdr where "hdr = record_header (version w) (length ?plain + 16)"
  have "length ?plain + 16 < 65536" "length (version w) = 2" using assms(4,8) by (simp_all add: stream_ok_defs)
  then have hdr: "length hdr = 5" "hdr ! 0 = RECORD_TYPE_APPLICATION_DATA" "header_len hdr = length ?plain + 16"
    using record_header_fields [of "version w" "length ?plain + 16"] by (simp_all add: hdr_def)
  have rx: "take 5 (rx (inner r)) = hdr" "5 \<le> length (rx (inner r))" using assms(9) wr s(2) hdr(1) by (simp_all add: wire_def hdr_def)
  then obtain q where "read_exact T 5 (inner r) = (Inr hdr, q)" using assms(3) unfolding delivers_def by metis
  moreover have "check_header ''record too short'' ''record exceeds size limit'' hdr = Inl (HandshakeFailed ''record exceeds size limit'')"
    using hdr assms(7) by (simp add: check_header_def MAX_RECORD_SIZE_def)
  ultimately have "read_record P sm3 T r = Some (Inl (HandshakeFailed ''record exceeds size limit''), r\<lparr>inner := q\<rparr>)"
    by (simp add: read_record_def inner_read_exact_def)
  then have "read_application_data P sm3 T r = Some (Inl (HandshakeFailed ''record exceeds size limit''), r\<lparr>inner := q\<rparr>)"
    by (subst read_application_data.simps) simp
  then show ?thesis using wr by blast
qed

theorem oversized_record_rejected_witness:
  "\<exists>w' r' input. write_application_data xor_crates sum_sm3 queue_transport (replicate 30000 7) (stream_new ([], []) demo_keys True None None) = Some (Inr (), w') \<and>
     read_application_data xor_crates sum_sm3 queue_transport (stream_new (input, []) demo_keys False None None) =
       Some (Inl (HandshakeFailed ''record exceeds size limit''), r')"
proof -
  let ?w = "stream_new ([] :: bytes, [] :: bytes) demo_keys True None None"
  define input where "input = drop (length (snd (inner ?w))) (snd (inner (snd (the (write_application_data xor_crates sum_sm3 queue_transport (replicate 30000 7) ?w)))))"
  have w: "write_seq ?w < KEY_UPDATE_THRESHOLD" "\<not> key_update_pending ?w"
    by (simp_all add: stream_new_def stream_with_version_def KEY_UPDATE_THRESHOLD_def)
  have d: "24559 < length (replicate 30000 (7 :: u8))" "length (replicate 30000 (7 :: u8)) \<le> 65518" by simp_all
  have i: "fst (inner (stream_new (input, [] :: bytes) demo_keys False None None)) =
      drop (length (snd (inner ?w))) (snd (inner (snd (the (write_application_data xor_crates sum_sm3 queue_transport (replicate 30000 7) ?w)))))"
    by (simp only: input_def [symmetric]) (simp add: stream_new_def stream_with_version_def)
  from oversized_record_rejected [OF xor_crates_laws queue_transport_reliable demo_stream_ok w d i] show ?thesis by blast
qed

end
