(* ===== verification/Tls_Framing.thy ===== *)
theory Tls_Framing
  imports Tls_Record
begin

text \<open>
  Fragmentation of the polled interface of the record layer: however the transport cuts the incoming
  bytes, \<open>poll_read\<close> neither loses nor repeats any, and takes whole records from the front. The polled
  writer has no such state, and what a pending write leaves behind is stated as well.
\<close>

section \<open>Partial records\<close>


definition unread :: "('s \<Rightarrow> bytes) \<Rightarrow> 's GmTlsStream \<Rightarrow> bytes" where
  "unread rx st =
     take (header_filled (read_state st)) (header (read_state st)) @ take (body_filled (read_state st)) (body (read_state st)) @ rx (inner st)"

definition framing_ok :: "ReadState \<Rightarrow> bool" where
  "framing_ok rs \<longleftrightarrow> length (header rs) = 5 \<and> header_filled rs \<le> 5 \<and> length (body rs) = ct_len rs \<and> body_filled rs \<le> ct_len rs \<and>
     (header_filled rs < 5 \<longrightarrow> ct_len rs = 0) \<and> (header_filled rs = 5 \<longrightarrow> ct_len rs \<in> {0, header_len (header rs)})"

lemma fill_buffer_bytes:
  "fill_buffer T eof buf filled s = (r, buf', filled', s') \<Longrightarrow> polled T rx \<Longrightarrow> filled \<le> length buf \<Longrightarrow>
    take filled buf @ rx s = take filled' buf' @ rx s'"
proof (induction T eof buf filled s rule: fill_buffer.induct)
  case (1 T eof buf filled s)
  obtain p s1 where p: "inner_poll_read T (length buf - filled) s = (p, s1)" by force
  consider (more) chunk where "filled < length buf" "p = Ready (Inr chunk)" "length chunk \<noteq> 0"
    | (stop) "filled < length buf" "\<nexists>chunk. p = Ready (Inr chunk) \<and> length chunk \<noteq> 0" | (full) "\<not> filled < length buf" by blast
  then show ?case
  proof cases
    case more
    then have c: "length chunk \<le> length buf - filled" "rx s = chunk @ rx s1" using polled_chunk [OF "1.prems"(2)] p by blast+
    have "fill_buffer T eof (take filled buf @ chunk @ drop (filled + length chunk) buf) (filled + length chunk) s1 = (r, buf', filled', s')"
      using "1.prems"(1) more p by (subst (asm) fill_buffer.simps) simp
    from "1.IH" [OF more(1) p [symmetric] more(2) refl more(3) this "1.prems"(2)] show ?thesis using c more by simp
  next
    case stop
    then have "rx s1 = rx s" by (intro polled_none [OF "1.prems"(2) p]) simp
    then show ?thesis using stop "1.prems" p by (subst (asm) fill_buffer.simps) (auto split: poll.splits sum.splits)
  next
    case full
    then show ?thesis using "1.prems" by (subst (asm) fill_buffer.simps) auto
  qed
qed

lemma poll_fill_header_framing:
  assumes "framing_ok (read_state st)" "polled T rx" "poll_fill_header T st = (r, st')"
  shows "unread rx st' = unread rx st" "framing_ok (read_state st')" "r = None \<longrightarrow> header_filled (read_state st') = 5"
proof -
  let ?rs = "read_state st"
  obtain buf filled s where f: "fill_buffer T ''TLS record header read incomplete'' (header ?rs) (header_filled ?rs) (inner st) = (r, buf, filled, s)"
    and st': "st' = st\<lparr>read_state := ?rs\<lparr>header := buf, header_filled := filled\<rparr>, inner := s\<rparr>"
    using assms(3) by (auto simp: poll_fill_header_def Let_def split: prod.splits)
  have le: "header_filled ?rs \<le> length (header ?rs)" "length (header ?rs) = 5" using assms(1) by (simp_all add: framing_ok_def)
  note l = fill_buffer_length [OF f polled_fits [OF assms(2)] le(1)]
  have stay: "filled = header_filled ?rs \<and> buf = header ?rs" if "header_filled ?rs = 5"
    using f that le(2) by (subst (asm) fill_buffer.simps) simp
  have ct: "ct_len ?rs = 0 \<or> header_filled ?rs = 5" using assms(1) by (auto simp: framing_ok_def)
  then have b: "header_filled ?rs = 5 \<or> take (body_filled ?rs) (body ?rs) = []" using assms(1) by (auto simp: framing_ok_def)
  have "take (header_filled ?rs) (header ?rs) @ rx (inner st) = take filled buf @ rx s" by (rule fill_buffer_bytes [OF f assms(2) le(1)])
  then show "unread rx st' = unread rx st" using b stay f le(2) by (auto simp: unread_def st' fill_buffer.simps [of T _ "header ?rs" 5])
  show "framing_ok (read_state st')" using ct assms(1) l stay le by (auto simp: framing_ok_def st')
  show "r = None \<longrightarrow> header_filled (read_state st') = 5" using l le by (simp add: st')
qed

lemma poll_fill_body_framing:
  assumes "framing_ok (read_state st)" "polled T rx" "header_filled (read_state st) = 5" "poll_fill_body T st = (r, st')"
  shows "unread rx st' = unread rx st" "framing_ok (read_state st')" "header (read_state st') = header (read_state st)" "header_filled (read_state st') = 5"
    "length (body (read_state st')) = header_len (header (read_state st))" "r = None \<longrightarrow> body_filled (read_state st') = length (body (read_state st'))"
proof -
  let ?rs = "poll_alloc_body (header_len (header (read_state st))) (read_state st)"
  obtain buf filled s where f: "fill_buffer T ''TLS record read incomplete'' (body ?rs) (body_filled ?rs) (inner st) = (r, buf, filled, s)"
    and st': "st' = st\<lparr>read_state := ?rs\<lparr>body := buf, body_filled := filled\<rparr>, inner := s\<rparr>"
    using assms(4) by (auto simp: poll_fill_body_def Let_def split: prod.splits)
  have rs: "body_filled ?rs \<le> length (body ?rs)" "length (body ?rs) = header_len (header (read_state st))" "ct_len ?rs = header_len (header (read_state st))"
    "header ?rs = header (read_state st)" "header_filled ?rs = 5" "take (body_filled ?rs) (body ?rs) = take (body_filled (read_state st)) (body (read_state st))"
    using assms(1,3) by (auto simp: framing_ok_def poll_alloc_body_def)
  note l = fill_buffer_length [OF f polled_fits [OF assms(2)] rs(1)]
  show "unread rx st' = unread rx st"
    using fill_buffer_bytes [OF f assms(2) rs(1)] rs(4,5,6) assms(3) by (simp add: unread_def st')
  show "framing_ok (read_state st')" using assms(1) l rs by (simp add: framing_ok_def st')
  show "header (read_state st') = header (read_state st)" "header_filled (read_state st') = 5"
    "length (body (read_state st')) = header_len (header (read_state st))" "r = None \<longrightarrow> body_filled (read_state st') = length (body (read_state st'))"
    using l rs by (simp_all add: st')
qed

text \<open>Opening and dispatching a record touch neither the transport nor the partial record.\<close>

lemma get_cipher_dec_frame: "get_cipher_dec st = Some (r, st') \<Longrightarrow> read_state st' = read_state st \<and> inner st' = inner st"
  by (auto simp: get_cipher_dec_def split: option.splits sum.splits)

lemma get_cipher_dec_some: "get_cipher_dec st \<noteq> None"
  by (auto simp: get_cipher_dec_def split: option.splits sum.splits)

lemma poll_open_record_frame:
  assumes "poll_open_record P hdr buf st = (r, st')"
  shows "read_state st' = read_state st \<and> inner st' = inner st"
proof (cases "next_nonce (read_nonce st) (read_seq st)")
  case (Inl e)
  then show ?thesis using assms by (simp add: poll_open_record_def)
next
  case (Inr n)
  obtain x s where x: "get_cipher_dec (st\<lparr>read_seq := read_seq st + 1\<rparr>) = Some (x, s)"
    using get_cipher_dec_some by (metis not_None_eq surj_pair)
  show ?thesis using assms Inr x get_cipher_dec_frame [OF x]
    by (cases x) (auto simp: poll_open_record_def Let_def split: if_splits)
qed

definition same_input :: "'s GmTlsStream \<Rightarrow> 's GmTlsStream \<Rightarrow> bool" where
  "same_input st st' \<longleftrightarrow> read_state st' = read_state st \<and> inner st' = inner st"

lemma process_inner_handshake_frame:
  assumes "process_inner_handshake sm3 msg st = Some (r, st')"
  shows "same_input st st'"
proof -
  have rot: "keeps (same_input st) (rotate_read_key sm3)"
    by (rule keeps_state) (auto simp: same_input_def rotate_read_key_def count_key_update_def split: sum.splits if_splits)
  have upd: "keeps (same_input st) (process_key_update sm3 req)" for req
    unfolding process_key_update_def Let_def by (intro keeps_bind rot) (auto simp: keeps_def same_input_def)
  have "keeps (same_input st) (process_inner_handshake sm3 msg)"
    unfolding process_inner_handshake_def Let_def by (auto intro!: keeps_rules upd)
  moreover have "same_input st st" by (simp add: same_input_def)
  ultimately show ?thesis using assms by (rule keeps_use)
qed

lemma poll_dispatch_frame:
  assumes "poll_dispatch sm3 n plain st = Some (r, st')"
  shows "same_input st st'"
proof -
  have d: "same_input st (snd (drain_read_buf n (st\<lparr>read_buf := x, read_buf_pos := 0\<rparr>)))" for x
    by (simp add: same_input_def drain_read_buf_def Let_def)
  show ?thesis using poll_dispatch_cases [OF assms]
  proof (elim disjE exE)
    fix x assume "process_inner_handshake sm3 (butlast plain) st = Some (x, st')"
    then show ?thesis by (rule process_inner_handshake_frame)
  next
    assume "st' = snd (drain_read_buf n (st\<lparr>read_buf := butlast plain, read_buf_pos := 0\<rparr>))"
    then show ?thesis by (simp only: d)
  qed (simp add: same_input_def)
qed

lemma unread_same: "same_input st st' \<Longrightarrow> unread rx st' = unread rx st"
  by (simp add: same_input_def unread_def)

section \<open>Properties\<close>

text \<open>
  C8. However the transport fragments the incoming bytes, a \<^const>\<open>poll_read\<close> either leaves the sequence of
  unread bytes (the buffered part of a record followed by what the transport still has) unchanged, or
  removes exactly one whole record from its front; the partial record stays consistent.
\<close>

theorem poll_read_framing:
  assumes "framing_ok (read_state st)" "polled T rx" "poll_read P sm3 T n st = Some (r, st')"
  shows "framing_ok (read_state st') \<and>
    (unread rx st' = unread rx st \<or>
     (\<exists>hdr ct. length hdr = 5 \<and> length ct = header_len hdr \<and> unread rx st = hdr @ ct @ unread rx st'))"
proof (cases "read_buf_pos st < length (read_buf st)")
  case True
  then have "same_input st st'" using assms(3) by (auto simp: poll_read_def drain_read_buf_def Let_def same_input_def)
  then show ?thesis using assms(1) unread_same [of st st' rx] by (simp add: same_input_def)
next
  case False
  obtain r1 s1 where 1: "poll_fill_header T st = (r1, s1)" by force
  note f1 = poll_fill_header_framing [OF assms(1,2) 1]
  show ?thesis
  proof (cases "r1 = None \<and> poll_check_header (header (read_state s1)) = Inr ()")
    case False
    then have "st' = s1" using assms(3) 1 \<open>\<not> _ < _\<close>
      by (cases r1; cases "poll_check_header (header (read_state s1))") (simp_all add: poll_read_def)
    then show ?thesis using f1 by simp
  next
    case True
    then have h5: "header_filled (read_state s1) = 5" using f1(3) by simp
    obtain r2 s2 where 2: "poll_fill_body T s1 = (r2, s2)" by force
    note f2 = poll_fill_body_framing [OF f1(2) assms(2) h5 2]
    let ?hdr = "header (read_state s2)" and ?ct = "body (read_state s2)" and ?s = "s2\<lparr>read_state := read_state_reset (read_state s2)\<rparr>"
    obtain r3 s3 where 3: "poll_open_record P ?hdr ?ct ?s = (r3, s3)" by force
    show ?thesis
    proof (cases r2)
      case (Some x)
      then have "st' = s2" using assms(3) 1 2 True \<open>\<not> _ < _\<close> by (simp add: poll_read_def)
      then show ?thesis using f1 f2 by simp
    next
      case None
      then have "st' = s3 \<or> (\<exists>plain. poll_dispatch sm3 n plain s3 = Some (r, st'))"
        using assms(3) 1 2 3 True \<open>\<not> _ < _\<close> by (cases r3) (auto simp: poll_read_def Let_def)
      then have same: "same_input ?s st'"
        using poll_open_record_frame [OF 3] poll_dispatch_frame by (fastforce simp: same_input_def)
      have "unread rx s2 = ?hdr @ ?ct @ rx (inner s2)" "length ?hdr = 5" "length ?ct = header_len ?hdr"
        using f2 None by (simp_all add: unread_def framing_ok_def)
      moreover have "unread rx st' = rx (inner s2)" "framing_ok (read_state st')"
        using same by (simp_all add: same_input_def unread_def read_state_reset_def framing_ok_def)
      ultimately show ?thesis using f1(1) f2(1) by metis
    qed
  qed
qed

theorem poll_read_framing_witness:
  "\<exists>r st'. poll_read xor_crates sum_sm3 byte_transport 4 (stream_new [0x16, 3, 3, 0, 0, 9]
       \<lparr>client_key = replicate 16 1, client_nonce = replicate 12 2, server_key = replicate 16 3, server_nonce = replicate 12 4\<rparr> True None None) = Some (r, st') \<and>
     framing_ok (read_state st')"
proof -
  let ?st = "stream_new [0x16, 3, 3, 0, 0, 9]
    \<lparr>client_key = replicate 16 1, client_nonce = replicate 12 2, server_key = replicate 16 3, server_nonce = replicate 12 4\<rparr> True None None"
  have ok: "framing_ok (read_state ?st)"
    by (simp add: stream_new_def stream_with_version_def read_state_default_def framing_ok_def)
  have fill: "fill_buffer byte_transport eof (replicate 5 0) 0 [0x16, 3, 3, 0, 0, 9] = (None, [0x16, 3, 3, 0, 0], 5, [9])" for eof
    by (simp add: fill_buffer.simps byte_transport_def eval_nat_numeral)
  have "poll_fill_header byte_transport ?st =
      (None, ?st\<lparr>read_state := read_state_default\<lparr>header := [0x16, 3, 3, 0, 0], header_filled := 5\<rparr>, inner := [9]\<rparr>)"
    by (simp add: poll_fill_header_def stream_new_def stream_with_version_def read_state_default_def fill Let_def)
  then have "\<exists>r st'. poll_read xor_crates sum_sm3 byte_transport 4 ?st = Some (r, st')"
    by (simp add: poll_read_def stream_new_def stream_with_version_def poll_check_header_def RECORD_TYPE_APPLICATION_DATA_def)
  then obtain r st' where r: "poll_read xor_crates sum_sm3 byte_transport 4 ?st = Some (r, st')" by blast
  from poll_read_framing [OF ok byte_transport_polled r] r show ?thesis by blast
qed

text \<open>
  A \<^const>\<open>poll_write\<close> that becomes pending after the first header byte has already used up a sequence
  number and left that byte on the wire, and keeps no record of it: the writer and the reader of its
  peer are no longer in step.
\<close>

theorem poll_write_pending_loses_step:
  assumes "stream_ok st" "write_seq st < 0xFFFFFFFFFFFFFFFF" "sm4_laws P" "length data \<le> 60000"
    "inner_poll_write T [0x17] (inner st) = (Ready (Inr 1), s1)" "inner_poll_write T (version st) s1 = (Pending, s2)"
  shows "\<exists>st'. poll_write P T data st = Some (Pending, st') \<and> inner st' = s2 \<and> write_seq st' = write_seq st + 1"
proof -
  let ?plain = "data @ [INNER_CONTENT_TYPE_APPLICATION_DATA]"
  have k: "keys_ok (st\<lparr>write_seq := write_seq st + 1\<rparr>)" "length (write_nonce st) = 12" using assms(1) by (simp_all add: stream_ok_defs)
  define n where "n = nonce_of (write_nonce st) (write_seq st)"
  define e where "e = apply_keystream P (write_key st) (inc32 (gcm_j0 n)) ?plain"
  define tag where "tag = gcm_tag P (write_key st) (gcm_j0 n) (u64_to_be (write_seq st) @ record_header (version st) (length ?plain + 16)) e"
  have "write_seq st \<noteq> 0xFFFFFFFFFFFFFFFF" using assms(2) by auto
  then have seal: "poll_seal_record P ?plain st = (Inr (e, tag), st\<lparr>write_seq := write_seq st + 1, cipher_enc := Some \<lparr>key_bytes = write_key st\<rparr>\<rparr>)"
    using get_cipher_enc_ok [OF k(1)]
    by (simp add: poll_seal_record_def next_nonce_eq [OF k(2)] encrypt_gcm_12 n_def e_def tag_def Let_def)
  have "length e = length data + 1" using assms(3) by (simp add: e_def sm4_laws_def)
  then have l: "\<not> (word_of_nat (length e + length tag) :: u16) > 0xFFFF - 1024"
    using assms(4) by (simp add: tag_def word_less_nat_alt unsigned_of_nat take_bit_nat_eq_self not_less del: of_nat_add)
  show ?thesis using assms(5,6) l
    by (simp add: poll_write_def seal poll_write_exact_def RECORD_TYPE_APPLICATION_DATA_def Let_def)
qed

theorem poll_write_pending_loses_step_witness:
  "\<exists>st'. poll_write xor_crates stalling_transport [1, 2, 3] (stream_new 0
       \<lparr>client_key = replicate 16 1, client_nonce = replicate 12 2, server_key = replicate 16 3, server_nonce = replicate 12 4\<rparr> True None None) =
       Some (Pending, st') \<and> inner st' = 1 \<and> write_seq st' = 1"
proof -
  let ?st = "stream_new (0 :: nat)
    \<lparr>client_key = replicate 16 1, client_nonce = replicate 12 2, server_key = replicate 16 3, server_nonce = replicate 12 4\<rparr> True None None"
  have st: "stream_ok ?st" unfolding stream_new_def by (rule stream_new_ok) simp_all
  have f: "write_seq ?st = 0" "inner ?st = 0" "version ?st = [3, 3]" by (simp_all add: stream_new_def stream_with_version_def)
  show ?thesis
    using poll_write_pending_loses_step [OF st _ xor_crates_laws, of "[1, 2, 3]" stalling_transport 1 1] unfolding f
    by (simp add: stalling_transport_def)
qed

end
