(* ===== verification/Tls_Ticket.thy ===== *)
theory Tls_Ticket
  imports Tls_Kdf Gm_Rng
begin

text \<open>
  Session tickets of \<open>gm-tls\<close>: the ticket keys, encryption and decryption of tickets
  (\<open>session_ticket.rs\<close>) and the replay stores (\<open>session_store.rs\<close>). The serialiser \<open>postcard\<close>, the
  random generator, the databases and the clock reading are parameters.
  Shown: tickets round-trip once and are then rejected, against any store that keeps the contract of
  \<open>SessionStore\<close>; how long the in-memory store keeps it; and that key rotation as documented never
  changes the encryption key.
\<close>

section \<open>Tickets and their keys\<close>

definition MAX_TICKET_LIFETIME :: u64 where
  "MAX_TICKET_LIFETIME = 86400"

definition MAX_SESSION_TICKET_SIZE :: nat where
  "MAX_SESSION_TICKET_SIZE = 64 * 1024"

record SessionState =
  ss_master_secret :: bytes
  ss_session_keys :: SessionKeys
  ss_client_traffic_secret :: "bytes option"
  ss_server_traffic_secret :: "bytes option"
  ss_server_random :: bytes
  ss_client_random :: bytes
  ss_alpn :: "string option"
  ss_lifetime_hint :: u32
  ss_require_client_auth :: bool
  ss_created_at :: u64

record SessionTicket =
  encrypted_ticket :: bytes
  ticket_version :: "16 word"

record TicketKey =
  tk_id :: u8
  tk_secret :: bytes

record TicketKeySet =
  tk_keys :: "TicketKey list"

definition key_set_new :: "TicketKey \<Rightarrow> TicketKeySet" where
  "key_set_new key = \<lparr>tk_keys = [key]\<rparr>"

definition add_key :: "TicketKey \<Rightarrow> TicketKeySet \<Rightarrow> TicketKeySet" where
  "add_key key ks = ks\<lparr>tk_keys := tk_keys ks @ [key]\<rparr>"

definition with_key :: "TicketKeySet \<Rightarrow> TicketKey \<Rightarrow> TicketKeySet" where
  "with_key ks key = ks\<lparr>tk_keys := tk_keys ks @ [key]\<rparr>"

fun remove_first :: "u8 \<Rightarrow> TicketKey list \<Rightarrow> TicketKey list option" where
  "remove_first kid [] = None"
| "remove_first kid (k # ks) = (if tk_id k = kid then Some ks else map_option ((#) k) (remove_first kid ks))"

definition remove_key :: "u8 \<Rightarrow> TicketKeySet \<Rightarrow> bool \<times> TicketKeySet" where
  "remove_key kid ks =
     (if (case tk_keys ks of [] \<Rightarrow> False | k # _ \<Rightarrow> tk_id k = kid) \<and> length (tk_keys ks) > 1 then (False, ks)
      else case remove_first kid (tk_keys ks) of
             Some keys \<Rightarrow> (True, ks\<lparr>tk_keys := keys\<rparr>)
           | None \<Rightarrow> (False, ks))"

definition primary_key :: "TicketKeySet \<Rightarrow> TicketKey option" where
  "primary_key ks = (case tk_keys ks of [] \<Rightarrow> None | k # _ \<Rightarrow> Some k)"

definition find_key :: "u8 \<Rightarrow> TicketKeySet \<Rightarrow> TicketKey option" where
  "find_key kid ks = find (\<lambda>k. tk_id k = kid) (tk_keys ks)"

datatype TicketErrorClass = ReplayDetected | Expired | TamperedOrForged | Other

fun classify_ticket_error :: "TlsError \<Rightarrow> TicketErrorClass" where
  "classify_ticket_error SessionTicketReplay = ReplayDetected"
| "classify_ticket_error SessionTicketExpired = Expired"
| "classify_ticket_error (SessionTicketInvalid _) = TamperedOrForged"
| "classify_ticket_error _ = Other"

definition create_session_state ::
  "u64 \<Rightarrow> bytes \<Rightarrow> SessionKeys \<Rightarrow> bytes option \<Rightarrow> bytes option \<Rightarrow> bytes \<Rightarrow> bytes \<Rightarrow> string option \<Rightarrow> u32 \<Rightarrow> bool \<Rightarrow> SessionState" where
  "create_session_state now master keys cts sts server_random client_random protocol lifetime auth =
     \<lparr>ss_master_secret = master, ss_session_keys = keys, ss_client_traffic_secret = cts, ss_server_traffic_secret = sts,
      ss_server_random = server_random, ss_client_random = client_random, ss_alpn = protocol, ss_lifetime_hint = lifetime,
      ss_require_client_auth = auth, ss_created_at = now\<rparr>"

section \<open>Encryption and decryption\<close>

record postcard =
  to_allocvec :: "SessionState \<Rightarrow> (string, bytes) res"
  from_bytes :: "bytes \<Rightarrow> (string, SessionState) res"

definition serialize :: "postcard \<Rightarrow> SessionState \<Rightarrow> (TlsError, bytes) res" where
  "serialize C msg = map_err SerializationFailed (to_allocvec C msg)"

definition deserialize :: "postcard \<Rightarrow> bytes \<Rightarrow> (TlsError, SessionState) res" where
  "deserialize C data = map_err SerializationFailed (from_bytes C data)"

definition derive_ticket_sm4_key :: "(bytes \<Rightarrow> bytes) \<Rightarrow> bytes \<Rightarrow> (TlsError, bytes) res" where
  "derive_ticket_sm4_key sm3 ticket_key =
     bind_res (map_err (\<lambda>e. HandshakeFailed (''SM3 hash failed: '' @ display_crypto_error e))
                 (sm3_hash sm3 (ticket_key @ ascii ''GM/TLS-session-ticket'')))
       (\<lambda>hash. Inr (take 16 hash))"

definition encrypt_session_ticket ::
  "sm4_crates \<Rightarrow> (bytes \<Rightarrow> bytes) \<Rightarrow> postcard \<Rightarrow> 'r rng \<Rightarrow> SessionState \<Rightarrow> TicketKeySet \<Rightarrow> ('r, TlsError, SessionTicket) io" where
  "encrypt_session_ticket P sm3 C fill state key_set =
     io_bind (io_lift (Some (ok_or (primary_key key_set) (HandshakeFailed ''ticket key set is empty'')))) (\<lambda>key.
     io_bind (io_lift (Some (map_err (\<lambda>e. HandshakeFailed (''session state serialization failed: '' @ display_tls_error e)) (serialize C state)))) (\<lambda>state_bytes.
     io_bind (\<lambda>r. let (nonce, r') = fill r SM4_GCM_NONCE_LENGTH in Some (Inr nonce, r')) (\<lambda>nonce.
     io_bind (io_lift (Some (derive_ticket_sm4_key sm3 (tk_secret key)))) (\<lambda>derived_key.
     io_bind (io_lift (Some (map_err (\<lambda>e. HandshakeFailed (''failed to create encryptor: '' @ display_crypto_error e)) (sm4_new derived_key)))) (\<lambda>cipher.
     io_bind (io_lift (Some (map_err (\<lambda>e. HandshakeFailed (''session ticket encryption failed: '' @ display_crypto_error e)) (encrypt_gcm P cipher state_bytes nonce [])))) (\<lambda>(encrypted, tag).
       io_return \<lparr>encrypted_ticket = [tk_id key] @ nonce @ tag @ encrypted, ticket_version = 1\<rparr>))))))"

text \<open>The operations of the trait \<open>SessionStore\<close> on the state of a store.\<close>

record 's SessionStore =
  is_ticket_replay :: "bytes \<Rightarrow> 's \<Rightarrow> bool"
  mark_ticket_used :: "bytes \<Rightarrow> 's \<Rightarrow> (TlsError, unit) res \<times> 's"

text \<open>The checks up to the last one, which change nothing.\<close>

definition open_session_ticket ::
  "sm4_crates \<Rightarrow> (bytes \<Rightarrow> bytes) \<Rightarrow> postcard \<Rightarrow> u64 \<Rightarrow> bytes \<Rightarrow> TicketKeySet \<Rightarrow> (TlsError, SessionState) res" where
  "open_session_ticket P sm3 C now combined key_set =
     (let key_id = combined ! 0;
          nonce = take 12 (drop 1 combined);
          tag = take 16 (drop 13 combined);
          encrypted = drop 29 combined
      in bind_res (ok_or (find_key key_id key_set) (SessionTicketInvalid (''unknown ticket key ID: '' @ show_nat (unat key_id)))) (\<lambda>key.
         bind_res (derive_ticket_sm4_key sm3 (tk_secret key)) (\<lambda>derived_key.
         bind_res (map_err (\<lambda>e. SessionTicketInvalid (''failed to create decryptor: '' @ display_crypto_error e)) (sm4_new derived_key)) (\<lambda>cipher.
         bind_res (map_err (\<lambda>e. SessionTicketInvalid (''session ticket decryption failed: '' @ display_crypto_error e)) (decrypt_gcm P cipher encrypted nonce [] tag)) (\<lambda>state_bytes.
         bind_res (map_err (\<lambda>e. SessionTicketInvalid (''session state parse failed: '' @ display_tls_error e)) (deserialize C state_bytes)) (\<lambda>state.
           let age_seconds = (if now < ss_created_at state then 0 else now - ss_created_at state);
               max_lifetime = (ucast (min (ss_lifetime_hint state) (ucast MAX_TICKET_LIFETIME)) :: u64)
           in if age_seconds > max_lifetime then Inl SessionTicketExpired
              else if ss_require_client_auth state
              then Inl (SessionTicketInvalid ''session ticket does not support resumption of client-authenticated sessions'')
              else Inr state))))))"

definition decrypt_session_ticket ::
  "sm4_crates \<Rightarrow> (bytes \<Rightarrow> bytes) \<Rightarrow> postcard \<Rightarrow> u64 \<Rightarrow> 's SessionStore \<Rightarrow> SessionTicket \<Rightarrow> TicketKeySet \<Rightarrow> 's \<Rightarrow> (TlsError, SessionState) res \<times> 's" where
  "decrypt_session_ticket P sm3 C now D ticket key_set s =
     (let combined = encrypted_ticket ticket
      in if length combined < 29 then (Inl (SessionTicketInvalid ''invalid session ticket''), s)
         else if length combined > MAX_SESSION_TICKET_SIZE
         then (Inl (SessionTicketInvalid (''session ticket too large: '' @ show_nat (length combined) @ '' bytes (max '' @
                    show_nat MAX_SESSION_TICKET_SIZE @ '')'')), s)
         else if is_ticket_replay D combined s then (Inl SessionTicketReplay, s)
         else case open_session_ticket P sm3 C now combined key_set of
                Inl e \<Rightarrow> (Inl e, s)
              | Inr state \<Rightarrow>
                  case mark_ticket_used D combined s of
                    (Inl e, s') \<Rightarrow> (Inl e, s')
                  | (Inr _, s') \<Rightarrow> (Inr state, s'))"

section \<open>The stores\<close>

definition MAX_TICKET_CACHE_SIZE :: nat where
  "MAX_TICKET_CACHE_SIZE = 10000"

text \<open>The in-memory store: an \<open>IndexSet\<close> is a list without repetitions, in the order of insertion.\<close>

type_synonym InMemorySessionStore = "bytes list"

definition in_memory_new :: InMemorySessionStore where
  "in_memory_new = []"

definition in_memory_is_replay :: "bytes \<Rightarrow> InMemorySessionStore \<Rightarrow> bool" where
  "in_memory_is_replay ticket cache \<longleftrightarrow> ticket \<in> set cache"

definition in_memory_mark :: "bytes \<Rightarrow> InMemorySessionStore \<Rightarrow> (TlsError, unit) res \<times> InMemorySessionStore" where
  "in_memory_mark ticket cache =
     (if ticket \<in> set cache then (Inl (SessionStoreError ''ticket already marked as used''), cache)
      else
        let cache = (if length cache \<ge> MAX_TICKET_CACHE_SIZE then drop (MAX_TICKET_CACHE_SIZE div 2) cache else cache)
        in (Inr (), cache @ [ticket]))"

definition in_memory_store :: "InMemorySessionStore SessionStore" where
  "in_memory_store = \<lparr>is_ticket_replay = in_memory_is_replay, mark_ticket_used = in_memory_mark\<rparr>"

text \<open>The stores over a database. The queries are parameters: the number of rows with a key, and an
  insertion that reports whether the row is new.\<close>

record 'd ticket_db =
  db_count :: "string \<Rightarrow> 'd \<Rightarrow> (string, int option) res"
  db_insert :: "string \<Rightarrow> 'd \<Rightarrow> (string, nat) res \<times> 'd"
  db_prune :: "'d \<Rightarrow> (string, nat) res \<times> 'd"

definition hex_digit :: "nat \<Rightarrow> char" where
  "hex_digit d = ''0123456789abcdef'' ! d"

definition hex_encode :: "bytes \<Rightarrow> string" where
  "hex_encode bs = concat (map (\<lambda>b. [hex_digit (unat b div 16), hex_digit (unat b mod 16)]) bs)"

definition sql_is_replay :: "'d ticket_db \<Rightarrow> bool \<Rightarrow> bytes \<Rightarrow> 'd \<Rightarrow> bool" where
  "sql_is_replay B fail_closed ticket d =
     (case db_count B (hex_encode ticket) d of
        Inr (Some count) \<Rightarrow> count > 0
      | Inr None \<Rightarrow> False
      | Inl e \<Rightarrow> fail_closed)"

definition sql_mark :: "'d ticket_db \<Rightarrow> bytes \<Rightarrow> 'd \<Rightarrow> (TlsError, unit) res \<times> 'd" where
  "sql_mark B ticket d =
     (case db_insert B (hex_encode ticket) d of
        (Inl e, d') \<Rightarrow> (Inl (SessionStoreError e), d')
      | (Inr rows, d') \<Rightarrow> (if rows = 0 then Inl (SessionStoreError ''ticket already marked as used'') else Inr (), d'))"

definition sql_prune :: "'d ticket_db \<Rightarrow> 'd \<Rightarrow> (TlsError, nat) res \<times> 'd" where
  "sql_prune B d = (let (r, d') = db_prune B d in (map_err SessionStoreError r, d'))"

record 'd redis_db =
  rd_connect :: "'d \<Rightarrow> (string, unit) res"
  rd_exists :: "string \<Rightarrow> 'd \<Rightarrow> (string, bool) res"
  rd_set_nx :: "string \<Rightarrow> nat \<Rightarrow> 'd \<Rightarrow> (string, bool) res \<times> 'd"

definition KEY_PREFIX :: string where
  "KEY_PREFIX = ''gmtls:ticket:''"

definition TICKET_TTL :: nat where
  "TICKET_TTL = 86400"

definition redis_is_replay :: "'d redis_db \<Rightarrow> bool \<Rightarrow> bytes \<Rightarrow> 'd \<Rightarrow> bool" where
  "redis_is_replay B fail_closed ticket d =
     (case rd_connect B d of
        Inl e \<Rightarrow> fail_closed
      | Inr _ \<Rightarrow>
          case rd_exists B (KEY_PREFIX @ hex_encode ticket) d of
            Inl e \<Rightarrow> fail_closed
          | Inr present \<Rightarrow> present)"

definition redis_mark :: "'d redis_db \<Rightarrow> bytes \<Rightarrow> 'd \<Rightarrow> (TlsError, unit) res \<times> 'd" where
  "redis_mark B ticket d =
     (case rd_connect B d of
        Inl e \<Rightarrow> (Inl (SessionStoreError (''failed to get Redis connection: '' @ e)), d)
      | Inr _ \<Rightarrow>
          case rd_set_nx B (KEY_PREFIX @ hex_encode ticket) TICKET_TTL d of
            (Inr True, d') \<Rightarrow> (Inr (), d')
          | (Inr False, d') \<Rightarrow> (Inl (SessionStoreError ''ticket already marked as used''), d')
          | (Inl e, d') \<Rightarrow> (Inl (SessionStoreError (''Redis SET NX failed: '' @ e)), d'))"

definition starts_with :: "string \<Rightarrow> string \<Rightarrow> bool" where
  "starts_with p s \<longleftrightarrow> take (length p) s = p"

definition redis_url :: "bool \<Rightarrow> string \<Rightarrow> string" where
  "redis_url use_tls url =
     (if use_tls then
        if starts_with ''redis://'' url then ''rediss://'' @ drop (length ''redis://'') url
        else if \<not> starts_with ''rediss://'' url then ''rediss://'' @ url
        else url
      else url)"

section \<open>The contract of a store\<close>

text \<open>What callers rely on: a marked ticket is reported and cannot be marked again, and checking or
  a failed mark changes nothing that matters to it.\<close>

locale session_store =
  fixes D :: "'s SessionStore"
  assumes mark_Ok: "mark_ticket_used D t s = (Inr u, s') \<Longrightarrow> \<not> is_ticket_replay D t s \<and> is_ticket_replay D t s'"
    and mark_Err: "mark_ticket_used D t s = (Inl e, s') \<Longrightarrow> s' = s"
begin

lemma decrypt_marks:
  assumes "decrypt_session_ticket P sm3 C now D ticket ks s = (Inr state, s')"
  shows "is_ticket_replay D (encrypted_ticket ticket) s'"
    "mark_ticket_used D (encrypted_ticket ticket) s = (Inr (), s')"
    "open_session_ticket P sm3 C now (encrypted_ticket ticket) ks = Inr state"
  using assms mark_Ok by (auto simp: decrypt_session_ticket_def Let_def split: if_splits sum.splits prod.splits)

lemma decrypt_once:
  assumes "decrypt_session_ticket P sm3 C now D ticket ks s = (Inr state, s')"
  shows "decrypt_session_ticket P sm3 C now' D ticket ks' s' = (Inl SessionTicketReplay, s')"
proof -
  have "29 \<le> length (encrypted_ticket ticket)" "length (encrypted_ticket ticket) \<le> MAX_SESSION_TICKET_SIZE"
    using assms by (auto simp: decrypt_session_ticket_def Let_def split: if_splits)
  then show ?thesis using decrypt_marks(1) [OF assms] by (simp add: decrypt_session_ticket_def)
qed

lemma mark_race:
  assumes "mark_ticket_used D t s = (Inr u, s')"
  shows "\<exists>e. mark_ticket_used D t s' = (Inl e, s')"
proof -
  obtain r s'' where m: "mark_ticket_used D t s' = (r, s'')" by force
  then show ?thesis using mark_Ok [OF assms] mark_Ok [of t s' _ s''] mark_Err [of t s' _ s''] by (cases r) auto
qed

end

lemma in_memory_simps [simp]:
  "is_ticket_replay in_memory_store t c = (t \<in> set c)"
  "mark_ticket_used in_memory_store = in_memory_mark"
  by (simp_all add: in_memory_store_def in_memory_is_replay_def)

interpretation mem: session_store in_memory_store
  by unfold_locales (auto simp: in_memory_mark_def Let_def split: if_splits)

section \<open>How long a ticket is remembered\<close>

definition marks :: "bytes list \<Rightarrow> InMemorySessionStore \<Rightarrow> InMemorySessionStore" where
  "marks ts c = foldl (\<lambda>c t. snd (in_memory_mark t c)) c ts"

lemma marks_simps [simp]: "marks [] c = c" "marks (t # ts) c = marks ts (snd (in_memory_mark t c))"
  by (simp_all add: marks_def)

definition cache_inv :: "InMemorySessionStore \<Rightarrow> bool" where
  "cache_inv c \<longleftrightarrow> distinct c \<and> length c \<le> MAX_TICKET_CACHE_SIZE"

lemma in_memory_mark_inv: "cache_inv c \<Longrightarrow> cache_inv (snd (in_memory_mark t c))"
  by (auto simp: cache_inv_def in_memory_mark_def MAX_TICKET_CACHE_SIZE_def Let_def dest: in_set_dropD)

text \<open>A ticket with few newer ones behind it survives the next insertion.\<close>

lemma in_memory_mark_keeps:
  assumes "cache_inv c" "c = a @ t # b" "length b < 5000"
  shows "\<exists>a' b'. snd (in_memory_mark u c) = a' @ t # b' \<and> length b' \<le> Suc (length b)"
proof (cases "u \<in> set c")
  case True
  then show ?thesis using assms(2) by (intro exI [of _ a] exI [of _ b]) (simp add: in_memory_mark_def)
next
  case False
  show ?thesis
  proof (cases "length c \<ge> MAX_TICKET_CACHE_SIZE")
    case full: True
    then have "length a \<ge> 5000" using assms by (simp add: cache_inv_def MAX_TICKET_CACHE_SIZE_def)
    then have "drop 5000 c = drop 5000 a @ t # b" using assms(2) by simp
    then show ?thesis using False full
      by (intro exI [of _ "drop 5000 a"] exI [of _ "b @ [u]"]) (simp add: in_memory_mark_def MAX_TICKET_CACHE_SIZE_def)
  next
    case False
    then show ?thesis using assms(2) \<open>u \<notin> set c\<close>
      by (intro exI [of _ a] exI [of _ "b @ [u]"]) (simp add: in_memory_mark_def Let_def)
  qed
qed

lemma marks_keep:
  assumes "cache_inv c" "c = a @ t # b" "length b + length us \<le> 5000"
  shows "t \<in> set (marks us c)"
  using assms
proof (induction us arbitrary: c a b)
  case (Cons u us)
  obtain a' b' where ab: "snd (in_memory_mark u c) = a' @ t # b'" "length b' \<le> Suc (length b)"
    using in_memory_mark_keeps [OF Cons.prems(1,2), of u] Cons.prems(3) by auto
  show ?case using Cons.IH [OF in_memory_mark_inv [OF Cons.prems(1)] ab(1)] ab(2) Cons.prems(3) by simp
qed simp

text \<open>A cache is the end of the sequence of everything inserted.\<close>

lemma marks_suffix:
  assumes "distinct (xs @ us)" "xs = p @ c" "length c \<le> MAX_TICKET_CACHE_SIZE"
  shows "\<exists>q. xs @ us = q @ marks us c"
  using assms
proof (induction us arbitrary: xs p c)
  case (Cons u us)
  have u: "u \<notin> set c" using Cons.prems(1,2) by auto
  obtain p' where p': "xs @ [u] = p' @ snd (in_memory_mark u c)"
  proof (cases "length c \<ge> MAX_TICKET_CACHE_SIZE")
    case True
    then show ?thesis using that [of "p @ take (MAX_TICKET_CACHE_SIZE div 2) c"] Cons.prems(2) u by (simp add: in_memory_mark_def)
  next
    case False
    then show ?thesis using that [of p] Cons.prems(2) u by (simp add: in_memory_mark_def)
  qed
  have "length (snd (in_memory_mark u c)) \<le> MAX_TICKET_CACHE_SIZE"
    using Cons.prems(3) by (auto simp: in_memory_mark_def MAX_TICKET_CACHE_SIZE_def Let_def)
  then show ?case using Cons.IH [OF _ p'] Cons.prems(1) by simp
qed auto

lemma end_of_append:
  assumes "xs @ ys = q @ zs" "length zs \<le> length ys"
  obtains z where "ys = z @ zs"
  using assms by (auto simp: append_eq_append_conv2)

lemma marks_length: "length c \<le> MAX_TICKET_CACHE_SIZE \<Longrightarrow> length (marks us c) \<le> MAX_TICKET_CACHE_SIZE"
proof (induction us arbitrary: c)
  case (Cons u us)
  have "length (snd (in_memory_mark u c)) \<le> MAX_TICKET_CACHE_SIZE"
    using Cons.prems by (auto simp: in_memory_mark_def MAX_TICKET_CACHE_SIZE_def Let_def)
  then show ?case using Cons.IH by simp
qed simp

section \<open>Round trip of a ticket\<close>

lemma derived_ticket_key:
  assumes "\<And>x. length (sm3 x) = 32"
  shows "derive_ticket_sm4_key sm3 secret = Inr (take 16 (sm3 (secret @ ascii ''GM/TLS-session-ticket'')))"
    "sm4_new (take 16 (sm3 (secret @ ascii ''GM/TLS-session-ticket''))) = Inr \<lparr>key_bytes = take 16 (sm3 (secret @ ascii ''GM/TLS-session-ticket''))\<rparr>"
  by (simp_all add: derive_ticket_sm4_key_def sm3_hash_def sm4_new_def SM4_KEY_LENGTH_def assms)

lemma ticket_slices:
  assumes "length nonce = 12" "length tag = 16"
  shows "([i] @ nonce @ tag @ e) ! 0 = i" "take 12 (drop 1 ([i] @ nonce @ tag @ e)) = nonce"
    "take 16 (drop 13 ([i] @ nonce @ tag @ e)) = tag" "drop 29 ([i] @ nonce @ tag @ e) = e"
  using assms by (simp_all add: drop_Cons')

lemma encrypt_ticket_Ok:
  assumes sm3: "\<And>x. length (sm3 x) = 32" and fill: "\<And>r n. length (fst (fill r n)) = n"
    and enc: "encrypt_session_ticket P sm3 C fill state ks r = Some (Inr ticket, r')"
  obtains key b nonce e tag where "primary_key ks = Some key" "to_allocvec C state = Inr b" "length nonce = 12" "length tag = 16"
    "encrypt_gcm P \<lparr>key_bytes = take 16 (sm3 (tk_secret key @ ascii ''GM/TLS-session-ticket''))\<rparr> b nonce [] = Inr (e, tag)"
    "encrypted_ticket ticket = [tk_id key] @ nonce @ tag @ e"
proof -
  obtain key where key: "primary_key ks = Some key" using enc by (cases "primary_key ks") (simp_all add: encrypt_session_ticket_def)
  obtain b where b: "to_allocvec C state = Inr b"
    using enc key by (cases "to_allocvec C state") (simp_all add: encrypt_session_ticket_def serialize_def)
  obtain nonce r1 where f: "fill r 12 = (nonce, r1)" by force
  then have n: "length nonce = 12" using fill [of r 12] by simp
  obtain e tag where e: "encrypt_gcm P \<lparr>key_bytes = take 16 (sm3 (tk_secret key @ ascii ''GM/TLS-session-ticket''))\<rparr> b nonce [] = Inr (e, tag)"
    "length tag = 16" using encrypt_gcm_ok [OF n] by metis
  then have t: "encrypted_ticket ticket = [tk_id key] @ nonce @ tag @ e" using key b n enc f
    by (auto simp: encrypt_session_ticket_def serialize_def derived_ticket_key [where ?sm3.0 = sm3, OF sm3] SM4_GCM_NONCE_LENGTH_def)
  show thesis by (rule that [OF key b n e(2,1) t])
qed

lemma open_encrypted_ticket:
  assumes P: "sm4_laws P" and sm3: "\<And>x. length (sm3 x) = 32" and fill: "\<And>r n. length (fst (fill r n)) = n"
    and C: "\<And>st b. to_allocvec C st = Inr b \<Longrightarrow> from_bytes C b = Inr st"
    and enc: "encrypt_session_ticket P sm3 C fill state ks r = Some (Inr ticket, r')"
    and ks': "\<And>k. primary_key ks = Some k \<Longrightarrow> find_key (tk_id k) ks' = Some k"
    and live: "ss_created_at state \<le> now" "now - ss_created_at state \<le> ucast (min (ss_lifetime_hint state) 86400)" "\<not> ss_require_client_auth state"
  shows "open_session_ticket P sm3 C now (encrypted_ticket ticket) ks' = Inr state"
proof -
  obtain key b nonce e tag where k: "primary_key ks = Some key" "to_allocvec C state = Inr b" "length nonce = 12" "length tag = 16"
    "encrypt_gcm P \<lparr>key_bytes = take 16 (sm3 (tk_secret key @ ascii ''GM/TLS-session-ticket''))\<rparr> b nonce [] = Inr (e, tag)"
    "encrypted_ticket ticket = [tk_id key] @ nonce @ tag @ e"
    by (rule encrypt_ticket_Ok [where ?sm3.0 = sm3, OF sm3 fill enc])
  have "decrypt_gcm P \<lparr>key_bytes = take 16 (sm3 (tk_secret key @ ascii ''GM/TLS-session-ticket''))\<rparr> e nonce [] tag = Inr b"
    using k(5) decrypt_gcm_iff [OF P] by blast
  then show ?thesis using live ks' [OF k(1)] C [OF k(2)]
    by (simp only: open_session_ticket_def k(6) ticket_slices [OF k(3,4)] Let_def)
       (simp add: derived_ticket_key [where ?sm3.0 = sm3, OF sm3] deserialize_def MAX_TICKET_LIFETIME_def not_less)
qed

section \<open>Properties\<close>


definition demo_state :: SessionState where
  "demo_state = create_session_state 100 [1] \<lparr>client_key = [], client_nonce = [], server_key = [], server_nonce = []\<rparr> None None [] [] None 3600 False"

definition demo_postcard :: postcard where
  "demo_postcard =
     \<lparr>to_allocvec = (\<lambda>st. if st = demo_state then Inr [1] else Inl ''not supported''),
      from_bytes = (\<lambda>b. if b = [1] then Inr demo_state else Inl ''not supported'')\<rparr>"


text \<open>
  C34. The replay window of the in-memory store: after a ticket has been marked, it is recognised for at
  least the next 5000 operations, whatever they mark, and of two concurrent uses that both passed the
  check only the first mark succeeds. After 10000 further tickets it has been evicted and would be
  accepted again.
\<close>

theorem ticket_replay_window:
  assumes "cache_inv cache" "in_memory_mark t cache = (Inr (), cache')"
  shows "(\<exists>e. in_memory_mark t cache' = (Inl e, cache')) \<and>
    (length us \<le> 5000 \<longrightarrow> in_memory_is_replay t (marks us cache')) \<and>
    (distinct (cache' @ us) \<and> length us \<ge> 10000 \<longrightarrow> \<not> in_memory_is_replay t (marks us cache'))"
proof (intro conjI impI)
  show "\<exists>e. in_memory_mark t cache' = (Inl e, cache')" using mem.mark_race [of t cache] assms(2) by simp
  have inv: "cache_inv cache'" using in_memory_mark_inv [OF assms(1), of t] assms(2) by simp
  obtain a where a: "cache' = a @ [t]" using assms(2) by (auto simp: in_memory_mark_def Let_def split: if_splits)
  show "in_memory_is_replay t (marks us cache')" if "length us \<le> 5000"
    using marks_keep [OF inv, of a t "[]" us] a that by (simp add: in_memory_is_replay_def)
  show "\<not> in_memory_is_replay t (marks us cache')" if us: "distinct (cache' @ us) \<and> length us \<ge> 10000"
  proof -
    have len: "length cache' \<le> MAX_TICKET_CACHE_SIZE" using inv by (simp add: cache_inv_def)
    obtain q where q: "cache' @ us = q @ marks us cache'" using marks_suffix [of cache' us "[]" cache'] us len by auto
    have "length (marks us cache') \<le> length us" using marks_length [OF len, of us] us by (simp add: MAX_TICKET_CACHE_SIZE_def)
    with q obtain z where z: "us = z @ marks us cache'" by (rule end_of_append)
    have "t \<notin> set us" using us a by auto
    then show ?thesis unfolding in_memory_is_replay_def by (subst (asm) z) simp
  qed
qed

theorem ticket_replay_window_witness:
  "in_memory_mark [1] [[2]] = (Inr (), [[2], [1]]) \<and> in_memory_is_replay [1] (marks [[3], [2]] [[2], [1]])"
proof -
  have m: "in_memory_mark [1] [[2]] = (Inr (), [[2], [1]])" by (simp add: in_memory_mark_def MAX_TICKET_CACHE_SIZE_def)
  have "cache_inv [[2]]" by (simp add: cache_inv_def MAX_TICKET_CACHE_SIZE_def)
  from ticket_replay_window [OF this m, of "[[3], [2]]"] m show ?thesis by simp
qed

section \<open>Rotation of ticket keys\<close>

datatype key_op = Add TicketKey | Remove u8

fun key_step :: "TicketKeySet \<Rightarrow> key_op \<Rightarrow> TicketKeySet" where
  "key_step ks (Add k) = add_key k ks"
| "key_step ks (Remove i) = snd (remove_key i ks)"

lemma key_step_primary:
  assumes "primary_key ks = Some k" "tk_keys (key_step ks op) \<noteq> []"
  shows "primary_key (key_step ks op) = Some k"
proof (cases op)
  case (Add k')
  then show ?thesis using assms(1) by (auto simp: primary_key_def add_key_def split: list.splits)
next
  case (Remove i)
  obtain rest where ks: "tk_keys ks = k # rest" using assms(1) by (auto simp: primary_key_def split: list.splits)
  then show ?thesis using assms(2) Remove
    by (auto simp: primary_key_def remove_key_def split: option.splits if_splits)
qed

text \<open>
  C39. Adding and removing ticket keys in any order never changes the key that encrypts new tickets, as
  long as the set does not become empty: a newly added key takes over only after every key, the old
  primary one last, has been removed.
\<close>

theorem primary_ticket_key_fixed:
  assumes "primary_key ks = Some k" "\<forall>n \<le> length ops. tk_keys (foldl key_step ks (take n ops)) \<noteq> []"
  shows "primary_key (foldl key_step ks ops) = Some k"
  using assms(2)
proof (induction ops rule: rev_induct)
  case Nil
  then show ?case using assms(1) by simp
next
  case (snoc op ops)
  have "\<forall>n \<le> length ops. tk_keys (foldl key_step ks (take n ops)) \<noteq> []"
  proof (intro allI impI)
    fix n assume "n \<le> length ops"
    then show "tk_keys (foldl key_step ks (take n ops)) \<noteq> []" using snoc.prems [rule_format, of n] by simp
  qed
  then have "primary_key (foldl key_step ks ops) = Some k" by (rule snoc.IH)
  moreover have "tk_keys (key_step (foldl key_step ks ops) op) \<noteq> []" using snoc.prems [rule_format, of "length (ops @ [op])"] by simp
  ultimately show ?case by (simp add: key_step_primary)
qed

theorem primary_ticket_key_fixed_witness:
  "primary_key (foldl key_step (key_set_new \<lparr>tk_id = 1, tk_secret = []\<rparr>) [Add \<lparr>tk_id = 2, tk_secret = []\<rparr>, Remove 1]) =
     Some \<lparr>tk_id = 1, tk_secret = []\<rparr>"
proof (rule primary_ticket_key_fixed)
  let ?ks = "key_set_new \<lparr>tk_id = 1, tk_secret = []\<rparr>" and ?ops = "[Add \<lparr>tk_id = 2, tk_secret = []\<rparr>, Remove 1]"
  show "primary_key ?ks = Some \<lparr>tk_id = 1, tk_secret = []\<rparr>" by (simp add: primary_key_def key_set_new_def)
  show "\<forall>n \<le> length ?ops. tk_keys (foldl key_step ?ks (take n ?ops)) \<noteq> []"
  proof (intro allI impI)
    fix n assume "n \<le> length ?ops"
    then have "n = 0 \<or> n = 1 \<or> n = 2" by auto
    then show "tk_keys (foldl key_step ?ks (take n ?ops)) \<noteq> []" by (auto simp: key_set_new_def add_key_def remove_key_def)
  qed
qed

end
