(* ===== verification/Tlcp_Base.thy ===== *)
theory Tlcp_Base
  imports Gm_Transport
begin

text \<open>
  Types and code points of \<open>gm-tlcp\<close>: the error type (\<open>error.rs\<close>), the wire constants
  (\<open>tlcp/constants.rs\<close>), handshake types (\<open>tlcp/handshake_type.rs\<close>), alerts (\<open>tlcp/alert.rs\<close>) and the
  registry of cipher suites (\<open>tlcp/cipher_suite.rs\<close>).
  Shown: every code point is read back as the value it was written for, and nothing else is accepted.
\<close>

section \<open>Errors\<close>

datatype TlcpErrorCode =
    Code_HandshakeFailed
  | Code_HandshakeMessageParse
  | Code_Cipher
  | Code_Sm2Key
  | Code_CertificateVerificationFailed
  | Code_SequenceOverflow
  | Code_NonceReuse
  | Code_InvalidHandshakeType
  | Code_InvalidMessage
  | Code_InvalidState
  | Code_ParseError
  | Code_TlsRecordError
  | Code_IoError

datatype TlcpError =
    HandshakeFailed string
  | CipherError string
  | HandshakeMessageParse string
  | Sm2KeyError string
  | TlcpCertificateVerificationFailed string
  | IoError string
  | SequenceOverflow
  | TlsRecordError string
  | ParseError string
  | NonceReuse
  | InvalidHandshakeType u8
  | InvalidMessage string
  | InvalidState string

fun tlcp_error_code :: "TlcpError \<Rightarrow> TlcpErrorCode" where
  "tlcp_error_code (HandshakeFailed _) = Code_HandshakeFailed"
| "tlcp_error_code (CipherError _) = Code_Cipher"
| "tlcp_error_code (HandshakeMessageParse _) = Code_HandshakeMessageParse"
| "tlcp_error_code (Sm2KeyError _) = Code_Sm2Key"
| "tlcp_error_code (TlcpCertificateVerificationFailed _) = Code_CertificateVerificationFailed"
| "tlcp_error_code (IoError _) = Code_IoError"
| "tlcp_error_code SequenceOverflow = Code_SequenceOverflow"
| "tlcp_error_code (TlsRecordError _) = Code_TlsRecordError"
| "tlcp_error_code (ParseError _) = Code_ParseError"
| "tlcp_error_code NonceReuse = Code_NonceReuse"
| "tlcp_error_code (InvalidHandshakeType _) = Code_InvalidHandshakeType"
| "tlcp_error_code (InvalidMessage _) = Code_InvalidMessage"
| "tlcp_error_code (InvalidState _) = Code_InvalidState"

text \<open>\<open>{:x}\<close> on a byte, \<open>{:02x?}\<close> and \<open>{:02X?}\<close> on a byte array.\<close>

definition hex_digit_lower :: "nat \<Rightarrow> char" where
  "hex_digit_lower d = ''0123456789abcdef'' ! d"

definition show_hex :: "u8 \<Rightarrow> string" where
  "show_hex b = (if unat b < 16 then [hex_digit_lower (unat b)] else [hex_digit_lower (unat b div 16), hex_digit_lower (unat b mod 16)])"

fun join :: "string \<Rightarrow> string list \<Rightarrow> string" where
  "join sep [] = []"
| "join sep [x] = x"
| "join sep (x # xs) = x @ sep @ join sep xs"

definition show_bytes_lower :: "bytes \<Rightarrow> string" where
  "show_bytes_lower bs =
     ''['' @ join '', '' (map (\<lambda>b. [hex_digit_lower (unat b div 16), hex_digit_lower (unat b mod 16)]) bs) @ '']''"

definition show_bytes_upper :: "bytes \<Rightarrow> string" where
  "show_bytes_upper bs = ''['' @ join '', '' (map show_hex2 bs) @ '']''"

fun display_tlcp_error :: "TlcpError \<Rightarrow> string" where
  "display_tlcp_error (HandshakeFailed s) = ''handshake failed: '' @ s"
| "display_tlcp_error (CipherError s) = ''GM cipher error: '' @ s"
| "display_tlcp_error (HandshakeMessageParse s) = ''handshake message parse failed: '' @ s"
| "display_tlcp_error (Sm2KeyError s) = ''SM2/RSA key error: '' @ s"
| "display_tlcp_error (TlcpCertificateVerificationFailed s) = ''certificate verification failed: '' @ s"
| "display_tlcp_error (IoError s) = ''I/O error: '' @ s"
| "display_tlcp_error SequenceOverflow = ''sequence overflow: GCM nonce cannot exceed 2^64-1''"
| "display_tlcp_error (TlsRecordError s) = ''TLS record error: '' @ s"
| "display_tlcp_error (ParseError s) = ''parse error: '' @ s"
| "display_tlcp_error NonceReuse = ''GCM nonce reuse detected: same nonce used twice with the same key''"
| "display_tlcp_error (InvalidHandshakeType b) = ''invalid handshake type: 0x'' @ show_hex b"
| "display_tlcp_error (InvalidMessage s) = ''invalid message: '' @ s"
| "display_tlcp_error (InvalidState s) = ''invalid state: '' @ s"

text \<open>Derived \<open>Debug\<close>.\<close>

fun debug_tlcp_error :: "TlcpError \<Rightarrow> string" where
  "debug_tlcp_error (HandshakeFailed s) = debug_tuple ''HandshakeFailed'' s"
| "debug_tlcp_error (CipherError s) = debug_tuple ''CipherError'' s"
| "debug_tlcp_error (HandshakeMessageParse s) = debug_tuple ''HandshakeMessageParse'' s"
| "debug_tlcp_error (Sm2KeyError s) = debug_tuple ''Sm2KeyError'' s"
| "debug_tlcp_error (TlcpCertificateVerificationFailed s) = debug_tuple ''CertificateVerificationFailed'' s"
| "debug_tlcp_error (IoError s) = debug_tuple ''IoError'' s"
| "debug_tlcp_error SequenceOverflow = ''SequenceOverflow''"
| "debug_tlcp_error (TlsRecordError s) = debug_tuple ''TlsRecordError'' s"
| "debug_tlcp_error (ParseError s) = debug_tuple ''ParseError'' s"
| "debug_tlcp_error NonceReuse = ''NonceReuse''"
| "debug_tlcp_error (InvalidHandshakeType b) = ''InvalidHandshakeType('' @ show_nat (unat b) @ '')''"
| "debug_tlcp_error (InvalidMessage s) = debug_tuple ''InvalidMessage'' s"
| "debug_tlcp_error (InvalidState s) = debug_tuple ''InvalidState'' s"

definition tlcp_from_crypto :: "CryptoError \<Rightarrow> TlcpError" where
  "tlcp_from_crypto e = HandshakeFailed (display_crypto_error e)"

section \<open>Constants\<close>

definition TLCP_VERSION_1_0 :: bytes where
  "TLCP_VERSION_1_0 = [0x01, 0x01]"

definition TLS_ECDHE_SM4_GCM_SM3 :: bytes where
  "TLS_ECDHE_SM4_GCM_SM3 = [0xE0, 0x51]"

definition TLS_ECDHE_SM4_CBC_SM3 :: bytes where
  "TLS_ECDHE_SM4_CBC_SM3 = [0xE0, 0x11]"

definition TLS_ECC_SM4_GCM_SM3 :: bytes where
  "TLS_ECC_SM4_GCM_SM3 = [0xE0, 0x53]"

definition TLS_ECC_SM4_CBC_SM3 :: bytes where
  "TLS_ECC_SM4_CBC_SM3 = [0xE0, 0x13]"

definition TLS_IBC_SM4_GCM_SM3 :: bytes where
  "TLS_IBC_SM4_GCM_SM3 = [0xE0, 0x57]"

definition TLS_IBC_SM4_CBC_SM3 :: bytes where
  "TLS_IBC_SM4_CBC_SM3 = [0xE0, 0x17]"

definition TLS_IBSDH_SM4_GCM_SM3 :: bytes where
  "TLS_IBSDH_SM4_GCM_SM3 = [0xE0, 0x55]"

definition TLS_IBSDH_SM4_CBC_SM3 :: bytes where
  "TLS_IBSDH_SM4_CBC_SM3 = [0xE0, 0x15]"

definition TLS_RSA_SM4_CBC_SM3 :: bytes where
  "TLS_RSA_SM4_CBC_SM3 = [0xE0, 0x19]"

definition TLS_RSA_SM4_CBC_SHA256 :: bytes where
  "TLS_RSA_SM4_CBC_SHA256 = [0xE0, 0x1C]"

definition TLS_RSA_SM4_GCM_SM3 :: bytes where
  "TLS_RSA_SM4_GCM_SM3 = [0xE0, 0x59]"

definition TLS_RSA_SM4_GCM_SHA256 :: bytes where
  "TLS_RSA_SM4_GCM_SHA256 = [0xE0, 0x5A]"

lemmas suite_ids = TLS_ECDHE_SM4_GCM_SM3_def TLS_ECDHE_SM4_CBC_SM3_def TLS_ECC_SM4_GCM_SM3_def TLS_ECC_SM4_CBC_SM3_def
  TLS_IBC_SM4_GCM_SM3_def TLS_IBC_SM4_CBC_SM3_def TLS_IBSDH_SM4_GCM_SM3_def TLS_IBSDH_SM4_CBC_SM3_def
  TLS_RSA_SM4_CBC_SM3_def TLS_RSA_SM4_CBC_SHA256_def TLS_RSA_SM4_GCM_SM3_def TLS_RSA_SM4_GCM_SHA256_def

definition TLCP_EC_CURVE_TYPE_NAMED_CURVE :: u8 where
  "TLCP_EC_CURVE_TYPE_NAMED_CURVE = 0x03"

definition TLCP_NAMED_CURVE_SM2P256V1 :: bytes where
  "TLCP_NAMED_CURVE_SM2P256V1 = [0x00, 0x29]"

definition TLCP_ECH_PARAMS_PREFIX :: bytes where
  "TLCP_ECH_PARAMS_PREFIX = [TLCP_EC_CURVE_TYPE_NAMED_CURVE, TLCP_NAMED_CURVE_SM2P256V1 ! 0, TLCP_NAMED_CURVE_SM2P256V1 ! 1]"

lemma ech_prefix: "TLCP_ECH_PARAMS_PREFIX = [0x03, 0x00, 0x29]"
  by (simp add: TLCP_ECH_PARAMS_PREFIX_def TLCP_EC_CURVE_TYPE_NAMED_CURVE_def TLCP_NAMED_CURVE_SM2P256V1_def)

definition MAX_SESSION_ID_LEN :: nat where
  "MAX_SESSION_ID_LEN = 32"

text \<open>In seconds.\<close>

definition DEFAULT_SESSION_LIFETIME :: nat where
  "DEFAULT_SESSION_LIFETIME = 86400"

definition MAX_CACHED_SESSIONS :: nat where
  "MAX_CACHED_SESSIONS = 1024"

section \<open>Handshake types\<close>

datatype HandshakeType =
    ClientHello | ServerHello | Certificate | ServerKeyExchange | CertificateRequest
  | ServerHelloDone | CertificateVerify | ClientKeyExchange | Finished

fun handshake_type_code :: "HandshakeType \<Rightarrow> u8" where
  "handshake_type_code ClientHello = 0x01"
| "handshake_type_code ServerHello = 0x02"
| "handshake_type_code Certificate = 0x0B"
| "handshake_type_code ServerKeyExchange = 0x0C"
| "handshake_type_code CertificateRequest = 0x0D"
| "handshake_type_code ServerHelloDone = 0x0E"
| "handshake_type_code CertificateVerify = 0x0F"
| "handshake_type_code ClientKeyExchange = 0x10"
| "handshake_type_code Finished = 0x14"

definition handshake_type_try_from :: "u8 \<Rightarrow> (TlcpError, HandshakeType) res" where
  "handshake_type_try_from v =
     (if v = 0x01 then Inr ClientHello
      else if v = 0x02 then Inr ServerHello
      else if v = 0x0B then Inr Certificate
      else if v = 0x0C then Inr ServerKeyExchange
      else if v = 0x0D then Inr CertificateRequest
      else if v = 0x0E then Inr ServerHelloDone
      else if v = 0x0F then Inr CertificateVerify
      else if v = 0x10 then Inr ClientKeyExchange
      else if v = 0x14 then Inr Finished
      else Inl (InvalidHandshakeType v))"

section \<open>Alerts\<close>

datatype TlcpAlertLevel = Warning | Fatal

fun alert_level_code :: "TlcpAlertLevel \<Rightarrow> u8" where
  "alert_level_code Warning = 0x01"
| "alert_level_code Fatal = 0x02"

definition alert_level_try_from :: "u8 \<Rightarrow> (TlcpError, TlcpAlertLevel) res" where
  "alert_level_try_from v =
     (if v = 0x01 then Inr Warning
      else if v = 0x02 then Inr Fatal
      else Inl (InvalidMessage (''Invalid alert level: '' @ show_nat (unat v))))"

datatype TlcpAlertDescription =
    CloseNotify | UnexpectedMessage | HandshakeFailure | HandshakeFailureNoCipher | BadCertificate | UnsupportedCertificate
  | CertificateRevoked | CertificateExpired | UnknownCa | DecryptError | BadRecordMac | DecompressionFailure
  | ProtocolVersion | InternalError | InsufficientSecurity | UserCanceled

fun alert_description_code :: "TlcpAlertDescription \<Rightarrow> u8" where
  "alert_description_code CloseNotify = 0x00"
| "alert_description_code UnexpectedMessage = 0x0A"
| "alert_description_code HandshakeFailure = 0x28"
| "alert_description_code HandshakeFailureNoCipher = 0x29"
| "alert_description_code BadCertificate = 0x2A"
| "alert_description_code UnsupportedCertificate = 0x2B"
| "alert_description_code CertificateRevoked = 0x2C"
| "alert_description_code CertificateExpired = 0x2D"
| "alert_description_code UnknownCa = 0x30"
| "alert_description_code DecryptError = 0x33"
| "alert_description_code BadRecordMac = 0x14"
| "alert_description_code DecompressionFailure = 0x16"
| "alert_description_code ProtocolVersion = 0x46"
| "alert_description_code InternalError = 0x50"
| "alert_description_code InsufficientSecurity = 0x47"
| "alert_description_code UserCanceled = 0x5A"

definition alert_description_try_from :: "u8 \<Rightarrow> (TlcpError, TlcpAlertDescription) res" where
  "alert_description_try_from v =
     (if v = 0x00 then Inr CloseNotify
      else if v = 0x0A then Inr UnexpectedMessage
      else if v = 0x14 then Inr BadRecordMac
      else if v = 0x16 then Inr DecompressionFailure
      else if v = 0x28 then Inr HandshakeFailure
      else if v = 0x29 then Inr HandshakeFailureNoCipher
      else if v = 0x2A then Inr BadCertificate
      else if v = 0x2B then Inr UnsupportedCertificate
      else if v = 0x2C then Inr CertificateRevoked
      else if v = 0x2D then Inr CertificateExpired
      else if v = 0x30 then Inr UnknownCa
      else if v = 0x33 then Inr DecryptError
      else if v = 0x46 then Inr ProtocolVersion
      else if v = 0x47 then Inr InsufficientSecurity
      else if v = 0x50 then Inr InternalError
      else if v = 0x5A then Inr UserCanceled
      else Inl (InvalidMessage (''Unknown alert description: '' @ show_nat (unat v))))"

record TlcpAlert =
  alert_level :: TlcpAlertLevel
  alert_description :: TlcpAlertDescription

definition alert_new :: "TlcpAlertLevel \<Rightarrow> TlcpAlertDescription \<Rightarrow> TlcpAlert" where
  "alert_new level description = \<lparr>alert_level = level, alert_description = description\<rparr>"

definition alert_close_notify :: TlcpAlert where
  "alert_close_notify = alert_new Warning CloseNotify"

definition alert_handshake_failure :: TlcpAlert where
  "alert_handshake_failure = alert_new Fatal HandshakeFailure"

definition alert_protocol_version :: TlcpAlert where
  "alert_protocol_version = alert_new Fatal ProtocolVersion"

definition alert_bad_record_mac :: TlcpAlert where
  "alert_bad_record_mac = alert_new Fatal BadRecordMac"

definition alert_to_bytes :: "TlcpAlert \<Rightarrow> bytes" where
  "alert_to_bytes a = [alert_level_code (alert_level a), alert_description_code (alert_description a)]"

definition alert_from_bytes :: "bytes \<Rightarrow> (TlcpError, TlcpAlert) res" where
  "alert_from_bytes data =
     (if length data < 2 then Inl (InvalidMessage ''Alert message too short'')
      else bind_res (alert_level_try_from (data ! 0)) (\<lambda>level.
           bind_res (alert_description_try_from (data ! 1)) (\<lambda>description.
             Inr \<lparr>alert_level = level, alert_description = description\<rparr>)))"

definition is_fatal :: "TlcpAlert \<Rightarrow> bool" where
  "is_fatal a \<longleftrightarrow> alert_level a = Fatal"

definition is_close_notify :: "TlcpAlert \<Rightarrow> bool" where
  "is_close_notify a \<longleftrightarrow> alert_description a = CloseNotify"

section \<open>Cipher suites\<close>

datatype KeyExchangeMode = Ecdhe | Ecc | Ibc | Ibsdh | Rsa

record TlcpCipherSuite =
  suite_id :: bytes
  suite_name :: string
  key_exchange :: KeyExchangeMode
  gcm :: bool
  ecdhe :: bool

definition ECDHE_SM4_GCM_SM3 :: TlcpCipherSuite where
  "ECDHE_SM4_GCM_SM3 = \<lparr>suite_id = TLS_ECDHE_SM4_GCM_SM3, suite_name = ''ECDHE_SM4_GCM_SM3'', key_exchange = Ecdhe, gcm = True, ecdhe = True\<rparr>"

definition ECDHE_SM4_CBC_SM3 :: TlcpCipherSuite where
  "ECDHE_SM4_CBC_SM3 = \<lparr>suite_id = TLS_ECDHE_SM4_CBC_SM3, suite_name = ''ECDHE_SM4_CBC_SM3'', key_exchange = Ecdhe, gcm = False, ecdhe = True\<rparr>"

definition ECC_SM4_GCM_SM3 :: TlcpCipherSuite where
  "ECC_SM4_GCM_SM3 = \<lparr>suite_id = TLS_ECC_SM4_GCM_SM3, suite_name = ''ECC_SM4_GCM_SM3'', key_exchange = Ecc, gcm = True, ecdhe = False\<rparr>"

definition ECC_SM4_CBC_SM3 :: TlcpCipherSuite where
  "ECC_SM4_CBC_SM3 = \<lparr>suite_id = TLS_ECC_SM4_CBC_SM3, suite_name = ''ECC_SM4_CBC_SM3'', key_exchange = Ecc, gcm = False, ecdhe = False\<rparr>"

definition IBC_SM4_GCM_SM3 :: TlcpCipherSuite where
  "IBC_SM4_GCM_SM3 = \<lparr>suite_id = TLS_IBC_SM4_GCM_SM3, suite_name = ''IBC_SM4_GCM_SM3'', key_exchange = Ibc, gcm = True, ecdhe = False\<rparr>"

definition IBC_SM4_CBC_SM3 :: TlcpCipherSuite where
  "IBC_SM4_CBC_SM3 = \<lparr>suite_id = TLS_IBC_SM4_CBC_SM3, suite_name = ''IBC_SM4_CBC_SM3'', key_exchange = Ibc, gcm = False, ecdhe = False\<rparr>"

definition IBSDH_SM4_GCM_SM3 :: TlcpCipherSuite where
  "IBSDH_SM4_GCM_SM3 = \<lparr>suite_id = TLS_IBSDH_SM4_GCM_SM3, suite_name = ''IBSDH_SM4_GCM_SM3'', key_exchange = Ibsdh, gcm = True, ecdhe = False\<rparr>"

definition IBSDH_SM4_CBC_SM3 :: TlcpCipherSuite where
  "IBSDH_SM4_CBC_SM3 = \<lparr>suite_id = TLS_IBSDH_SM4_CBC_SM3, suite_name = ''IBSDH_SM4_CBC_SM3'', key_exchange = Ibsdh, gcm = False, ecdhe = False\<rparr>"

definition RSA_SM4_CBC_SM3 :: TlcpCipherSuite where
  "RSA_SM4_CBC_SM3 = \<lparr>suite_id = TLS_RSA_SM4_CBC_SM3, suite_name = ''RSA_SM4_CBC_SM3'', key_exchange = Rsa, gcm = False, ecdhe = False\<rparr>"

definition RSA_SM4_CBC_SHA256 :: TlcpCipherSuite where
  "RSA_SM4_CBC_SHA256 = \<lparr>suite_id = TLS_RSA_SM4_CBC_SHA256, suite_name = ''RSA_SM4_CBC_SHA256'', key_exchange = Rsa, gcm = False, ecdhe = False\<rparr>"

definition RSA_SM4_GCM_SM3 :: TlcpCipherSuite where
  "RSA_SM4_GCM_SM3 = \<lparr>suite_id = TLS_RSA_SM4_GCM_SM3, suite_name = ''RSA_SM4_GCM_SM3'', key_exchange = Rsa, gcm = True, ecdhe = False\<rparr>"

definition RSA_SM4_GCM_SHA256 :: TlcpCipherSuite where
  "RSA_SM4_GCM_SHA256 = \<lparr>suite_id = TLS_RSA_SM4_GCM_SHA256, suite_name = ''RSA_SM4_GCM_SHA256'', key_exchange = Rsa, gcm = True, ecdhe = False\<rparr>"

lemmas suites = ECDHE_SM4_GCM_SM3_def ECDHE_SM4_CBC_SM3_def ECC_SM4_GCM_SM3_def ECC_SM4_CBC_SM3_def IBC_SM4_GCM_SM3_def
  IBC_SM4_CBC_SM3_def IBSDH_SM4_GCM_SM3_def IBSDH_SM4_CBC_SM3_def RSA_SM4_CBC_SM3_def RSA_SM4_CBC_SHA256_def
  RSA_SM4_GCM_SM3_def RSA_SM4_GCM_SHA256_def

definition is_static :: "TlcpCipherSuite \<Rightarrow> bool" where
  "is_static s \<longleftrightarrow> key_exchange s \<in> {Ecc, Ibc, Rsa}"

definition is_sm9 :: "TlcpCipherSuite \<Rightarrow> bool" where
  "is_sm9 s \<longleftrightarrow> key_exchange s \<in> {Ibc, Ibsdh}"

definition suite_from_id :: "bytes \<Rightarrow> TlcpCipherSuite option" where
  "suite_from_id i =
     (if i = TLS_ECDHE_SM4_GCM_SM3 then Some ECDHE_SM4_GCM_SM3
      else if i = TLS_ECDHE_SM4_CBC_SM3 then Some ECDHE_SM4_CBC_SM3
      else if i = TLS_ECC_SM4_GCM_SM3 then Some ECC_SM4_GCM_SM3
      else if i = TLS_ECC_SM4_CBC_SM3 then Some ECC_SM4_CBC_SM3
      else if i = TLS_IBC_SM4_GCM_SM3 then Some IBC_SM4_GCM_SM3
      else if i = TLS_IBC_SM4_CBC_SM3 then Some IBC_SM4_CBC_SM3
      else if i = TLS_IBSDH_SM4_GCM_SM3 then Some IBSDH_SM4_GCM_SM3
      else if i = TLS_IBSDH_SM4_CBC_SM3 then Some IBSDH_SM4_CBC_SM3
      else if i = TLS_RSA_SM4_GCM_SM3 then Some RSA_SM4_GCM_SM3
      else if i = TLS_RSA_SM4_CBC_SM3 then Some RSA_SM4_CBC_SM3
      else if i = TLS_RSA_SM4_GCM_SHA256 then Some RSA_SM4_GCM_SHA256
      else if i = TLS_RSA_SM4_CBC_SHA256 then Some RSA_SM4_CBC_SHA256
      else None)"

definition all_suites :: "TlcpCipherSuite list" where
  "all_suites =
     [ECDHE_SM4_GCM_SM3, ECDHE_SM4_CBC_SM3, ECC_SM4_GCM_SM3, ECC_SM4_CBC_SM3, IBC_SM4_GCM_SM3, IBC_SM4_CBC_SM3,
      IBSDH_SM4_GCM_SM3, IBSDH_SM4_CBC_SM3, RSA_SM4_GCM_SM3, RSA_SM4_CBC_SM3, RSA_SM4_GCM_SHA256, RSA_SM4_CBC_SHA256]"

section \<open>Code points\<close>

lemma handshake_type_iff: "handshake_type_try_from b = Inr t \<longleftrightarrow> b = handshake_type_code t"
  by (cases t) (auto simp: handshake_type_try_from_def)

lemma alert_level_iff: "alert_level_try_from b = Inr l \<longleftrightarrow> b = alert_level_code l"
  by (cases l) (auto simp: alert_level_try_from_def)

lemma alert_description_iff: "alert_description_try_from b = Inr d \<longleftrightarrow> b = alert_description_code d"
  by (cases d) (auto simp: alert_description_try_from_def)

lemma suite_from_id_known: "suite_from_id i = Some s \<Longrightarrow> suite_id s = i \<and> s \<in> set all_suites"
  by (auto simp: suite_from_id_def all_suites_def suites split: if_splits)

lemma suite_from_id_all: "s \<in> set all_suites \<Longrightarrow> suite_from_id (suite_id s) = Some s"
  unfolding all_suites_def list.set by (elim insertE emptyE; hypsubst) (simp_all add: suite_from_id_def suites suite_ids)

lemma suite_from_id_iff: "suite_from_id i = Some s \<longleftrightarrow> s \<in> set all_suites \<and> suite_id s = i"
  using suite_from_id_known suite_from_id_all by blast

lemma suite_id_length: "s \<in> set all_suites \<Longrightarrow> length (suite_id s) = 2"
  unfolding all_suites_def list.set by (elim insertE emptyE; hypsubst) (simp_all add: suites suite_ids)

lemma suite_ids_distinct: "distinct (map suite_id all_suites)"
  by (simp add: all_suites_def suites suite_ids)

section \<open>Properties\<close>

text \<open>
  The code points of the protocol: a byte is read as a handshake type, an alert level or an alert
  description exactly if it is the code of that value; alerts are read back from the two bytes they are
  written as; and the registry finds a suite exactly for the identifiers of the twelve listed suites,
  which are pairwise different.
\<close>

theorem tlcp_code_points:
  "(handshake_type_try_from b = Inr t \<longleftrightarrow> b = handshake_type_code t) \<and>
   alert_from_bytes (alert_to_bytes a @ rest) = Inr a \<and>
   (alert_from_bytes data = Inr a \<longleftrightarrow> take 2 data = alert_to_bytes a) \<and>
   (suite_from_id i = Some s \<longleftrightarrow> s \<in> set all_suites \<and> suite_id s = i) \<and>
   length all_suites = 12 \<and> distinct (map suite_id all_suites)"
proof -
  have al: "alert_from_bytes data = Inr a \<longleftrightarrow> take 2 data = alert_to_bytes a" for data
  proof (cases "length data < 2")
    case True
    then show ?thesis by (auto simp: alert_from_bytes_def alert_to_bytes_def dest: arg_cong [of _ _ length])
  next
    case False
    then obtain x y zs where "data = x # y # zs" by (auto simp: not_less numeral_2_eq_2 Suc_le_length_iff)
    then show ?thesis
      by (cases a) (auto simp: alert_from_bytes_def alert_to_bytes_def bind_res_eq_Inr alert_level_iff alert_description_iff)
  qed
  have "take 2 (alert_to_bytes a @ rest) = alert_to_bytes a" by (simp add: alert_to_bytes_def)
  moreover have "length all_suites = 12" by (simp add: all_suites_def)
  ultimately show ?thesis using al handshake_type_iff suite_from_id_iff suite_ids_distinct by blast
qed

end
