(* ===== verification/Tlcp_Keys.thy ===== *)
theory Tlcp_Keys
  imports Tlcp_Base
begin

text \<open>
  Key derivation of \<open>gm-tlcp\<close> (\<open>tlcp/key_material.rs\<close>, \<open>session_keys.rs\<close>) and the Finished message
  (\<open>tlcp/messages/finished.rs\<close>). The loop of the PRF ends only because SM3 returns bytes; for SM3 as a
  parameter it is a partial function, and \<open>None\<close> is a run that does not end.
  Shown: the PRF returns the output of RFC 5246 for every length up to 16384 and fails above, the key
  block is cut into parts of the right lengths without overlap, and a Finished message is accepted
  exactly if master secret and transcript give its value.
\<close>

section \<open>Fallible computations that may not end\<close>

definition bindo :: "('e, 'a) res option \<Rightarrow> ('a \<Rightarrow> ('e, 'b) res option) \<Rightarrow> ('e, 'b) res option" where
  "bindo m f = (case m of None \<Rightarrow> None | Some (Inl e) \<Rightarrow> Some (Inl e) | Some (Inr x) \<Rightarrow> f x)"

lemma bindo_simps [simp]: "bindo None f = None" "bindo (Some (Inl e)) f = Some (Inl e)" "bindo (Some (Inr x)) f = f x"
  by (simp_all add: bindo_def)

lemma bindo_Ok: "bindo m f = Some (Inr y) \<longleftrightarrow> (\<exists>x. m = Some (Inr x) \<and> f x = Some (Inr y))"
  by (auto simp: bindo_def split: option.splits sum.splits)

lemma bindo_mono [partial_function_mono]:
  assumes "mono_option B" "\<And>y. mono_option (\<lambda>f. C y f)"
  shows "mono_option (\<lambda>f. bindo (B f) (\<lambda>y. C y f))"
proof (rule monotoneI)
  fix f g :: "'a \<Rightarrow> 'b option" assume fg: "option.le_fun f g"
  have B: "option_ord (B f) (B g)" using assms(1) fg by (auto dest: monotoneD)
  have C: "option_ord (C y f) (C y g)" for y using assms(2) fg by (auto dest: monotoneD)
  consider "B f = None" | "B f = B g" using B by (auto simp: flat_ord_def)
  then show "option_ord (bindo (B f) (\<lambda>y. C y f)) (bindo (B g) (\<lambda>y. C y g))"
  proof cases
    case 2
    then show ?thesis using C by (cases "B g" rule: option.exhaust; cases "the (B g)") (auto simp: flat_ord_def)
  qed (simp add: flat_ord_def)
qed

section \<open>The PRF\<close>

definition MAX_PRF_OUTPUT :: nat where
  "MAX_PRF_OUTPUT = 16 * 1024"

definition prf_hmac :: "(bytes \<Rightarrow> bytes) \<Rightarrow> bytes \<Rightarrow> string \<Rightarrow> bytes \<Rightarrow> (TlcpError, bytes) res" where
  "prf_hmac sm3 secret step data =
     map_err (\<lambda>e. CipherError (''prf '' @ step @ '': '' @ display_crypto_error e)) (sm3_hmac_compute sm3 (sm3_hmac_new secret) data)"

partial_function (option) prf_loop ::
  "(bytes \<Rightarrow> bytes) \<Rightarrow> bytes \<Rightarrow> bytes \<Rightarrow> nat \<Rightarrow> bytes \<Rightarrow> bytes \<Rightarrow> (TlcpError, bytes) res option" where
  "prf_loop sm3 secret label_seed len result a =
     (if length result < len then
        bindo (Some (prf_hmac sm3 secret ''P(i)'' (a @ label_seed))) (\<lambda>p.
          if length (result @ p) < len
          then bindo (Some (prf_hmac sm3 secret ''A(i+1)'' a)) (\<lambda>a'. prf_loop sm3 secret label_seed len (result @ p) a')
          else prf_loop sm3 secret label_seed len (result @ p) a)
      else Some (Inr (take len result)))"

definition prf_expand :: "(bytes \<Rightarrow> bytes) \<Rightarrow> bytes \<Rightarrow> bytes \<Rightarrow> bytes \<Rightarrow> nat \<Rightarrow> (TlcpError, bytes) res option" where
  "prf_expand sm3 secret label seed len =
     (if len > MAX_PRF_OUTPUT
      then Some (Inl (HandshakeFailed (''prf_expand length '' @ show_nat len @ '' exceeds limit '' @ show_nat MAX_PRF_OUTPUT)))
      else
        let label_seed = label @ seed
        in bindo (Some (prf_hmac sm3 secret ''A(1)'' label_seed)) (\<lambda>a. prf_loop sm3 secret label_seed len [] a))"

section \<open>Key material\<close>

record TlcpKeyMaterial =
  client_mac_key :: bytes
  server_mac_key :: bytes
  client_enc_key :: bytes
  server_enc_key :: bytes
  client_iv :: bytes
  server_iv :: bytes

record TlcpSessionKeys =
  client_key :: bytes
  client_nonce :: bytes
  server_key :: bytes
  server_nonce :: bytes

text \<open>\<open>key_block[a..b]\<close>.\<close>

definition slice :: "nat \<Rightarrow> nat \<Rightarrow> bytes \<Rightarrow> bytes" where
  "slice a b xs = take (b - a) (drop a xs)"

definition key_material_derive ::
  "(bytes \<Rightarrow> bytes) \<Rightarrow> bytes \<Rightarrow> bytes \<Rightarrow> bytes \<Rightarrow> TlcpCipherSuite \<Rightarrow> (TlcpError, TlcpKeyMaterial) res option" where
  "key_material_derive sm3 master_secret client_random server_random suite =
     (let seed = server_random @ client_random;
          needed = (if gcm suite then 40 else 128)
      in bindo (prf_expand sm3 master_secret (ascii ''key expansion'') seed needed) (\<lambda>key_block. Some (Inr
           (if gcm suite then
              \<lparr>client_mac_key = [], server_mac_key = [],
               client_enc_key = slice 0 16 key_block, server_enc_key = slice 16 32 key_block,
               client_iv = slice 32 36 key_block, server_iv = slice 36 40 key_block\<rparr>
            else
              \<lparr>client_mac_key = slice 0 32 key_block, server_mac_key = slice 32 64 key_block,
               client_enc_key = slice 64 80 key_block, server_enc_key = slice 80 96 key_block,
               client_iv = slice 96 112 key_block, server_iv = slice 112 128 key_block\<rparr>))))"

definition to_session_keys :: "TlcpKeyMaterial \<Rightarrow> (TlcpError, TlcpSessionKeys) res" where
  "to_session_keys km =
     (if length (client_enc_key km) \<noteq> 16 \<or> length (server_enc_key km) \<noteq> 16
      then Inl (HandshakeFailed ''GCM requires 16-byte keys'')
      else if length (client_iv km) \<noteq> 4 \<or> length (server_iv km) \<noteq> 4
      then Inl (HandshakeFailed (''GCM requires 4-byte fixed IV (got '' @ show_nat (length (client_iv km)) @ ''/'' @
                                 show_nat (length (server_iv km)) @ '')''))
      else Inr \<lparr>client_key = client_enc_key km, client_nonce = client_iv km @ replicate 8 0,
                server_key = server_enc_key km, server_nonce = server_iv km @ replicate 8 0\<rparr>)"

section \<open>Finished\<close>

record TlcpFinished =
  verify_data :: bytes

definition finished_compute :: "(bytes \<Rightarrow> bytes) \<Rightarrow> bytes \<Rightarrow> string \<Rightarrow> bytes \<Rightarrow> (TlcpError, TlcpFinished) res option" where
  "finished_compute sm3 master_secret label transcript =
     bindo (Some (map_err (\<lambda>e. HandshakeFailed (display_crypto_error e)) (sm3_hash sm3 transcript))) (\<lambda>transcript_hash.
     bindo (prf_expand sm3 master_secret (ascii label) transcript_hash 12) (\<lambda>prf_output.
       Some (Inr \<lparr>verify_data = take 12 prf_output\<rparr>)))"

definition finished_to_bytes :: "TlcpFinished \<Rightarrow> bytes" where
  "finished_to_bytes f = [handshake_type_code Finished, 0, 0, 12] @ verify_data f"

definition finished_verify :: "sm4_crates \<Rightarrow> TlcpFinished \<Rightarrow> bytes \<Rightarrow> bool" where
  "finished_verify P f expected = slices_ct_eq P (verify_data f) expected"

definition finished_from_body :: "bytes \<Rightarrow> (TlcpError, TlcpFinished) res" where
  "finished_from_body body =
     (if length body \<noteq> 12
      then Inl (HandshakeFailed (''TLCP Finished body must be 12 bytes, got '' @ show_nat (length body)))
      else Inr \<lparr>verify_data = take 12 body\<rparr>)"

section \<open>The PRF computes the output of RFC 5246\<close>

text \<open>\<open>P_hash\<close> of RFC 5246, section 5, over HMAC-SM3.\<close>

fun prf_A :: "(bytes \<Rightarrow> bytes) \<Rightarrow> bytes \<Rightarrow> bytes \<Rightarrow> nat \<Rightarrow> bytes" where
  "prf_A sm3 secret seed 0 = seed"
| "prf_A sm3 secret seed (Suc i) = hmac_ref sm3 secret (prf_A sm3 secret seed i)"

definition prf_blocks :: "(bytes \<Rightarrow> bytes) \<Rightarrow> bytes \<Rightarrow> bytes \<Rightarrow> nat \<Rightarrow> bytes" where
  "prf_blocks sm3 secret seed n = concat (map (\<lambda>i. hmac_ref sm3 secret (prf_A sm3 secret seed i @ seed)) [1..<Suc n])"

definition prf_ref :: "(bytes \<Rightarrow> bytes) \<Rightarrow> bytes \<Rightarrow> bytes \<Rightarrow> bytes \<Rightarrow> nat \<Rightarrow> bytes" where
  "prf_ref sm3 secret label seed len = take len (prf_blocks sm3 secret (label @ seed) ((len + 31) div 32))"

lemma length_prf_blocks:
  assumes "\<And>x. length (sm3 x) = 32"
  shows "length (prf_blocks sm3 secret seed n) = 32 * n"
  by (induction n) (simp_all add: prf_blocks_def length_hmac_ref [where ?sm3.0 = sm3, OF assms])

lemma prf_loop_eq:
  assumes sm3: "\<And>x. length (sm3 x) = 32" and n: "n = (len + 31) div 32"
  shows "c \<le> n \<Longrightarrow> (c < n \<Longrightarrow> a = prf_A sm3 secret seed (Suc c)) \<Longrightarrow>
    prf_loop sm3 secret seed len (prf_blocks sm3 secret seed c) a = Some (Inr (take len (prf_blocks sm3 secret seed n)))"
proof (induction "n - c" arbitrary: c a)
  case 0
  then have "\<not> 32 * c < len" using n by linarith
  then show ?case using 0 by (subst prf_loop.simps) (simp add: length_prf_blocks [where ?sm3.0 = sm3, OF sm3])
next
  case (Suc d)
  have N: "len \<le> 32 * n" "32 * n < len + 32"
    using n div_mult_mod_eq [of "len + 31" 32] mod_less_divisor [of 32 "len + 31"] by simp_all
  have c: "c < n" "32 * c < len" using Suc n by linarith+
  have a: "a = prf_A sm3 secret seed (Suc c)" using Suc.prems(2) c(1) by simp
  have h: "prf_hmac sm3 secret step x = Inr (hmac_ref sm3 secret x)" for step x
    using hmac_compute_eq [where ?sm3.0 = sm3, OF sm3] by (simp add: prf_hmac_def)
  have S: "prf_blocks sm3 secret seed c @ hmac_ref sm3 secret (a @ seed) = prf_blocks sm3 secret seed (Suc c)"
    by (simp add: prf_blocks_def a)
  have len: "length (prf_blocks sm3 secret seed k) = 32 * k" for k by (rule length_prf_blocks [where ?sm3.0 = sm3, OF sm3])
  have IH: "prf_loop sm3 secret seed len (prf_blocks sm3 secret seed (Suc c)) a' = Some (Inr (take len (prf_blocks sm3 secret seed n)))"
    if "32 * Suc c < len \<Longrightarrow> a' = prf_A sm3 secret seed (Suc (Suc c))" for a'
    by (rule Suc.hyps(1)) (use that Suc.hyps(2) c(1) N in \<open>auto simp del: prf_A.simps\<close>)
  have A: "hmac_ref sm3 secret a = prf_A sm3 secret seed (Suc (Suc c))" by (simp add: a)
  show ?case using IH by (subst prf_loop.simps) (simp add: h S len c(2) A length_hmac_ref [where ?sm3.0 = sm3, OF sm3] del: prf_A.simps)
qed

lemma prf_expand_eq:
  assumes sm3: "\<And>x. length (sm3 x) = 32" and len: "len \<le> 16384"
  shows "prf_expand sm3 secret label seed len = Some (Inr (prf_ref sm3 secret label seed len))"
proof -
  have "prf_loop sm3 secret (label @ seed) len [] (hmac_ref sm3 secret (label @ seed)) =
      Some (Inr (take len (prf_blocks sm3 secret (label @ seed) ((len + 31) div 32))))"
    using prf_loop_eq [where ?sm3.0 = sm3 and c = 0 and a = "hmac_ref sm3 secret (label @ seed)" and seed = "label @ seed", OF sm3 refl]
    by (simp add: prf_blocks_def [of _ _ _ 0])
  then show ?thesis using len hmac_compute_eq [where ?sm3.0 = sm3, OF sm3]
    by (simp add: prf_expand_def prf_ref_def prf_hmac_def MAX_PRF_OUTPUT_def Let_def)
qed

lemma length_prf_ref:
  assumes "\<And>x. length (sm3 x) = 32"
  shows "length (prf_ref sm3 secret label seed len) = len"
  using length_prf_blocks [where ?sm3.0 = sm3, OF assms] by (simp add: prf_ref_def)

lemma length_slice [simp]: "b \<le> length xs \<Longrightarrow> length (slice a b xs) = b - a"
  by (simp add: slice_def)

lemma slice_append: "a \<le> b \<Longrightarrow> b \<le> c \<Longrightarrow> slice a b xs @ slice b c xs = slice a c xs"
proof -
  assume "a \<le> b" "b \<le> c"
  then have "drop b xs = drop (b - a) (drop a xs)" "c - a = (b - a) + (c - b)" by simp_all
  then show ?thesis by (simp only: slice_def take_add)
qed

section \<open>What a derivation gives\<close>

definition key_block :: "(bytes \<Rightarrow> bytes) \<Rightarrow> bytes \<Rightarrow> bytes \<Rightarrow> bytes \<Rightarrow> nat \<Rightarrow> bytes" where
  "key_block sm3 master cr sr n = prf_ref sm3 master (ascii ''key expansion'') (sr @ cr) n"

definition material_ok :: "TlcpCipherSuite \<Rightarrow> TlcpKeyMaterial \<Rightarrow> bool" where
  "material_ok suite km \<longleftrightarrow> length (client_enc_key km) = 16 \<and> length (server_enc_key km) = 16 \<and>
     (if gcm suite then client_mac_key km = [] \<and> server_mac_key km = [] \<and> length (client_iv km) = 4 \<and> length (server_iv km) = 4
      else length (client_mac_key km) = 32 \<and> length (server_mac_key km) = 32 \<and> length (client_iv km) = 16 \<and> length (server_iv km) = 16)"

lemma key_material_derive_ok:
  assumes "\<And>x. length (sm3 x) = 32"
  obtains km where "key_material_derive sm3 master cr sr suite = Some (Inr km)" "material_ok suite km"
    "client_mac_key km @ server_mac_key km @ client_enc_key km @ server_enc_key km @ client_iv km @ server_iv km =
       key_block sm3 master cr sr (if gcm suite then 40 else 128)"
proof -
  let ?k = "key_block sm3 master cr sr (if gcm suite then 40 else 128)"
  have l: "length ?k = (if gcm suite then 40 else 128)" by (simp add: key_block_def length_prf_ref [where ?sm3.0 = sm3, OF assms])
  have whole: "slice 0 n ?k = ?k" if "n = length ?k" for n using that by (simp add: slice_def)
  have p: "prf_expand sm3 master (ascii ''key expansion'') (sr @ cr) n = Some (Inr (key_block sm3 master cr sr n))" if "n \<le> 128" for n
    using that prf_expand_eq [where ?sm3.0 = sm3, OF assms] by (simp add: key_block_def)
  show ?thesis
  proof (cases "gcm suite")
    case True
    show ?thesis by (rule that) (use l p whole True in \<open>auto simp: key_material_derive_def material_ok_def slice_append\<close>)
  next
    case False
    show ?thesis by (rule that) (use l p whole False in \<open>auto simp: key_material_derive_def material_ok_def slice_append\<close>)
  qed
qed

definition finished_value :: "(bytes \<Rightarrow> bytes) \<Rightarrow> bytes \<Rightarrow> string \<Rightarrow> bytes \<Rightarrow> bytes" where
  "finished_value sm3 master label transcript = prf_ref sm3 master (ascii label) (sm3 transcript) 12"

lemma finished_compute_eq:
  assumes "\<And>x. length (sm3 x) = 32"
  shows "finished_compute sm3 master label transcript = Some (Inr \<lparr>verify_data = finished_value sm3 master label transcript\<rparr>)"
  by (simp add: finished_compute_def sm3_hash_def prf_expand_eq [where ?sm3.0 = sm3, OF assms] finished_value_def
    length_prf_ref [where ?sm3.0 = sm3, OF assms])

lemma length_finished_value:
  assumes "\<And>x. length (sm3 x) = 32"
  shows "length (finished_value sm3 master label transcript) = 12"
  by (simp add: finished_value_def length_prf_ref [where ?sm3.0 = sm3, OF assms])

section \<open>Properties\<close>

text \<open>
  C12. The PRF of the protocol ends and returns the output of \<open>P_hash\<close> of RFC 5246 over HMAC-SM3 for every
  length up to 16384, an error above. The key material is this output for the label \<open>key expansion\<close>,
  cut without gap or overlap into parts of the lengths the suite needs, and the value of a Finished
  message is its 12-byte output over the hash of the transcript.
\<close>

theorem tlcp_prf_correct:
  assumes "\<And>x. length (sm3 x) = 32"
  shows "prf_expand sm3 secret label seed len =
      Some (if len \<le> 16384 then Inr (prf_ref sm3 secret label seed len)
            else Inl (HandshakeFailed (''prf_expand length '' @ show_nat len @ '' exceeds limit '' @ show_nat 16384))) \<and>
    length (prf_ref sm3 secret label seed len) = len \<and>
    (\<exists>km. key_material_derive sm3 secret cr sr suite = Some (Inr km) \<and> material_ok suite km \<and>
       client_mac_key km @ server_mac_key km @ client_enc_key km @ server_enc_key km @ client_iv km @ server_iv km =
         prf_ref sm3 secret (ascii ''key expansion'') (sr @ cr) (if gcm suite then 40 else 128) \<and>
       (is_ok (to_session_keys km) \<longleftrightarrow> gcm suite)) \<and>
    finished_compute sm3 secret name transcript = Some (Inr \<lparr>verify_data = prf_ref sm3 secret (ascii name) (sm3 transcript) 12\<rparr>)"
proof -
  obtain km where km: "key_material_derive sm3 secret cr sr suite = Some (Inr km)" "material_ok suite km"
    "client_mac_key km @ server_mac_key km @ client_enc_key km @ server_enc_key km @ client_iv km @ server_iv km =
       key_block sm3 secret cr sr (if gcm suite then 40 else 128)" by (rule key_material_derive_ok [where ?sm3.0 = sm3, OF assms])
  have "is_ok (to_session_keys km) \<longleftrightarrow> gcm suite" using km(2) by (cases "gcm suite") (simp_all add: to_session_keys_def material_ok_def)
  moreover have "prf_expand sm3 secret label seed len =
      Some (if len \<le> 16384 then Inr (prf_ref sm3 secret label seed len)
            else Inl (HandshakeFailed (''prf_expand length '' @ show_nat len @ '' exceeds limit '' @ show_nat 16384)))"
    using prf_expand_eq [where ?sm3.0 = sm3, OF assms] by (simp add: prf_expand_def MAX_PRF_OUTPUT_def)
  ultimately show ?thesis
    using km length_prf_ref [where ?sm3.0 = sm3, OF assms] finished_compute_eq [where ?sm3.0 = sm3, OF assms]
    unfolding key_block_def finished_value_def by blast
qed

theorem tlcp_prf_correct_witness:
  "\<exists>km. key_material_derive sum_sm3 [1] [2] [3] ECDHE_SM4_CBC_SM3 = Some (Inr km) \<and> length (server_mac_key km) = 32 \<and> \<not> is_ok (to_session_keys km)"
  using tlcp_prf_correct [where ?sm3.0 = sum_sm3 and suite = ECDHE_SM4_CBC_SM3 and secret = "[1]" and cr = "[2]" and sr = "[3]"
    and label = "[]" and seed = "[]" and len = 1 and name = "[]" and transcript = "[]", OF length_sum_sm3]
  by (auto simp: material_ok_def ECDHE_SM4_CBC_SM3_def)

end
