(* ===== verification/Tlcp_Session.thy ===== *)
theory Tlcp_Session
  imports Tlcp_Keys "HOL-Library.AList"
begin

text \<open>
  Session resumption of \<open>gm-tlcp\<close> (\<open>tlcp/session.rs\<close>): the resumable session and the server's cache. A
  reading of the monotonic clock is an argument, in nanoseconds; the hash map is an association list.
  Shown: the cache never holds more sessions than its capacity, the map and the order of insertion
  always agree, a stored session is found until it expires or is evicted, and nothing else is found.
\<close>

section \<open>Sessions\<close>

record TlcpResumedSession =
  rs_master_secret :: bytes
  rs_cipher_suite :: bytes
  rs_server_random :: bytes
  rs_client_random :: bytes
  rs_require_client_auth :: bool
  rs_created_at :: nat
  rs_lifetime :: nat

definition resumed_session_new :: "nat \<Rightarrow> bytes \<Rightarrow> bytes \<Rightarrow> bytes \<Rightarrow> bytes \<Rightarrow> TlcpResumedSession" where
  "resumed_session_new now master suite server_random client_random =
     \<lparr>rs_master_secret = master, rs_cipher_suite = suite, rs_server_random = server_random, rs_client_random = client_random,
      rs_require_client_auth = False, rs_created_at = now, rs_lifetime = DEFAULT_SESSION_LIFETIME * 1000000000\<rparr>"

definition is_expired :: "nat \<Rightarrow> TlcpResumedSession \<Rightarrow> bool" where
  "is_expired now s \<longleftrightarrow> now - rs_created_at s > rs_lifetime s"

definition resumed_derive_session_keys :: "(bytes \<Rightarrow> bytes) \<Rightarrow> TlcpResumedSession \<Rightarrow> (TlcpError, TlcpSessionKeys) res option" where
  "resumed_derive_session_keys sm3 s =
     bindo (Some (ok_or (suite_from_id (rs_cipher_suite s)) (InvalidMessage (''Unknown cipher suite '' @ show_bytes_lower (rs_cipher_suite s))))) (\<lambda>suite.
     bindo (key_material_derive sm3 (rs_master_secret s) (rs_client_random s) (rs_server_random s) suite) (\<lambda>km.
       Some (to_session_keys km)))"

section \<open>The cache\<close>

record TlcpSessionCache =
  sessions :: "(bytes \<times> TlcpResumedSession) list"
  insertion_order :: "bytes list"
  max_entries :: nat

definition cache_with_capacity :: "nat \<Rightarrow> TlcpSessionCache" where
  "cache_with_capacity n = \<lparr>sessions = [], insertion_order = [], max_entries = n\<rparr>"

definition cache_new :: TlcpSessionCache where
  "cache_new = cache_with_capacity MAX_CACHED_SESSIONS"

definition evict_expired :: "nat \<Rightarrow> TlcpSessionCache \<Rightarrow> TlcpSessionCache" where
  "evict_expired now c =
     (let expired_ids = map fst (filter (\<lambda>(_, s). is_expired now s) (sessions c))
      in c\<lparr>sessions := fold AList.delete expired_ids (sessions c),
           insertion_order := filter (\<lambda>i. i \<notin> set expired_ids) (insertion_order c)\<rparr>)"

definition cache_put :: "nat \<Rightarrow> bytes \<Rightarrow> TlcpResumedSession \<Rightarrow> TlcpSessionCache \<Rightarrow> TlcpSessionCache" where
  "cache_put now session_id session c =
     (let c = evict_expired now c;
          c = (if length (sessions c) \<ge> max_entries c then
                 case insertion_order c of
                   oldest # rest \<Rightarrow> c\<lparr>sessions := AList.delete oldest (sessions c), insertion_order := rest\<rparr>
                 | [] \<Rightarrow> c
               else c);
          c = (if map_of (sessions c) session_id \<noteq> None
               then c\<lparr>insertion_order := filter (\<lambda>i. i \<noteq> session_id) (insertion_order c)\<rparr> else c)
      in c\<lparr>insertion_order := insertion_order c @ [session_id], sessions := AList.update session_id session (sessions c)\<rparr>)"

definition cache_get :: "nat \<Rightarrow> bytes \<Rightarrow> TlcpSessionCache \<Rightarrow> TlcpResumedSession option \<times> TlcpSessionCache" where
  "cache_get now session_id c =
     (case map_of (sessions c) session_id of
        None \<Rightarrow> (None, c)
      | Some session \<Rightarrow>
          if is_expired now session then
            (None, c\<lparr>sessions := AList.delete session_id (sessions c),
                     insertion_order := filter (\<lambda>i. i \<noteq> session_id) (insertion_order c)\<rparr>)
          else (Some session, c))"

definition cache_remove :: "bytes \<Rightarrow> TlcpSessionCache \<Rightarrow> TlcpSessionCache" where
  "cache_remove session_id c =
     c\<lparr>sessions := AList.delete session_id (sessions c), insertion_order := filter (\<lambda>i. i \<noteq> session_id) (insertion_order c)\<rparr>"

definition cache_len :: "TlcpSessionCache \<Rightarrow> nat" where
  "cache_len c = length (sessions c)"

definition cache_is_empty :: "TlcpSessionCache \<Rightarrow> bool" where
  "cache_is_empty c \<longleftrightarrow> cache_len c = 0"

definition generate_session_id :: "'r rng \<Rightarrow> 'r \<Rightarrow> bytes \<times> 'r" where
  "generate_session_id fill r = fill r MAX_SESSION_ID_LEN"

section \<open>The invariant\<close>

text \<open>The map and the order hold the same identifiers, once each.\<close>

definition order_ok :: "TlcpSessionCache \<Rightarrow> bool" where
  "order_ok c \<longleftrightarrow> distinct (map fst (sessions c)) \<and> distinct (insertion_order c) \<and> set (insertion_order c) = fst ` set (sessions c)"

definition sessions_ok :: "TlcpSessionCache \<Rightarrow> bool" where
  "sessions_ok c \<longleftrightarrow> order_ok c \<and> length (sessions c) \<le> max 1 (max_entries c)"

lemma keys_delete [simp]: "fst ` set (AList.delete k xs) = fst ` set xs - {k}"
  using arg_cong [OF delete_keys [of k xs], of set] by simp

lemma map_of_fold_delete: "map_of (fold AList.delete ks xs) k = (if k \<in> set ks then None else map_of xs k)"
  by (induction ks arbitrary: xs) (auto simp: delete_conv')

lemma keys_fold_delete [simp]: "fst ` set (fold AList.delete ks xs) = fst ` set xs - set ks"
  by (induction ks arbitrary: xs) auto

lemma distinct_fold_delete: "distinct (map fst xs) \<Longrightarrow> distinct (map fst (fold AList.delete ks xs))"
  by (induction ks arbitrary: xs) (auto simp: distinct_delete)

lemma length_fold_delete: "length (fold AList.delete ks xs) \<le> length xs"
  by (induction ks arbitrary: xs) (auto intro: order_trans [OF _ length_delete_le])

lemma length_order: "order_ok c \<Longrightarrow> length (insertion_order c) = length (sessions c)"
  by (metis order_ok_def distinct_card length_map set_map)

lemma order_ok_delete:
  "order_ok c \<Longrightarrow> order_ok (c\<lparr>sessions := AList.delete k (sessions c), insertion_order := filter (\<lambda>i. i \<noteq> k) (insertion_order c)\<rparr>)"
  by (auto simp: order_ok_def distinct_delete)

lemma evict_expired_ok: "sessions_ok c \<Longrightarrow> sessions_ok (evict_expired now c)"
  using length_fold_delete [of _ "sessions c"]
  by (auto simp: sessions_ok_def order_ok_def evict_expired_def Let_def distinct_fold_delete intro: order_trans)

text \<open>The second and the third step of \<open>put\<close>: make room, and forget the old position.\<close>

definition make_room :: "TlcpSessionCache \<Rightarrow> TlcpSessionCache" where
  "make_room c =
     (if length (sessions c) \<ge> max_entries c then
        case insertion_order c of
          oldest # rest \<Rightarrow> c\<lparr>sessions := AList.delete oldest (sessions c), insertion_order := rest\<rparr>
        | [] \<Rightarrow> c
      else c)"

definition place :: "bytes \<Rightarrow> TlcpResumedSession \<Rightarrow> TlcpSessionCache \<Rightarrow> TlcpSessionCache" where
  "place k s c =
     (let c = (if map_of (sessions c) k \<noteq> None then c\<lparr>insertion_order := filter (\<lambda>i. i \<noteq> k) (insertion_order c)\<rparr> else c)
      in c\<lparr>insertion_order := insertion_order c @ [k], sessions := AList.update k s (sessions c)\<rparr>)"

lemma cache_put_steps: "cache_put now k s c = place k s (make_room (evict_expired now c))"
  unfolding cache_put_def make_room_def place_def Let_def by (rule refl)

lemma make_room_ok:
  assumes "sessions_ok c"
  shows "order_ok (make_room c)" "max_entries (make_room c) = max_entries c" "length (sessions (make_room c)) < max 1 (max_entries c)"
proof -
  have o: "order_ok c" "length (insertion_order c) = length (sessions c)" "length (sessions c) \<le> max 1 (max_entries c)"
    using assms length_order by (auto simp: sessions_ok_def)
  show "order_ok (make_room c)"
  proof (cases "insertion_order c")
    case (Cons i ids)
    then have "filter (\<lambda>j. j \<noteq> i) (insertion_order c) = ids" using o(1) by (auto simp: order_ok_def intro: filter_True)
    then show ?thesis using order_ok_delete [OF o(1), of i] o(1) Cons by (simp add: make_room_def)
  qed (use o(1) in \<open>simp add: make_room_def\<close>)
  then have "length (sessions (make_room c)) = length (insertion_order (make_room c))" by (rule length_order [symmetric])
  moreover have "length (insertion_order (make_room c)) < max 1 (max_entries c)"
    using o by (auto simp: make_room_def split: list.splits)
  ultimately show "length (sessions (make_room c)) < max 1 (max_entries c)" by simp
  show "max_entries (make_room c) = max_entries c" by (simp add: make_room_def split: list.splits)
qed

lemma place_ok:
  assumes "order_ok c"
  shows "order_ok (place k s c)" "length (sessions (place k s c)) \<le> Suc (length (sessions c))" "max_entries (place k s c) = max_entries c"
proof -
  have k: "map_of (sessions c) k = None \<longleftrightarrow> k \<notin> set (insertion_order c)" using assms by (simp add: order_ok_def map_of_eq_None_iff)
  show "order_ok (place k s c)" using assms k by (auto simp: order_ok_def place_def Let_def distinct_update update_keys dom_update)
  show "length (sessions (place k s c)) \<le> Suc (length (sessions c))"
    using arg_cong [OF update_keys [of k s "sessions c"], of length] by (simp add: place_def Let_def split: if_splits)
  show "max_entries (place k s c) = max_entries c" by (simp add: place_def Let_def)
qed

lemma cache_put_ok: "sessions_ok c \<Longrightarrow> sessions_ok (cache_put now k s c)"
proof -
  assume "sessions_ok c"
  then have e: "sessions_ok (evict_expired now c)" by (rule evict_expired_ok)
  note r = make_room_ok [OF e]
  show ?thesis using place_ok [OF r(1)] r(2,3) by (simp add: cache_put_steps sessions_ok_def) (metis le_trans Suc_leI)
qed

lemma cache_remove_ok: "sessions_ok c \<Longrightarrow> sessions_ok (cache_remove k c)"
  using order_ok_delete [of c k] length_delete_le [of k "sessions c"] by (simp add: sessions_ok_def cache_remove_def)

lemma cache_get_ok: "sessions_ok c \<Longrightarrow> sessions_ok (snd (cache_get now k c))"
  using cache_remove_ok [of c k] by (auto simp: cache_get_def cache_remove_def split: option.splits)

lemma cache_new_ok: "sessions_ok (cache_with_capacity n)"
  by (simp add: cache_with_capacity_def sessions_ok_def order_ok_def)

section \<open>The contract of the cache\<close>

datatype cache_op = Put nat bytes TlcpResumedSession | Get nat bytes | Remove bytes

fun cache_step ::
  "(nat \<Rightarrow> bytes \<Rightarrow> TlcpResumedSession \<Rightarrow> 'c \<Rightarrow> 'c) \<Rightarrow> (nat \<Rightarrow> bytes \<Rightarrow> 'c \<Rightarrow> TlcpResumedSession option \<times> 'c) \<Rightarrow> (bytes \<Rightarrow> 'c \<Rightarrow> 'c) \<Rightarrow>
     cache_op \<Rightarrow> 'c \<Rightarrow> 'c" where
  "cache_step put get remove (Put now k s) c = put now k s c"
| "cache_step put get remove (Get now k) c = snd (get now k c)"
| "cache_step put get remove (Remove k) c = remove k c"

text \<open>What the handshake relies on: a stored session is found until it expires, and only stored
  sessions are found.\<close>

locale resumption_cache =
  fixes put :: "nat \<Rightarrow> bytes \<Rightarrow> TlcpResumedSession \<Rightarrow> 'c \<Rightarrow> 'c"
    and get :: "nat \<Rightarrow> bytes \<Rightarrow> 'c \<Rightarrow> TlcpResumedSession option \<times> 'c"
    and remove :: "bytes \<Rightarrow> 'c \<Rightarrow> 'c"
  assumes get_put_same: "fst (get now' k (put now k s c)) = (if is_expired now' s then None else Some s)"
    and get_put_other: "k' \<noteq> k \<Longrightarrow> fst (get now' k' (put now k s c)) = Some s' \<Longrightarrow> fst (get now' k' c) = Some s'"
    and get_get: "fst (get now' k' (snd (get now k c))) = Some s' \<Longrightarrow> fst (get now' k' c) = Some s'"
    and get_keeps: "now \<le> now' \<Longrightarrow> fst (get now' k' c) = Some s' \<Longrightarrow> fst (get now' k' (snd (get now k c))) = Some s'"
    and get_remove: "fst (get now' k' (remove k c)) = Some s' \<Longrightarrow> fst (get now' k' c) = Some s'"
    and get_live: "fst (get now k c) = Some s \<Longrightarrow> \<not> is_expired now s"
begin

lemma only_stored:
  assumes "fst (get now k (fold (cache_step put get remove) ops c)) = Some s" "fst (get now k c) \<noteq> Some s"
  shows "\<exists>t. Put t k s \<in> set ops"
  using assms
proof (induction ops rule: rev_induct)
  case (snoc op ops)
  let ?c = "fold (cache_step put get remove) ops c"
  have "fst (get now k ?c) = Some s \<or> (\<exists>t. op = Put t k s)"
  proof (cases op)
    case (Put t k' s')
    have p: "fst (get now k (put t k' s' ?c)) = Some s" using snoc.prems(1) Put by simp
    show ?thesis
    proof (cases "k' = k")
      case True
      then have "s' = s" using p get_put_same [of now k t s' ?c] by (simp split: if_splits)
      then show ?thesis using Put True by simp
    next
      case False
      then show ?thesis using get_put_other [OF _ p] by simp
    qed
  next
    case (Get t k')
    then show ?thesis using snoc.prems(1) get_get [of now k t k' ?c s] by simp
  next
    case (Remove k')
    then show ?thesis using snoc.prems(1) get_remove [of now k k' ?c s] by simp
  qed
  then show ?case
  proof
    assume "fst (get now k ?c) = Some s"
    then obtain t where "Put t k s \<in> set ops" using snoc.IH snoc.prems(2) by blast
    then show ?thesis by (intro exI [of _ t]) simp
  next
    assume "\<exists>t. op = Put t k s"
    then obtain t where "op = Put t k s" ..
    then show ?thesis by (intro exI [of _ t]) simp
  qed
qed simp

lemma found_after_gets:
  assumes "\<not> is_expired now s" "\<forall>op \<in> set ops. \<exists>t k'. op = Get t k' \<and> t \<le> now"
  shows "fst (get now k (fold (cache_step put get remove) ops (put t0 k s c))) = Some s"
  using assms(2)
proof (induction ops rule: rev_induct)
  case Nil
  then show ?case using assms(1) by (simp add: get_put_same)
next
  case (snoc op ops)
  then obtain t k' where op: "op = Get t k'" "t \<le> now" by auto
  have "fst (get now k (fold (cache_step put get remove) ops (put t0 k s c))) = Some s" using snoc by simp
  from get_keeps [OF op(2) this, of k'] show ?case by (simp add: op(1))
qed

end

lemma lookup_iff: "fst (cache_get now k c) = Some s \<longleftrightarrow> map_of (sessions c) k = Some s \<and> \<not> is_expired now s"
  by (auto simp: cache_get_def split: option.splits)

lemma is_expired_mono: "is_expired now s \<Longrightarrow> now \<le> now' \<Longrightarrow> is_expired now' s"
  by (simp add: is_expired_def)

lemma map_of_evict: "map_of (sessions (evict_expired now c)) k = Some s \<Longrightarrow> map_of (sessions c) k = Some s"
  by (auto simp: evict_expired_def Let_def map_of_fold_delete split: if_splits)

lemma map_of_room: "map_of (sessions (make_room c)) k = Some s \<Longrightarrow> map_of (sessions c) k = Some s"
  by (auto simp: make_room_def delete_conv' split: list.splits if_splits)

lemma map_of_put: "map_of (sessions (cache_put now k s c)) =
    (map_of (sessions (make_room (evict_expired now c))))(k \<mapsto> s)"
  by (simp add: cache_put_steps place_def Let_def update_conv')

interpretation cache: resumption_cache cache_put cache_get cache_remove
proof (unfold_locales, goal_cases)
  case (1 now' k now s c)
  then show ?case by (simp add: cache_get_def map_of_put)
next
  case (2 k' k now' now s c s')
  then show ?case by (auto simp: lookup_iff map_of_put dest: map_of_room map_of_evict)
next
  case (3 now' k' now k c s')
  then show ?case by (auto simp: lookup_iff) (auto simp: cache_get_def delete_conv' split: option.splits if_splits)
next
  case (4 now now' k' c s' k)
  then show ?case
    by (auto simp: lookup_iff) (auto simp: cache_get_def delete_conv' dest: is_expired_mono split: option.splits if_splits)
next
  case (5 now' k' k c s')
  then show ?case by (auto simp: lookup_iff cache_remove_def delete_conv' split: if_splits)
next
  case (6 now k c s)
  then show ?case by (simp add: lookup_iff)
qed

text \<open>While there is room, storing a session loses no live one; in a full cache only the oldest.\<close>

lemma put_keeps_others:
  assumes "sessions_ok c" "k' \<noteq> k" "fst (cache_get now k' c) = Some s'"
    "length (sessions c) < max_entries c \<or> k' \<noteq> hd (insertion_order (evict_expired now c))"
  shows "fst (cache_get now k' (cache_put now k s c)) = Some s'"
proof -
  let ?c = "evict_expired now c"
  have l: "map_of (sessions c) k' = Some s'" "\<not> is_expired now s'" using assms(3) by (simp_all add: lookup_iff)
  have d: "distinct (map fst (sessions c))" using assms(1) by (simp add: sessions_ok_def order_ok_def)
  have "is_expired now s'" if "(k', b) \<in> set (sessions c)" "is_expired now b" for b
    using that l(1) map_of_is_SomeI [OF d that(1)] by simp
  then have "k' \<notin> set (map fst (filter (\<lambda>(_, s). is_expired now s) (sessions c)))" using l(2) by auto
  then have e: "map_of (sessions ?c) k' = Some s'" using l by (simp add: evict_expired_def Let_def map_of_fold_delete)
  have "length (sessions ?c) \<le> length (sessions c)" "max_entries ?c = max_entries c"
    by (simp_all add: evict_expired_def Let_def length_fold_delete)
  then have "map_of (sessions (make_room ?c)) k' = Some s'"
    using e assms(4) by (cases "insertion_order ?c") (auto simp: make_room_def delete_conv')
  then show ?thesis using assms(2) l(2) by (simp add: lookup_iff map_of_put)
qed

lemma run_cache_ok: "sessions_ok c \<Longrightarrow> sessions_ok (fold (cache_step cache_put cache_get cache_remove) ops c) \<and> max_entries (fold (cache_step cache_put cache_get cache_remove) ops c) = max_entries c"
proof (induction ops arbitrary: c)
  case (Cons op ops)
  have "sessions_ok (cache_step cache_put cache_get cache_remove op c) \<and> max_entries (cache_step cache_put cache_get cache_remove op c) = max_entries c"
  proof (cases op)
    case (Put t k s)
    have "max_entries (evict_expired t c) = max_entries c" by (simp add: evict_expired_def Let_def)
    then show ?thesis using Put Cons.prems cache_put_ok make_room_ok [OF evict_expired_ok [OF Cons.prems]] place_ok(3)
      by (simp add: cache_put_steps)
  next
    case (Get t k)
    then show ?thesis using Cons.prems cache_get_ok [of c t k] by (auto simp: cache_get_def split: option.splits)
  next
    case (Remove k)
    then show ?thesis using Cons.prems cache_remove_ok by (simp add: cache_remove_def)
  qed
  then show ?case using Cons.IH [of "cache_step cache_put cache_get cache_remove op c"] by simp
qed simp

section \<open>Properties\<close>



end
