(* ===== verification/Tlcp_Messages.thy ===== *)
theory Tlcp_Messages
  imports Tlcp_Keys
begin

text \<open>
  The handshake messages of \<open>gm-tlcp\<close> (\<open>tlcp/messages\<close>) and their framing (\<open>parse_handshake_message\<close> of
  \<open>tlcp/mod.rs\<close>): both hellos, certificates, certificate request, the two key exchange messages in all
  variants. The build feature \<open>tlcp-gmssl-compat\<close> is a truth value \<open>gmssl_compat\<close>.
  Shown: every message is read back from its bytes, whatever follows it in the record, for all lengths
  its fields can express; what the parsers of certificates and hellos keep and what they drop.
\<close>

section \<open>Framing\<close>

text \<open>The 24-bit length.\<close>

definition u24_to_be :: "nat \<Rightarrow> bytes" where
  "u24_to_be n = [word_of_nat (n div 65536), word_of_nat (n div 256), word_of_nat n]"

definition u24_from_be :: "u8 \<Rightarrow> u8 \<Rightarrow> u8 \<Rightarrow> nat" where
  "u24_from_be a b c = push_bit 16 (unat a) OR push_bit 8 (unat b) OR unat c"

definition handshake_message :: "HandshakeType \<Rightarrow> bytes \<Rightarrow> bytes" where
  "handshake_message t body = [handshake_type_code t] @ u24_to_be (length body) @ body"

definition parse_handshake_message :: "bytes \<Rightarrow> (TlcpError, HandshakeType \<times> bytes \<times> bytes) res" where
  "parse_handshake_message payload =
     (if length payload < 4 then Inl (InvalidMessage ''Handshake message too short'')
      else bind_res (handshake_type_try_from (payload ! 0)) (\<lambda>msg_type.
        let body_len = u24_from_be (payload ! 1) (payload ! 2) (payload ! 3)
        in if length payload < 4 + body_len
           then Inl (InvalidMessage (''Handshake body truncated: '' @ show_nat (length payload - 4) @ '' bytes available, '' @
                                     show_nat body_len @ '' needed''))
           else Inr (msg_type, slice 4 (4 + body_len) payload, drop (4 + body_len) payload)))"

section \<open>ClientHello\<close>

record TlcpClientHello =
  ch_version :: bytes
  ch_random :: bytes
  ch_session_id :: bytes
  ch_cipher_suites :: "bytes list"
  ch_compression_methods :: bytes

text \<open>The four bytes of the clock reading are an argument.\<close>

definition client_hello_new :: "'r rng \<Rightarrow> u32 \<Rightarrow> 'r \<Rightarrow> TlcpClientHello \<times> 'r" where
  "client_hello_new fill gmt_unix_time r =
     (let (tail, r') = fill r 28
      in (\<lparr>ch_version = TLCP_VERSION_1_0, ch_random = u32_to_be gmt_unix_time @ tail, ch_session_id = [],
           ch_cipher_suites = [TLS_ECDHE_SM4_GCM_SM3, TLS_ECDHE_SM4_CBC_SM3, TLS_ECC_SM4_GCM_SM3, TLS_ECC_SM4_CBC_SM3],
           ch_compression_methods = [0x00]\<rparr>, r'))"

definition client_hello_body :: "TlcpClientHello \<Rightarrow> bytes" where
  "client_hello_body ch =
     ch_version ch @ ch_random ch @ [word_of_nat (length (ch_session_id ch))] @ ch_session_id ch @
     u16_to_be (word_of_nat (length (ch_cipher_suites ch) * 2)) @ concat (ch_cipher_suites ch) @
     [word_of_nat (length (ch_compression_methods ch))] @ ch_compression_methods ch"

definition client_hello_to_bytes :: "TlcpClientHello \<Rightarrow> bytes" where
  "client_hello_to_bytes ch = handshake_message ClientHello (client_hello_body ch)"

definition client_hello_from_body :: "bytes \<Rightarrow> (TlcpError, TlcpClientHello) res" where
  "client_hello_from_body data =
     (if length data < 36 then Inl (InvalidMessage ''ClientHello too short'')
      else
        let version = [data ! 0, data ! 1];
            random = slice 2 34 data;
            pos = 34
        in if pos \<ge> length data then Inl (InvalidMessage ''ClientHello truncated at session_id_len'')
           else
             let sid_len = unat (data ! pos);
                 pos = pos + 1
             in if sid_len > MAX_SESSION_ID_LEN
                then Inl (InvalidMessage (''ClientHello session_id_len '' @ show_nat sid_len @ '' exceeds MAX_SESSION_ID_LEN ('' @
                                          show_nat MAX_SESSION_ID_LEN @ '')''))
                else if pos + sid_len > length data then Inl (InvalidMessage ''ClientHello truncated at session_id'')
                else
                  let session_id = slice pos (pos + sid_len) data;
                      pos = pos + sid_len
                  in if pos + 2 > length data then Inl (InvalidMessage ''ClientHello truncated at cipher_suites_len'')
                     else
                       let cs_len = unat (u16_from_be [data ! pos, data ! (pos + 1)]);
                           pos = pos + 2
                       in if pos + cs_len > length data \<or> cs_len mod 2 \<noteq> 0
                          then Inl (InvalidMessage ''ClientHello truncated at cipher_suites'')
                          else
                            let cipher_suites = map (\<lambda>i. [data ! (pos + 2 * i), data ! (pos + 2 * i + 1)]) [0..<cs_len div 2];
                                pos = pos + cs_len
                            in if pos \<ge> length data then Inl (InvalidMessage ''ClientHello truncated at compression_len'')
                               else
                                 let comp_len = unat (data ! pos);
                                     pos = pos + 1
                                 in if pos + comp_len > length data then Inl (InvalidMessage ''ClientHello truncated at compression'')
                                    else
                                      let compression_methods = slice pos (pos + comp_len) data
                                      in if \<not> list_all (\<lambda>m. m = 0x00) compression_methods
                                         then Inl (InvalidMessage ''ClientHello compression_methods must be all 0x00 (TLCP only supports null)'')
                                         else Inr \<lparr>ch_version = version, ch_random = random, ch_session_id = session_id,
                                                   ch_cipher_suites = cipher_suites, ch_compression_methods = compression_methods\<rparr>)"

section \<open>ServerHello\<close>

record TlcpServerHello =
  sh_version :: bytes
  sh_random :: bytes
  sh_session_id :: bytes
  sh_cipher_suite :: bytes
  sh_compression_method :: u8

definition known_suite :: "bytes \<Rightarrow> bool" where
  "known_suite s \<longleftrightarrow> s \<in> {TLS_ECDHE_SM4_GCM_SM3, TLS_ECDHE_SM4_CBC_SM3, TLS_ECC_SM4_GCM_SM3, TLS_ECC_SM4_CBC_SM3,
     TLS_IBC_SM4_GCM_SM3, TLS_IBC_SM4_CBC_SM3, TLS_IBSDH_SM4_GCM_SM3, TLS_IBSDH_SM4_CBC_SM3,
     TLS_RSA_SM4_GCM_SM3, TLS_RSA_SM4_CBC_SM3, TLS_RSA_SM4_GCM_SHA256, TLS_RSA_SM4_CBC_SHA256}"

definition server_hello_from_bytes :: "bytes \<Rightarrow> (TlcpError, TlcpServerHello) res" where
  "server_hello_from_bytes data =
     (if length data < 38 then Inl (InvalidMessage ''ServerHello too short'')
      else
        let version = [data ! 0, data ! 1];
            random = slice 2 34 data;
            session_id_len = unat (data ! 34)
        in if length data < 35 + session_id_len + 3 then Inl (InvalidMessage ''ServerHello truncated'')
           else
             let session_id = slice 35 (35 + session_id_len) data;
                 offset = 35 + session_id_len;
                 cipher_suite = [data ! offset, data ! (offset + 1)]
             in if \<not> known_suite cipher_suite
                then Inl (InvalidMessage (''ServerHello cipher_suite '' @ show_bytes_upper cipher_suite @ '' is not a known TLCP suite '' @
                       ''(gm-tlcp 0.6.0 supports all 12 GB/T 38636-2020 suites: ECDHE/ECC + IBC + IBSDH + RSA)''))
                else
                  let compression_method = data ! (offset + 2)
                  in if compression_method \<noteq> 0x00
                     then Inl (InvalidMessage (''ServerHello compression_method '' @ show_nat (unat compression_method) @
                                               '' must be 0x00 (TLCP null compression)''))
                     else Inr \<lparr>sh_version = version, sh_random = random, sh_session_id = session_id,
                               sh_cipher_suite = cipher_suite, sh_compression_method = compression_method\<rparr>)"

definition server_hello_is_ecdhe :: "TlcpServerHello \<Rightarrow> bool" where
  "server_hello_is_ecdhe sh \<longleftrightarrow> sh_cipher_suite sh = TLS_ECDHE_SM4_GCM_SM3 \<or> sh_cipher_suite sh = TLS_ECDHE_SM4_CBC_SM3"

definition server_hello_is_gcm :: "TlcpServerHello \<Rightarrow> bool" where
  "server_hello_is_gcm sh \<longleftrightarrow> sh_cipher_suite sh = TLS_ECDHE_SM4_GCM_SM3 \<or> sh_cipher_suite sh = TLS_ECC_SM4_GCM_SM3"

definition server_hello_body :: "TlcpServerHello \<Rightarrow> bytes" where
  "server_hello_body sh =
     sh_version sh @ sh_random sh @ [word_of_nat (length (sh_session_id sh))] @ sh_session_id sh @
     sh_cipher_suite sh @ [sh_compression_method sh]"

definition server_hello_to_bytes :: "TlcpServerHello \<Rightarrow> bytes" where
  "server_hello_to_bytes sh = handshake_message ServerHello (server_hello_body sh)"

section \<open>ServerHelloDone and CertificateRequest\<close>

definition server_hello_done_to_bytes :: bytes where
  "server_hello_done_to_bytes = [handshake_type_code ServerHelloDone, 0, 0, 0]"

definition server_hello_done_from_body :: "bytes \<Rightarrow> (TlcpError, unit) res" where
  "server_hello_done_from_body body = Inr ()"

record TlcpCertificateRequest =
  cert_types :: bytes

definition certificate_request_default :: TlcpCertificateRequest where
  "certificate_request_default = \<lparr>cert_types = [1, 64, 80]\<rparr>"

definition certificate_request_body :: "TlcpCertificateRequest \<Rightarrow> (TlcpError, bytes) res" where
  "certificate_request_body cr =
     (if cert_types cr = [] \<or> length (cert_types cr) > 0xFF
      then Inl (HandshakeFailed (''CertificateRequest.cert_types must be 1..=255 bytes, got '' @ show_nat (length (cert_types cr))))
      else Inr ([word_of_nat (length (cert_types cr))] @ cert_types cr @ u16_to_be 0))"

definition certificate_request_to_bytes :: "TlcpCertificateRequest \<Rightarrow> (TlcpError, bytes) res" where
  "certificate_request_to_bytes cr =
     bind_res (certificate_request_body cr) (\<lambda>body. Inr (handshake_message CertificateRequest body))"

section \<open>Certificates\<close>

datatype CertMode = Dual | Single

record TlcpCertPair =
  sign_cert :: bytes
  enc_cert :: bytes
  sign_chain :: "bytes list"
  enc_chain :: "bytes list"
  cert_mode :: CertMode

definition cert_pair_new :: "bytes \<Rightarrow> bytes \<Rightarrow> TlcpCertPair" where
  "cert_pair_new s e = \<lparr>sign_cert = s, enc_cert = e, sign_chain = [], enc_chain = [], cert_mode = Dual\<rparr>"

definition cert_pair_new_single :: "bytes \<Rightarrow> TlcpCertPair" where
  "cert_pair_new_single c = \<lparr>sign_cert = c, enc_cert = [], sign_chain = [], enc_chain = [], cert_mode = Single\<rparr>"

definition cert_pair_with_chains :: "bytes \<Rightarrow> bytes \<Rightarrow> bytes list \<Rightarrow> bytes list \<Rightarrow> TlcpCertPair" where
  "cert_pair_with_chains s e sc ec = \<lparr>sign_cert = s, enc_cert = e, sign_chain = sc, enc_chain = ec, cert_mode = Dual\<rparr>"

definition is_single_cert :: "TlcpCertPair \<Rightarrow> bool" where
  "is_single_cert p \<longleftrightarrow> cert_mode p = Single"

definition push_cert_entry :: "bytes \<Rightarrow> bytes \<Rightarrow> bytes" where
  "push_cert_entry body cert = body @ u24_to_be (length cert) @ cert"

definition certificate_body :: "TlcpCertPair \<Rightarrow> bytes" where
  "certificate_body p =
     (let sign_entry_len = 3 + length (sign_cert p);
          chain_len = sum_list (map (\<lambda>c. 3 + length c) (sign_chain p) @ map (\<lambda>c. 3 + length c) (enc_chain p));
          total_len = (word_of_nat (case cert_mode p of Dual \<Rightarrow> sign_entry_len + 3 + length (enc_cert p) + chain_len
                                                      | Single \<Rightarrow> sign_entry_len) :: u32);
          body = push_cert_entry (drop 1 (u32_to_be total_len)) (sign_cert p)
      in if cert_mode p = Dual
         then foldl push_cert_entry (foldl push_cert_entry (push_cert_entry body (enc_cert p)) (sign_chain p)) (enc_chain p)
         else body)"

definition to_certificate_message :: "TlcpCertPair \<Rightarrow> bytes" where
  "to_certificate_message p = handshake_message Certificate (certificate_body p)"

function parse_cert_entries :: "bytes \<Rightarrow> nat \<Rightarrow> bytes list" where
  "parse_cert_entries body p =
     (if p \<ge> length body then []
      else if length body < p + 3 then []
      else
        let len = u24_from_be (body ! p) (body ! (p + 1)) (body ! (p + 2));
            q = p + 3
        in if length body < q + len then [] else slice q (q + len) body # parse_cert_entries body (q + len))"
  by pat_completeness auto
termination parse_cert_entries
  by (relation "measure (\<lambda>(body, p). length body - p)") auto

declare parse_cert_entries.simps [simp del]

definition from_certificate_message :: "bytes \<Rightarrow> (TlcpError, TlcpCertPair) res" where
  "from_certificate_message body =
     (if length body < 3 then Inl (InvalidMessage ''Certificate body too short'')
      else
        case parse_cert_entries body 3 of
          [] \<Rightarrow> Inl (InvalidMessage ''Certificate message contains no cert entries'')
        | [c] \<Rightarrow> Inr \<lparr>sign_cert = c, enc_cert = [], sign_chain = [], enc_chain = [], cert_mode = Single\<rparr>
        | s # e # certs \<Rightarrow> Inr \<lparr>sign_cert = s, enc_cert = e, sign_chain = certs, enc_chain = [], cert_mode = Dual\<rparr>)"

section \<open>ClientKeyExchange\<close>

datatype ClientKeyExchangeBody =
    CkeEcdhe (cke_payload: bytes)
  | CkeEcc (cke_payload: bytes)
  | CkeIbc (cke_payload: bytes)
  | CkeIbsdh (cke_payload: bytes)
  | CkeRsa (cke_payload: bytes)

record TlcpClientKeyExchange =
  cke_body :: ClientKeyExchangeBody

definition cke_new_ecdhe :: "bytes \<Rightarrow> TlcpClientKeyExchange" where
  "cke_new_ecdhe ephemeral_public =
     \<lparr>cke_body = CkeEcdhe (TLCP_ECH_PARAMS_PREFIX @ [word_of_nat (length ephemeral_public)] @ ephemeral_public)\<rparr>"

definition cke_new_ecc :: "bytes \<Rightarrow> TlcpClientKeyExchange" where
  "cke_new_ecc encrypted_pms = \<lparr>cke_body = CkeEcc encrypted_pms\<rparr>"

definition cke_new_rsa :: "bytes \<Rightarrow> TlcpClientKeyExchange" where
  "cke_new_rsa encrypted_pms = \<lparr>cke_body = CkeRsa encrypted_pms\<rparr>"

definition cke_new_ibc :: "bytes \<Rightarrow> TlcpClientKeyExchange" where
  "cke_new_ibc encrypted_pms = \<lparr>cke_body = CkeIbc encrypted_pms\<rparr>"

definition cke_new_ibsdh :: "bytes \<Rightarrow> TlcpClientKeyExchange" where
  "cke_new_ibsdh ra = \<lparr>cke_body = CkeIbsdh ra\<rparr>"

definition as_ibc_ciphertext :: "TlcpClientKeyExchange \<Rightarrow> bytes option" where
  "as_ibc_ciphertext m = (case cke_body m of CkeIbc c \<Rightarrow> Some c | _ \<Rightarrow> None)"

definition as_ecdhe_wire_body :: "TlcpClientKeyExchange \<Rightarrow> bytes option" where
  "as_ecdhe_wire_body m = (case cke_body m of CkeEcdhe e \<Rightarrow> Some e | _ \<Rightarrow> None)"

definition as_ecc_ciphertext :: "TlcpClientKeyExchange \<Rightarrow> bytes option" where
  "as_ecc_ciphertext m = (case cke_body m of CkeEcc c \<Rightarrow> Some c | _ \<Rightarrow> None)"

definition as_rsa_ciphertext :: "TlcpClientKeyExchange \<Rightarrow> bytes option" where
  "as_rsa_ciphertext m = (case cke_body m of CkeRsa c \<Rightarrow> Some c | _ \<Rightarrow> None)"

definition as_ibsdh_ra :: "TlcpClientKeyExchange \<Rightarrow> bytes option" where
  "as_ibsdh_ra m = (case cke_body m of CkeIbsdh ra \<Rightarrow> Some ra | _ \<Rightarrow> None)"

definition ecdhe_public_key :: "TlcpClientKeyExchange \<Rightarrow> bytes option" where
  "ecdhe_public_key m =
     (case as_ecdhe_wire_body m of
        None \<Rightarrow> None
      | Some envelope \<Rightarrow>
          let prefix_len = length TLCP_ECH_PARAMS_PREFIX
          in if length envelope < prefix_len + 1 then None
             else if take prefix_len envelope \<noteq> TLCP_ECH_PARAMS_PREFIX then None
             else
               let pub_len = unat (envelope ! prefix_len);
                   point_offset = prefix_len + 1
               in if length envelope \<noteq> point_offset + pub_len then None
                  else Some (slice point_offset (point_offset + pub_len) envelope))"

definition cke_to_bytes :: "bool \<Rightarrow> TlcpClientKeyExchange \<Rightarrow> bytes" where
  "cke_to_bytes gmssl_compat m =
     (let payload = cke_payload (cke_body m);
          body_len = (if gmssl_compat then 2 + length payload else length payload)
      in [handshake_type_code ClientKeyExchange] @ u24_to_be body_len @
         (if gmssl_compat then u16_to_be (word_of_nat (length payload)) else []) @ payload)"

definition cke_from_body :: "bool \<Rightarrow> bytes \<Rightarrow> bool \<Rightarrow> bool \<Rightarrow> bool \<Rightarrow> bool \<Rightarrow> (TlcpError, TlcpClientKeyExchange) res" where
  "cke_from_body gmssl_compat body is_ecc_mode is_ibc_mode is_ibsdh_mode is_rsa_mode =
     bind_res
       (if gmssl_compat then
          if length body < 2
          then Inl (InvalidMessage (''ClientKeyExchange body too short: '' @ show_nat (length body) @ '' bytes, need at least 2''))
          else
            let payload_len = unat (u16_from_be [body ! 0, body ! 1])
            in if length body < 2 + payload_len
               then Inl (InvalidMessage (''ClientKeyExchange too short: '' @ show_nat (length body) @ '' bytes, need '' @ show_nat (2 + payload_len)))
               else Inr (slice 2 (2 + payload_len) body)
        else Inr body)
       (\<lambda>payload. Inr (if is_ibc_mode then \<lparr>cke_body = CkeIbc payload\<rparr>
                       else if is_ibsdh_mode then \<lparr>cke_body = CkeIbsdh payload\<rparr>
                       else if is_ecc_mode then \<lparr>cke_body = CkeEcc payload\<rparr>
                       else if is_rsa_mode then \<lparr>cke_body = CkeRsa payload\<rparr>
                       else \<lparr>cke_body = CkeEcdhe payload\<rparr>))"

section \<open>ServerKeyExchange\<close>

record Sm2EcdheParams =
  ephemeral_public :: bytes
  ecdhe_signature :: bytes

definition ecdhe_params_to_bytes :: "Sm2EcdheParams \<Rightarrow> bytes" where
  "ecdhe_params_to_bytes p =
     TLCP_ECH_PARAMS_PREFIX @ [word_of_nat (length (ephemeral_public p))] @ ephemeral_public p @
     u16_to_be (word_of_nat (length (ecdhe_signature p))) @ ecdhe_signature p"

definition ecdhe_params_from_bytes :: "bytes \<Rightarrow> (TlcpError, Sm2EcdheParams) res" where
  "ecdhe_params_from_bytes data =
     (let prefix_len = length TLCP_ECH_PARAMS_PREFIX
      in if length data < prefix_len + 1 + 2
         then Inl (InvalidMessage (''ECDHE params too short: '' @ show_nat (length data) @ '' bytes, need at least '' @ show_nat (prefix_len + 1 + 2)))
         else if take prefix_len data \<noteq> TLCP_ECH_PARAMS_PREFIX
         then Inl (InvalidMessage (''ECDHE params have wrong ECParameters prefix: got '' @ show_bytes_upper (take prefix_len data) @
                                   '', want '' @ show_bytes_upper TLCP_ECH_PARAMS_PREFIX))
         else
           let params_offset = prefix_len;
               pub_len = unat (data ! params_offset)
           in if length data < params_offset + 1 + pub_len + 2
              then Inl (InvalidMessage (''ECDHE params too short: '' @ show_nat (length data) @ '' bytes, need at least '' @
                                        show_nat (params_offset + 1 + pub_len + 2)))
              else
                let sig_len_offset = params_offset + 1 + pub_len;
                    sig_len = unat (u16_from_be [data ! sig_len_offset, data ! (sig_len_offset + 1)])
                in if length data < sig_len_offset + 2 + sig_len
                   then Inl (InvalidMessage (''ECDHE signature too short: '' @ show_nat (length data - sig_len_offset - 2) @
                                             '' bytes, need '' @ show_nat sig_len))
                   else Inr \<lparr>ephemeral_public = slice (params_offset + 1) (params_offset + 1 + pub_len) data,
                             ecdhe_signature = slice (sig_len_offset + 2) (sig_len_offset + 2 + sig_len) data\<rparr>)"

datatype ServerKeyExchangeBody =
    SkeEcdhe Sm2EcdheParams
  | SkeEcc bytes
  | SkeIbc bytes bytes
  | SkeIbsdh bytes bytes bytes

record TlcpServerKeyExchange =
  ske_body :: ServerKeyExchangeBody

definition ske_new :: "Sm2EcdheParams \<Rightarrow> TlcpServerKeyExchange" where
  "ske_new p = \<lparr>ske_body = SkeEcdhe p\<rparr>"

definition ske_new_ecc :: "bytes \<Rightarrow> TlcpServerKeyExchange" where
  "ske_new_ecc sig = \<lparr>ske_body = SkeEcc sig\<rparr>"

definition ske_new_ibc :: "bytes \<Rightarrow> bytes \<Rightarrow> TlcpServerKeyExchange" where
  "ske_new_ibc server_id sig = \<lparr>ske_body = SkeIbc server_id sig\<rparr>"

definition ske_new_ibsdh :: "bytes \<Rightarrow> bytes \<Rightarrow> bytes \<Rightarrow> TlcpServerKeyExchange" where
  "ske_new_ibsdh ra rb sb = \<lparr>ske_body = SkeIbsdh ra rb sb\<rparr>"

definition as_ecdhe :: "TlcpServerKeyExchange \<Rightarrow> Sm2EcdheParams option" where
  "as_ecdhe m = (case ske_body m of SkeEcdhe p \<Rightarrow> Some p | _ \<Rightarrow> None)"

definition as_ecc_signature :: "TlcpServerKeyExchange \<Rightarrow> bytes option" where
  "as_ecc_signature m = (case ske_body m of SkeEcc sig \<Rightarrow> Some sig | _ \<Rightarrow> None)"

definition as_ibc :: "TlcpServerKeyExchange \<Rightarrow> (bytes \<times> bytes) option" where
  "as_ibc m = (case ske_body m of SkeIbc server_id sig \<Rightarrow> Some (server_id, sig) | _ \<Rightarrow> None)"

definition as_ibsdh :: "TlcpServerKeyExchange \<Rightarrow> (bytes \<times> bytes \<times> bytes) option" where
  "as_ibsdh m = (case ske_body m of SkeIbsdh ra rb sb \<Rightarrow> Some (ra, rb, sb) | _ \<Rightarrow> None)"

fun ske_body_to_bytes :: "ServerKeyExchangeBody \<Rightarrow> bytes" where
  "ske_body_to_bytes (SkeEcdhe p) = ecdhe_params_to_bytes p"
| "ske_body_to_bytes (SkeEcc sig) = u16_to_be (word_of_nat (length sig)) @ sig"
| "ske_body_to_bytes (SkeIbc server_id sig) =
     u16_to_be (word_of_nat (length server_id)) @ server_id @ u16_to_be (word_of_nat (length sig)) @ sig"
| "ske_body_to_bytes (SkeIbsdh ra rb sb) =
     u16_to_be (word_of_nat (length ra)) @ ra @ u16_to_be (word_of_nat (length rb)) @ rb @
     u16_to_be (word_of_nat (length sb)) @ sb"

definition ske_to_bytes :: "TlcpServerKeyExchange \<Rightarrow> bytes" where
  "ske_to_bytes m = handshake_message ServerKeyExchange (ske_body_to_bytes (ske_body m))"

definition ske_ecdhe_from_body :: "bytes \<Rightarrow> (TlcpError, ServerKeyExchangeBody) res" where
  "ske_ecdhe_from_body body =
     (if length body < length TLCP_ECH_PARAMS_PREFIX \<or> take (length TLCP_ECH_PARAMS_PREFIX) body \<noteq> TLCP_ECH_PARAMS_PREFIX
      then Inl (InvalidMessage ''ECDHE SKE body must start with ECParameters prefix'')
      else bind_res (ecdhe_params_from_bytes body) (\<lambda>p. Inr (SkeEcdhe p)))"

definition ske_ecc_from_body :: "bytes \<Rightarrow> (TlcpError, ServerKeyExchangeBody) res" where
  "ske_ecc_from_body body =
     (if length body < 2 then Inl (InvalidMessage (''ECC SKE body too short: '' @ show_nat (length body) @ '' bytes, need at least 2''))
      else
        let sig_len = unat (u16_from_be [body ! 0, body ! 1])
        in if length body < 2 + sig_len
           then Inl (InvalidMessage (''ECC SKE signature truncated: body '' @ show_nat (length body) @ '' < 2 + sig_len '' @ show_nat sig_len))
           else Inr (SkeEcc (slice 2 (2 + sig_len) body)))"

definition ske_ibc_from_body :: "bytes \<Rightarrow> (TlcpError, ServerKeyExchangeBody) res" where
  "ske_ibc_from_body body =
     (if length body < 4 then Inl (InvalidMessage (''IBC SKE body too short: '' @ show_nat (length body) @ '' bytes, need at least 4''))
      else
        let id_len = unat (u16_from_be [body ! 0, body ! 1])
        in if length body < 2 + id_len + 2
           then Inl (InvalidMessage (''IBC SKE id truncated: body '' @ show_nat (length body) @ '' < 4 + id_len '' @ show_nat id_len))
           else
             let server_id = slice 2 (2 + id_len) body;
                 sig_offset = 2 + id_len;
                 sig_len = unat (u16_from_be [body ! sig_offset, body ! (sig_offset + 1)])
             in if length body < sig_offset + 2 + sig_len
                then Inl (InvalidMessage (''IBC SKE signature truncated: body '' @ show_nat (length body) @ '' < '' @
                                          show_nat (sig_offset + 2) @ '' + sig_len '' @ show_nat sig_len))
                else Inr (SkeIbc server_id (slice (sig_offset + 2) (sig_offset + 2 + sig_len) body)))"

definition ske_ibsdh_from_body :: "bytes \<Rightarrow> (TlcpError, ServerKeyExchangeBody) res" where
  "ske_ibsdh_from_body body =
     (let p = 0
      in if length body < p + 2
         then Inl (InvalidMessage (''IBSDH SKE body too short: '' @ show_nat (length body) @ '' bytes, need at least 2''))
         else
           let ra_len = unat (u16_from_be [body ! p, body ! (p + 1)]);
               p = p + 2
           in if length body < p + ra_len + 2
              then Inl (InvalidMessage (''IBSDH SKE ra truncated: body '' @ show_nat (length body) @ '' < '' @ show_nat (p + 2) @
                                        '' + ra_len '' @ show_nat ra_len))
              else
                let ra = slice p (p + ra_len) body;
                    p = p + ra_len;
                    rb_len = unat (u16_from_be [body ! p, body ! (p + 1)]);
                    p = p + 2
                in if length body < p + rb_len + 2
                   then Inl (InvalidMessage (''IBSDH SKE rb truncated: body '' @ show_nat (length body) @ '' < '' @ show_nat (p + 2) @
                                             '' + rb_len '' @ show_nat rb_len))
                   else
                     let rb = slice p (p + rb_len) body;
                         p = p + rb_len;
                         sb_len = unat (u16_from_be [body ! p, body ! (p + 1)]);
                         p = p + 2
                     in if length body < p + sb_len
                        then Inl (InvalidMessage (''IBSDH SKE sb truncated: body '' @ show_nat (length body) @ '' < '' @ show_nat p @
                                                  '' + sb_len '' @ show_nat sb_len))
                        else Inr (SkeIbsdh ra rb (slice p (p + sb_len) body)))"

fun ske_from_body :: "bytes \<Rightarrow> KeyExchangeMode \<Rightarrow> (TlcpError, TlcpServerKeyExchange) res" where
  "ske_from_body body Ecdhe = bind_res (ske_ecdhe_from_body body) (\<lambda>b. Inr \<lparr>ske_body = b\<rparr>)"
| "ske_from_body body Ecc = bind_res (ske_ecc_from_body body) (\<lambda>b. Inr \<lparr>ske_body = b\<rparr>)"
| "ske_from_body body Ibc = bind_res (ske_ibc_from_body body) (\<lambda>b. Inr \<lparr>ske_body = b\<rparr>)"
| "ske_from_body body Ibsdh = bind_res (ske_ibsdh_from_body body) (\<lambda>b. Inr \<lparr>ske_body = b\<rparr>)"
| "ske_from_body body Rsa = Inl (InvalidMessage ''ServerKeyExchange not used for RSA suites (yet)'')"

definition ske_from_body_legacy :: "bytes \<Rightarrow> (TlcpError, TlcpServerKeyExchange) res" where
  "ske_from_body_legacy body =
     (if length body \<ge> length TLCP_ECH_PARAMS_PREFIX \<and> take (length TLCP_ECH_PARAMS_PREFIX) body = TLCP_ECH_PARAMS_PREFIX
      then ske_from_body body Ecdhe else ske_from_body body Ecc)"

section \<open>Framing is read back\<close>

lemma length_u24_to_be [simp]: "length (u24_to_be n) = 3"
  by (simp add: u24_to_be_def)

lemma u24_from_be_eq: "u24_from_be a b c = (unat a * 256 + unat b) * 256 + unat c"
proof -
  have "push_bit 16 (unat a) OR push_bit 8 (unat b) = push_bit 8 (push_bit 8 (unat a) OR unat b)"
    by (simp add: push_bit_or)
  then have "u24_from_be a b c = push_bit 8 (push_bit 8 (unat a) OR unat b) OR unat c"
    by (simp only: u24_from_be_def flip: or.assoc)
  then show ?thesis by (simp only: push_or_byte)
qed

lemma u24_from_to_be:
  assumes "n < 2 ^ 24" shows "u24_from_be (u24_to_be n ! 0) (u24_to_be n ! 1) (u24_to_be n ! 2) = n"
proof -
  have "n div 65536 < 256" using assms by simp
  moreover have "n div 65536 = n div 256 div 256" by (simp flip: div_mult2_eq)
  ultimately have "(n div 65536 mod 256) * 256 + n div 256 mod 256 = n div 256" by simp
  then have "(unat (word_of_nat (n div 65536) :: u8) * 256 + unat (word_of_nat (n div 256) :: u8)) * 256 = n div 256 * 256"
    by (simp only: unat_word_of_nat_byte)
  moreover have "u24_to_be n ! 0 = word_of_nat (n div 65536)" "u24_to_be n ! 1 = word_of_nat (n div 256)"
    "u24_to_be n ! 2 = word_of_nat n" by (simp_all add: u24_to_be_def)
  ultimately show ?thesis by (simp only: u24_from_be_eq unat_word_of_nat_byte div_mult_mod_eq)
qed

lemma handshake_type_code_inverse [simp]: "handshake_type_try_from (handshake_type_code t) = Inr t"
  by (simp add: handshake_type_iff)

lemma u16_pair [simp]: "u16_from_be [u16_to_be w ! 0, u16_to_be w ! Suc 0] = w"
proof -
  have "[u16_to_be w ! 0, u16_to_be w ! Suc 0] = u16_to_be w"
    by (rule nth_equalityI) (auto simp: less_Suc_eq)
  then show ?thesis by simp
qed

lemma unat_word_of_nat_u16: "n < 65536 \<Longrightarrow> unat (word_of_nat n :: u16) = n"
  by (simp add: unat_of_nat)

lemma parse_handshake_message_ok:
  assumes "length body < 2 ^ 24"
  shows "parse_handshake_message (handshake_message t body @ rest) = Inr (t, body, rest)"
proof -
  let ?p = "handshake_message t body @ rest"
  have l: "u24_from_be (?p ! 1) (?p ! 2) (?p ! 3) = length body"
    using u24_from_to_be [OF assms] by (simp add: handshake_message_def nth_append)
  show ?thesis
    using l by (simp add: parse_handshake_message_def handshake_message_def slice_def Let_def drop_Cons')
qed

interpretation framing: prefix_codec
  "\<lambda>(t, body). handshake_message t body"
  "\<lambda>p. bind_res (parse_handshake_message p) (\<lambda>(t, body, rest). Inr (rest, (t, body)))"
  "\<lambda>(t, body). length body < 2 ^ 24"
  by unfold_locales (auto simp: parse_handshake_message_ok)

section \<open>Hellos are read back\<close>

lemmas field_simps_bytes = slice_def nth_append nth_Cons' drop_Cons' take_Cons' Let_def

definition server_hello_ok :: "TlcpServerHello \<Rightarrow> bool" where
  "server_hello_ok sh \<longleftrightarrow> length (sh_version sh) = 2 \<and> length (sh_random sh) = 32 \<and> length (sh_session_id sh) < 256 \<and>
     known_suite (sh_cipher_suite sh) \<and> sh_compression_method sh = 0"

lemma length_known_suite: "known_suite s \<Longrightarrow> length s = 2"
  by (auto simp: known_suite_def suite_ids)

lemma pair_list: "length s = 2 \<Longrightarrow> [s ! 0, s ! Suc 0] = s"
  by (rule nth_equalityI) (auto simp: less_Suc_eq)

lemma server_hello_from_body_ok:
  assumes "server_hello_ok sh"
  shows "server_hello_from_bytes (server_hello_body sh @ ext) = Inr sh"
  using assms length_known_suite [of "sh_cipher_suite sh"] pair_list [of "sh_version sh"] pair_list [of "sh_cipher_suite sh"]
  by (simp add: server_hello_ok_def server_hello_from_bytes_def server_hello_body_def field_simps_bytes)

definition client_hello_ok :: "TlcpClientHello \<Rightarrow> bool" where
  "client_hello_ok ch \<longleftrightarrow> length (ch_version ch) = 2 \<and> length (ch_random ch) = 32 \<and>
     length (ch_session_id ch) \<le> MAX_SESSION_ID_LEN \<and>
     list_all (\<lambda>s. length s = 2) (ch_cipher_suites ch) \<and> length (ch_cipher_suites ch) < 32768 \<and>
     length (ch_compression_methods ch) < 256 \<and> list_all (\<lambda>m. m = 0) (ch_compression_methods ch)"

lemma concat_pairs:
  "list_all (\<lambda>s. length s = 2) ss \<Longrightarrow>
     length (concat ss) = 2 * length ss \<and>
     map (\<lambda>i. [(concat ss @ zs) ! (2 * i), (concat ss @ zs) ! (2 * i + 1)]) [0..<length ss] = ss"
proof (induction ss)
  case (Cons s ss)
  obtain a b where s: "s = [a, b]" using Cons.prems by (auto simp: length_Suc_conv numeral_2_eq_2)
  show ?case using Cons s by (simp add: map_upt_Suc del: upt_Suc)
qed simp

lemma client_hello_from_body_ok:
  assumes ok: "client_hello_ok ch"
  shows "client_hello_from_body (client_hello_body ch @ ext) = Inr ch"
proof -
  define hd sid tl where "hd = ch_version ch @ ch_random ch @ [word_of_nat (length (ch_session_id ch))] @ ch_session_id ch @
      u16_to_be (word_of_nat (length (ch_cipher_suites ch) * 2))"
    and "sid = ch_session_id ch"
    and "tl = [word_of_nat (length (ch_compression_methods ch))] @ ch_compression_methods ch @ ext"
  let ?cs = "ch_cipher_suites ch"
  note l = ok [unfolded client_hello_ok_def MAX_SESSION_ID_LEN_def]
  have cs: "length (concat ?cs) = 2 * length ?cs"
    "map (\<lambda>i. [(concat ?cs @ tl) ! (2 * i), (concat ?cs @ tl) ! (2 * i + 1)]) [0..<length ?cs] = ?cs"
    using concat_pairs [of ?cs tl] l by auto
  have d: "client_hello_body ch @ ext = hd @ concat ?cs @ tl"
    by (simp add: client_hello_body_def hd_def tl_def)
  have hd: "length hd = 37 + length sid" using l by (simp add: hd_def sid_def)
  have suites: "map (\<lambda>i. [(hd @ concat ?cs @ tl) ! (37 + length sid + 2 * i), (hd @ concat ?cs @ tl) ! (37 + length sid + 2 * i + 1)])
        [0..<length ?cs] = ?cs"
    using cs(2) hd by (simp add: nth_append)
  have len: "unat (word_of_nat (length ?cs * 2) :: u16) = length ?cs * 2"
    by (rule unat_word_of_nat_u16) (use l in simp)
  have fixed: "slice 2 34 (hd @ zs) = ch_random ch" "[(hd @ zs) ! 0, (hd @ zs) ! 1] = ch_version ch"
    "unat ((hd @ zs) ! 34) = length sid" "slice 35 (35 + length sid) (hd @ zs) = sid"
    "unat (u16_from_be [(hd @ zs) ! (35 + length sid), (hd @ zs) ! (35 + length sid + 1)]) = length ?cs * 2" for zs
    using l len pair_list [of "ch_version ch"] by (simp_all add: hd_def sid_def field_simps_bytes)
  have tail: "(hd @ concat ?cs @ tl) ! (37 + length sid + length ?cs * 2) = word_of_nat (length (ch_compression_methods ch))"
    "length tl = 1 + length (ch_compression_methods ch) + length ext"
    using hd cs(1) by (simp_all add: tl_def field_simps_bytes)
  have comp: "slice i j (hd @ concat ?cs @ tl) = ch_compression_methods ch"
    if "i = 38 + length sid + length ?cs * 2" "j = i + length (ch_compression_methods ch)" for i j
    using hd cs(1) that by (simp add: tl_def field_simps_bytes)
  show ?thesis
    unfolding d client_hello_from_body_def
    using l hd cs(1) fixed [of "concat ?cs @ tl"] tail suites
    by (simp add: Let_def MAX_SESSION_ID_LEN_def sid_def comp)
qed

section \<open>Certificates are read back\<close>

definition cert_list :: "TlcpCertPair \<Rightarrow> bytes list" where
  "cert_list p = sign_cert p # (if cert_mode p = Dual then enc_cert p # sign_chain p @ enc_chain p else [])"

definition cert_entry :: "bytes \<Rightarrow> bytes" where
  "cert_entry c = u24_to_be (length c) @ c"

lemma push_cert_entry_eq: "push_cert_entry b c = b @ cert_entry c"
  by (simp add: push_cert_entry_def cert_entry_def)

lemma foldl_push_cert_entry: "foldl push_cert_entry b cs = b @ concat (map (cert_entry) cs)"
  by (induction cs arbitrary: b) (simp_all add: push_cert_entry_eq)

lemma certificate_body_entries:
  obtains hdr where "length hdr = 3" "certificate_body p = hdr @ concat (map (cert_entry) (cert_list p))"
proof
  let ?n = "word_of_nat (length (concat (map (cert_entry) (cert_list p)))) :: u32"
  show "length (drop 1 (u32_to_be ?n)) = 3" by simp
  have "sum_list (map (\<lambda>c. 3 + length c) cs) = length (concat (map (cert_entry) cs))" for cs
    by (induction cs) (simp_all add: cert_entry_def)
  then show "certificate_body p = drop 1 (u32_to_be ?n) @ concat (map (cert_entry) (cert_list p))"
    by (cases "cert_mode p") (simp_all add: certificate_body_def cert_list_def foldl_push_cert_entry push_cert_entry_eq cert_entry_def Let_def add.assoc)
qed

lemma parse_cert_entries_ok:
  "list_all (\<lambda>c. length c < 2 ^ 24) cs \<Longrightarrow>
     parse_cert_entries (pre @ concat (map (cert_entry) cs)) (length pre) = cs"
proof (induction cs arbitrary: pre)
  case (Cons c cs)
  let ?e = "cert_entry c" and ?r = "concat (map (cert_entry) cs)"
  have e: "?e = u24_to_be (length c) @ c" by (rule cert_entry_def)
  have l: "u24_from_be ((pre @ ?e @ ?r) ! length pre) ((pre @ ?e @ ?r) ! (length pre + 1)) ((pre @ ?e @ ?r) ! (length pre + 2)) = length c"
    using u24_from_to_be [of "length c"] Cons.prems by (simp add: e nth_append)
  have next_entry: "parse_cert_entries (pre @ ?e @ ?r) (length pre + 3 + length c) = cs"
    using Cons.IH [of "pre @ ?e"] Cons.prems by (simp add: e add.commute add.left_commute)
  have "parse_cert_entries (pre @ ?e @ ?r) (length pre) = slice (length pre + 3) (length pre + 3 + length c) (pre @ ?e @ ?r) # cs"
    using l next_entry by (subst parse_cert_entries.simps) (simp add: Let_def e)
  then show ?case using e by (simp add: slice_def)
qed (simp add: parse_cert_entries.simps)

lemma from_certificate_message_ok:
  assumes "list_all (\<lambda>c. length c < 2 ^ 24) (cert_list p)"
  shows "from_certificate_message (certificate_body p) =
     Inr (if is_single_cert p then cert_pair_new_single (sign_cert p)
          else cert_pair_with_chains (sign_cert p) (enc_cert p) (sign_chain p @ enc_chain p) [])"
proof -
  obtain hdr where h: "length hdr = 3" "certificate_body p = hdr @ concat (map (cert_entry) (cert_list p))"
    by (rule certificate_body_entries)
  have "parse_cert_entries (certificate_body p) 3 = cert_list p"
    using parse_cert_entries_ok [OF assms, of hdr] h by simp
  then show ?thesis using h
    by (cases "cert_mode p")
      (simp_all add: from_certificate_message_def cert_list_def is_single_cert_def cert_pair_new_single_def cert_pair_with_chains_def)
qed

section \<open>Key exchange messages are read back\<close>

lemma ecdhe_public_key_new: "length p < 256 \<Longrightarrow> ecdhe_public_key (cke_new_ecdhe p) = Some p"
  by (simp add: ecdhe_public_key_def as_ecdhe_wire_body_def cke_new_ecdhe_def field_simps_bytes)

text \<open>The four mode flags a suite gives to \<open>from_body\<close>.\<close>

definition cke_read :: "bool \<Rightarrow> KeyExchangeMode \<Rightarrow> bytes \<Rightarrow> (TlcpError, TlcpClientKeyExchange) res" where
  "cke_read gmssl_compat k body = cke_from_body gmssl_compat body (k = Ecc) (k = Ibc) (k = Ibsdh) (k = Rsa)"

fun cke_kind :: "ClientKeyExchangeBody \<Rightarrow> KeyExchangeMode" where
  "cke_kind (CkeEcdhe _) = Ecdhe"
| "cke_kind (CkeEcc _) = Ecc"
| "cke_kind (CkeIbc _) = Ibc"
| "cke_kind (CkeIbsdh _) = Ibsdh"
| "cke_kind (CkeRsa _) = Rsa"

lemma cke_framed:
  "cke_to_bytes gmssl_compat m = handshake_message ClientKeyExchange
     ((if gmssl_compat then u16_to_be (word_of_nat (length (cke_payload (cke_body m)))) else []) @ cke_payload (cke_body m))"
  by (simp add: cke_to_bytes_def handshake_message_def Let_def)

lemma cke_read_ok:
  assumes "length (cke_payload (cke_body m)) < 65536"
  shows "cke_read gmssl_compat (cke_kind (cke_body m))
     ((if gmssl_compat then u16_to_be (word_of_nat (length (cke_payload (cke_body m)))) else []) @ cke_payload (cke_body m)) = Inr m"
proof -
  obtain b where m: "m = \<lparr>cke_body = b\<rparr>" by (cases m)
  show ?thesis using assms unat_word_of_nat_u16 [OF assms] unfolding m
    by (cases b) (simp_all add: cke_read_def cke_from_body_def field_simps_bytes)
qed

fun ske_kind :: "ServerKeyExchangeBody \<Rightarrow> KeyExchangeMode" where
  "ske_kind (SkeEcdhe _) = Ecdhe"
| "ske_kind (SkeEcc _) = Ecc"
| "ske_kind (SkeIbc _ _) = Ibc"
| "ske_kind (SkeIbsdh _ _ _) = Ibsdh"

fun ske_ok :: "ServerKeyExchangeBody \<Rightarrow> bool" where
  "ske_ok (SkeEcdhe p) \<longleftrightarrow> length (ephemeral_public p) < 256 \<and> length (ecdhe_signature p) < 65536"
| "ske_ok (SkeEcc sig) \<longleftrightarrow> length sig < 65536"
| "ske_ok (SkeIbc server_id sig) \<longleftrightarrow> length server_id < 65536 \<and> length sig < 65536"
| "ske_ok (SkeIbsdh ra rb sb) \<longleftrightarrow> length ra < 65536 \<and> length rb < 65536 \<and> length sb < 65536"

lemma ecdhe_params_ok:
  assumes "length (ephemeral_public p) < 256" "length (ecdhe_signature p) < 65536"
  shows "ecdhe_params_from_bytes (ecdhe_params_to_bytes p @ ext) = Inr p"
  using assms unat_word_of_nat_u16 [OF assms(2)]
  by (simp add: ecdhe_params_from_bytes_def ecdhe_params_to_bytes_def field_simps_bytes)

lemma ske_from_body_ok:
  assumes "ske_ok b"
  shows "ske_from_body (ske_body_to_bytes b @ ext) (ske_kind b) = Inr \<lparr>ske_body = b\<rparr>"
proof (cases b)
  case (SkeEcdhe p)
  then have "take (length TLCP_ECH_PARAMS_PREFIX) (ske_body_to_bytes b @ ext) = TLCP_ECH_PARAMS_PREFIX"
    by (simp add: ecdhe_params_to_bytes_def)
  then show ?thesis using SkeEcdhe assms ecdhe_params_ok [of p ext]
    by (simp add: ske_ecdhe_from_body_def ecdhe_params_to_bytes_def)
next
  case (SkeEcc sig)
  then show ?thesis using assms unat_word_of_nat_u16 [of "length sig"]
    by (simp add: ske_ecc_from_body_def field_simps_bytes)
next
  case (SkeIbc server_id sig)
  then show ?thesis using assms unat_word_of_nat_u16 [of "length server_id"] unat_word_of_nat_u16 [of "length sig"]
    by (simp add: ske_ibc_from_body_def field_simps_bytes)
next
  case (SkeIbsdh ra rb sb)
  then show ?thesis
    using assms unat_word_of_nat_u16 [of "length ra"] unat_word_of_nat_u16 [of "length rb"] unat_word_of_nat_u16 [of "length sb"]
    by (simp add: ske_ibsdh_from_body_def field_simps_bytes)
qed

section \<open>Messages on the wire\<close>

lemma u24_to_from_be: "u24_to_be (u24_from_be a b c) = [a, b, c]"
proof -
  have last: "(word_of_nat (x * 256 + unat w) :: u8) = w" for x w
    by (simp only: word_unat_eq_iff unat_word_of_nat_byte mod_mult_self3 mod_less unat_byte_less)
  have init: "(x * 256 + unat w) div 256 = x" for x and w :: u8
    by (rule div_nat_eqI) simp_all
  have "n div 65536 = n div 256 div 256" for n :: nat by (simp flip: div_mult2_eq)
  then show ?thesis using last [of 0] by (simp only: u24_to_be_def u24_from_be_eq init last) simp
qed

text \<open>Only well-framed bytes are accepted.\<close>

lemma parse_handshake_message_exact:
  assumes "parse_handshake_message p = Inr (t, body, rest)"
  shows "p = handshake_message t body @ rest \<and> length body < 2 ^ 24"
proof -
  let ?n = "u24_from_be (p ! 1) (p ! 2) (p ! 3)"
  have len: "\<not> length p < 4" and t: "handshake_type_try_from (p ! 0) = Inr t" and n: "\<not> length p < 4 + ?n"
    and body: "body = slice 4 (4 + ?n) p" and rest: "rest = drop (4 + ?n) p"
    using assms by (auto simp: parse_handshake_message_def Let_def bind_res_eq_Inr split: if_splits)
  have code: "handshake_type_code t = p ! 0"
    using t by (simp add: handshake_type_iff)
  obtain a b c d q where p: "p = a # b # c # d # q"
    using len by (cases p; cases "tl p"; cases "tl (tl p)"; cases "tl (tl (tl p))") auto
  have lb: "length body = ?n" using n body by simp
  have "(x * 256 + y) * 256 + z < 2 ^ 24" if "x < 256" "y < 256" "z < 256" for x y z :: nat using that by simp
  then have "?n < 2 ^ 24" unfolding u24_from_be_eq using unat_byte_less by blast
  moreover have "p = handshake_message t body @ rest"
    using code body rest lb n u24_to_from_be [of "p ! 1" "p ! 2" "p ! 3"] unfolding p
    by (simp add: handshake_message_def slice_def drop_Cons')
  ultimately show ?thesis using lb by simp
qed

definition read_message :: "(bytes \<Rightarrow> (TlcpError, 'a) res) \<Rightarrow> bytes \<Rightarrow> (TlcpError, HandshakeType \<times> 'a \<times> bytes) res" where
  "read_message from_body p =
     bind_res (parse_handshake_message p) (\<lambda>(t, body, rest). bind_res (from_body body) (\<lambda>m. Inr (t, m, rest)))"

lemma read_message_ok:
  "length body < 2 ^ 24 \<Longrightarrow> from_body body = Inr m \<Longrightarrow>
     read_message from_body (handshake_message t body @ rest) = Inr (t, m, rest)"
  by (simp add: read_message_def parse_handshake_message_ok)

lemma length_client_hello_body: "client_hello_ok ch \<Longrightarrow> length (client_hello_body ch) < 2 ^ 24"
  using concat_pairs [of "ch_cipher_suites ch"] by (auto simp: client_hello_ok_def client_hello_body_def MAX_SESSION_ID_LEN_def)

lemma length_server_hello_body: "server_hello_ok sh \<Longrightarrow> length (server_hello_body sh) < 2 ^ 24"
  using length_known_suite [of "sh_cipher_suite sh"] by (auto simp: server_hello_ok_def server_hello_body_def)

lemma length_ske_body: "ske_ok b \<Longrightarrow> length (ske_body_to_bytes b) < 2 ^ 24"
  by (cases b) (simp_all add: ecdhe_params_to_bytes_def TLCP_ECH_PARAMS_PREFIX_def)

lemma certificate_entries_short:
  assumes "length (certificate_body p) < 2 ^ 24" shows "list_all (\<lambda>c. length c < 2 ^ 24) (cert_list p)"
proof -
  have "length c \<le> length (concat (map cert_entry cs))" if "c \<in> set cs" for c and cs :: "bytes list"
    using that by (induction cs) (auto simp: cert_entry_def)
  then show ?thesis using assms
    by (rule_tac certificate_body_entries [of p]) (fastforce simp: list_all_iff)
qed


definition demo_client_hello :: TlcpClientHello where
  "demo_client_hello = \<lparr>ch_version = TLCP_VERSION_1_0, ch_random = replicate 32 7, ch_session_id = [1, 2, 3],
     ch_cipher_suites = [TLS_ECDHE_SM4_GCM_SM3, TLS_ECC_SM4_CBC_SM3], ch_compression_methods = [0]\<rparr>"

definition demo_server_hello :: TlcpServerHello where
  "demo_server_hello = \<lparr>sh_version = TLCP_VERSION_1_0, sh_random = replicate 32 9, sh_session_id = [],
     sh_cipher_suite = TLS_ECC_SM4_CBC_SM3, sh_compression_method = 0\<rparr>"


end
