(* ===== verification/Tlcp_Record.thy ===== *)
theory Tlcp_Record
  imports Tlcp_Messages Tlcp_Session
begin

text \<open>
  The record layer of \<open>gm-tlcp\<close> (\<open>TlcpStream\<close> of \<open>tlcp/mod.rs\<close>, \<open>record.rs\<close>): plaintext handshake
  records, sealed records with SM4-GCM and with SM4-CBC and HMAC-SM3, the asynchronous calls and the
  polled \<open>AsyncRead\<close> and \<open>AsyncWrite\<close> implementations. The transport is a parameter; the system's
  generator, which gives the initialisation vectors, is a parameter \<open>fill\<close> whose state travels with the
  stream. Counters of the metrics are not modelled.
  Shown: what one side sends the other side reads, in order, in both cipher modes; a CBC record is
  accepted only with a correct tag over its content, type and sequence number; what the polled reader
  does with the two bytes of a closing alert.
\<close>

section \<open>Plaintext records\<close>

definition TLCP_VERSION :: bytes where
  "TLCP_VERSION = [0x01, 0x01]"

definition TLCP_RECORD_TYPE_APP_DATA :: u8 where
  "TLCP_RECORD_TYPE_APP_DATA = 0x17"

definition TLCP_RECORD_TYPE_ALERT :: u8 where
  "TLCP_RECORD_TYPE_ALERT = 0x15"

definition TLCP_RECORD_TYPE_HANDSHAKE :: u8 where
  "TLCP_RECORD_TYPE_HANDSHAKE = 0x16"

definition TLCP_RECORD_TYPE_CCS :: u8 where
  "TLCP_RECORD_TYPE_CCS = 0x14"

definition TLCP_MAX_RECORD_SIZE :: nat where
  "TLCP_MAX_RECORD_SIZE = 16 * 1024"

definition SM3_HMAC_LENGTH :: nat where
  "SM3_HMAC_LENGTH = 32"

definition SM4_CBC_IV_LENGTH :: nat where
  "SM4_CBC_IV_LENGTH = SM4_BLOCK_SIZE"

lemmas tlcp_record_consts = TLCP_VERSION_def TLCP_RECORD_TYPE_APP_DATA_def TLCP_RECORD_TYPE_ALERT_def
  TLCP_RECORD_TYPE_HANDSHAKE_def TLCP_MAX_RECORD_SIZE_def SM3_HMAC_LENGTH_def SM4_CBC_IV_LENGTH_def SM4_BLOCK_SIZE_def

definition tlcp_write_handshake_record :: "'s transport \<Rightarrow> bytes \<Rightarrow> 's \<Rightarrow> (io_error, unit) res \<times> 's" where
  "tlcp_write_handshake_record T msg s =
     (let record_bytes = [TLCP_RECORD_TYPE_HANDSHAKE] @ TLCP_VERSION_1_0 @ u16_to_be (word_of_nat (length msg)) @ msg
      in case write_all T record_bytes s of
           (Inl e, s) \<Rightarrow> (Inl e, s)
         | (Inr _, s) \<Rightarrow> flush T s)"

definition read_plaintext_record :: "'s transport \<Rightarrow> 's \<Rightarrow> (io_error, u8 \<times> bytes) res \<times> 's" where
  "read_plaintext_record T s =
     (case read_exact T 5 s of
        (Inl e, s) \<Rightarrow> (Inl e, s)
      | (Inr header, s) \<Rightarrow>
          let len = unat (u16_from_be [header ! 3, header ! 4])
          in if len > TLCP_MAX_RECORD_SIZE then (Inl (io_other (''Record too large: '' @ show_nat len @ '' bytes'')), s)
             else case read_exact T len s of
                    (Inl e, s) \<Rightarrow> (Inl e, s)
                  | (Inr payload, s) \<Rightarrow> (Inr (header ! 0, payload), s))"

section \<open>State\<close>

record ('s, 'r) TlcpStream =
  ts_inner :: 's
  ts_write_key :: bytes
  ts_read_key :: bytes
  ts_write_mac_key :: bytes
  ts_read_mac_key :: bytes
  ts_write_nonce :: bytes
  ts_read_nonce :: bytes
  ts_write_seq :: u64
  ts_read_seq :: u64
  ts_read_buf :: bytes
  ts_read_buf_pos :: nat
  ts_cipher_enc :: "Sm4Cipher option"
  ts_cipher_dec :: "Sm4Cipher option"
  ts_close_notify_sent :: bool
  ts_is_client :: bool
  ts_session_id :: bytes
  ts_cached_resumed_session :: "TlcpResumedSession option"
  ts_cipher_suite :: TlcpCipherSuite
  ts_gmssl_padding_compat :: bool
  ts_peer_client_certs_cache :: "bytes list"
  ts_peer_server_certs_cache :: "TlcpCertPair option"
  ts_os_rng :: 'r

type_synonym ('s, 'r, 'a) tlcp = "(('s, 'r) TlcpStream, TlcpError, 'a) io"
type_synonym ('s, 'r, 'a) tlcp_io = "(('s, 'r) TlcpStream, io_error, 'a) io"
type_synonym ('s, 'r, 'a) tlcp_poll = "('s, 'r) TlcpStream \<Rightarrow> ((io_error, 'a) res poll \<times> ('s, 'r) TlcpStream) option"

definition copy_iv :: "nat \<Rightarrow> bytes \<Rightarrow> bytes" where
  "copy_iv n src = (let len = min (length src) n in take len src @ replicate (n - len) 0)"

definition tlcp_stream_new ::
  "'s \<Rightarrow> TlcpKeyMaterial \<Rightarrow> TlcpCipherSuite \<Rightarrow> bool \<Rightarrow> bytes \<Rightarrow> 'r \<Rightarrow> ('s, 'r) TlcpStream" where
  "tlcp_stream_new s km suite is_client session_id r =
     (let (write_key, read_key, write_mac_key, read_mac_key, write_nonce, read_nonce) =
        (if is_client
         then (client_enc_key km, server_enc_key km, client_mac_key km, server_mac_key km,
               copy_iv SM4_GCM_NONCE_LENGTH (client_iv km), copy_iv SM4_GCM_NONCE_LENGTH (server_iv km))
         else (server_enc_key km, client_enc_key km, server_mac_key km, client_mac_key km,
               copy_iv SM4_GCM_NONCE_LENGTH (server_iv km), copy_iv SM4_GCM_NONCE_LENGTH (client_iv km)))
      in \<lparr>ts_inner = s, ts_write_key = write_key, ts_read_key = read_key, ts_write_mac_key = write_mac_key,
          ts_read_mac_key = read_mac_key, ts_write_nonce = write_nonce, ts_read_nonce = read_nonce,
          ts_write_seq = 0, ts_read_seq = 0, ts_read_buf = [], ts_read_buf_pos = 0,
          ts_cipher_enc = None, ts_cipher_dec = None, ts_close_notify_sent = False, ts_is_client = is_client,
          ts_session_id = session_id, ts_cached_resumed_session = None, ts_cipher_suite = suite,
          ts_gmssl_padding_compat = False, ts_peer_client_certs_cache = [], ts_peer_server_certs_cache = None,
          ts_os_rng = r\<rparr>)"

definition set_peer_client_certs_from_acceptor :: "bytes list \<Rightarrow> ('s, 'r) TlcpStream \<Rightarrow> ('s, 'r) TlcpStream" where
  "set_peer_client_certs_from_acceptor chain st = st\<lparr>ts_peer_client_certs_cache := chain\<rparr>"

definition with_gmssl_padding_compat :: "bool \<Rightarrow> ('s, 'r) TlcpStream \<Rightarrow> ('s, 'r) TlcpStream" where
  "with_gmssl_padding_compat _ st = st"

definition tlcp_next_nonce :: "bytes \<Rightarrow> u64 \<Rightarrow> (TlcpError, bytes) res" where
  "tlcp_next_nonce base seq =
     (if seq = 0xFFFFFFFFFFFFFFFF then Inl SequenceOverflow
      else
        let ctr_bytes = u64_to_be seq;
            n = length ctr_bytes;
            nonce = map (\<lambda>i. if i < SM4_GCM_NONCE_LENGTH - n then base ! i
                             else base ! i XOR ctr_bytes ! (i - (SM4_GCM_NONCE_LENGTH - n))) [0..<SM4_GCM_NONCE_LENGTH]
        in if seq \<noteq> 0 \<and> nonce = base then Inl SequenceOverflow else Inr nonce)"

definition tlcp_get_cipher_enc :: "('s, 'r, Sm4Cipher) tlcp" where
  "tlcp_get_cipher_enc st =
     (case ts_cipher_enc st of
        Some cipher \<Rightarrow> Some (Inr cipher, st)
      | None \<Rightarrow>
          case map_err (\<lambda>e. CipherError (''SM4 key error: '' @ debug_crypto_error e)) (sm4_new (ts_write_key st)) of
            Inl e \<Rightarrow> Some (Inl e, st)
          | Inr cipher \<Rightarrow> Some (Inr cipher, st\<lparr>ts_cipher_enc := Some cipher\<rparr>))"

definition tlcp_get_cipher_dec :: "('s, 'r, Sm4Cipher) tlcp" where
  "tlcp_get_cipher_dec st =
     (case ts_cipher_dec st of
        Some cipher \<Rightarrow> Some (Inr cipher, st)
      | None \<Rightarrow>
          case map_err (\<lambda>e. CipherError (''SM4 key error: '' @ debug_crypto_error e)) (sm4_new (ts_read_key st)) of
            Inl e \<Rightarrow> Some (Inl e, st)
          | Inr cipher \<Rightarrow> Some (Inr cipher, st\<lparr>ts_cipher_dec := Some cipher\<rparr>))"

section \<open>Sealing\<close>

text \<open>The header of a GCM record, and the data authenticated with it: the sequence number and the
  header with the length of the plaintext in place of the length of the record.\<close>

definition gcm_record_header :: "u8 \<Rightarrow> nat \<Rightarrow> bytes" where
  "gcm_record_header content_type n = [content_type] @ TLCP_VERSION @ u16_to_be (word_of_nat (8 + n + 16))"

definition gcm_aad :: "bytes \<Rightarrow> bytes \<Rightarrow> nat \<Rightarrow> bytes" where
  "gcm_aad seq_bytes header n = seq_bytes @ take 3 header @ u16_to_be (word_of_nat n)"

text \<open>The callers have just incremented the sequence number.\<close>

definition encrypt_gcm_record :: "sm4_crates \<Rightarrow> bytes \<Rightarrow> ('s, 'r, bytes) tlcp_io" where
  "encrypt_gcm_record P plaintext st =
     (case tlcp_next_nonce (ts_write_nonce st) (ts_write_seq st - 1) of
        Inl e \<Rightarrow> Some (Inl (io_other (''Nonce overflow: '' @ display_tlcp_error e)), st)
      | Inr nonce \<Rightarrow>
          let seq_bytes = u64_to_be (ts_write_seq st - 1);
              header = gcm_record_header TLCP_RECORD_TYPE_APP_DATA (length plaintext)
          in io_bind (io_map_err (\<lambda>e. io_other (''SM4 key error: '' @ debug_tlcp_error e)) tlcp_get_cipher_enc) (\<lambda>cipher.
               io_lift (Some (bind_res
                 (map_err (\<lambda>e. io_other (''GCM encryption failed: '' @ debug_crypto_error e))
                    (encrypt_gcm P cipher plaintext nonce (gcm_aad seq_bytes header (length plaintext))))
                 (\<lambda>(ciphertext, tag). Inr (header @ seq_bytes @ ciphertext @ tag))))) st)"

definition cbc_mac_input :: "u64 \<Rightarrow> bytes \<Rightarrow> bytes \<Rightarrow> bytes" where
  "cbc_mac_input seq type_version plaintext =
     u64_to_be seq @ type_version @ u16_to_be (word_of_nat (length plaintext)) @ plaintext"

definition cbc_pad_len :: "nat \<Rightarrow> nat" where
  "cbc_pad_len inner_len = (SM4_BLOCK_SIZE - (inner_len + 1) mod SM4_BLOCK_SIZE) mod SM4_BLOCK_SIZE"

definition cbc_inner :: "bytes \<Rightarrow> bytes \<Rightarrow> bytes" where
  "cbc_inner plaintext hmac =
     (let pad_len = cbc_pad_len (length plaintext + SM3_HMAC_LENGTH);
          pad_byte = word_of_nat pad_len
      in plaintext @ hmac @ replicate pad_len pad_byte @ [pad_byte])"

definition encrypt_cbc_record_with_type ::
  "'r rng \<Rightarrow> (bytes \<Rightarrow> bytes) \<Rightarrow> sm4_crates \<Rightarrow> u8 \<Rightarrow> bytes \<Rightarrow> ('s, 'r, bytes) tlcp_io" where
  "encrypt_cbc_record_with_type fill sm3 P content_type plaintext st =
     (case sm3_hmac_compute sm3 (sm3_hmac_new (ts_write_mac_key st))
             (cbc_mac_input (ts_write_seq st - 1) ([content_type] @ TLCP_VERSION) plaintext) of
        Inl e \<Rightarrow> Some (Inl (io_other (''HMAC-SM3 failed: '' @ debug_crypto_error e)), st)
      | Inr hmac \<Rightarrow>
          let (iv, r) = fill (ts_os_rng st) SM4_CBC_IV_LENGTH
          in io_bind (io_map_err (\<lambda>e. io_other (''SM4 key error: '' @ display_tlcp_error e)) tlcp_get_cipher_enc) (\<lambda>cipher.
               io_lift (Some (bind_res
                 (map_err (\<lambda>e. io_other (''CBC encryption failed: '' @ debug_crypto_error e))
                    (encrypt_cbc_raw P cipher (cbc_inner plaintext hmac) iv))
                 (\<lambda>ciphertext. Inr ([content_type] @ TLCP_VERSION @
                    u16_to_be (word_of_nat (SM4_CBC_IV_LENGTH + length ciphertext)) @ iv @ ciphertext)))))
               (st\<lparr>ts_os_rng := r\<rparr>))"

definition encrypt_cbc_record :: "'r rng \<Rightarrow> (bytes \<Rightarrow> bytes) \<Rightarrow> sm4_crates \<Rightarrow> bytes \<Rightarrow> ('s, 'r, bytes) tlcp_io" where
  "encrypt_cbc_record fill sm3 P plaintext = encrypt_cbc_record_with_type fill sm3 P TLCP_RECORD_TYPE_APP_DATA plaintext"

section \<open>Sending\<close>

definition ts_write_all :: "'s transport \<Rightarrow> bytes \<Rightarrow> ('s, 'r, unit) tlcp" where
  "ts_write_all T data st =
     (let (r, s) = write_all T data (ts_inner st)
      in Some (map_err (\<lambda>e. IoError (io_message e)) r, st\<lparr>ts_inner := s\<rparr>))"

definition ts_flush :: "'s transport \<Rightarrow> ('s, 'r, unit) tlcp" where
  "ts_flush T st =
     (let (r, s) = flush T (ts_inner st)
      in Some (map_err (\<lambda>e. IoError (io_message e)) r, st\<lparr>ts_inner := s\<rparr>))"

definition advance_ts_write_seq :: "('s, 'r, unit) tlcp" where
  "advance_ts_write_seq st =
     (if ts_write_seq st = 0xFFFFFFFFFFFFFFFF then Some (Inl SequenceOverflow, st)
      else Some (Inr (), st\<lparr>ts_write_seq := ts_write_seq st + 1\<rparr>))"

definition write_gcm_with_type :: "sm4_crates \<Rightarrow> 's transport \<Rightarrow> u8 \<Rightarrow> bytes \<Rightarrow> ('s, 'r, unit) tlcp" where
  "write_gcm_with_type P T content_type plaintext st =
     (case tlcp_next_nonce (ts_write_nonce st) (ts_write_seq st - 1) of
        Inl e \<Rightarrow> Some (Inl e, st)
      | Inr nonce \<Rightarrow>
          let seq_bytes = u64_to_be (ts_write_seq st - 1);
              record_header = gcm_record_header content_type (length plaintext)
          in io_bind tlcp_get_cipher_enc (\<lambda>cipher.
             io_bind (io_lift (Some (map_err (\<lambda>e. CipherError (''GCM encryption failed: '' @ debug_crypto_error e))
                        (encrypt_gcm P cipher plaintext nonce (gcm_aad seq_bytes record_header (length plaintext)))))) (\<lambda>(ciphertext, tag).
             io_bind (ts_write_all T record_header) (\<lambda>_.
             io_bind (ts_write_all T seq_bytes) (\<lambda>_.
             io_bind (ts_write_all T ciphertext) (\<lambda>_.
             io_bind (ts_write_all T tag) (\<lambda>_. ts_flush T)))))) st)"

definition write_gcm :: "sm4_crates \<Rightarrow> 's transport \<Rightarrow> bytes \<Rightarrow> ('s, 'r, unit) tlcp" where
  "write_gcm P T plaintext = write_gcm_with_type P T TLCP_RECORD_TYPE_APP_DATA plaintext"

definition write_cbc_with_type ::
  "'r rng \<Rightarrow> (bytes \<Rightarrow> bytes) \<Rightarrow> sm4_crates \<Rightarrow> 's transport \<Rightarrow> u8 \<Rightarrow> bytes \<Rightarrow> ('s, 'r, unit) tlcp" where
  "write_cbc_with_type fill sm3 P T content_type plaintext =
     io_bind (io_map_err (\<lambda>e. CipherError (io_message e)) (encrypt_cbc_record_with_type fill sm3 P content_type plaintext)) (\<lambda>rec.
     io_bind (ts_write_all T rec) (\<lambda>_. ts_flush T))"

definition write_cbc :: "'r rng \<Rightarrow> (bytes \<Rightarrow> bytes) \<Rightarrow> sm4_crates \<Rightarrow> 's transport \<Rightarrow> bytes \<Rightarrow> ('s, 'r, unit) tlcp" where
  "write_cbc fill sm3 P T plaintext = write_cbc_with_type fill sm3 P T TLCP_RECORD_TYPE_APP_DATA plaintext"

definition write_encrypted_record_with_type ::
  "'r rng \<Rightarrow> (bytes \<Rightarrow> bytes) \<Rightarrow> sm4_crates \<Rightarrow> 's transport \<Rightarrow> u8 \<Rightarrow> bytes \<Rightarrow> ('s, 'r, unit) tlcp" where
  "write_encrypted_record_with_type fill sm3 P T content_type plaintext =
     io_bind advance_ts_write_seq (\<lambda>_ st.
       if gcm (ts_cipher_suite st) then write_gcm_with_type P T content_type plaintext st
       else write_cbc_with_type fill sm3 P T content_type plaintext st)"

definition tlcp_write_application_data ::
  "'r rng \<Rightarrow> (bytes \<Rightarrow> bytes) \<Rightarrow> sm4_crates \<Rightarrow> 's transport \<Rightarrow> bytes \<Rightarrow> ('s, 'r, unit) tlcp" where
  "tlcp_write_application_data fill sm3 P T plaintext =
     io_bind advance_ts_write_seq (\<lambda>_ st.
       if gcm (ts_cipher_suite st) then write_gcm P T plaintext st else write_cbc fill sm3 P T plaintext st)"

definition tlcp_close :: "'r rng \<Rightarrow> (bytes \<Rightarrow> bytes) \<Rightarrow> sm4_crates \<Rightarrow> 's transport \<Rightarrow> ('s, 'r, unit) tlcp" where
  "tlcp_close fill sm3 P T st =
     (if ts_close_notify_sent st then Some (Inr (), st)
      else
        let alert_payload = [0x01, 0x00]
        in io_bind advance_ts_write_seq (\<lambda>_.
           io_bind (\<lambda>st. if gcm (ts_cipher_suite st) then write_gcm P T alert_payload st
                         else write_cbc fill sm3 P T alert_payload st) (\<lambda>_ st.
             Some (Inr (), st\<lparr>ts_close_notify_sent := True\<rparr>))) st)"

section \<open>Opening\<close>

definition tlcp_decrypt_gcm :: "sm4_crates \<Rightarrow> bytes \<Rightarrow> bytes \<Rightarrow> ('s, 'r, bytes) tlcp" where
  "tlcp_decrypt_gcm P buf header st =
     (if length buf < 8 + 16 then Some (Inl (HandshakeFailed ''TLCP GCM record too short''), st)
      else
        let tag = drop (length buf - 16) buf;
            ciphertext = drop 8 (take (length buf - 16) buf)
        in case tlcp_next_nonce (ts_read_nonce st) (ts_read_seq st - 1) of
             Inl e \<Rightarrow> Some (Inl e, st)
           | Inr nonce \<Rightarrow>
               io_bind tlcp_get_cipher_dec (\<lambda>cipher.
                 io_lift (Some (map_err (\<lambda>e. CipherError (''GCM decryption failed: '' @ debug_crypto_error e))
                   (decrypt_gcm P cipher ciphertext nonce
                      (gcm_aad (u64_to_be (ts_read_seq st - 1)) header (length ciphertext)) tag)))) st)"

text \<open>Removal of the padding and of the tag, and the check of the tag.\<close>

definition cbc_open_inner :: "(bytes \<Rightarrow> bytes) \<Rightarrow> sm4_crates \<Rightarrow> bytes \<Rightarrow> u64 \<Rightarrow> bytes \<Rightarrow> bytes \<Rightarrow> (TlcpError, bytes) res" where
  "cbc_open_inner sm3 P mac_key seq header decrypted =
     (if decrypted = [] then Inl (HandshakeFailed ''TLCP CBC empty plaintext'')
      else
        let pad_len = unat (decrypted ! (length decrypted - 1))
        in if pad_len > SM4_BLOCK_SIZE then Inl (HandshakeFailed ''TLCP CBC invalid padding (length byte > block size)'')
           else
             let pad_consumed = pad_len + 1
             in if pad_consumed > length decrypted
                then Inl (HandshakeFailed ''TLCP CBC invalid padding (length byte overflows record)'')
                else if \<not> list_all (\<lambda>b. unat b = pad_len) (slice (length decrypted - pad_consumed) (length decrypted - 1) decrypted)
                then Inl (HandshakeFailed ''TLCP CBC malformed padding'')
                else
                  let unpadded_len = length decrypted - pad_consumed
                  in if unpadded_len < SM3_HMAC_LENGTH then Inl (HandshakeFailed ''TLCP CBC inner too short for MAC'')
                     else
                       let plaintext_len = unpadded_len - SM3_HMAC_LENGTH;
                           plaintext = take plaintext_len decrypted;
                           mac_received = slice plaintext_len unpadded_len decrypted
                       in bind_res (map_err (\<lambda>e. CipherError (''HMAC-SM3 compute failed: '' @ debug_crypto_error e))
                                      (sm3_hmac_compute sm3 (sm3_hmac_new mac_key) (cbc_mac_input seq (take 3 header) plaintext)))
                            (\<lambda>hmac_computed.
                               if \<not> slices_ct_eq P mac_received hmac_computed
                               then Inl (HandshakeFailed ''TLCP CBC HMAC verification failed'')
                               else Inr plaintext))"

definition tlcp_decrypt_cbc :: "(bytes \<Rightarrow> bytes) \<Rightarrow> sm4_crates \<Rightarrow> bytes \<Rightarrow> bytes \<Rightarrow> ('s, 'r, bytes) tlcp" where
  "tlcp_decrypt_cbc sm3 P buf header st =
     (if length buf < SM4_CBC_IV_LENGTH + SM4_BLOCK_SIZE + SM3_HMAC_LENGTH
      then Some (Inl (HandshakeFailed ''TLCP CBC record too short''), st)
      else
        let iv = take SM4_CBC_IV_LENGTH buf;
            ciphertext = drop SM4_CBC_IV_LENGTH buf
        in io_bind tlcp_get_cipher_dec (\<lambda>cipher.
             io_lift (Some (bind_res
               (map_err (\<lambda>_. HandshakeFailed ''TLCP CBC decryption failed'') (decrypt_cbc_raw P cipher ciphertext iv))
               (cbc_open_inner sm3 P (ts_read_mac_key st) (ts_read_seq st - 1) header)))) st)"

section \<open>Receiving\<close>

definition ts_read_exact :: "'s transport \<Rightarrow> nat \<Rightarrow> ('s, 'r, bytes) tlcp" where
  "ts_read_exact T n st =
     (let (r, s) = read_exact T n (ts_inner st)
      in Some (map_err (\<lambda>e. IoError (io_message e)) r, st\<lparr>ts_inner := s\<rparr>))"

definition advance_ts_read_seq :: "('s, 'r, unit) tlcp" where
  "advance_ts_read_seq st =
     (if ts_read_seq st = 0xFFFFFFFFFFFFFFFF then Some (Inl SequenceOverflow, st)
      else Some (Inr (), st\<lparr>ts_read_seq := ts_read_seq st + 1\<rparr>))"

definition alert_text :: "bytes \<Rightarrow> string" where
  "alert_text buf =
     ''TLCP alert: level='' @ show_nat (if length buf > 0 then unat (buf ! 0) else 0) @
     '' description='' @ show_nat (if length buf > 1 then unat (buf ! 1) else 0)"

definition tlcp_read_application_data :: "(bytes \<Rightarrow> bytes) \<Rightarrow> sm4_crates \<Rightarrow> 's transport \<Rightarrow> ('s, 'r, bytes) tlcp" where
  "tlcp_read_application_data sm3 P T =
     io_bind (ts_read_exact T 5) (\<lambda>header.
       let content_type = header ! 0;
           version = [header ! 1, header ! 2];
           ct_len = unat (u16_from_be [header ! 3, header ! 4])
       in if version \<noteq> TLCP_VERSION
          then io_fail (TlsRecordError (''unexpected TLCP version: '' @ show_hex2 (version ! 0) @ show_hex2 (version ! 1)))
          else if ct_len > TLCP_MAX_RECORD_SIZE then io_fail (HandshakeFailed ''TLCP record exceeds size limit'')
          else if content_type = TLCP_RECORD_TYPE_APP_DATA \<or> content_type = TLCP_RECORD_TYPE_HANDSHAKE then
            io_bind (ts_read_exact T ct_len) (\<lambda>buf.
            io_bind advance_ts_read_seq (\<lambda>_ st.
              if gcm (ts_cipher_suite st) then tlcp_decrypt_gcm P buf header st else tlcp_decrypt_cbc sm3 P buf header st))
          else if content_type = TLCP_RECORD_TYPE_ALERT then
            io_bind (ts_read_exact T ct_len) (\<lambda>buf.
              if length buf \<ge> 2 \<and> buf ! 0 = 0x01 \<and> buf ! 1 = 0x00 then io_return []
              else io_fail (TlsRecordError (alert_text buf)))
          else io_fail (TlsRecordError (''unexpected TLCP content type: 0x'' @ show_hex2 content_type)))"

section \<open>Polled operations\<close>

text \<open>The loop that fills a buffer of \<open>n\<close> bytes; the result is the bytes or an early return.\<close>

function tlcp_poll_fill ::
  "'s transport \<Rightarrow> string \<Rightarrow> nat \<Rightarrow> bytes \<Rightarrow> 's \<Rightarrow> ((io_error, bytes) res poll option \<times> bytes) \<times> 's" where
  "tlcp_poll_fill T incomplete n filled s =
     (if length filled \<ge> n then ((None, filled), s)
      else
        case inner_poll_read T (n - length filled) s of
          (Ready (Inr chunk), s') \<Rightarrow>
            if chunk = [] then ((Some (Ready (Inl (io_other incomplete))), filled), s')
            else tlcp_poll_fill T incomplete n (filled @ chunk) s'
        | (Ready (Inl e), s') \<Rightarrow> ((Some (Ready (Inl e)), filled), s')
        | (Pending, s') \<Rightarrow> ((Some Pending, filled), s'))"
  by pat_completeness auto
termination tlcp_poll_fill
  by (relation "measure (\<lambda>(_, _, n, filled, _). n - length filled)") (auto intro!: diff_less_mono2)

declare tlcp_poll_fill.simps [simp del]

definition drain_ts_read_buf :: "nat \<Rightarrow> ('s, 'r) TlcpStream \<Rightarrow> bytes \<times> ('s, 'r) TlcpStream" where
  "drain_ts_read_buf remaining st =
     (let available = length (ts_read_buf st) - ts_read_buf_pos st;
          to_copy = min available remaining;
          out = slice (ts_read_buf_pos st) (ts_read_buf_pos st + to_copy) (ts_read_buf st);
          pos = ts_read_buf_pos st + to_copy
      in (out, if pos \<ge> length (ts_read_buf st) then st\<lparr>ts_read_buf := [], ts_read_buf_pos := 0\<rparr>
               else st\<lparr>ts_read_buf_pos := pos\<rparr>))"

text \<open>What the polled reader does with the body of an application record.\<close>

definition poll_open_gcm :: "sm4_crates \<Rightarrow> bytes \<Rightarrow> bytes \<Rightarrow> ('s, 'r, bytes) tlcp_io" where
  "poll_open_gcm P buf header st =
     (if length buf < 8 + 16 then Some (Inl (io_other ''TLCP GCM record too short''), st)
      else
        let tag = drop (length buf - 16) buf;
            body_ct = drop 8 (take (length buf - 16) buf)
        in case tlcp_next_nonce (ts_read_nonce st) (ts_read_seq st - 1) of
             Inl e \<Rightarrow> Some (Inl (io_other (''Nonce overflow: '' @ display_tlcp_error e)), st)
           | Inr nonce \<Rightarrow>
               io_bind (io_map_err (\<lambda>e. io_other (''SM4 key error: '' @ display_tlcp_error e)) tlcp_get_cipher_dec) (\<lambda>cipher.
                 io_lift (Some (map_err (\<lambda>e. io_other (''GCM decryption failed: '' @ debug_crypto_error e))
                   (decrypt_gcm P cipher body_ct nonce
                      (gcm_aad (u64_to_be (ts_read_seq st - 1)) header (length body_ct)) tag)))) st)"

definition poll_open :: "(bytes \<Rightarrow> bytes) \<Rightarrow> sm4_crates \<Rightarrow> bytes \<Rightarrow> bytes \<Rightarrow> ('s, 'r, bytes) tlcp_io" where
  "poll_open sm3 P buf header st =
     (if ts_read_seq st = 0xFFFFFFFFFFFFFFFF then Some (Inl (io_other ''Sequence overflow''), st)
      else
        let st = st\<lparr>ts_read_seq := ts_read_seq st + 1\<rparr>
        in if gcm (ts_cipher_suite st) then poll_open_gcm P buf header st
           else io_map_err (\<lambda>e. io_other (''CBC decryption failed: '' @ debug_tlcp_error e)) (tlcp_decrypt_cbc sm3 P buf header) st)"

definition tlcp_poll_read :: "(bytes \<Rightarrow> bytes) \<Rightarrow> sm4_crates \<Rightarrow> 's transport \<Rightarrow> nat \<Rightarrow> ('s, 'r, bytes) tlcp_poll" where
  "tlcp_poll_read sm3 P T remaining st =
     (if ts_read_buf_pos st < length (ts_read_buf st)
      then let (out, st) = drain_ts_read_buf remaining st in Some (Ready (Inr out), st)
      else
        case inner_poll_read T 5 (ts_inner st) of
          (Pending, s) \<Rightarrow> Some (Pending, st\<lparr>ts_inner := s\<rparr>)
        | (Ready (Inl e), s) \<Rightarrow> Some (Ready (Inl e), st\<lparr>ts_inner := s\<rparr>)
        | (Ready (Inr chunk), s) \<Rightarrow>
            let st = st\<lparr>ts_inner := s\<rparr>;
                header = chunk @ replicate (5 - length chunk) 0;
                version = [header ! 1, header ! 2];
                ct_len = unat (u16_from_be [header ! 3, header ! 4])
            in if version \<noteq> TLCP_VERSION
               then Some (Ready (Inl (io_other (''unexpected TLCP version: '' @ show_hex2 (version ! 0) @ show_hex2 (version ! 1)))), st)
               else if ct_len > TLCP_MAX_RECORD_SIZE then Some (Ready (Inl (io_other ''TLCP record exceeds size limit'')), st)
               else if header ! 0 = TLCP_RECORD_TYPE_APP_DATA then
                 case tlcp_poll_fill T ''TLCP record read incomplete'' ct_len [] (ts_inner st) of
                   ((Some early, _), s) \<Rightarrow> Some (early, st\<lparr>ts_inner := s\<rparr>)
                 | ((None, buf), s) \<Rightarrow>
                     (case poll_open sm3 P buf header (st\<lparr>ts_inner := s\<rparr>) of
                        None \<Rightarrow> None
                      | Some (Inl e, st) \<Rightarrow> Some (Ready (Inl e), st)
                      | Some (Inr plaintext, st) \<Rightarrow>
                          if plaintext = [0x01, 0x00] then Some (Ready (Inr []), st)
                          else let (out, st) = drain_ts_read_buf remaining (st\<lparr>ts_read_buf := plaintext, ts_read_buf_pos := 0\<rparr>)
                               in Some (Ready (Inr out), st))
               else if header ! 0 = TLCP_RECORD_TYPE_ALERT then
                 case tlcp_poll_fill T ''TLCP alert read incomplete'' ct_len [] (ts_inner st) of
                   ((Some early, _), s) \<Rightarrow> Some (early, st\<lparr>ts_inner := s\<rparr>)
                 | ((None, buf), s) \<Rightarrow>
                     (if length buf \<ge> 2 \<and> buf ! 0 = 0x01 \<and> buf ! 1 = 0x00 then Some (Ready (Inr []), st\<lparr>ts_inner := s\<rparr>)
                      else Some (Ready (Inl (io_other (alert_text buf))), st\<lparr>ts_inner := s\<rparr>))
               else Some (Ready (Inl (io_other (''unexpected TLCP content type: 0x'' @ show_hex2 (header ! 0)))), st))"

definition tlcp_poll_write ::
  "'r rng \<Rightarrow> (bytes \<Rightarrow> bytes) \<Rightarrow> sm4_crates \<Rightarrow> 's transport \<Rightarrow> bytes \<Rightarrow> ('s, 'r, nat) tlcp_poll" where
  "tlcp_poll_write fill sm3 P T buf st =
     (if ts_write_seq st = 0xFFFFFFFFFFFFFFFF then Some (Ready (Inl (io_other ''Sequence overflow'')), st)
      else
        let st = st\<lparr>ts_write_seq := ts_write_seq st + 1\<rparr>
        in case (if gcm (ts_cipher_suite st) then encrypt_gcm_record P buf st else encrypt_cbc_record fill sm3 P buf st) of
             None \<Rightarrow> None
           | Some (Inl e, st) \<Rightarrow> Some (Ready (Inl e), st)
           | Some (Inr record_data, st) \<Rightarrow>
               (case poll_write_slice T ''failed to write record'' record_data (ts_inner st) of
                  (Some early, s) \<Rightarrow> Some (early, st\<lparr>ts_inner := s\<rparr>)
                | (None, s) \<Rightarrow> Some (Ready (Inr (length buf)), st\<lparr>ts_inner := s\<rparr>)))"

definition tlcp_poll_flush :: "'s transport \<Rightarrow> ('s, 'r, unit) tlcp_poll" where
  "tlcp_poll_flush T st = (let (r, s) = inner_poll_flush T (ts_inner st) in Some (r, st\<lparr>ts_inner := s\<rparr>))"

definition tlcp_poll_shutdown_inner :: "'s transport \<Rightarrow> ('s, 'r, unit) tlcp_poll" where
  "tlcp_poll_shutdown_inner T st = (let (r, s) = inner_poll_shutdown T (ts_inner st) in Some (r, st\<lparr>ts_inner := s\<rparr>))"

definition tlcp_poll_shutdown :: "'r rng \<Rightarrow> (bytes \<Rightarrow> bytes) \<Rightarrow> sm4_crates \<Rightarrow> 's transport \<Rightarrow> ('s, 'r, unit) tlcp_poll" where
  "tlcp_poll_shutdown fill sm3 P T st =
     (if ts_close_notify_sent st then tlcp_poll_shutdown_inner T st
      else if ts_write_seq st = 0xFFFFFFFFFFFFFFFF then tlcp_poll_shutdown_inner T st
      else
        let st = st\<lparr>ts_write_seq := ts_write_seq st + 1\<rparr>;
            alert_payload = [0x01, 0x00]
        in case (if gcm (ts_cipher_suite st) then encrypt_gcm_record P alert_payload st
                 else encrypt_cbc_record fill sm3 P alert_payload st) of
             None \<Rightarrow> None
           | Some (Inl _, st) \<Rightarrow> tlcp_poll_shutdown_inner T (st\<lparr>ts_close_notify_sent := True\<rparr>)
           | Some (Inr record_data, st) \<Rightarrow>
               (case poll_write_slice T [] record_data (ts_inner st) of
                  (Some Pending, s) \<Rightarrow> Some (Pending, st\<lparr>ts_inner := s\<rparr>)
                | (_, s) \<Rightarrow> tlcp_poll_shutdown_inner T (st\<lparr>ts_inner := s, ts_close_notify_sent := True\<rparr>)))"

section \<open>Sealed records are opened\<close>

lemma tlcp_next_nonce_eq:
  assumes "length base = 12"
  shows "tlcp_next_nonce base seq = (if seq = 0xFFFFFFFFFFFFFFFF then Inl SequenceOverflow else Inr (nonce_of base seq))"
proof -
  have "nonce_of base seq = base \<longleftrightarrow> seq = 0" using nonce_of_inj [of base seq 0] nonce_of_zero [OF assms] by simp
  moreover have "tlcp_next_nonce base seq = (if seq = 0xFFFFFFFFFFFFFFFF then Inl SequenceOverflow
      else if seq \<noteq> 0 \<and> nonce_of base seq = base then Inl SequenceOverflow else Inr (nonce_of base seq))"
    by (simp add: tlcp_next_nonce_def nonce_of_def SM4_GCM_NONCE_LENGTH_def Let_def cong: if_cong)
  ultimately show ?thesis by simp
qed

lemma cbc_pad_len_less: "cbc_pad_len n < 16"
  by (simp add: cbc_pad_len_def SM4_BLOCK_SIZE_def)

lemma cbc_inner_aligned:
  assumes "length hmac = 32" shows "16 dvd length (cbc_inner m hmac)" "cbc_inner m hmac \<noteq> []"
    "length (cbc_inner m hmac) \<ge> 33 + length m" "length (cbc_inner m hmac) \<le> 48 + length m"
proof -
  define n where "n = length m + 32"
  have "16 dvd n + 1 + (16 - (n + 1) mod 16) mod 16"
    using padded_length [of "n + 1"] by (simp only: dvd_eq_mod_eq_0 mod_add_right_eq)
  then show "16 dvd length (cbc_inner m hmac)" using assms
    by (simp add: cbc_inner_def cbc_pad_len_def SM4_BLOCK_SIZE_def SM3_HMAC_LENGTH_def n_def Let_def ac_simps)
qed (use assms cbc_pad_len_less [of "length m + 32"] in \<open>auto simp: cbc_inner_def SM3_HMAC_LENGTH_def Let_def\<close>)

text \<open>What is accepted after decryption: the content, its tag, and up to 17 equal padding bytes.\<close>

lemma cbc_open_inner_iff:
  assumes "sm4_laws P" "\<And>x. length (sm3 x) = 32"
  shows "cbc_open_inner sm3 P mac_key seq header d = Inr m \<longleftrightarrow>
     (\<exists>p \<le> 16. d = m @ hmac_ref sm3 mac_key (cbc_mac_input seq (take 3 header) m) @ replicate (p + 1) (word_of_nat p))"
    (is "_ \<longleftrightarrow> (\<exists>p \<le> 16. d = m @ ?mac m @ _)")
proof -
  note hm = hmac_compute_eq [where ?sm3.0 = sm3, OF assms(2)] length_hmac_ref [where ?sm3.0 = sm3, OF assms(2)]
  have ct: "slices_ct_eq P x y = (x = y)" for x y using assms(1) by (simp add: sm4_laws_def)
  show ?thesis
  proof
    assume "\<exists>p \<le> 16. d = m @ ?mac m @ replicate (p + 1) (word_of_nat p)"
    then obtain p where p: "p \<le> 16" and d: "d = m @ ?mac m @ replicate p (word_of_nat p) @ [word_of_nat p]"
      by (auto simp: replicate_append_same)
    have "unat (word_of_nat p :: u8) = p" using p by simp
    then show "cbc_open_inner sm3 P mac_key seq header d = Inr m"
      using p by (simp add: cbc_open_inner_def d hm ct tlcp_record_consts slice_def nth_append list_all_iff Let_def)
  next
    assume ok: "cbc_open_inner sm3 P mac_key seq header d = Inr m"
    define p where "p = unat (last d)"
    have d: "d \<noteq> []" "d ! (length d - 1) = last d" using ok by (auto simp: cbc_open_inner_def last_conv_nth split: if_splits)
    have p: "p \<le> 16" "33 + p \<le> length d" "list_all (\<lambda>b. unat b = p) (slice (length d - (p + 1)) (length d - 1) d)"
      and m: "m = take (length d - (33 + p)) d" and mac: "slice (length d - (33 + p)) (length d - (p + 1)) d = ?mac m"
      using ok d by (auto simp: cbc_open_inner_def tlcp_record_consts p_def hm ct Let_def split: if_splits)
    have m0: "slice 0 (length d - (33 + p)) d = m" using m by (simp add: slice_def)
    have "slice (length d - (p + 1)) (length d - 1) d = replicate p (word_of_nat p)"
      using p by (intro replicate_eqI) (auto simp: list_all_iff)
    moreover have "slice (length d - 1) (length d) d = [word_of_nat p]"
      using d(1) by (cases d rule: rev_cases) (simp_all add: slice_def p_def)
    moreover have "d = slice 0 (length d - (33 + p)) d @ slice (length d - (33 + p)) (length d - (p + 1)) d @
        slice (length d - (p + 1)) (length d - 1) d @ slice (length d - 1) (length d) d"
      by (simp add: slice_append) (simp add: slice_def)
    ultimately have "d = m @ ?mac m @ replicate p (word_of_nat p) @ [word_of_nat p]"
      using m0 mac by metis
    then show "\<exists>p \<le> 16. d = m @ ?mac m @ replicate (p + 1) (word_of_nat p)"
      using p(1) by (intro exI [of _ p]) (simp add: replicate_append_same)
  qed
qed

lemma cbc_open_inner_sealed:
  assumes "sm4_laws P" "\<And>x. length (sm3 x) = 32"
  shows "cbc_open_inner sm3 P mac_key seq header (cbc_inner m (hmac_ref sm3 mac_key (cbc_mac_input seq (take 3 header) m))) = Inr m"
  unfolding cbc_open_inner_iff [OF assms]
  using cbc_pad_len_less [of "length m + 32"]
  by (intro exI [of _ "cbc_pad_len (length m + 32)"]) (simp add: cbc_inner_def SM3_HMAC_LENGTH_def replicate_append_same Let_def)

section \<open>Paired streams\<close>

definition ts_ok :: "('s, 'r) TlcpStream \<Rightarrow> bool" where
  "ts_ok st \<longleftrightarrow> length (ts_write_key st) = 16 \<and> length (ts_read_key st) = 16 \<and>
     length (ts_write_nonce st) = 12 \<and> length (ts_read_nonce st) = 12 \<and>
     cache_ok (ts_cipher_enc st) (ts_write_key st) \<and> cache_ok (ts_cipher_dec st) (ts_read_key st)"

text \<open>What the writer \<open>w\<close> seals next, the reader \<open>r\<close> opens next.\<close>

definition ts_paired :: "('s, 'r) TlcpStream \<Rightarrow> ('t, 'q) TlcpStream \<Rightarrow> bool" where
  "ts_paired w r \<longleftrightarrow> ts_ok w \<and> ts_ok r \<and> ts_write_key w = ts_read_key r \<and> ts_write_mac_key w = ts_read_mac_key r \<and>
     ts_write_nonce w = ts_read_nonce r \<and> ts_write_seq w = ts_read_seq r \<and> ts_cipher_suite w = ts_cipher_suite r"

definition record_bytes :: "u8 \<Rightarrow> bytes \<Rightarrow> bytes" where
  "record_bytes content_type body = [content_type] @ TLCP_VERSION @ u16_to_be (word_of_nat (length body)) @ body"

definition sealed_gcm :: "sm4_crates \<Rightarrow> ('s, 'r) TlcpStream \<Rightarrow> u8 \<Rightarrow> bytes \<Rightarrow> bytes \<Rightarrow> bool" where
  "sealed_gcm P w content_type m body \<longleftrightarrow>
     (\<exists>e tag. encrypt_gcm P \<lparr>key_bytes = ts_write_key w\<rparr> m (nonce_of (ts_write_nonce w) (ts_write_seq w))
                (u64_to_be (ts_write_seq w) @ [content_type] @ TLCP_VERSION @ u16_to_be (word_of_nat (length m))) = Inr (e, tag) \<and>
              length e = length m \<and> length tag = 16 \<and> body = u64_to_be (ts_write_seq w) @ e @ tag)"

definition sealed_cbc :: "(bytes \<Rightarrow> bytes) \<Rightarrow> sm4_crates \<Rightarrow> ('s, 'r) TlcpStream \<Rightarrow> u8 \<Rightarrow> bytes \<Rightarrow> bytes \<Rightarrow> bool" where
  "sealed_cbc sm3 P w content_type m body \<longleftrightarrow>
     (\<exists>iv c. length iv = 16 \<and> body = iv @ c \<and> length c = length (cbc_inner m (replicate 32 0)) \<and>
        encrypt_cbc_raw P \<lparr>key_bytes = ts_write_key w\<rparr>
          (cbc_inner m (hmac_ref sm3 (ts_write_mac_key w) (cbc_mac_input (ts_write_seq w) ([content_type] @ TLCP_VERSION) m))) iv = Inr c)"

definition sealed_body :: "(bytes \<Rightarrow> bytes) \<Rightarrow> sm4_crates \<Rightarrow> ('s, 'r) TlcpStream \<Rightarrow> u8 \<Rightarrow> bytes \<Rightarrow> bytes \<Rightarrow> bool" where
  "sealed_body sm3 P w content_type m body \<longleftrightarrow>
     (if gcm (ts_cipher_suite w) then sealed_gcm P w content_type m body else sealed_cbc sm3 P w content_type m body)"

lemma sealed_body_length:
  assumes "sealed_body sm3 P w content_type m body"
  shows "length body \<le> length m + 64"
  using assms cbc_inner_aligned(4) [of "replicate 32 0" m]
  by (auto simp: sealed_body_def sealed_gcm_def sealed_cbc_def split: if_splits)

lemma ts_get_cipher_enc_ok:
  "ts_ok st \<Longrightarrow> tlcp_get_cipher_enc st =
     Some (Inr \<lparr>key_bytes = ts_write_key st\<rparr>, st\<lparr>ts_cipher_enc := Some \<lparr>key_bytes = ts_write_key st\<rparr>\<rparr>)"
  by (cases "ts_cipher_enc st") (auto simp: tlcp_get_cipher_enc_def ts_ok_def sm4_new_16)

lemma ts_get_cipher_dec_ok:
  "ts_ok st \<Longrightarrow> tlcp_get_cipher_dec st =
     Some (Inr \<lparr>key_bytes = ts_read_key st\<rparr>, st\<lparr>ts_cipher_dec := Some \<lparr>key_bytes = ts_read_key st\<rparr>\<rparr>)"
  by (cases "ts_cipher_dec st") (auto simp: tlcp_get_cipher_dec_def ts_ok_def sm4_new_16)

lemma ts_ok_seq [simp]:
  "ts_ok (st\<lparr>ts_write_seq := n\<rparr>) = ts_ok st" "ts_ok (st\<lparr>ts_read_seq := n\<rparr>) = ts_ok st"
  "ts_ok (st\<lparr>ts_inner := s\<rparr>) = ts_ok st" "ts_ok (st\<lparr>ts_os_rng := r\<rparr>) = ts_ok st"
  by (simp_all add: ts_ok_def)

lemma accepts_obtain:
  assumes "accepts T tx"
  obtains s' where "write_all T data s = (Inr (), s')" "tx s' = tx s @ data"
  using assms unfolding accepts_def by blast

lemma accepts_flush:
  assumes "accepts T tx"
  obtains s' where "flush T s = (Inr (), s')" "tx s' = tx s"
  using assms unfolding accepts_def by blast

lemma gcm_sealed:
  assumes "sm4_laws P"
  obtains e tag where "sealed_gcm P st content_type m (u64_to_be (ts_write_seq st) @ e @ tag)" "length e = length m" "length tag = 16"
    "encrypt_gcm P \<lparr>key_bytes = ts_write_key st\<rparr> m (nonce_of (ts_write_nonce st) (ts_write_seq st))
       (gcm_aad (u64_to_be (ts_write_seq st)) (gcm_record_header content_type (length m)) (length m)) = Inr (e, tag)"
proof -
  let ?aad = "u64_to_be (ts_write_seq st) @ [content_type] @ TLCP_VERSION @ u16_to_be (word_of_nat (length m))"
  let ?nonce = "nonce_of (ts_write_nonce st) (ts_write_seq st)"
  obtain e tag where e: "encrypt_gcm P \<lparr>key_bytes = ts_write_key st\<rparr> m ?nonce ?aad = Inr (e, tag)" "length tag = 16" "length e = length m"
  proof (rule encrypt_gcm_ok [of ?nonce P "\<lparr>key_bytes = ts_write_key st\<rparr>" m ?aad])
  qed (use assms in \<open>simp_all add: sm4_laws_def\<close>)
  have "gcm_aad (u64_to_be (ts_write_seq st)) (gcm_record_header content_type (length m)) (length m) = ?aad"
    by (simp add: gcm_aad_def gcm_record_header_def TLCP_VERSION_def)
  then show thesis using e by (intro that [of e tag]) (auto simp: sealed_gcm_def)
qed

lemma write_gcm_sealed:
  assumes "accepts T tx" "ts_ok st" "ts_write_seq st \<noteq> 0xFFFFFFFFFFFFFFFF" "sm4_laws P"
  obtains body s where "sealed_gcm P st content_type m body"
    "write_gcm_with_type P T content_type m (st\<lparr>ts_write_seq := ts_write_seq st + 1\<rparr>) =
       Some (Inr (), st\<lparr>ts_write_seq := ts_write_seq st + 1, ts_cipher_enc := Some \<lparr>key_bytes = ts_write_key st\<rparr>, ts_inner := s\<rparr>)"
    "tx s = tx (ts_inner st) @ record_bytes content_type body"
proof -
  let ?h = "gcm_record_header content_type (length m)"
  obtain e tag where e: "sealed_gcm P st content_type m (u64_to_be (ts_write_seq st) @ e @ tag)" "length e = length m" "length tag = 16"
    "encrypt_gcm P \<lparr>key_bytes = ts_write_key st\<rparr> m (nonce_of (ts_write_nonce st) (ts_write_seq st))
       (gcm_aad (u64_to_be (ts_write_seq st)) ?h (length m)) = Inr (e, tag)" by (rule gcm_sealed [OF assms(4)])
  obtain s1 where s1: "write_all T ?h (ts_inner st) = (Inr (), s1)" "tx s1 = tx (ts_inner st) @ ?h"
    by (rule accepts_obtain [OF assms(1)])
  obtain s2 where s2: "write_all T (u64_to_be (ts_write_seq st)) s1 = (Inr (), s2)" "tx s2 = tx s1 @ u64_to_be (ts_write_seq st)"
    by (rule accepts_obtain [OF assms(1)])
  obtain s3 where s3: "write_all T e s2 = (Inr (), s3)" "tx s3 = tx s2 @ e" by (rule accepts_obtain [OF assms(1)])
  obtain s4 where s4: "write_all T tag s3 = (Inr (), s4)" "tx s4 = tx s3 @ tag" by (rule accepts_obtain [OF assms(1)])
  obtain s5 where s5: "flush T s4 = (Inr (), s5)" "tx s5 = tx s4" by (rule accepts_flush [OF assms(1)])
  have nonce: "tlcp_next_nonce (ts_write_nonce st) (ts_write_seq st) = Inr (nonce_of (ts_write_nonce st) (ts_write_seq st))"
    using assms(2,3) by (simp add: tlcp_next_nonce_eq ts_ok_def)
  have "write_gcm_with_type P T content_type m (st\<lparr>ts_write_seq := ts_write_seq st + 1\<rparr>) =
       Some (Inr (), st\<lparr>ts_write_seq := ts_write_seq st + 1, ts_cipher_enc := Some \<lparr>key_bytes = ts_write_key st\<rparr>, ts_inner := s5\<rparr>)"
    using nonce e(4) s1(1) s2(1) s3(1) s4(1) s5(1) assms(2)
    by (simp add: write_gcm_with_type_def ts_get_cipher_enc_ok ts_write_all_def ts_flush_def Let_def)
  moreover have "tx s5 = tx (ts_inner st) @ record_bytes content_type (u64_to_be (ts_write_seq st) @ e @ tag)"
    using s1(2) s2(2) s3(2) s4(2) s5(2) e(2,3) by (simp add: record_bytes_def gcm_record_header_def ac_simps)
  ultimately show thesis using that e(1) by blast
qed

lemma encrypt_gcm_record_sealed:
  assumes "ts_ok st" "ts_write_seq st \<noteq> 0xFFFFFFFFFFFFFFFF" "sm4_laws P"
  obtains body where "sealed_gcm P st TLCP_RECORD_TYPE_APP_DATA m body"
    "encrypt_gcm_record P m (st\<lparr>ts_write_seq := ts_write_seq st + 1\<rparr>) =
      Some (Inr (record_bytes TLCP_RECORD_TYPE_APP_DATA body),
        st\<lparr>ts_write_seq := ts_write_seq st + 1, ts_cipher_enc := Some \<lparr>key_bytes = ts_write_key st\<rparr>\<rparr>)"
proof -
  obtain e tag where e: "sealed_gcm P st TLCP_RECORD_TYPE_APP_DATA m (u64_to_be (ts_write_seq st) @ e @ tag)" "length e = length m" "length tag = 16"
    "encrypt_gcm P \<lparr>key_bytes = ts_write_key st\<rparr> m (nonce_of (ts_write_nonce st) (ts_write_seq st))
       (gcm_aad (u64_to_be (ts_write_seq st)) (gcm_record_header TLCP_RECORD_TYPE_APP_DATA (length m)) (length m)) = Inr (e, tag)"
    by (rule gcm_sealed [OF assms(3)])
  have nonce: "tlcp_next_nonce (ts_write_nonce st) (ts_write_seq st) = Inr (nonce_of (ts_write_nonce st) (ts_write_seq st))"
    using assms(1,2) by (simp add: tlcp_next_nonce_eq ts_ok_def)
  have "encrypt_gcm_record P m (st\<lparr>ts_write_seq := ts_write_seq st + 1\<rparr>) =
      Some (Inr (record_bytes TLCP_RECORD_TYPE_APP_DATA (u64_to_be (ts_write_seq st) @ e @ tag)),
        st\<lparr>ts_write_seq := ts_write_seq st + 1, ts_cipher_enc := Some \<lparr>key_bytes = ts_write_key st\<rparr>\<rparr>)"
    using nonce e(2-4) assms(1)
    by (simp add: encrypt_gcm_record_def ts_get_cipher_enc_ok Let_def) (simp add: record_bytes_def gcm_record_header_def ac_simps)
  then show thesis using that e(1) by blast
qed

lemma length_cbc_inner: "length h = length h' \<Longrightarrow> length (cbc_inner m h) = length (cbc_inner m h')"
  by (simp add: cbc_inner_def Let_def)

lemma encrypt_cbc_raw_length:
  assumes "sm4_laws P" "length k = 16" "length iv = 16" "16 dvd length d" "d \<noteq> []"
  obtains c where "encrypt_cbc_raw P \<lparr>key_bytes = k\<rparr> d iv = Inr c" "length c = length d"
proof (rule that)
  let ?c = "cbc_encrypt_blocks P k iv (chunks_exact 16 d)"
  show "encrypt_cbc_raw P \<lparr>key_bytes = k\<rparr> d iv = Inr ?c"
    using assms by (simp add: encrypt_cbc_raw_def SM4_BLOCK_SIZE_def dvd_eq_mod_eq_0)
  have b: "\<forall>b \<in> set (chunks_exact 16 d). length b = 16" using chunks_exact_length by blast
  then have "length ?c = 16 * length (chunks_exact 16 d)"
    by (rule cbc_encrypt_length [OF assms(1-3)])
  also have "\<dots> = length (concat (chunks_exact 16 d))" using length_chunked [OF b] by simp
  also have "\<dots> = length d" using chunks_exact_concat [of 16 d] assms(4) by simp
  finally show "length ?c = length d" .
qed

lemma encrypt_cbc_record_sealed:
  assumes "ts_ok st" "sm4_laws P" "\<And>x. length (sm3 x) = 32" "\<And>r n. length (fst (fill r n)) = n"
  obtains body r where "sealed_cbc sm3 P st content_type m body"
    "encrypt_cbc_record_with_type fill sm3 P content_type m (st\<lparr>ts_write_seq := ts_write_seq st + 1\<rparr>) =
      Some (Inr (record_bytes content_type body), st\<lparr>ts_write_seq := ts_write_seq st + 1, ts_os_rng := r,
        ts_cipher_enc := Some \<lparr>key_bytes = ts_write_key st\<rparr>\<rparr>)"
proof -
  let ?h = "hmac_ref sm3 (ts_write_mac_key st) (cbc_mac_input (ts_write_seq st) ([content_type] @ TLCP_VERSION) m)"
  note hm = hmac_compute_eq [where ?sm3.0 = sm3, OF assms(3)] length_hmac_ref [where ?sm3.0 = sm3, OF assms(3)]
  obtain iv r where iv: "fill (ts_os_rng st) 16 = (iv, r)" "length iv = 16"
    using assms(4) [of "ts_os_rng st" 16] by (cases "fill (ts_os_rng st) 16") auto
  have k: "length (ts_write_key st) = 16" using assms(1) by (simp add: ts_ok_def)
  obtain c where c: "encrypt_cbc_raw P \<lparr>key_bytes = ts_write_key st\<rparr> (cbc_inner m ?h) iv = Inr c" "length c = length (cbc_inner m ?h)"
    by (rule encrypt_cbc_raw_length [OF assms(2) k iv(2) cbc_inner_aligned(1,2)]) (use hm in auto)
  show thesis
  proof (rule that [of "iv @ c" r])
    show "sealed_cbc sm3 P st content_type m (iv @ c)"
      using iv c hm length_cbc_inner [of ?h "replicate 32 0" m] by (auto simp: sealed_cbc_def)
    show "encrypt_cbc_record_with_type fill sm3 P content_type m (st\<lparr>ts_write_seq := ts_write_seq st + 1\<rparr>) =
      Some (Inr (record_bytes content_type (iv @ c)), st\<lparr>ts_write_seq := ts_write_seq st + 1, ts_os_rng := r,
        ts_cipher_enc := Some \<lparr>key_bytes = ts_write_key st\<rparr>\<rparr>)"
      using iv c assms(1) hm
      by (simp add: encrypt_cbc_record_with_type_def ts_get_cipher_enc_ok record_bytes_def SM4_CBC_IV_LENGTH_def SM4_BLOCK_SIZE_def)
  qed
qed

lemma write_cbc_sealed:
  assumes "accepts T tx" "ts_ok st" "sm4_laws P" "\<And>x. length (sm3 x) = 32" "\<And>r n. length (fst (fill r n)) = n"
  obtains body s r where "sealed_cbc sm3 P st content_type m body"
    "write_cbc_with_type fill sm3 P T content_type m (st\<lparr>ts_write_seq := ts_write_seq st + 1\<rparr>) =
       Some (Inr (), st\<lparr>ts_write_seq := ts_write_seq st + 1, ts_os_rng := r, ts_cipher_enc := Some \<lparr>key_bytes = ts_write_key st\<rparr>, ts_inner := s\<rparr>)"
    "tx s = tx (ts_inner st) @ record_bytes content_type body"
proof -
  obtain body r where b: "sealed_cbc sm3 P st content_type m body"
    "encrypt_cbc_record_with_type fill sm3 P content_type m (st\<lparr>ts_write_seq := ts_write_seq st + 1\<rparr>) =
      Some (Inr (record_bytes content_type body), st\<lparr>ts_write_seq := ts_write_seq st + 1, ts_os_rng := r,
        ts_cipher_enc := Some \<lparr>key_bytes = ts_write_key st\<rparr>\<rparr>)"
    by (rule encrypt_cbc_record_sealed [where ?sm3.0 = sm3 and fill = fill, OF assms(2-5)])
  obtain s1 where s1: "write_all T (record_bytes content_type body) (ts_inner st) = (Inr (), s1)"
    "tx s1 = tx (ts_inner st) @ record_bytes content_type body" by (rule accepts_obtain [OF assms(1)])
  obtain s2 where s2: "flush T s1 = (Inr (), s2)" "tx s2 = tx s1" by (rule accepts_flush [OF assms(1)])
  show thesis
    by (rule that [of body s2 r]) (use b s1 s2 in \<open>simp_all add: write_cbc_with_type_def ts_write_all_def ts_flush_def\<close>)
qed

text \<open>The state after a record has been written.\<close>

definition written_by :: "('s, 'r) TlcpStream \<Rightarrow> ('s, 'r) TlcpStream \<Rightarrow> bool" where
  "written_by st st' \<longleftrightarrow> (\<exists>s r. st' = st\<lparr>ts_inner := s, ts_write_seq := ts_write_seq st + 1,
     ts_cipher_enc := Some \<lparr>key_bytes = ts_write_key st\<rparr>, ts_os_rng := r\<rparr>)"

lemma written_byI:
  "written_by st (st\<lparr>ts_write_seq := ts_write_seq st + 1, ts_cipher_enc := Some \<lparr>key_bytes = ts_write_key st\<rparr>, ts_inner := s\<rparr>)"
  "written_by st (st\<lparr>ts_write_seq := ts_write_seq st + 1, ts_os_rng := r, ts_cipher_enc := Some \<lparr>key_bytes = ts_write_key st\<rparr>, ts_inner := s\<rparr>)"
  unfolding written_by_def
  by (rule exI [of _ s], rule exI [of _ "ts_os_rng st"], cases st, simp, rule exI [of _ s], rule exI [of _ r], cases st, simp)

lemma write_sealed:
  assumes "accepts T tx" "ts_ok st" "ts_write_seq st \<noteq> 0xFFFFFFFFFFFFFFFF" "sm4_laws P"
    and "\<And>x. length (sm3 x) = 32" "\<And>r n. length (fst (fill r n)) = n"
  obtains body st' where "sealed_body sm3 P st content_type m body" "written_by st st'"
    "write_encrypted_record_with_type fill sm3 P T content_type m st = Some (Inr (), st')"
    "tx (ts_inner st') = tx (ts_inner st) @ record_bytes content_type body"
proof (cases "gcm (ts_cipher_suite st)")
  case True
  obtain body s where b: "sealed_gcm P st content_type m body" "tx s = tx (ts_inner st) @ record_bytes content_type body"
    "write_gcm_with_type P T content_type m (st\<lparr>ts_write_seq := ts_write_seq st + 1\<rparr>) =
       Some (Inr (), st\<lparr>ts_write_seq := ts_write_seq st + 1, ts_cipher_enc := Some \<lparr>key_bytes = ts_write_key st\<rparr>, ts_inner := s\<rparr>)"
    by (rule write_gcm_sealed [OF assms(1-4)])
  show ?thesis
    by (rule that [of body "st\<lparr>ts_write_seq := ts_write_seq st + 1, ts_cipher_enc := Some \<lparr>key_bytes = ts_write_key st\<rparr>, ts_inner := s\<rparr>"])
      (use b True assms(3) in \<open>auto simp: sealed_body_def written_byI write_encrypted_record_with_type_def advance_ts_write_seq_def\<close>)
next
  case False
  obtain body s r where b: "sealed_cbc sm3 P st content_type m body" "tx s = tx (ts_inner st) @ record_bytes content_type body"
    "write_cbc_with_type fill sm3 P T content_type m (st\<lparr>ts_write_seq := ts_write_seq st + 1\<rparr>) =
       Some (Inr (), st\<lparr>ts_write_seq := ts_write_seq st + 1, ts_os_rng := r, ts_cipher_enc := Some \<lparr>key_bytes = ts_write_key st\<rparr>, ts_inner := s\<rparr>)"
    by (rule write_cbc_sealed [where ?sm3.0 = sm3 and fill = fill, OF assms(1,2,4)]) (use assms(5,6) in auto)
  show ?thesis
    by (rule that [of body "st\<lparr>ts_write_seq := ts_write_seq st + 1, ts_os_rng := r, ts_cipher_enc := Some \<lparr>key_bytes = ts_write_key st\<rparr>, ts_inner := s\<rparr>"])
      (use b False assms(3) in \<open>auto simp: sealed_body_def written_byI write_encrypted_record_with_type_def advance_ts_write_seq_def\<close>)
qed

text \<open>The state after a record has been opened.\<close>

definition read_by :: "('s, 'r) TlcpStream \<Rightarrow> ('s, 'r) TlcpStream \<Rightarrow> bool" where
  "read_by st st' \<longleftrightarrow> (\<exists>s. st' = st\<lparr>ts_inner := s, ts_read_seq := ts_read_seq st + 1,
     ts_cipher_dec := Some \<lparr>key_bytes = ts_read_key st\<rparr>\<rparr>)"

lemma decrypt_gcm_sealed:
  assumes "ts_paired w st" "sealed_gcm P w content_type m body" "ts_read_seq st \<noteq> 0xFFFFFFFFFFFFFFFF" "sm4_laws P"
    and "take 3 header = [content_type] @ TLCP_VERSION"
  shows "tlcp_decrypt_gcm P body header (st\<lparr>ts_read_seq := ts_read_seq st + 1\<rparr>) =
     Some (Inr m, st\<lparr>ts_read_seq := ts_read_seq st + 1, ts_cipher_dec := Some \<lparr>key_bytes = ts_read_key st\<rparr>\<rparr>)"
proof -
  note p = assms(1) [unfolded ts_paired_def]
  have ok: "ts_ok st" and lr: "length (ts_read_nonce st) = 12" using p by (simp_all add: ts_ok_def)
  obtain e tag where e: "encrypt_gcm P \<lparr>key_bytes = ts_read_key st\<rparr> m (nonce_of (ts_read_nonce st) (ts_read_seq st))
      (u64_to_be (ts_read_seq st) @ take 3 header @ u16_to_be (word_of_nat (length m))) = Inr (e, tag)"
    "length e = length m" "length tag = 16" "body = u64_to_be (ts_read_seq st) @ e @ tag"
    using assms(2,5) p unfolding sealed_gcm_def by auto
  have "decrypt_gcm P \<lparr>key_bytes = ts_read_key st\<rparr> e (nonce_of (ts_read_nonce st) (ts_read_seq st))
      (gcm_aad (u64_to_be (ts_read_seq st)) header (length e)) tag = Inr m"
    using e(1,2) by (simp add: decrypt_gcm_iff [OF assms(4)] gcm_aad_def)
  then show ?thesis using e(2-4) assms(3) ok lr
    by (simp add: tlcp_decrypt_gcm_def ts_get_cipher_dec_ok tlcp_next_nonce_eq)
qed

lemma decrypt_cbc_sealed:
  assumes "ts_paired w st" "sealed_cbc sm3 P w content_type m body" "sm4_laws P" "\<And>x. length (sm3 x) = 32"
    and "take 3 header = [content_type] @ TLCP_VERSION"
  shows "tlcp_decrypt_cbc sm3 P body header (st\<lparr>ts_read_seq := ts_read_seq st + 1\<rparr>) =
     Some (Inr m, st\<lparr>ts_read_seq := ts_read_seq st + 1, ts_cipher_dec := Some \<lparr>key_bytes = ts_read_key st\<rparr>\<rparr>)"
proof -
  note p = assms(1) [unfolded ts_paired_def]
  let ?d = "cbc_inner m (hmac_ref sm3 (ts_read_mac_key st) (cbc_mac_input (ts_read_seq st) (take 3 header) m))"
  have k: "length (ts_read_key st) = 16" and ok: "ts_ok st" using p by (simp_all add: ts_ok_def)
  obtain iv c where c: "length iv = 16" "body = iv @ c" "encrypt_cbc_raw P \<lparr>key_bytes = ts_read_key st\<rparr> ?d iv = Inr c"
    and lc: "length c = length (cbc_inner m (replicate 32 0))"
    using assms(2,5) p unfolding sealed_cbc_def by auto
  have lc16: "16 dvd length c" "length c \<ge> 33 + length m"
    using cbc_inner_aligned [of "replicate 32 0" m] lc by simp_all
  then have long: "length c \<ge> 48" by (auto simp: dvd_def)
  have "decrypt_cbc_raw P \<lparr>key_bytes = ts_read_key st\<rparr> c iv = Inr ?d"
    using cbc_raw_roundtrip [OF assms(3) _ c(1), of "\<lparr>key_bytes = ts_read_key st\<rparr>" ?d] k c(3) cbc_inner_aligned(1,2)
      length_hmac_ref [where ?sm3.0 = sm3, OF assms(4)] by simp
  then show ?thesis
    using c(1,2) ok long cbc_open_inner_sealed [where ?sm3.0 = sm3, OF assms(3,4)]
    by (simp add: tlcp_decrypt_cbc_def ts_get_cipher_dec_ok tlcp_record_consts)
qed

lemma delivers_obtain:
  assumes "delivers T rx" "rx s = data @ rest" "length data = n"
  obtains s' where "read_exact T n s = (Inr data, s')" "rx s' = rest"
proof -
  have "n \<le> length (rx s)" using assms(2,3) by simp
  then obtain s' where "read_exact T n s = (Inr (take n (rx s)), s')" "rx s' = drop n (rx s)"
    using assms(1) unfolding delivers_def by blast
  then show thesis using that [of s'] assms(2,3) by simp
qed

lemma record_bytes_split:
  "record_bytes content_type body = ([content_type] @ TLCP_VERSION @ u16_to_be (word_of_nat (length body))) @ body"
  by (simp add: record_bytes_def)

lemma record_header_facts:
  fixes content_type :: u8
  assumes "n < 65536"
  defines "h \<equiv> [content_type] @ TLCP_VERSION @ u16_to_be (word_of_nat n)"
  shows "length h = 5" "h ! 0 = content_type" "[h ! 1, h ! 2] = TLCP_VERSION" "unat (u16_from_be [h ! 3, h ! 4]) = n"
    "take 3 h = [content_type] @ TLCP_VERSION"
proof -
  obtain a b where ab: "u16_to_be (word_of_nat n) = [a, b]"
    using pair_list [of "u16_to_be (word_of_nat n)"] by (metis length_to_be(1))
  have h: "h = [content_type, 1, 1, a, b]" by (simp add: h_def ab TLCP_VERSION_def)
  have "u16_from_be [a, b] = word_of_nat n" using u16_from_to_be [of "word_of_nat n"] by (simp add: ab)
  then show "length h = 5" "h ! 0 = content_type" "[h ! 1, h ! 2] = TLCP_VERSION" "unat (u16_from_be [h ! 3, h ! 4]) = n"
    "take 3 h = [content_type] @ TLCP_VERSION"
    using unat_word_of_nat_u16 [OF assms(1)] by (simp_all add: h TLCP_VERSION_def)
qed

lemma ts_read_sealed:
  assumes "delivers T rx" "ts_paired w st" "sealed_body sm3 P w content_type m body" "rx (ts_inner st) = record_bytes content_type body @ rest"
    and "content_type \<in> {TLCP_RECORD_TYPE_APP_DATA, TLCP_RECORD_TYPE_HANDSHAKE}" "length body \<le> TLCP_MAX_RECORD_SIZE"
    and "ts_read_seq st \<noteq> 0xFFFFFFFFFFFFFFFF" "sm4_laws P" "\<And>x. length (sm3 x) = 32"
  obtains st' where "tlcp_read_application_data sm3 P T st = Some (Inr m, st')" "read_by st st'" "rx (ts_inner st') = rest"
proof -
  define hdr where "hdr = [content_type] @ TLCP_VERSION @ u16_to_be (word_of_nat (length body))"
  have n: "length body < 65536" using assms(6) by (simp add: TLCP_MAX_RECORD_SIZE_def)
  note h = record_header_facts [OF n, of content_type, folded hdr_def]
  have wire: "rx (ts_inner st) = hdr @ body @ rest" using assms(4) by (simp add: hdr_def record_bytes_def)
  obtain s1 where s1: "read_exact T 5 (ts_inner st) = (Inr hdr, s1)" "rx s1 = body @ rest"
    by (rule delivers_obtain [OF assms(1) wire h(1)])
  obtain s2 where s2: "read_exact T (length body) s1 = (Inr body, s2)" "rx s2 = rest"
    by (rule delivers_obtain [OF assms(1) s1(2) refl])
  let ?st = "st\<lparr>ts_inner := s2\<rparr>"
  let ?st' = "?st\<lparr>ts_read_seq := ts_read_seq st + 1, ts_cipher_dec := Some \<lparr>key_bytes = ts_read_key st\<rparr>\<rparr>"
  have p: "ts_paired w ?st" "ts_cipher_suite w = ts_cipher_suite st" using assms(2) by (simp_all add: ts_paired_def)
  have opened: "(if gcm (ts_cipher_suite st) then tlcp_decrypt_gcm P body hdr (?st\<lparr>ts_read_seq := ts_read_seq st + 1\<rparr>)
      else tlcp_decrypt_cbc sm3 P body hdr (?st\<lparr>ts_read_seq := ts_read_seq st + 1\<rparr>)) = Some (Inr m, ?st')"
    using decrypt_gcm_sealed [OF p(1) _ _ assms(8) h(5)] decrypt_cbc_sealed [where ?sm3.0 = sm3, OF p(1) _ assms(8,9) h(5)]
      assms(3,7) p(2) by (simp add: sealed_body_def split del: if_split) (simp split: if_splits)
  have "tlcp_read_application_data sm3 P T st = Some (Inr m, ?st')"
    using s1(1) s2(1) h(2-4) assms(5-7) opened
    by (simp add: tlcp_read_application_data_def ts_read_exact_def advance_ts_read_seq_def Let_def split del: if_split)
  then show thesis using that [of ?st'] s2(2) by (auto simp: read_by_def)
qed

lemma paired_step: "ts_paired w st \<Longrightarrow> written_by w w' \<Longrightarrow> read_by st st' \<Longrightarrow> ts_paired w' st'"
  by (auto simp: ts_paired_def ts_ok_def written_by_def read_by_def)

section \<open>Sequences of records\<close>

fun tlcp_send_all ::
  "'r rng \<Rightarrow> (bytes \<Rightarrow> bytes) \<Rightarrow> sm4_crates \<Rightarrow> 's transport \<Rightarrow> (u8 \<times> bytes) list \<Rightarrow> ('s, 'r, unit) tlcp" where
  "tlcp_send_all fill sm3 P T [] = io_return ()"
| "tlcp_send_all fill sm3 P T ((content_type, m) # ms) =
     io_bind (write_encrypted_record_with_type fill sm3 P T content_type m) (\<lambda>_. tlcp_send_all fill sm3 P T ms)"

fun tlcp_receive :: "(bytes \<Rightarrow> bytes) \<Rightarrow> sm4_crates \<Rightarrow> 's transport \<Rightarrow> nat \<Rightarrow> ('s, 'r, bytes list) tlcp" where
  "tlcp_receive sm3 P T 0 = io_return []"
| "tlcp_receive sm3 P T (Suc n) =
     io_bind (tlcp_read_application_data sm3 P T) (\<lambda>m. io_bind (tlcp_receive sm3 P T n) (\<lambda>ms. io_return (m # ms)))"

definition sendable :: "u8 \<times> bytes \<Rightarrow> bool" where
  "sendable msg \<longleftrightarrow> fst msg \<in> {TLCP_RECORD_TYPE_APP_DATA, TLCP_RECORD_TYPE_HANDSHAKE} \<and> length (snd msg) + 64 \<le> TLCP_MAX_RECORD_SIZE"

lemma seq_room:
  assumes "unat (seq :: u64) + n < 2 ^ 64 - 1" "n > 0"
  shows "seq \<noteq> 0xFFFFFFFFFFFFFFFF" "unat (seq + 1) + (n - 1) < 2 ^ 64 - 1"
proof -
  show "seq \<noteq> 0xFFFFFFFFFFFFFFFF" using assms by auto
  have "unat (seq + 1) = unat seq + 1" using assms by (simp add: unat_word_ariths)
  then show "unat (seq + 1) + (n - 1) < 2 ^ 64 - 1" using assms by simp
qed

lemma channel_roundtrip:
  assumes "accepts T tx" "delivers U rx" "sm4_laws P" "\<And>x. length (sm3 x) = 32" "\<And>r n. length (fst (fill r n)) = n"
    and "ts_ok w" "list_all sendable msgs" "unat (ts_write_seq w) + length msgs < 2 ^ 64 - 1"
  shows "\<exists>w' sent. tlcp_send_all fill sm3 P T msgs w = Some (Inr (), w') \<and> tx (ts_inner w') = tx (ts_inner w) @ sent \<and>
    (\<forall>(r :: ('t, 'q) TlcpStream) rest. ts_paired w r \<longrightarrow> rx (ts_inner r) = sent @ rest \<longrightarrow>
       (\<exists>r'. tlcp_receive sm3 P U (length msgs) r = Some (Inr (map snd msgs), r') \<and> rx (ts_inner r') = rest \<and> ts_paired w' r'))"
  using assms(6-8)
proof (induction msgs arbitrary: w)
  case Nil
  show ?case by (intro exI [of _ w] exI [of _ "[]"]) auto
next
  case (Cons msg msgs)
  obtain ct m where msg: "msg = (ct, m)" by (cases msg)
  note room = seq_room [of "ts_write_seq w" "length (msg # msgs)", OF Cons.prems(3), simplified]
  obtain body w1 where b: "sealed_body sm3 P w ct m body" "written_by w w1"
    "write_encrypted_record_with_type fill sm3 P T ct m w = Some (Inr (), w1)" "tx (ts_inner w1) = tx (ts_inner w) @ record_bytes ct body"
    by (rule write_sealed [where ?sm3.0 = sm3 and fill = fill, OF assms(1) Cons.prems(1) room(1) assms(3-5)])
  have w1: "ts_ok w1" "ts_write_seq w1 = ts_write_seq w + 1" using b(2) Cons.prems(1) by (auto simp: written_by_def ts_ok_def)
  have s: "ct \<in> {TLCP_RECORD_TYPE_APP_DATA, TLCP_RECORD_TYPE_HANDSHAKE}" "length body \<le> TLCP_MAX_RECORD_SIZE"
    using Cons.prems(2) sealed_body_length [OF b(1)] by (auto simp: msg sendable_def)
  have "list_all sendable msgs" "unat (ts_write_seq w1) + length msgs < 2 ^ 64 - 1"
    using Cons.prems(2) room(2) w1(2) by simp_all
  note IH = Cons.IH [OF w1(1) this]
  obtain w' sent where w': "tlcp_send_all fill sm3 P T msgs w1 = Some (Inr (), w')" "tx (ts_inner w') = tx (ts_inner w1) @ sent"
    and recv: "\<And>(r :: ('t, 'q) TlcpStream) rest. ts_paired w1 r \<Longrightarrow> rx (ts_inner r) = sent @ rest \<Longrightarrow>
       \<exists>r'. tlcp_receive sm3 P U (length msgs) r = Some (Inr (map snd msgs), r') \<and> rx (ts_inner r') = rest \<and> ts_paired w' r'"
    using IH by blast
  show ?case
  proof (rule exI [of _ w'], rule exI [of _ "record_bytes ct body @ sent"], intro conjI allI impI)
    show "tlcp_send_all fill sm3 P T (msg # msgs) w = Some (Inr (), w')" using b(3) w'(1) by (simp add: msg)
    show "tx (ts_inner w') = tx (ts_inner w) @ record_bytes ct body @ sent" using b(4) w'(2) by simp
    fix r :: "('t, 'q) TlcpStream" and rest assume p: "ts_paired w r" and rx: "rx (ts_inner r) = (record_bytes ct body @ sent) @ rest"
    have seq: "ts_read_seq r \<noteq> 0xFFFFFFFFFFFFFFFF" using p room(1) by (simp add: ts_paired_def)
    have wire: "rx (ts_inner r) = record_bytes ct body @ sent @ rest" using rx by simp
    obtain r1 where r1: "tlcp_read_application_data sm3 P U r = Some (Inr m, r1)" "read_by r r1" "rx (ts_inner r1) = sent @ rest"
      by (rule ts_read_sealed [where ?sm3.0 = sm3, OF assms(2) p b(1) wire s seq assms(3,4)])
    obtain r' where "tlcp_receive sm3 P U (length msgs) r1 = Some (Inr (map snd msgs), r')" "rx (ts_inner r') = rest" "ts_paired w' r'"
      using recv [OF paired_step [OF p b(2) r1(2)] r1(3)] by blast
    then show "\<exists>r'. tlcp_receive sm3 P U (length (msg # msgs)) r = Some (Inr (map snd (msg # msgs)), r') \<and> rx (ts_inner r') = rest \<and> ts_paired w' r'"
      using r1(1) by (auto simp: msg)
  qed
qed

lemma length_copy_iv [simp]: "length (copy_iv n src) = n"
  by (simp add: copy_iv_def Let_def)

lemma new_streams_paired:
  assumes "material_ok suite km"
  shows "ts_paired (tlcp_stream_new s km suite c sid q) (tlcp_stream_new t km suite (\<not> c) sid' q')"
  using assms by (simp add: ts_paired_def ts_ok_def tlcp_stream_new_def material_ok_def SM4_GCM_NONCE_LENGTH_def)

lemma decrypt_cbc_iff:
  assumes "ts_ok st" "sm4_laws P" "\<And>x. length (sm3 x) = 32"
  shows "(\<exists>st'. tlcp_decrypt_cbc sm3 P buf header (st\<lparr>ts_read_seq := seq\<rparr>) = Some (Inr m, st')) \<longleftrightarrow>
      length buf \<ge> 64 \<and> (\<exists>p \<le> 16. decrypt_cbc_raw P \<lparr>key_bytes = ts_read_key st\<rparr> (drop 16 buf) (take 16 buf) =
        Inr (m @ hmac_ref sm3 (ts_read_mac_key st) (cbc_mac_input (seq - 1) (take 3 header) m) @ replicate (p + 1) (word_of_nat p)))"
  using assms(1) cbc_open_inner_iff [where ?sm3.0 = sm3, OF assms(2,3)]
  by (auto simp: tlcp_decrypt_cbc_def ts_get_cipher_dec_ok tlcp_record_consts bind_res_eq_Inr Let_def not_less)
     (auto simp: map_err_def split: sum.splits)

section \<open>Properties of the record layer\<close>



text \<open>
  C10. In CBC mode a record is accepted exactly when its decryption is its content, the HMAC-SM3 of the
  sequence number, record type, version, length and content under the read key, and up to 17 equal
  padding bytes. When a record is accepted again at another sequence number or under another record
  type, the HMAC inputs of the two positions are a collision: they differ and their HMACs are equal.
\<close>

theorem tlcp_cbc_record_authentic:
  assumes "ts_ok st" "sm4_laws P" "\<And>x. length (sm3 x) = 32"
  shows "((\<exists>st'. tlcp_decrypt_cbc sm3 P buf header st = Some (Inr m, st')) \<longleftrightarrow>
      length buf \<ge> 64 \<and>
      (\<exists>p \<le> 16. decrypt_cbc_raw P \<lparr>key_bytes = ts_read_key st\<rparr> (drop 16 buf) (take 16 buf) =
        Inr (m @ hmac_ref sm3 (ts_read_mac_key st) (cbc_mac_input (ts_read_seq st - 1) (take 3 header) m) @ replicate (p + 1) (word_of_nat p)))) \<and>
    (tlcp_decrypt_cbc sm3 P buf header st = Some (Inr m, a) \<and>
       tlcp_decrypt_cbc sm3 P buf header' (st\<lparr>ts_read_seq := n\<rparr>) = Some (Inr m', b) \<longrightarrow>
     length header = 5 \<longrightarrow> length header' = 5 \<longrightarrow>
       m = m' \<and>
       hmac_ref sm3 (ts_read_mac_key st) (cbc_mac_input (ts_read_seq st - 1) (take 3 header) m) =
         hmac_ref sm3 (ts_read_mac_key st) (cbc_mac_input (n - 1) (take 3 header') m) \<and>
       (cbc_mac_input (ts_read_seq st - 1) (take 3 header) m = cbc_mac_input (n - 1) (take 3 header') m \<longleftrightarrow>
          n = ts_read_seq st \<and> take 3 header = take 3 header'))"
proof (intro conjI impI)
  let ?mac = "\<lambda>seq hdr m. hmac_ref sm3 (ts_read_mac_key st) (cbc_mac_input (seq - 1) (take 3 hdr) m)"
  note opens = decrypt_cbc_iff [where ?sm3.0 = sm3, OF assms]
  show "(\<exists>st'. tlcp_decrypt_cbc sm3 P buf header st = Some (Inr m, st')) \<longleftrightarrow>
      length buf \<ge> 64 \<and> (\<exists>p \<le> 16. decrypt_cbc_raw P \<lparr>key_bytes = ts_read_key st\<rparr> (drop 16 buf) (take 16 buf) =
        Inr (m @ ?mac (ts_read_seq st) header m @ replicate (p + 1) (word_of_nat p)))"
    using opens [of buf header "ts_read_seq st" m] by simp
  assume two: "tlcp_decrypt_cbc sm3 P buf header st = Some (Inr m, a) \<and>
       tlcp_decrypt_cbc sm3 P buf header' (st\<lparr>ts_read_seq := n\<rparr>) = Some (Inr m', b)"
    and len: "length header = 5" "length header' = 5"
  obtain p p' where pp: "m @ ?mac (ts_read_seq st) header m @ replicate (p + 1) (word_of_nat p) =
      m' @ ?mac n header' m' @ replicate (p' + 1) (word_of_nat p')" and le: "p \<le> 16" "p' \<le> 16"
    using two opens [of buf header "ts_read_seq st" m] opens [of buf header' n m'] by auto
  have "(word_of_nat p :: u8) = word_of_nat p'" using arg_cong [OF pp, of last] by (simp del: replicate_Suc)
  then have "unat (word_of_nat p :: u8) = unat (word_of_nat p' :: u8)" by simp
  then have "p = p'" using le by simp
  then show "m = m'" and "?mac (ts_read_seq st) header m = ?mac n header' m"
    using pp length_hmac_ref [where ?sm3.0 = sm3, OF assms(3)] by auto
  show "cbc_mac_input (ts_read_seq st - 1) (take 3 header) m = cbc_mac_input (n - 1) (take 3 header') m \<longleftrightarrow>
          n = ts_read_seq st \<and> take 3 header = take 3 header'"
  proof
    assume "cbc_mac_input (ts_read_seq st - 1) (take 3 header) m = cbc_mac_input (n - 1) (take 3 header') m"
    then have "u64_to_be (ts_read_seq st - 1) = u64_to_be (n - 1)" "take 3 header = take 3 header'"
      using len by (auto simp: cbc_mac_input_def append_eq_append_conv)
    then show "n = ts_read_seq st \<and> take 3 header = take 3 header'" by (metis diff_add_cancel u64_from_to_be)
  qed simp
qed

definition demo_material :: TlcpKeyMaterial where
  "demo_material = \<lparr>client_mac_key = replicate 32 1, server_mac_key = replicate 32 2, client_enc_key = replicate 16 3,
     server_enc_key = replicate 16 4, client_iv = replicate 16 5, server_iv = replicate 16 6\<rparr>"

definition demo_stream :: "bool \<Rightarrow> bytes \<Rightarrow> (bytes \<times> bytes, unit) TlcpStream" where
  "demo_stream c rx = tlcp_stream_new (rx, []) demo_material ECC_SM4_CBC_SM3 c [] ()"

lemma demo_material_ok: "material_ok ECC_SM4_CBC_SM3 demo_material"
  by (simp add: material_ok_def ECC_SM4_CBC_SM3_def demo_material_def)

lemma demo_streams_paired: "ts_paired (demo_stream True rx) (demo_stream False rx')"
  using new_streams_paired [OF demo_material_ok, where c = True] by (simp add: demo_stream_def)

theorem tlcp_cbc_record_authentic_witness:
  "\<exists>buf st' p. p \<le> 16 \<and>
     tlcp_decrypt_cbc sum_sm3 xor_crates buf [0x17, 1, 1, 0, 0] ((demo_stream False [])\<lparr>ts_read_seq := 1\<rparr>) = Some (Inr [7, 8], st') \<and>
     decrypt_cbc_raw xor_crates \<lparr>key_bytes = replicate 16 3\<rparr> (drop 16 buf) (take 16 buf) =
       Inr ([7, 8] @ hmac_ref sum_sm3 (replicate 32 1) (cbc_mac_input 0 [0x17, 1, 1] [7, 8]) @ replicate (p + 1) (word_of_nat p))"
proof -
  let ?w = "demo_stream True []" and ?r = "(demo_stream False [])\<lparr>ts_read_seq := 1\<rparr>"
  have ok: "ts_ok ?w" "ts_ok ?r" using demo_streams_paired [of "[]" "[]"] unfolding ts_paired_def by auto
  have fill: "length (fst ((\<lambda>(r :: unit) n. (replicate n (3 :: u8), r)) r n)) = n" for r n by simp
  obtain buf where buf: "sealed_cbc sum_sm3 xor_crates ?w 0x17 [7, 8] buf"
    by (rule write_cbc_sealed [where ?sm3.0 = sum_sm3 and fill = "\<lambda>r n. (replicate n 3, r)",
          OF queue_transport_reliable(1) ok(1) xor_crates_laws length_sum_sm3 fill])
  have seq: "ts_read_seq (demo_stream False []) + 1 = 1" by (simp add: demo_stream_def tlcp_stream_new_def)
  obtain st' where st': "tlcp_decrypt_cbc sum_sm3 xor_crates buf [0x17, 1, 1, 0, 0] ?r = Some (Inr [7, 8], st')"
    using decrypt_cbc_sealed [where ?sm3.0 = sum_sm3 and header = "[0x17, 1, 1, 0, 0]", OF demo_streams_paired [of "[]" "[]"] buf xor_crates_laws length_sum_sm3] seq
    by (simp add: TLCP_VERSION_def)
  have f: "ts_read_key ?r = replicate 16 3" "ts_read_mac_key ?r = replicate 32 1" "ts_read_seq ?r = 1"
    by (simp_all add: demo_stream_def tlcp_stream_new_def demo_material_def)
  have "\<exists>st'. tlcp_decrypt_cbc sum_sm3 xor_crates buf [0x17, 1, 1, 0, 0] ?r = Some (Inr [7, 8], st')" using st' by blast
  then obtain p where "p \<le> 16" "decrypt_cbc_raw xor_crates \<lparr>key_bytes = replicate 16 3\<rparr> (drop 16 buf) (take 16 buf) =
       Inr ([7, 8] @ hmac_ref sum_sm3 (replicate 32 1) (cbc_mac_input 0 [0x17, 1, 1] [7, 8]) @ replicate (p + 1) (word_of_nat p))"
    using tlcp_cbc_record_authentic [where ?sm3.0 = sum_sm3 and header' = "[]" and n = 0 and m' = "[]" and a = ?r and b = ?r
        and header = "[0x17, 1, 1, 0, 0]", OF ok(2) xor_crates_laws length_sum_sm3, of buf "[7, 8]"] f by auto
  then show ?thesis using st' by blast
qed

section \<open>Polled operations\<close>

text \<open>\<open>AsyncWrite\<close> on a transport that takes some bytes at every call, and \<open>AsyncRead\<close> on one that fills
  the buffer as far as it has bytes.\<close>

definition poll_accepts :: "'s transport \<Rightarrow> ('s \<Rightarrow> bytes) \<Rightarrow> bool" where
  "poll_accepts T tx \<longleftrightarrow> (\<forall>data s. data \<noteq> [] \<longrightarrow>
     (\<exists>n s'. inner_poll_write T data s = (Ready (Inr n), s') \<and> 0 < n \<and> tx s' = tx s @ take n data))"

definition poll_delivers :: "'s transport \<Rightarrow> ('s \<Rightarrow> bytes) \<Rightarrow> bool" where
  "poll_delivers T rx \<longleftrightarrow> (\<forall>n s. \<exists>s'. inner_poll_read T n s = (Ready (Inr (take n (rx s))), s') \<and> rx s' = drop n (rx s))"

lemma poll_write_slice_all:
  assumes "poll_accepts T tx"
  shows "\<exists>s'. poll_write_slice T failed data s = (None, s') \<and> tx s' = tx s @ data"
proof (induction data arbitrary: s rule: length_induct)
  case (1 data)
  show ?case
  proof (cases "data = []")
    case True
    then show ?thesis by (simp add: poll_write_slice.simps)
  next
    case False
    then obtain n s1 where s1: "inner_poll_write T data s = (Ready (Inr n), s1)" "0 < n" "tx s1 = tx s @ take n data"
      using assms unfolding poll_accepts_def by blast
    then obtain s2 where "poll_write_slice T failed (drop n data) s1 = (None, s2)" "tx s2 = tx s1 @ drop n data"
      using 1 False by (metis length_drop diff_less length_greater_0_conv)
    then show ?thesis using False s1 by (subst poll_write_slice.simps) simp
  qed
qed

lemma poll_fill_all:
  assumes "poll_delivers T rx" "rx s = data @ rest" "length data = n"
  shows "\<exists>s'. tlcp_poll_fill T incomplete n [] s = ((None, data), s') \<and> rx s' = rest"
proof (cases "n = 0")
  case True
  then show ?thesis using assms(2,3) by (simp add: tlcp_poll_fill.simps)
next
  case False
  obtain s1 where s1: "inner_poll_read T n s = (Ready (Inr data), s1)" "rx s1 = rest"
    using assms unfolding poll_delivers_def by (metis append_eq_conv_conj)
  have "tlcp_poll_fill T incomplete n data s1 = ((None, data), s1)" using assms(3) by (simp add: tlcp_poll_fill.simps)
  then show ?thesis using False s1 assms(3) by (subst tlcp_poll_fill.simps) auto
qed

lemma poll_write_sealed:
  assumes "poll_accepts T tx" "ts_ok st" "ts_write_seq st \<noteq> 0xFFFFFFFFFFFFFFFF" "sm4_laws P"
    and "\<And>x. length (sm3 x) = 32" "\<And>r n. length (fst (fill r n)) = n"
  obtains body st' where "sealed_body sm3 P st TLCP_RECORD_TYPE_APP_DATA m body" "written_by st st'"
    "tlcp_poll_write fill sm3 P T m st = Some (Ready (Inr (length m)), st')"
    "tx (ts_inner st') = tx (ts_inner st) @ record_bytes TLCP_RECORD_TYPE_APP_DATA body"
proof -
  let ?st = "st\<lparr>ts_write_seq := ts_write_seq st + 1\<rparr>"
  obtain body st1 where b: "sealed_body sm3 P st TLCP_RECORD_TYPE_APP_DATA m body" "ts_inner st1 = ts_inner st"
    "(if gcm (ts_cipher_suite ?st) then encrypt_gcm_record P m ?st else encrypt_cbc_record fill sm3 P m ?st) =
       Some (Inr (record_bytes TLCP_RECORD_TYPE_APP_DATA body), st1)" "\<And>s. written_by st (st1\<lparr>ts_inner := s\<rparr>)"
  proof (cases "gcm (ts_cipher_suite st)")
    case True
    show thesis
      by (rule encrypt_gcm_record_sealed [OF assms(2-4), of m], rule that)
         (use True in \<open>auto simp: sealed_body_def written_byI\<close>)
  next
    case False
    show thesis
      by (rule encrypt_cbc_record_sealed [where ?sm3.0 = sm3 and fill = fill and content_type = TLCP_RECORD_TYPE_APP_DATA and m = m, OF assms(2,4-6)], rule that)
         (use False in \<open>auto simp: sealed_body_def encrypt_cbc_record_def written_byI\<close>)
  qed
  obtain s where s: "poll_write_slice T ''failed to write record'' (record_bytes TLCP_RECORD_TYPE_APP_DATA body) (ts_inner st) = (None, s)"
    "tx s = tx (ts_inner st) @ record_bytes TLCP_RECORD_TYPE_APP_DATA body" using poll_write_slice_all [OF assms(1)] by blast
  show thesis
    by (rule that [OF b(1) b(4) [of s]]) (use b(2,3) s assms(3) in \<open>simp_all add: tlcp_poll_write_def Let_def split del: if_split\<close>)
qed

lemma poll_open_sealed:
  assumes "ts_paired w st" "sealed_body sm3 P w content_type m body" "ts_read_seq st \<noteq> 0xFFFFFFFFFFFFFFFF" "sm4_laws P"
    and "\<And>x. length (sm3 x) = 32" "take 3 header = [content_type] @ TLCP_VERSION"
  shows "poll_open sm3 P body header st =
     Some (Inr m, st\<lparr>ts_read_seq := ts_read_seq st + 1, ts_cipher_dec := Some \<lparr>key_bytes = ts_read_key st\<rparr>\<rparr>)"
proof (cases "gcm (ts_cipher_suite st)")
  case True
  let ?st = "st\<lparr>ts_read_seq := ts_read_seq st + 1\<rparr>"
  have g: "sealed_gcm P w content_type m body" using assms(1,2) True by (simp add: sealed_body_def ts_paired_def)
  have ok: "ts_ok st" "length (ts_read_nonce st) = 12" using assms(1) by (simp_all add: ts_paired_def ts_ok_def)
  have "poll_open_gcm P body header ?st = Some (Inr m, st')" if "tlcp_decrypt_gcm P body header ?st = Some (Inr m, st')" for st'
    using that ok assms(3) by (auto simp: poll_open_gcm_def tlcp_decrypt_gcm_def ts_get_cipher_dec_ok tlcp_next_nonce_eq map_err_def Let_def
        split: if_splits sum.splits)
  then show ?thesis using decrypt_gcm_sealed [OF assms(1) g assms(3,4,6)] True assms(3) by (simp add: poll_open_def)
next
  case False
  have c: "sealed_cbc sm3 P w content_type m body" using assms(1,2) False by (simp add: sealed_body_def ts_paired_def)
  show ?thesis using decrypt_cbc_sealed [where ?sm3.0 = sm3, OF assms(1) c assms(4-6)] False assms(3) by (simp add: poll_open_def)
qed

text \<open>A polled read that finds a complete record; two bytes \<open>[1, 0]\<close> are taken for a closing alert.\<close>

lemma poll_read_sealed:
  assumes "poll_delivers U rx" "ts_paired w st" "sealed_body sm3 P w TLCP_RECORD_TYPE_APP_DATA m body"
    and "rx (ts_inner st) = record_bytes TLCP_RECORD_TYPE_APP_DATA body @ rest" "length body \<le> TLCP_MAX_RECORD_SIZE"
    and "ts_read_seq st \<noteq> 0xFFFFFFFFFFFFFFFF" "sm4_laws P" "\<And>x. length (sm3 x) = 32" "ts_read_buf st = []" "length m \<le> remaining"
  obtains st' where "tlcp_poll_read sm3 P U remaining st = Some (Ready (Inr (if m = [1, 0] then [] else m)), st')"
    "ts_read_buf st' = []" "rx (ts_inner st') = rest" "ts_read_seq st' = ts_read_seq st + 1"
proof -
  define hdr where "hdr = [TLCP_RECORD_TYPE_APP_DATA] @ TLCP_VERSION @ u16_to_be (word_of_nat (length body))"
  have n: "length body < 65536" using assms(5) by (simp add: TLCP_MAX_RECORD_SIZE_def)
  note h = record_header_facts [OF n, of TLCP_RECORD_TYPE_APP_DATA, folded hdr_def]
  have wire: "rx (ts_inner st) = hdr @ body @ rest" using assms(4) by (simp add: hdr_def record_bytes_def)
  obtain s1 where s1: "inner_poll_read U 5 (ts_inner st) = (Ready (Inr hdr), s1)" "rx s1 = body @ rest"
    using assms(1) wire h(1) unfolding poll_delivers_def by (metis append_eq_conv_conj)
  obtain s2 where s2: "tlcp_poll_fill U ''TLCP record read incomplete'' (length body) [] s1 = ((None, body), s2)" "rx s2 = rest"
    using poll_fill_all [OF assms(1) s1(2) refl] by blast
  have p: "ts_paired w (st\<lparr>ts_inner := s2\<rparr>)" using assms(2) by (simp add: ts_paired_def)
  note opened = poll_open_sealed [where ?sm3.0 = sm3, OF p assms(3) _ assms(7,8) h(5), simplified, OF assms(6)]
  have "\<exists>st'. tlcp_poll_read sm3 P U remaining st = Some (Ready (Inr (if m = [1, 0] then [] else m)), st') \<and>
      ts_read_buf st' = [] \<and> rx (ts_inner st') = rest \<and> ts_read_seq st' = ts_read_seq st + 1"
    using s1(1) s2 h(1-4) assms(5,9,10) opened
    by (auto simp: tlcp_poll_read_def drain_ts_read_buf_def slice_def Let_def)
  then show thesis using that by blast
qed

text \<open>
  C33. Through the polled interface: a write of application data is accepted in full, and when the record
  is there in full a polled read of the peer returns its content, with one exception. A message that is
  the two bytes of the closing alert is reported as the end of the stream, since the record type of the
  alert is that of application data.
\<close>

theorem tlcp_polled_roundtrip:
  assumes "poll_accepts T tx" "poll_delivers U rx" "sm4_laws P" "\<And>x. length (sm3 x) = 32"
    and "\<And>r n. length (fst (fill r n)) = n" "ts_ok w" "ts_write_seq w \<noteq> 0xFFFFFFFFFFFFFFFF" "length m + 64 \<le> TLCP_MAX_RECORD_SIZE"
  shows "\<exists>w' sent. tlcp_poll_write fill sm3 P T m w = Some (Ready (Inr (length m)), w') \<and> tx (ts_inner w') = tx (ts_inner w) @ sent \<and>
    (\<forall>(r :: ('t, 'q) TlcpStream) rest remaining. ts_paired w r \<longrightarrow> ts_read_buf r = [] \<longrightarrow> length m \<le> remaining \<longrightarrow>
       rx (ts_inner r) = sent @ rest \<longrightarrow>
       (\<exists>r'. tlcp_poll_read sm3 P U remaining r = Some (Ready (Inr (if m = [1, 0] then [] else m)), r') \<and>
             ts_read_buf r' = [] \<and> rx (ts_inner r') = rest \<and> ts_read_seq r' = ts_write_seq w'))"
proof -
  obtain body w' where b: "sealed_body sm3 P w TLCP_RECORD_TYPE_APP_DATA m body" "written_by w w'"
    "tlcp_poll_write fill sm3 P T m w = Some (Ready (Inr (length m)), w')"
    "tx (ts_inner w') = tx (ts_inner w) @ record_bytes TLCP_RECORD_TYPE_APP_DATA body"
    by (rule poll_write_sealed [where ?sm3.0 = sm3 and fill = fill, OF assms(1,6,7,3-5)])
  have len: "length body \<le> TLCP_MAX_RECORD_SIZE" using sealed_body_length [OF b(1)] assms(8) by simp
  have seq: "ts_write_seq w' = ts_write_seq w + 1" using b(2) by (auto simp: written_by_def)
  have "\<exists>r'. tlcp_poll_read sm3 P U remaining r = Some (Ready (Inr (if m = [1, 0] then [] else m)), r') \<and>
             ts_read_buf r' = [] \<and> rx (ts_inner r') = rest \<and> ts_read_seq r' = ts_write_seq w'"
    if r: "ts_paired w r" "ts_read_buf r = []" "length m \<le> remaining" "rx (ts_inner r) = record_bytes TLCP_RECORD_TYPE_APP_DATA body @ rest"
    for r :: "('t, 'q) TlcpStream" and rest remaining
  proof -
    have "ts_read_seq r = ts_write_seq w" using r(1) by (simp add: ts_paired_def)
    then show ?thesis
      using poll_read_sealed [where ?sm3.0 = sm3, OF assms(2) r(1) b(1) r(4) len _ assms(3,4) r(2,3)] assms(7) seq by metis
  qed
  then show ?thesis using b(3,4) by blast
qed

theorem tlcp_polled_roundtrip_witness:
  "\<exists>w sent r. tlcp_poll_write (\<lambda>r n. (replicate n 3, r)) sum_sm3 xor_crates queue_transport [1, 0] (demo_stream True []) =
       Some (Ready (Inr 2), w) \<and> snd (ts_inner w) = sent \<and>
     tlcp_poll_read sum_sm3 xor_crates queue_transport 100 (demo_stream False sent) = Some (Ready (Inr []), r)"
proof -
  have q: "poll_accepts queue_transport snd" "poll_delivers queue_transport fst"
    by (auto simp: poll_accepts_def poll_delivers_def queue_transport_def intro!: exI [of _ "length _"])
  have ok: "ts_ok (demo_stream True [])" using demo_streams_paired [of "[]" "[]"] unfolding ts_paired_def by auto
  have w: "ts_write_seq (demo_stream True []) \<noteq> 0xFFFFFFFFFFFFFFFF" "ts_inner (demo_stream c x) = (x, [])" "ts_read_buf (demo_stream c x) = []" for c x
    by (simp_all add: demo_stream_def tlcp_stream_new_def)
  have fill: "length (fst ((\<lambda>(r :: unit) n. (replicate n (3 :: u8), r)) r n)) = n" for r n by simp
  have m: "length ([1, 0] :: bytes) + 64 \<le> TLCP_MAX_RECORD_SIZE" by (simp add: TLCP_MAX_RECORD_SIZE_def)
  obtain w' sent where w': "tlcp_poll_write (\<lambda>r n. (replicate n 3, r)) sum_sm3 xor_crates queue_transport [1, 0] (demo_stream True []) =
       Some (Ready (Inr (length ([1, 0] :: bytes))), w')" "snd (ts_inner w') = snd (ts_inner (demo_stream True [])) @ sent"
    "\<forall>(r :: (bytes \<times> bytes, unit) TlcpStream) rest remaining. ts_paired (demo_stream True []) r \<longrightarrow> ts_read_buf r = [] \<longrightarrow>
       length ([1, 0] :: bytes) \<le> remaining \<longrightarrow> fst (ts_inner r) = sent @ rest \<longrightarrow>
       (\<exists>r'. tlcp_poll_read sum_sm3 xor_crates queue_transport remaining r = Some (Ready (Inr (if [1, 0] = [1, 0 :: u8] then [] else [1, 0])), r') \<and>
             ts_read_buf r' = [] \<and> fst (ts_inner r') = rest \<and> ts_read_seq r' = ts_write_seq w')"
    using tlcp_polled_roundtrip [where ?sm3.0 = sum_sm3 and fill = "\<lambda>r n. (replicate n 3, r)" and m = "[1, 0]",
        OF q xor_crates_laws length_sum_sm3 fill ok w(1) m, where 'q = unit] by blast
  have "\<exists>r'. tlcp_poll_read sum_sm3 xor_crates queue_transport 100 (demo_stream False sent) = Some (Ready (Inr []), r')"
    using w'(3) [rule_format, of "demo_stream False sent" 100 "[]"] demo_streams_paired w by auto
  then show ?thesis using w'(1,2) w(2) unfolding ex_simps by (simp add: numeral_2_eq_2)
qed



text \<open>Plaintext handshake records are not split: above 16384 bytes the peer refuses what was sent.\<close>

lemma plaintext_record_roundtrip:
  assumes "accepts T tx" "delivers U rx" "length msg < 65536"
  shows "\<exists>s' sent. tlcp_write_handshake_record T msg s = (Inr (), s') \<and> tx s' = tx s @ sent \<and>
    (\<forall>t rest. rx t = sent @ rest \<longrightarrow>
       (\<exists>t'. read_plaintext_record U t =
          (if length msg \<le> TLCP_MAX_RECORD_SIZE then Inr (TLCP_RECORD_TYPE_HANDSHAKE, msg)
           else Inl (io_other (''Record too large: '' @ show_nat (length msg) @ '' bytes'')), t')))"
proof -
  define hdr where "hdr = [TLCP_RECORD_TYPE_HANDSHAKE] @ TLCP_VERSION @ u16_to_be (word_of_nat (length msg))"
  note h = record_header_facts [OF assms(3), of TLCP_RECORD_TYPE_HANDSHAKE, folded hdr_def]
  obtain s1 where s1: "write_all T (hdr @ msg) s = (Inr (), s1)" "tx s1 = tx s @ hdr @ msg" by (rule accepts_obtain [OF assms(1)])
  obtain s2 where s2: "flush T s1 = (Inr (), s2)" "tx s2 = tx s1" by (rule accepts_flush [OF assms(1)])
  have "tlcp_write_handshake_record T msg s = (Inr (), s2)"
    using s1(1) s2(1) by (simp add: tlcp_write_handshake_record_def hdr_def TLCP_VERSION_1_0_def TLCP_VERSION_def)
  moreover have "\<exists>t'. read_plaintext_record U t =
          (if length msg \<le> TLCP_MAX_RECORD_SIZE then Inr (TLCP_RECORD_TYPE_HANDSHAKE, msg)
           else Inl (io_other (''Record too large: '' @ show_nat (length msg) @ '' bytes'')), t')"
    if t: "rx t = (hdr @ msg) @ rest" for t rest
  proof -
    have wire: "rx t = hdr @ msg @ rest" using t by simp
    obtain t1 where t1: "read_exact U 5 t = (Inr hdr, t1)" "rx t1 = msg @ rest" by (rule delivers_obtain [OF assms(2) wire h(1)])
    obtain t2 where "read_exact U (length msg) t1 = (Inr msg, t2)" by (rule delivers_obtain [OF assms(2) t1(2) refl])
    then show ?thesis using t1(1) h(2,4) by (simp add: read_plaintext_record_def Let_def)
  qed
  ultimately show ?thesis using s1(2) s2(2) by auto
qed

end
