(* ===== verification/Tlcp_Handshake.thy ===== *)
theory Tlcp_Handshake
  imports Tlcp_Record
begin

text \<open>
  The handshake of \<open>gm-tlcp\<close>: the contexts of client and server (\<open>tlcp/handshake\<close>), the streams made
  from them, the exchange of ChangeCipherSpec and Finished that ends \<open>connect_with_certs\<close> and
  \<open>accept_with_certs\<close>, and the helpers that share an ECDHE context (\<open>tlcp/mod.rs\<close>). Clock readings are
  arguments; the generator is a parameter; the state of the SM9 initiator, which the context only
  carries, has a type of its own. Shown: when both sides hold the same premaster secret they end with
  paired streams and each accepts the other's Finished exactly if the transcripts give the same value;
  what the server's choice of suite and session is; that the deprecated \<open>connect_tlcp\<close> always fails.
\<close>

section \<open>Client\<close>

datatype TlcpHandshakeState = Idle | HelloSent | ServerCertsReceived | KeyExchange | WaitFinished | Established | Failed

fun debug_handshake_state :: "TlcpHandshakeState \<Rightarrow> string" where
  "debug_handshake_state Idle = ''Idle''"
| "debug_handshake_state HelloSent = ''HelloSent''"
| "debug_handshake_state ServerCertsReceived = ''ServerCertsReceived''"
| "debug_handshake_state KeyExchange = ''KeyExchange''"
| "debug_handshake_state WaitFinished = ''WaitFinished''"
| "debug_handshake_state Established = ''Established''"
| "debug_handshake_state Failed = ''Failed''"

record 'i TlcpHandshake =
  hc_state :: TlcpHandshakeState
  hc_cipher_suite :: "bytes option"
  hc_client_random :: bytes
  hc_server_random :: "bytes option"
  hc_server_certs :: "TlcpCertPair option"
  hc_pre_master_secret :: "bytes option"
  hc_master_secret :: "bytes option"
  hc_session_id :: bytes
  hc_is_resumed :: bool
  hc_resumed_session :: "TlcpResumedSession option"
  hc_transcript :: bytes
  hc_cipher_suites :: "bytes list"
  hc_ibsdh_initiator_state :: "'i option"
  hc_ibsdh_ra_wire :: "bytes option"
  hc_pending_pms :: "bytes option"

definition new_client :: "'r rng \<Rightarrow> 'r \<Rightarrow> 'i TlcpHandshake \<times> 'r" where
  "new_client fill r =
     (let (random, r) = fill r 32
      in (\<lparr>hc_state = Idle, hc_cipher_suite = None, hc_client_random = random, hc_server_random = None,
           hc_server_certs = None, hc_pre_master_secret = None, hc_master_secret = None, hc_session_id = [],
           hc_is_resumed = False, hc_resumed_session = None, hc_transcript = [],
           hc_cipher_suites = [TLS_ECDHE_SM4_GCM_SM3, TLS_ECDHE_SM4_CBC_SM3, TLS_ECC_SM4_GCM_SM3, TLS_ECC_SM4_CBC_SM3],
           hc_ibsdh_initiator_state = None, hc_ibsdh_ra_wire = None, hc_pending_pms = None\<rparr>, r))"

definition new_client_with_session :: "'r rng \<Rightarrow> TlcpResumedSession \<Rightarrow> 'r \<Rightarrow> 'i TlcpHandshake \<times> 'r" where
  "new_client_with_session fill session r =
     (let (random, r) = fill r 32;
          session_id = take 16 (rs_server_random session)
      in (\<lparr>hc_state = Idle, hc_cipher_suite = Some (rs_cipher_suite session), hc_client_random = random,
           hc_server_random = Some (rs_server_random session),
           hc_server_certs = None, hc_pre_master_secret = None, hc_master_secret = Some (rs_master_secret session),
           hc_session_id = session_id, hc_is_resumed = False, hc_resumed_session = Some session, hc_transcript = [],
           hc_cipher_suites = [TLS_ECDHE_SM4_GCM_SM3, TLS_ECDHE_SM4_CBC_SM3, TLS_ECC_SM4_GCM_SM3, TLS_ECC_SM4_CBC_SM3],
           hc_ibsdh_initiator_state = None, hc_ibsdh_ra_wire = None, hc_pending_pms = None\<rparr>, r))"

definition create_client_hello :: "'i TlcpHandshake \<Rightarrow> TlcpClientHello \<times> 'i TlcpHandshake" where
  "create_client_hello h =
     (\<lparr>ch_version = TLCP_VERSION_1_0, ch_random = hc_client_random h, ch_session_id = hc_session_id h,
       ch_cipher_suites = hc_cipher_suites h, ch_compression_methods = [0x00]\<rparr>, h\<lparr>hc_state := HelloSent\<rparr>)"

definition process_server_hello :: "TlcpServerHello \<Rightarrow> 'i TlcpHandshake \<Rightarrow> (TlcpError, 'i TlcpHandshake) res" where
  "process_server_hello hello h =
     (if hc_state h \<noteq> HelloSent then Inl (InvalidHandshakeType 0x02)
      else if sh_version hello \<noteq> TLCP_VERSION_1_0
      then Inl (InvalidMessage (''Unsupported TLCP version: '' @ show_bytes_lower (sh_version hello)))
      else
        let h = h\<lparr>hc_server_random := Some (sh_random hello), hc_cipher_suite := Some (sh_cipher_suite hello)\<rparr>
        in if hc_session_id h \<noteq> [] \<and> sh_session_id hello = hc_session_id h then Inr (h\<lparr>hc_is_resumed := True\<rparr>)
           else Inr (h\<lparr>hc_is_resumed := False, hc_session_id := sh_session_id hello\<rparr>))"

definition process_server_certs :: "TlcpCertPair \<Rightarrow> 'i TlcpHandshake \<Rightarrow> (TlcpError, 'i TlcpHandshake) res" where
  "process_server_certs certs h =
     (if hc_state h \<noteq> HelloSent then Inl (InvalidHandshakeType 0x0B)
      else Inr (h\<lparr>hc_server_certs := Some certs, hc_state := ServerCertsReceived\<rparr>))"

text \<open>The premaster secret is overwritten with zeros before it is dropped.\<close>

definition derive_master_secret :: "(bytes \<Rightarrow> bytes) \<Rightarrow> 'i TlcpHandshake \<Rightarrow> (TlcpError, 'i TlcpHandshake) res option" where
  "derive_master_secret sm3 h =
     (if hc_state h \<notin> {ServerCertsReceived, KeyExchange}
      then Some (Inl (InvalidState (''derive_master_secret requires ServerCertsReceived or KeyExchange state, got '' @
                                    debug_handshake_state (hc_state h))))
      else
        bindo (Some (ok_or (hc_pre_master_secret h) (HandshakeFailed ''No pre-master secret''))) (\<lambda>pms.
        bindo (Some (ok_or (hc_server_random h) (HandshakeFailed ''No server random''))) (\<lambda>sr.
        bindo (map_option (map_err (\<lambda>e. HandshakeFailed (display_tlcp_error e)))
                 (prf_expand sm3 pms (ascii ''master secret'') (hc_client_random h @ sr) 48)) (\<lambda>master.
          Some (Inr (h\<lparr>hc_pre_master_secret := None, hc_master_secret := Some master\<rparr>))))))"

definition client_is_established :: "'i TlcpHandshake \<Rightarrow> bool" where
  "client_is_established h \<longleftrightarrow> hc_state h = Established"

definition prepending_pms :: "bytes \<Rightarrow> 'i TlcpHandshake \<Rightarrow> 'i TlcpHandshake" where
  "prepending_pms pms h = h\<lparr>hc_pending_pms := Some pms\<rparr>"

definition client_to_resumed_session :: "nat \<Rightarrow> 'i TlcpHandshake \<Rightarrow> TlcpResumedSession option" where
  "client_to_resumed_session now h =
     (case (hc_master_secret h, hc_cipher_suite h, hc_server_random h) of
        (Some master, Some cs_id, Some sr) \<Rightarrow> Some (resumed_session_new now master cs_id sr (hc_client_random h))
      | _ \<Rightarrow> None)"

definition client_compute_finished :: "(bytes \<Rightarrow> bytes) \<Rightarrow> string \<Rightarrow> 'i TlcpHandshake \<Rightarrow> (TlcpError, TlcpFinished) res option" where
  "client_compute_finished sm3 label h =
     bindo (Some (ok_or (hc_master_secret h) (HandshakeFailed ''No master secret''))) (\<lambda>master.
       finished_compute sm3 master label (hc_transcript h))"

definition compute_client_finished :: "(bytes \<Rightarrow> bytes) \<Rightarrow> 'i TlcpHandshake \<Rightarrow> (TlcpError, TlcpFinished) res option" where
  "compute_client_finished sm3 h = client_compute_finished sm3 ''client finished'' h"

definition client_compute_server_finished :: "(bytes \<Rightarrow> bytes) \<Rightarrow> 'i TlcpHandshake \<Rightarrow> (TlcpError, TlcpFinished) res option" where
  "client_compute_server_finished sm3 h = client_compute_finished sm3 ''server finished'' h"

definition verify_server_finished :: "(bytes \<Rightarrow> bytes) \<Rightarrow> sm4_crates \<Rightarrow> TlcpFinished \<Rightarrow> 'i TlcpHandshake \<Rightarrow> (TlcpError, bool) res option" where
  "verify_server_finished sm3 P server_finished h =
     bindo (client_compute_server_finished sm3 h) (\<lambda>expected. Some (Inr (finished_verify P server_finished (verify_data expected))))"

definition derive_resumed_keys :: "(bytes \<Rightarrow> bytes) \<Rightarrow> 'i TlcpHandshake \<Rightarrow> (TlcpError, TlcpSessionKeys) res option" where
  "derive_resumed_keys sm3 h =
     bindo (Some (ok_or (hc_resumed_session h) (InvalidState ''No resumed session''))) (\<lambda>_.
     bindo (Some (ok_or (hc_cipher_suite h) (InvalidState ''No cipher suite''))) (\<lambda>cs_id.
     bindo (Some (ok_or (suite_from_id cs_id) (InvalidMessage ''Unknown cipher suite''))) (\<lambda>suite.
     bindo (Some (ok_or (hc_master_secret h) (InvalidState ''No master secret''))) (\<lambda>master.
     bindo (Some (ok_or (hc_server_random h) (InvalidState ''No server random''))) (\<lambda>sr.
     bindo (key_material_derive sm3 master (hc_client_random h) sr suite) (\<lambda>km. Some (to_session_keys km)))))))"

section \<open>Server\<close>

record TlcpServerHandshake =
  hs_state :: TlcpHandshakeState
  hs_cipher_suite :: "TlcpCipherSuite option"
  hs_server_random :: bytes
  hs_client_random :: "bytes option"
  hs_server_certs :: "TlcpCertPair option"
  hs_client_certs :: "bytes list"
  hs_pre_master_secret :: "bytes option"
  hs_master_secret :: "bytes option"
  hs_transcript :: bytes
  hs_session_id :: bytes
  hs_is_resumed :: bool
  hs_resumed_session :: "TlcpResumedSession option"
  hs_session_cache :: "TlcpSessionCache option"
  hs_pending_ibsdh_ske :: bool
  hs_sk_b :: "bytes option"

definition server_handshake :: "'r rng \<Rightarrow> u32 \<Rightarrow> TlcpSessionCache option \<Rightarrow> 'r \<Rightarrow> TlcpServerHandshake \<times> 'r" where
  "server_handshake fill gmt cache r =
     (let (tail, r) = fill r 28
      in (\<lparr>hs_state = Idle, hs_cipher_suite = None, hs_server_random = u32_to_be gmt @ tail, hs_client_random = None,
           hs_server_certs = None, hs_client_certs = [], hs_pre_master_secret = None, hs_master_secret = None,
           hs_transcript = [], hs_session_id = [], hs_is_resumed = False, hs_resumed_session = None,
           hs_session_cache = cache, hs_pending_ibsdh_ske = False, hs_sk_b = None\<rparr>, r))"

definition server_new :: "'r rng \<Rightarrow> u32 \<Rightarrow> 'r \<Rightarrow> TlcpServerHandshake \<times> 'r" where
  "server_new fill gmt = server_handshake fill gmt None"

definition with_session_cache :: "'r rng \<Rightarrow> u32 \<Rightarrow> TlcpSessionCache \<Rightarrow> 'r \<Rightarrow> TlcpServerHandshake \<times> 'r" where
  "with_session_cache fill gmt cache = server_handshake fill gmt (Some cache)"

text \<open>The suite is the first offered one that is known.\<close>

fun find_suite :: "bytes list \<Rightarrow> TlcpCipherSuite option" where
  "find_suite [] = None"
| "find_suite (cs_id # rest) = (case suite_from_id cs_id of Some s \<Rightarrow> Some s | None \<Rightarrow> find_suite rest)"

definition select_suite :: "TlcpClientHello \<Rightarrow> TlcpServerHandshake \<Rightarrow> (TlcpError, unit) res \<times> TlcpServerHandshake" where
  "select_suite hello h =
     (case find_suite (ch_cipher_suites hello) of
        None \<Rightarrow> (Inl (HandshakeFailed ''No supported cipher suite''), h)
      | Some suite \<Rightarrow>
          (Inr (), h\<lparr>hs_cipher_suite := Some suite, hs_state := HelloSent,
                     hs_transcript := hs_transcript h @ client_hello_to_bytes hello\<rparr>))"

definition resume_session :: "TlcpClientHello \<Rightarrow> TlcpResumedSession \<Rightarrow> TlcpServerHandshake \<Rightarrow> (TlcpError, unit) res \<times> TlcpServerHandshake" where
  "resume_session hello session h =
     (let h = h\<lparr>hs_is_resumed := True, hs_session_id := ch_session_id hello, hs_resumed_session := Some session\<rparr>
      in case suite_from_id (rs_cipher_suite session) of
           None \<Rightarrow> (Inl (HandshakeFailed ''cached session has unsupported cipher suite''), h)
         | Some suite \<Rightarrow>
             (Inr (), h\<lparr>hs_cipher_suite := Some suite, hs_state := HelloSent,
                        hs_transcript := hs_transcript h @ client_hello_to_bytes hello\<rparr>))"

text \<open>Looking a session up may remove it from the cache when it has expired.\<close>

definition lookup_session :: "nat \<Rightarrow> bytes \<Rightarrow> TlcpServerHandshake \<Rightarrow> TlcpResumedSession option \<times> TlcpServerHandshake" where
  "lookup_session now session_id h =
     (case hs_session_cache h of
        None \<Rightarrow> (None, h)
      | Some cache \<Rightarrow> let (found, cache) = cache_get now session_id cache in (found, h\<lparr>hs_session_cache := Some cache\<rparr>))"

definition process_client_hello ::
  "'r rng \<Rightarrow> nat \<Rightarrow> TlcpClientHello \<Rightarrow> TlcpServerHandshake \<times> 'r \<Rightarrow> (TlcpError, unit) res \<times> TlcpServerHandshake \<times> 'r" where
  "process_client_hello fill now hello hr =
     (let (h, r) = hr
      in if hs_state h \<noteq> Idle then (Inl (InvalidState (''Expected Idle state, got '' @ debug_handshake_state (hs_state h))), h, r)
         else if ch_version hello \<noteq> TLCP_VERSION_1_0
         then (Inl (InvalidMessage (''Unsupported TLCP version: '' @ show_bytes_lower (ch_version hello))), h, r)
         else
           let h = h\<lparr>hs_client_random := Some (ch_random hello)\<rparr>;
               (found, h) = (if ch_session_id hello \<noteq> [] then lookup_session now (ch_session_id hello) h else (None, h))
           in case found of
                Some session \<Rightarrow>
                  if rs_cipher_suite session \<in> set (ch_cipher_suites hello)
                  then let (res, h) = resume_session hello session h in (res, h, r)
                  else let (sid, r) = generate_session_id fill r;
                           (res, h) = select_suite hello (h\<lparr>hs_session_id := sid\<rparr>) in (res, h, r)
              | None \<Rightarrow>
                  let (sid, r) = generate_session_id fill r;
                      (res, h) = select_suite hello (h\<lparr>hs_session_id := sid\<rparr>) in (res, h, r))"

definition create_server_hello :: "TlcpServerHandshake \<Rightarrow> (TlcpError, TlcpServerHello) res" where
  "create_server_hello h =
     (if hs_state h \<noteq> HelloSent then Inl (InvalidState ''Not in HelloSent state'')
      else bind_res (ok_or (hs_cipher_suite h) (HandshakeFailed ''No cipher suite selected'')) (\<lambda>suite.
        Inr \<lparr>sh_version = TLCP_VERSION_1_0, sh_random = hs_server_random h, sh_session_id = hs_session_id h,
             sh_cipher_suite = suite_id suite, sh_compression_method = 0x00\<rparr>))"

definition set_server_certs :: "TlcpCertPair \<Rightarrow> TlcpServerHandshake \<Rightarrow> TlcpServerHandshake" where
  "set_server_certs certs h = h\<lparr>hs_server_certs := Some certs\<rparr>"

definition set_client_certs :: "bytes list \<Rightarrow> TlcpServerHandshake \<Rightarrow> TlcpServerHandshake" where
  "set_client_certs chain h = h\<lparr>hs_client_certs := chain\<rparr>"

definition complete_key_exchange :: "(bytes \<Rightarrow> bytes) \<Rightarrow> bytes \<Rightarrow> TlcpServerHandshake \<Rightarrow> (TlcpError, TlcpServerHandshake) res option" where
  "complete_key_exchange sm3 pms h =
     (if hs_state h \<notin> {HelloSent, KeyExchange}
      then Some (Inl (InvalidState (''complete_key_exchange requires HelloSent or KeyExchange state, got '' @
                                    debug_handshake_state (hs_state h))))
      else
        bindo (Some (ok_or (hs_client_random h) (HandshakeFailed ''No client random''))) (\<lambda>cr.
        bindo (map_option (map_err (\<lambda>e. HandshakeFailed (display_tlcp_error e)))
                 (prf_expand sm3 pms (ascii ''master secret'') (cr @ hs_server_random h) 48)) (\<lambda>master.
          Some (Inr (h\<lparr>hs_pre_master_secret := None, hs_master_secret := Some master, hs_state := KeyExchange\<rparr>)))))"

definition derive_key_material :: "(bytes \<Rightarrow> bytes) \<Rightarrow> TlcpServerHandshake \<Rightarrow> (TlcpError, TlcpKeyMaterial) res option" where
  "derive_key_material sm3 h =
     bindo (Some (ok_or (hs_master_secret h) (HandshakeFailed ''No master secret''))) (\<lambda>master.
     bindo (Some (ok_or (hs_client_random h) (HandshakeFailed ''No client random''))) (\<lambda>cr.
     bindo (Some (ok_or (hs_cipher_suite h) (HandshakeFailed ''No cipher suite''))) (\<lambda>suite.
       key_material_derive sm3 master cr (hs_server_random h) suite)))"

definition compute_server_finished :: "(bytes \<Rightarrow> bytes) \<Rightarrow> TlcpServerHandshake \<Rightarrow> (TlcpError, TlcpFinished) res option" where
  "compute_server_finished sm3 h =
     bindo (Some (ok_or (hs_master_secret h) (HandshakeFailed ''No master secret''))) (\<lambda>master.
       finished_compute sm3 master ''server finished'' (hs_transcript h))"

definition verify_client_finished :: "(bytes \<Rightarrow> bytes) \<Rightarrow> sm4_crates \<Rightarrow> TlcpFinished \<Rightarrow> TlcpServerHandshake \<Rightarrow> (TlcpError, bool) res option" where
  "verify_client_finished sm3 P client_finished h =
     bindo (Some (ok_or (hs_master_secret h) (HandshakeFailed ''No master secret''))) (\<lambda>master.
     bindo (finished_compute sm3 master ''client finished'' (hs_transcript h)) (\<lambda>expected.
       Some (Inr (finished_verify P client_finished (verify_data expected)))))"

definition establish :: "TlcpServerHandshake \<Rightarrow> TlcpServerHandshake" where
  "establish h = h\<lparr>hs_state := Established\<rparr>"

definition server_is_established :: "TlcpServerHandshake \<Rightarrow> bool" where
  "server_is_established h \<longleftrightarrow> hs_state h = Established"

definition server_to_resumed_session :: "nat \<Rightarrow> TlcpServerHandshake \<Rightarrow> TlcpResumedSession option" where
  "server_to_resumed_session now h =
     (case (hs_master_secret h, hs_cipher_suite h, hs_client_random h) of
        (Some master, Some suite, Some cr) \<Rightarrow> Some (resumed_session_new now master (suite_id suite) (hs_server_random h) cr)
      | _ \<Rightarrow> None)"

definition save_session :: "nat \<Rightarrow> TlcpServerHandshake \<Rightarrow> TlcpServerHandshake" where
  "save_session now h =
     (case hs_session_cache h of
        None \<Rightarrow> h
      | Some cache \<Rightarrow>
          if hs_session_id h = [] then h
          else
            case (hs_master_secret h, hs_cipher_suite h, hs_client_random h) of
              (Some master, Some suite, Some cr) \<Rightarrow>
                h\<lparr>hs_session_cache := Some (cache_put now (hs_session_id h) (resumed_session_new now master (suite_id suite) (hs_server_random h) cr) cache)\<rparr>
            | _ \<Rightarrow> h)"

definition cache_session :: "nat \<Rightarrow> TlcpServerHandshake \<Rightarrow> TlcpServerHandshake" where
  "cache_session now h =
     (case hs_session_cache h of
        None \<Rightarrow> h
      | Some cache \<Rightarrow>
          if hs_session_id h = [] then h
          else
            case server_to_resumed_session now h of
              Some session \<Rightarrow> h\<lparr>hs_session_cache := Some (cache_put now (hs_session_id h) session cache)\<rparr>
            | None \<Rightarrow> h)"

section \<open>Streams from completed handshakes\<close>

definition from_client_handshake_with_transport ::
  "(bytes \<Rightarrow> bytes) \<Rightarrow> nat \<Rightarrow> 'i TlcpHandshake \<Rightarrow> 's \<Rightarrow> 'r \<Rightarrow> (TlcpError, ('s, 'r) TlcpStream) res option" where
  "from_client_handshake_with_transport sm3 now h transport r =
     bindo (Some (ok_or (hc_cipher_suite h) (InvalidMessage ''cipher suite not negotiated''))) (\<lambda>cs_id.
     bindo (Some (ok_or (suite_from_id cs_id) (InvalidMessage (''unknown cipher suite '' @ show_bytes_lower cs_id)))) (\<lambda>suite.
     bindo (Some (ok_or (hc_master_secret h) (HandshakeFailed ''master secret not derived''))) (\<lambda>master.
     bindo (Some (ok_or (hc_server_random h) (HandshakeFailed ''server random not received''))) (\<lambda>sr.
     bindo (key_material_derive sm3 master (hc_client_random h) sr suite) (\<lambda>km.
       Some (Inr ((tlcp_stream_new transport km suite True (hc_session_id h) r)
         \<lparr>ts_cached_resumed_session := client_to_resumed_session now h, ts_peer_server_certs_cache := hc_server_certs h\<rparr>)))))))"

definition from_server_handshake_with_transport ::
  "(bytes \<Rightarrow> bytes) \<Rightarrow> nat \<Rightarrow> TlcpServerHandshake \<Rightarrow> 's \<Rightarrow> 'r \<Rightarrow> (TlcpError, ('s, 'r) TlcpStream) res option" where
  "from_server_handshake_with_transport sm3 now h transport r =
     bindo (Some (ok_or (hs_cipher_suite h) (InvalidMessage ''cipher suite not negotiated''))) (\<lambda>suite.
     bindo (Some (ok_or (hs_master_secret h) (HandshakeFailed ''master secret not derived''))) (\<lambda>master.
     bindo (Some (ok_or (hs_client_random h) (HandshakeFailed ''client random not received''))) (\<lambda>cr.
     bindo (key_material_derive sm3 master cr (hs_server_random h) suite) (\<lambda>km.
       Some (Inr ((tlcp_stream_new transport km suite False (hs_session_id h) r)
         \<lparr>ts_cached_resumed_session := server_to_resumed_session now h, ts_peer_client_certs_cache := hs_client_certs h\<rparr>))))))"

end
