(* ===== verification/Spec2Isabelle.thy ===== *)
theory Spec2Isabelle
  imports Gm_Prelude Gm_Rng Gm_Der Sm9_Z256 Sm9_Reduce Sm9_Rings Sm9_Mont Sm9_Fp Sm9_Tower Sm9_Curve Sm9_Group Sm9_Hash Sm9_Pairing Sm9_Key Sm9_Sign Sm9_Encrypt Sm9_Kex Sm9_Rotation
    Gm_Crypto Gm_Sm2 Gm_Transport Tls_Kdf Tls_Record Tls_Channel Tls_Framing Tls_Ticket
    Tlcp_Base Tlcp_Keys Tlcp_Session Tlcp_Messages Tlcp_Record Tlcp_Handshake
begin

text \<open>
  Verification of the GM cryptographic suite: a Rust workspace with the Chinese national algorithms SM2,
  SM3, SM4 and SM9 and two secure-channel protocols on top of them.

  \<^bold>\<open>The program.\<close> \<open>gm-der\<close> encodes and parses DER. \<open>gm-crypto\<close> wraps SM2, SM3 and SM4: public key
  operations, HMAC, block cipher modes. \<open>gm-sm9-rs\<close> implements the identity-based SM9 from the limbs
  up: 256-bit integers, the field tower, two curve groups, the R-ate pairing, keys, signatures,
  encryption, key exchange and rotation of master keys. \<open>gm-tls\<close> is a TLS 1.3 style channel: key
  derivation, an encrypted stream with key updates over an asynchronous transport, session tickets.
  \<open>gm-tlcp\<close> is the channel of GB/T 38636: handshake messages and contexts, key derivation, an
  encrypted stream with GCM and CBC suites, a session cache. The protocols use \<open>gm-crypto\<close>, SM9 and SM2
  use \<open>gm-der\<close>. \<open>gm-ca\<close> and \<open>gm-http-client\<close> are services around them.

  \<^bold>\<open>Conventions.\<close> Machine integers are words of their width; \<open>usize\<close> is a natural number where the code
  cannot overflow it. A struct is a record, an enum a datatype, \<open>Result\<close> the sum type \<open>('e, 'a) res\<close> with
  the error on the left, and error messages are kept as strings. \<open>None\<close> around a result is a panic or a
  loop that does not end. A call that changes a generator, a stream or a transport is a function on that
  state (\<open>('r, 'e, 'a) io\<close>, with \<open>io_bind\<close> for the \<open>?\<close> operator). Clock readings are arguments. Code of
  other crates is a parameter with its documented laws as hypotheses: SM3 (32 bytes), the SM4 block
  cipher, counter mode, GHASH and slice comparison (\<open>sm4_crates\<close>), the SM2 curve and its signatures
  (\<open>sm2_crate\<close>), the \<open>subtle\<close> crate, random generators, serialisers, databases, and the transport.

  \<^bold>\<open>Theories.\<close>
  \<^item> \<open>Gm_Prelude\<close>, \<open>Gm_Rng\<close>, \<open>Gm_Transport\<close>: results, bytes and big-endian conversion with the locale
    \<open>prefix_codec\<close> of encodings read back in front of anything; randomised computations; the transport
    with the laws of a reliable one, record nonces, and rules for invariants of computations.
  \<^item> \<open>Gm_Der\<close> (\<open>gm-der\<close>): every encoder and parser; the length field is a prefix code below $2^{32}$.
  \<^item> \<open>Gm_Crypto\<close> (\<open>gm-crypto/src/sm3.rs\<close>, \<open>sm4.rs\<close>, \<open>error.rs\<close>): HMAC is the standard one, decryption
    inverts encryption in every mode.
  \<^item> \<open>Gm_Sm2\<close> (\<open>gm-crypto/src/sm2.rs\<close>): keys, signer and verifier, encryption in four formats, conversion
    to DER, Diffie-Hellman.
  \<^item> \<open>Sm9_Z256\<close>, \<open>Sm9_Reduce\<close> (\<open>arith/z256.rs\<close>): limb arithmetic is exact integer arithmetic, both
    reductions give the remainder. \<open>Sm9_Mont\<close>, \<open>Sm9_Fp\<close> (\<open>arith/fp.rs\<close>) and \<open>Sm9_Tower\<close> (\<open>fp2.rs\<close>,
    \<open>fp4.rs\<close>, \<open>fp12.rs\<close>): each module refines the ring of its level, built in \<open>Sm9_Rings\<close>, through the
    locale \<open>field_element\<close>, the contract of the trait \<open>FieldElement\<close>.
  \<^item> \<open>Sm9_Curve\<close>, \<open>Sm9_Group\<close> (\<open>pairing/curve\<close>, \<open>params.rs\<close>): the Jacobian formulas compute the
    chord-and-tangent law and stay on the curve, the branch-free versions agree.
    \<open>Sm9_Hash\<close> (\<open>pairing/hash.rs\<close>): the reduction to a scalar is exact. \<open>Sm9_Pairing\<close> (\<open>pairing/ate.rs\<close>):
    line functions, Miller loop, the final exponentiation is the power $(p^{12} - 1) / N$.
  \<^item> \<open>Sm9_Key\<close>, \<open>Sm9_Sign\<close>, \<open>Sm9_Encrypt\<close>, \<open>Sm9_Kex\<close>, \<open>Sm9_Rotation\<close> (\<open>key/mod.rs\<close>, \<open>sign.rs\<close>,
    \<open>encrypt.rs\<close>, \<open>key_exchange.rs\<close>, \<open>key_rotation.rs\<close>): extraction of keys, signatures that verify,
    decryption of what was encrypted, agreement of confirmed keys, the invariant of the key tables.
  \<^item> \<open>Tls_Kdf\<close> (\<open>gm-tls/src/error.rs\<close>, \<open>kdf.rs\<close>, \<open>key_update.rs\<close>): HKDF is that of RFC 5869.
    \<open>Tls_Record\<close>, \<open>Tls_Channel\<close>, \<open>Tls_Framing\<close> (\<open>record_layer.rs\<close>): the stream with every operation;
    its invariant on every reachable state, no nonce twice, what is written is read across key
    updates, framing under any fragmentation. \<open>Tls_Ticket\<close> (\<open>session_ticket.rs\<close>, \<open>session_store.rs\<close>,
    \<open>serialization.rs\<close>): tickets work once, over the locale of the replay store's contract.
  \<^item> \<open>Tlcp_Base\<close>, \<open>Tlcp_Keys\<close>, \<open>Tlcp_Session\<close>, \<open>Tlcp_Messages\<close>, \<open>Tlcp_Record\<close>, \<open>Tlcp_Handshake\<close>
    (\<open>gm-tlcp\<close>): code points, the PRF of RFC 5246 and the Finished message, the session cache with the
    locale \<open>resumption_cache\<close>, all handshake messages read back, the stream in GCM and CBC mode, the
    contexts of client and server.

  \<^bold>\<open>Locales.\<close> Every locale is interpreted on the definitions of the model in the theory of the component
  that provides it, and the properties use the facts of these interpretations.

  \<^bold>\<open>Bounds and termination.\<close> No loop has fuel. Loops over limbs, digits, blocks and buffers are recursive
  functions with termination proofs; loops whose end depends on the modulus, the generator or the hash
  function are partial functions in the option type, and the properties state when they return:
  rejection sampling as soon as a draw is not a multiple of the order, the key derivations and the PRF
  for every length they accept. The retries of SM9 signing and encapsulation are bounded by
  the constants of the code. Sequence numbers are 64-bit words and the limits of the code are hypotheses.

  \<^bold>\<open>Not modelled.\<close> Certificates: parsing, chains, CRLs, host names and RSA (\<open>gm-crypto/src/x509\<close>,
  \<open>gm-tls/src/cert_verify.rs\<close>, \<open>gm-tlcp/src/tlcp/crypto\<close>, \<open>rsa_helpers.rs\<close>, \<open>cv_helper.rs\<close>) are calls
  of X.509 crates whose results the code passes on; so are the driver functions that run a handshake over
  the network up to the key exchange (\<open>gm-tls/src/handshake.rs\<close>, \<open>connect_with_certs\<close> and
  \<open>accept_with_certs\<close> of \<open>gm-tlcp/src/tlcp/mod.rs\<close>), which consult them at every step. Services and
  output: \<open>gm-ca\<close>, \<open>gm-http-client\<close>, audit log, metrics, gRPC. Bindings to C (\<open>ffi.rs\<close>,
  \<open>gmssl_backend.rs\<close>). Known-answer tests, which need the real SM3 and SM4. PEM, hexadecimal and Base64,
  which other crates implement. Clearing of memory and constant running time, which are not functions of
  the results. Locks: an operation on a shared cache is one step.
\<close>

end
